(* ===== verification/Dnp_Prelude.thy ===== *)
theory Dnp_Prelude
  imports Main "HOL-Library.Word"
begin

text \<open>
  Shared vocabulary of the development: the machine types of the Go source, the
  little-endian accessors of \<^verbatim>\<open>encoding/binary\<close> that every layer uses, and the generic
  lemmas on words, slices and folds that the component theories rely on. Two collections
  of facts are fed by the components: \<open>wire_simps\<close> (what an encoder writes and how long
  it is) and \<open>inv_intros\<close> (preservation of component invariants).
\<close>

unbundle bit_operations_syntax

type_synonym byte = "8 word"
type_synonym u16 = "16 word"
type_synonym u32 = "32 word"
type_synonym u64 = "64 word"

named_theorems wire_simps
named_theorems inv_intros

text \<open>Offsets are kept as sums: two octets after an offset is \<open>n + 2\<close>, not two successors.\<close>

declare add_2_eq_Suc [simp del] add_2_eq_Suc' [simp del]

section \<open>Go slices\<close>

text \<open>
  \<open>subslice xs lo hi\<close> is the Go expression \<^verbatim>\<open>xs[lo:hi]\<close> for \<open>lo \<le> hi \<le> len xs\<close>; every use
  in the model is behind the length check that makes the bounds hold in the source.
\<close>

definition subslice :: "'a list \<Rightarrow> nat \<Rightarrow> nat \<Rightarrow> 'a list" where
  "subslice xs lo hi = drop lo (take hi xs)"

lemma length_subslice [simp]: "length (subslice xs lo hi) = min hi (length xs) - lo"
  by (simp add: subslice_def)

lemma subslice_append_left [simp]: "hi \<le> length xs \<Longrightarrow> subslice (xs @ ys) lo hi = subslice xs lo hi"
  by (simp add: subslice_def)

lemma subslice_0_length [simp]: "subslice xs 0 (length xs) = xs"
  by (simp add: subslice_def)

lemma subslice_empty [simp]: "hi \<le> lo \<Longrightarrow> subslice xs lo hi = []"
  by (simp add: subslice_def)

lemma subslice_plus: "subslice xs n (n + m) = take m (drop n xs)"
  by (simp add: subslice_def drop_take)

lemma split_slices: "xs = take n xs @ subslice xs n (n + m) @ drop (n + m) xs"
  by (metis append_take_drop_id drop_drop add.commute subslice_plus)

lemma take_min_length [simp]:
  "take (min (length xs) n) xs = take n xs" "take (min n (length xs)) xs = take n xs"
  by (simp_all add: min_def)

section \<open>Little-endian integers\<close>

text \<open>
  \<^verbatim>\<open>binary.LittleEndian\<close>: the \<open>PutUint\<close>/\<open>AppendUint\<close> forms give the octets in
  transmission order, the \<open>Uint\<close> forms read them back from the front of a slice. In Go a
  read from a slice that is too short panics; the readers are only applied behind a length
  check.
\<close>

definition put16 :: "u16 \<Rightarrow> byte list" where
  "put16 v = [ucast v, ucast (drop_bit 8 v)]"

definition get16 :: "byte list \<Rightarrow> u16" where
  "get16 b = ucast (b ! 0) OR push_bit 8 (ucast (b ! 1))"

definition put32 :: "u32 \<Rightarrow> byte list" where
  "put32 v = [ucast v, ucast (drop_bit 8 v), ucast (drop_bit 16 v), ucast (drop_bit 24 v)]"

definition get32 :: "byte list \<Rightarrow> u32" where
  "get32 b = ucast (b ! 0) OR push_bit 8 (ucast (b ! 1)) OR push_bit 16 (ucast (b ! 2))
     OR push_bit 24 (ucast (b ! 3))"

lemma length_put16 [simp, wire_simps]: "length (put16 v) = 2"
  by (simp add: put16_def)

lemma length_put32 [simp, wire_simps]: "length (put32 v) = 4"
  by (simp add: put32_def)

lemma get16_put16 [simp]: "get16 (put16 v @ xs) = v"
  by (rule bit_word_eqI) (auto simp: get16_def put16_def bit_simps)

lemma get16_put16_Nil [simp]: "get16 (put16 v) = v"
  using get16_put16 [of v "[]"] by simp

lemma byte_bit_ge_8 [simp]: "8 \<le> n \<Longrightarrow> \<not> bit (b :: byte) n"
  by (auto dest: bit_imp_le_length)

lemma byte_bit_lt_8: "bit (b :: byte) n \<Longrightarrow> n < 8"
  by (auto dest: bit_imp_le_length)

lemma put16_get16: "put16 (get16 [a, b]) = [a, b]"
  by (auto simp: get16_def put16_def bit_simps intro!: bit_word_eqI)

lemma get32_put32 [simp]: "get32 (put32 v @ xs) = v"
proof (rule bit_word_eqI)
  fix n assume "n < LENGTH(32)"
  then consider "n < 8" | "8 \<le> n" "n < 16" | "16 \<le> n" "n < 24" | "24 \<le> n" "n < 32"
    by fastforce
  then show "bit (get32 (put32 v @ xs)) n = bit v n"
    by cases (auto simp: get32_def put32_def bit_simps)
qed

lemma get32_put32_Nil [simp]: "get32 (put32 v) = v"
  using get32_put32 [of v "[]"] by simp

lemma put32_get32: "put32 (get32 [a, b, c, d]) = [a, b, c, d]"
  by (auto simp: get32_def put32_def bit_simps intro!: bit_word_eqI)

lemma put16_get16_slice: "length xs = 2 \<Longrightarrow> put16 (get16 xs) = xs"
  by (cases xs rule: list.exhaust [case_product list.exhaust])
    (auto simp: put16_get16 length_Suc_conv numeral_2_eq_2)

lemma put32_get32_slice: "length xs = 4 \<Longrightarrow> put32 (get32 xs) = xs"
  by (auto simp: put32_get32 length_Suc_conv eval_nat_numeral)

section \<open>Words\<close>

lemma word_and_1_eq_0 [simp]: "w AND 1 = 0 \<longleftrightarrow> even (w :: 'a::len word)"
  by (simp add: and_one_eq mod_2_eq_odd)

lemma word_xor_odd [simp]: "odd (x XOR y) \<longleftrightarrow> odd (x :: 'a::len word) \<noteq> odd y"
  by (simp add: bit_xor_iff flip: bit_0)

lemma word_xor_eq_0_iff: "x XOR y = 0 \<longleftrightarrow> x = (y :: 'a::len word)"
  by (metis xor.assoc xor.right_neutral xor_self_eq)

lemma word_xor_cancel_right: "x XOR z = y XOR z \<longleftrightarrow> x = (y :: 'a::len word)"
  by (metis xor.assoc xor.right_neutral xor_self_eq)

text \<open>A mask with one bit set tests that bit; octets are equal when their eight bits are.\<close>

lemma byte_mask_bit:
  "(b :: byte) AND 0x80 = 0 \<longleftrightarrow> \<not> bit b 7" "b AND 0x40 = 0 \<longleftrightarrow> \<not> bit b 6"
  "b AND 0x20 = 0 \<longleftrightarrow> \<not> bit b 5" "b AND 0x10 = 0 \<longleftrightarrow> \<not> bit b 4"
  using and_exp_eq_0_iff_not_bit [of b 7] and_exp_eq_0_iff_not_bit [of b 6]
    and_exp_eq_0_iff_not_bit [of b 5] and_exp_eq_0_iff_not_bit [of b 4] by simp_all

lemma byte_eqI:
  fixes a b :: byte
  assumes "bit a 0 = bit b 0" "bit a 1 = bit b 1" "bit a 2 = bit b 2" "bit a 3 = bit b 3"
    "bit a 4 = bit b 4" "bit a 5 = bit b 5" "bit a 6 = bit b 6" "bit a 7 = bit b 7"
  shows "a = b"
proof (rule bit_word_eqI)
  fix n assume "n < LENGTH(8)"
  then have "n \<in> {0, 1, 2, 3, 4, 5, 6, 7}" by auto
  with assms show "bit a n = bit b n" by auto
qed

lemma ucast_byte_lt_256 [simp]: "unat (b :: byte) < 256"
  using unsigned_less [of b] by simp

section \<open>Stateful components\<close>

text \<open>
  A component is driven by a sequence of inputs; \<open>run_ops\<close> threads its state through them
  and collects what each call returned.
\<close>

fun run_ops :: "('i \<Rightarrow> 's \<Rightarrow> 's \<times> 'o) \<Rightarrow> 'i list \<Rightarrow> 's \<Rightarrow> 's \<times> 'o list" where
  "run_ops step [] s = (s, [])"
| "run_ops step (i # is) s =
     (case step i s of (s', r) \<Rightarrow> case run_ops step is s' of (s'', rs) \<Rightarrow> (s'', r # rs))"

lemma length_run_ops [simp]: "length (snd (run_ops step is s)) = length is"
  by (induction "is" arbitrary: s) (auto split: prod.splits, metis snd_conv)

lemma fst_run_ops_Cons: "fst (run_ops step (i # is) s) = fst (run_ops step is (fst (step i s)))"
  by (simp split: prod.splits)

lemma run_ops_append:
  "run_ops step (is @ js) s =
     (let (s', rs) = run_ops step is s; (s'', ts) = run_ops step js s' in (s'', rs @ ts))"
  by (induction "is" arbitrary: s) (auto simp: Let_def split: prod.splits)

text \<open>
  The contract of a component whose invariant may mention the inputs so far: every call
  keeps the invariant, and what it returns is good for that history. Then so is every
  result of every run.
\<close>

locale history_machine =
  fixes step :: "'i \<Rightarrow> 's \<Rightarrow> 's \<times> 'o"
    and inv :: "'i list \<Rightarrow> 's \<Rightarrow> bool"
    and good :: "'i list \<Rightarrow> 'o \<Rightarrow> bool"
  assumes step_inv: "inv h s \<Longrightarrow> inv (h @ [i]) (fst (step i s))"
    and step_good: "inv h s \<Longrightarrow> good (h @ [i]) (snd (step i s))"
begin

lemma run_inv: "inv h s \<Longrightarrow> inv (h @ is) (fst (run_ops step is s))"
proof (induction "is" arbitrary: h s)
  case (Cons i "is")
  show ?case using Cons.IH [OF step_inv [OF Cons.prems, of i]] by (auto split: prod.splits)
qed simp

lemma run_good:
  "inv h s \<Longrightarrow> n < length is \<Longrightarrow> good (h @ take (Suc n) is) (snd (run_ops step is s) ! n)"
proof (induction "is" arbitrary: h s n)
  case (Cons i "is")
  show ?case
  proof (cases n)
    case 0
    then show ?thesis using step_good [OF Cons.prems(1), of i] by (auto split: prod.splits)
  next
    case (Suc k)
    then show ?thesis
      using Cons.IH [OF step_inv [OF Cons.prems(1), of i], of k] Cons.prems(2)
      by (auto split: prod.splits)
  qed
qed simp

end

section \<open>Codecs\<close>

text \<open>
  The contract of a decoder that reads one item from the front of a buffer and reports how
  many octets it took, and of the encoder it belongs to. It is enough for the encoding to be
  uniquely decodable: no item's octets start another's, and a stream of items has one reading.
\<close>

locale prefix_codec =
  fixes enc :: "'a \<Rightarrow> byte list"
    and dec :: "byte list \<Rightarrow> 'e + 'a \<times> nat"
    and wf :: "'a \<Rightarrow> bool"
  assumes dec_enc: "wf x \<Longrightarrow> dec (enc x @ rest) = Inr (x, length (enc x))"
    and enc_nonempty: "wf x \<Longrightarrow> enc x \<noteq> []"
begin

lemma prefix_free: "wf x \<Longrightarrow> wf y \<Longrightarrow> enc x @ xs = enc y @ ys \<Longrightarrow> x = y \<and> xs = ys"
  using dec_enc [of x xs] dec_enc [of y ys] by auto

lemma enc_inj: "wf x \<Longrightarrow> wf y \<Longrightarrow> enc x = enc y \<Longrightarrow> x = y"
  using prefix_free [of x y "[]" "[]"] by simp

lemma stream_unique:
  "\<forall>x \<in> set xs. wf x \<Longrightarrow> \<forall>y \<in> set ys. wf y \<Longrightarrow> concat (map enc xs) = concat (map enc ys) \<Longrightarrow> xs = ys"
proof (induction xs arbitrary: ys)
  case Nil
  show ?case
  proof (cases ys)
    case (Cons y zs)
    with Nil enc_nonempty [of y] show ?thesis by simp
  qed simp
next
  case (Cons x xs)
  note x = Cons.prems and IH = Cons.IH
  show ?case
  proof (cases ys)
    case Nil
    with x enc_nonempty [of x] show ?thesis by simp
  next
    case (Cons y zs)
    with x have "x = y \<and> concat (map enc xs) = concat (map enc zs)" by (intro prefix_free) simp_all
    with x IH [of zs] Cons show ?thesis by simp
  qed
qed

end

end
