(* ===== verification/Link_CRC.thy ===== *)
theory Link_CRC
  imports Dnp_Prelude
begin

text \<open>
  The DNP3 checksum of \<^verbatim>\<open>internal/link/crc.go\<close>: the table-driven routine the link layer
  runs, the bitwise routine it is checked against, and the two helpers that verify and
  append a checksum. The lemmas show that the two routines agree on every input and that
  the checksum tells apart any two messages that differ only within two adjacent octets.
\<close>

section \<open>The two routines\<close>

definition crcRevPoly :: u16 where "crcRevPoly = 0xA6BC"

definition crcXorOut :: u16 where "crcXorOut = 0xFFFF"

text \<open>One turn of the inner loop: shift right, folding the polynomial in when a one falls out.\<close>

definition crc_bit :: "u16 \<Rightarrow> u16" where
  "crc_bit crc = (if crc AND 1 \<noteq> 0 then drop_bit 1 crc XOR crcRevPoly else drop_bit 1 crc)"

definition buildCRCTable :: "u16 list" where
  "buildCRCTable = map (\<lambda>i. (crc_bit ^^ 8) (of_nat i)) [0..<256]"

definition CRC :: "byte list \<Rightarrow> u16" where
  "CRC data =
     foldl (\<lambda>crc b. drop_bit 8 crc XOR buildCRCTable ! unat ((ucast crc :: byte) XOR b)) 0 data
     XOR crcXorOut"

definition crcBitwise :: "byte list \<Rightarrow> u16" where
  "crcBitwise data = foldl (\<lambda>crc b. (crc_bit ^^ 8) (crc XOR ucast b)) 0 data XOR crcXorOut"

definition CRCValid :: "byte list \<Rightarrow> byte list \<Rightarrow> bool" where
  "CRCValid data crc =
     (if length crc < 2 then False
      else let want = CRC data
           in crc ! 0 = ucast want \<and> crc ! 1 = ucast (drop_bit 8 want))"

definition appendCRC :: "byte list \<Rightarrow> byte list \<Rightarrow> byte list" where
  "appendCRC dst data = (let c = CRC data in dst @ [ucast c, ucast (drop_bit 8 c)])"

section \<open>The bit step is linear and loses nothing\<close>

lemma crc_bit_xor: "crc_bit (x XOR y) = crc_bit x XOR crc_bit y"
  by (simp add: crc_bit_def xor.assoc xor.left_commute xor.commute)

lemma crc_bits_xor: "(crc_bit ^^ n) (x XOR y) = (crc_bit ^^ n) x XOR (crc_bit ^^ n) y"
  by (induction n) (auto simp: crc_bit_xor)

lemma crc_bit_eq_0: "crc_bit z = 0 \<Longrightarrow> z = 0"
proof -
  assume *: "crc_bit z = 0"
  have "even z"
  proof (rule ccontr)
    assume "odd z"
    with * have "drop_bit 1 z = crcRevPoly"
      by (simp add: crc_bit_def word_xor_eq_0_iff)
    then have "bit (drop_bit 1 z) 15"
      by (simp add: crcRevPoly_def)
    then show False
      by (simp add: bit_simps) (auto dest: bit_imp_le_length)
  qed
  with * have "drop_bit 1 z = 0" by (simp add: crc_bit_def)
  moreover from \<open>even z\<close> have "take_bit 1 z = 0"
    by (simp add: take_bit_eq_mod even_iff_mod_2_eq_zero)
  ultimately show "z = 0"
    using bits_ident [of 1 z] by simp
qed

lemma crc_bits_inj: "(crc_bit ^^ n) x = (crc_bit ^^ n) y \<Longrightarrow> x = y"
proof (induction n)
  case (Suc n)
  from Suc.prems have "crc_bit ((crc_bit ^^ n) x XOR (crc_bit ^^ n) y) = 0"
    by (simp add: crc_bit_xor)
  then have "(crc_bit ^^ n) x = (crc_bit ^^ n) y"
    by (auto dest: crc_bit_eq_0 simp: word_xor_eq_0_iff)
  then show ?case by (rule Suc.IH)
qed simp

text \<open>While only zeros fall out, the step is a plain shift.\<close>

lemma crc_bits_shift: "take_bit n x = 0 \<Longrightarrow> (crc_bit ^^ n) x = drop_bit n x"
proof (induction n arbitrary: x)
  case (Suc n)
  then have "\<not> bit (take_bit (Suc n) x) 0" and eq: "take_bit n (drop_bit 1 x) = 0"
    by (simp_all add: take_bit_drop_bit)
  then have "even x" by (simp add: bit_take_bit_iff bit_0)
  then have "crc_bit x = drop_bit 1 x" by (simp add: crc_bit_def)
  then have "(crc_bit ^^ Suc n) x = (crc_bit ^^ n) (drop_bit 1 x)"
    by (simp only: funpow_Suc_right comp_apply)
  also have "\<dots> = drop_bit n (drop_bit 1 x)" using eq by (rule Suc.IH)
  finally show ?case by simp
qed simp

section \<open>Table-driven and bitwise agree\<close>

lemma crc_table_nth: "buildCRCTable ! unat (b :: byte) = (crc_bit ^^ 8) (ucast b)"
  by (simp add: buildCRCTable_def)

lemma u16_bit_ge_16: "bit (x :: u16) (8 + n) \<Longrightarrow> n < 8"
  using bit_imp_le_length [of x "8 + n"] by simp

lemma crc_octet: "(crc_bit ^^ 8) x = drop_bit 8 x XOR buildCRCTable ! unat (ucast x :: byte)"
proof -
  have "x = push_bit 8 (drop_bit 8 x) XOR ucast (ucast x :: byte)"
    by (rule bit_word_eqI) (auto simp: bit_simps)
  then have "(crc_bit ^^ 8) x =
      (crc_bit ^^ 8) (push_bit 8 (drop_bit 8 x)) XOR (crc_bit ^^ 8) (ucast (ucast x :: byte))"
    using crc_bits_xor by metis
  also have "(crc_bit ^^ 8) (push_bit 8 (drop_bit 8 x)) = drop_bit 8 x"
    by (subst crc_bits_shift)
      (auto intro!: bit_word_eqI simp: bit_simps dest: u16_bit_ge_16)
  finally show ?thesis by (simp add: crc_table_nth)
qed

lemma CRC_step: "drop_bit 8 crc XOR buildCRCTable ! unat ((ucast crc :: byte) XOR b)
    = (crc_bit ^^ 8) (crc XOR ucast b)"
proof -
  have "drop_bit 8 (crc XOR ucast b) = drop_bit 8 crc"
    and "(ucast (crc XOR ucast b) :: byte) = ucast crc XOR b"
    by (rule bit_word_eqI, auto simp: bit_simps)+
  then show ?thesis by (simp add: crc_octet [of "crc XOR ucast b"])
qed

lemma CRC_foldl: "CRC data = foldl (\<lambda>crc b. (crc_bit ^^ 8) (crc XOR ucast b)) 0 data XOR crcXorOut"
  by (simp add: CRC_def CRC_step)

text \<open>
  C13. The table-driven \<open>CRC\<close> computes, on every input, the value of the bitwise reference
  \<open>crcBitwise\<close>: the table is right and indexing it by the low octet is right.
\<close>

theorem CRC_eq_crcBitwise: "CRC data = crcBitwise data"
  by (simp add: CRC_foldl crcBitwise_def)

section \<open>Error detection\<close>

text \<open>The register after absorbing a message, from an arbitrary start value.\<close>

definition crc_run :: "u16 \<Rightarrow> byte list \<Rightarrow> u16" where
  "crc_run s data = foldl (\<lambda>crc b. (crc_bit ^^ 8) (crc XOR ucast b)) s data"

lemma crc_run_append: "crc_run s (xs @ ys) = crc_run (crc_run s xs) ys"
  by (simp add: crc_run_def)

lemma crc_run_inj_state: "crc_run s data = crc_run t data \<Longrightarrow> s = t"
proof (induction data arbitrary: s t)
  case (Cons b data)
  from Cons.prems have "crc_run ((crc_bit ^^ 8) (s XOR ucast b)) data
      = crc_run ((crc_bit ^^ 8) (t XOR ucast b)) data"
    by (simp add: crc_run_def)
  then have "(crc_bit ^^ 8) (s XOR ucast b) = (crc_bit ^^ 8) (t XOR ucast b)"
    by (rule Cons.IH)
  then have "s XOR ucast b = t XOR ucast b" by (rule crc_bits_inj)
  then show ?case by (simp only: word_xor_cancel_right)
qed (simp add: crc_run_def)

text \<open>Two octets are absorbed as one 16-bit word: the register mixes injectively with it.\<close>

lemma crc_run_pair: "crc_run s [x, y] = (crc_bit ^^ 16) (s XOR get16 [x, y])"
proof -
  have shift: "(crc_bit ^^ 8) (push_bit 8 (ucast y)) = (ucast y :: u16)"
    by (subst crc_bits_shift)
      (auto intro!: bit_word_eqI simp: bit_simps dest: byte_bit_lt_8)
  have "get16 [x, y] = ucast x XOR push_bit 8 (ucast y)"
    by (rule bit_word_eqI) (auto simp: get16_def bit_simps)
  then have "(crc_bit ^^ 16) (s XOR get16 [x, y])
      = (crc_bit ^^ 8) ((crc_bit ^^ 8) ((s XOR ucast x) XOR push_bit 8 (ucast y)))"
    by (simp add: xor.assoc flip: funpow_add [THEN fun_cong, unfolded comp_apply])
  also have "\<dots> = (crc_bit ^^ 8) ((crc_bit ^^ 8) (s XOR ucast x) XOR ucast y)"
    by (simp only: crc_bits_xor [of 8 "s XOR ucast x"] shift)
  finally show ?thesis by (simp add: crc_run_def)
qed

text \<open>
  C21. The checksum detects every corruption confined to two adjacent octets: two messages
  that agree outside one pair of neighbouring octets and have the same checksum are equal.
\<close>

theorem CRC_detects_burst:
  assumes "[a, b] \<noteq> [c, d]"
  shows "CRC (xs @ [a, b] @ ys) \<noteq> CRC (xs @ [c, d] @ ys)"
proof
  let ?s = "crc_run 0 xs"
  assume "CRC (xs @ [a, b] @ ys) = CRC (xs @ [c, d] @ ys)"
  then have "crc_run 0 (xs @ [a, b] @ ys) = crc_run 0 (xs @ [c, d] @ ys)"
    by (simp only: CRC_foldl crc_run_def word_xor_cancel_right)
  then have "crc_run (crc_run ?s [a, b]) ys = crc_run (crc_run ?s [c, d]) ys"
    by (simp only: crc_run_append)
  then have "crc_run ?s [a, b] = crc_run ?s [c, d]" by (rule crc_run_inj_state)
  then have "?s XOR get16 [a, b] = ?s XOR get16 [c, d]"
    unfolding crc_run_pair by (rule crc_bits_inj)
  then have "get16 [a, b] = get16 [c, d]"
    by (simp only: xor.commute [of ?s] word_xor_cancel_right)
  with assms show False using put16_get16 by metis
qed

theorem CRC_detects_burst_witness:
  "[2, 3] \<noteq> [2, 5 :: byte] \<and> CRC ([1] @ [2, 3] @ [4]) \<noteq> CRC ([1] @ [2, 5] @ [4])"
  using CRC_detects_burst [of 2 3 2 5 "[1]" "[4]"] by simp

section \<open>Verifying and appending\<close>

lemma CRCValid_put16: "CRCValid data (put16 (CRC data) @ xs)"
  by (simp add: CRCValid_def put16_def)

lemma appendCRC_put16 [wire_simps]: "appendCRC dst data = dst @ put16 (CRC data)"
  by (simp add: appendCRC_def put16_def Let_def)

lemma CRCValid_iff: "CRCValid data crc \<longleftrightarrow> 2 \<le> length crc \<and> take 2 crc = put16 (CRC data)"
  by (auto simp: CRCValid_def put16_def Let_def not_less numeral_2_eq_2 Suc_le_length_iff)

text \<open>Evaluating a checksum on concrete octets, and the published check value of CRC-16/DNP
  (the octets of \<^verbatim>\<open>"123456789"\<close>).\<close>

lemma funpow_8: "(f ^^ 8) x = f (f (f (f (f (f (f (f x)))))))"
  by (simp add: eval_nat_numeral)

lemmas crc_unroll = CRC_foldl foldl.simps funpow_8 crcXorOut_def
lemmas crc_eval = crc_bit_def crcRevPoly_def

lemma CRC_check_value: "CRC [0x31, 0x32, 0x33, 0x34, 0x35, 0x36, 0x37, 0x38, 0x39] = 0xEA82"
  by (simp only: crc_unroll) (simp add: crc_eval)

end
