(* ===== verification/Link_Frame.thy ===== *)
theory Link_Frame
  imports Link_CRC
begin

text \<open>
  Link frames, after \<^verbatim>\<open>internal/link/frame.go\<close>: the control octet, the frame header, and the
  encoder and decoder with their CRC-protected blocks. The lemmas show that encoding and
  decoding are inverse in both directions: decoding an encoded frame returns it whatever
  follows it in the buffer, and a buffer the decoder accepts starts with exactly the octets
  the encoder would have produced for the frame it returned.
\<close>

section \<open>Constants and addresses\<close>

abbreviation (input) StartByte0 :: byte where "StartByte0 \<equiv> 0x05"
abbreviation (input) StartByte1 :: byte where "StartByte1 \<equiv> 0x64"
abbreviation (input) HeaderSize :: nat where "HeaderSize \<equiv> 10"
abbreviation (input) BlockSize :: nat where "BlockSize \<equiv> 16"
abbreviation (input) CRCSize :: nat where "CRCSize \<equiv> 2"
abbreviation (input) MinLength :: nat where "MinLength \<equiv> 5"
abbreviation (input) MaxPayload :: nat where "MaxPayload \<equiv> 250"
abbreviation (input) MaxFrameSize :: nat where "MaxFrameSize \<equiv> 292"

abbreviation (input) BroadcastOptionalConfirm :: u16 where "BroadcastOptionalConfirm \<equiv> 0xFFFF"
abbreviation (input) BroadcastMandatoryConfirm :: u16 where "BroadcastMandatoryConfirm \<equiv> 0xFFFE"
abbreviation (input) BroadcastNoConfirm :: u16 where "BroadcastNoConfirm \<equiv> 0xFFFD"
abbreviation (input) SelfAddress :: u16 where "SelfAddress \<equiv> 0xFFFC"
abbreviation (input) reservedLow :: u16 where "reservedLow \<equiv> 0xFFF0"
abbreviation (input) reservedHigh :: u16 where "reservedHigh \<equiv> 0xFFFB"

definition IsBroadcast :: "u16 \<Rightarrow> bool" where
  "IsBroadcast addr \<longleftrightarrow> addr \<ge> BroadcastNoConfirm \<and> addr \<le> BroadcastOptionalConfirm"

definition IsReserved :: "u16 \<Rightarrow> bool" where
  "IsReserved addr \<longleftrightarrow> addr \<ge> reservedLow \<and> addr \<le> reservedHigh"

definition IsValidSource :: "u16 \<Rightarrow> bool" where
  "IsValidSource addr \<longleftrightarrow> \<not> IsReserved addr \<and> \<not> IsBroadcast addr \<and> addr \<noteq> SelfAddress"

section \<open>The control octet\<close>

text \<open>The function code is four bits on the wire; its meaning depends on the PRM bit.\<close>

abbreviation (input) FuncResetLinkStates :: byte where "FuncResetLinkStates \<equiv> 0"
abbreviation (input) FuncTestLinkStates :: byte where "FuncTestLinkStates \<equiv> 2"
abbreviation (input) FuncConfirmedUserData :: byte where "FuncConfirmedUserData \<equiv> 3"
abbreviation (input) FuncUnconfirmedUserData :: byte where "FuncUnconfirmedUserData \<equiv> 4"
abbreviation (input) FuncRequestLinkStatus :: byte where "FuncRequestLinkStatus \<equiv> 9"

abbreviation (input) FuncAck :: byte where "FuncAck \<equiv> 0"
abbreviation (input) FuncNack :: byte where "FuncNack \<equiv> 1"
abbreviation (input) FuncLinkStatus :: byte where "FuncLinkStatus \<equiv> 11"
abbreviation (input) FuncNotSupported :: byte where "FuncNotSupported \<equiv> 15"

record link_control =
  Dir :: bool
  Prm :: bool
  Fcb :: bool
  Fcv :: bool
  LFunc :: byte

definition Control_Byte :: "link_control \<Rightarrow> byte" where
  "Control_Byte c =
     (let b = 0;
          b = (if Dir c then b OR 0x80 else b);
          b = (if Prm c then b OR 0x40 else b);
          b = (if Fcb c then b OR 0x20 else b);
          b = (if Fcv c then b OR 0x10 else b)
      in b OR (LFunc c AND 0x0F))"

definition ParseControl :: "byte \<Rightarrow> link_control" where
  "ParseControl b =
     \<lparr>Dir = (b AND 0x80 \<noteq> 0), Prm = (b AND 0x40 \<noteq> 0), Fcb = (b AND 0x20 \<noteq> 0),
      Fcv = (b AND 0x10 \<noteq> 0), LFunc = b AND 0x0F\<rparr>"

definition Dfc :: "link_control \<Rightarrow> bool" where
  "Dfc c \<longleftrightarrow> \<not> Prm c \<and> Fcv c"

section \<open>Headers, frames and errors\<close>

record link_header =
  LControl :: link_control
  Dest :: u16
  Src :: u16
  LLength :: byte

definition PayloadLen :: "link_header \<Rightarrow> int" where
  "PayloadLen h = int (unat (LLength h)) - int MinLength"

record link_frame =
  LHeader :: link_header
  Payload :: "byte list"

text \<open>The errors carry what the source wraps into their text.\<close>

datatype link_error =
    ErrShortFrame
  | ErrBadStart
  | ErrBadLength byte
  | ErrHeaderCRC
  | ErrBodyCRC nat
  | ErrPayloadTooLong nat

section \<open>Encoding\<close>

definition bodySize :: "nat \<Rightarrow> nat" where
  "bodySize n = (if n = 0 then 0 else let blocks = (n + BlockSize - 1) div BlockSize in n + blocks * CRCSize)"

definition FrameSize :: "nat \<Rightarrow> nat" where
  "FrameSize n = HeaderSize + bodySize n"

text \<open>The loop over the payload, sixteen octets at a time, each block followed by its CRC.\<close>

function encode_body :: "byte list \<Rightarrow> byte list \<Rightarrow> nat \<Rightarrow> byte list" where
  "encode_body dst payload off =
     (if off < length payload then
        let stop = min (off + BlockSize) (length payload);
            dst = dst @ subslice payload off stop;
            dst = appendCRC dst (subslice payload off stop)
        in encode_body dst payload (off + BlockSize)
      else dst)"
  by pat_completeness auto
termination
  by (relation "measure (\<lambda>(dst, payload, off). length payload - off)") auto

definition Encode :: "byte list \<Rightarrow> link_header \<Rightarrow> byte list \<Rightarrow> link_error + byte list" where
  "Encode dst h payload =
     (if length payload > MaxPayload then Inl (ErrPayloadTooLong (length payload))
      else
        let start = length dst;
            dst = dst @ [StartByte0, StartByte1, of_nat (MinLength + length payload),
                         Control_Byte (LControl h)] @ put16 (Dest h) @ put16 (Src h);
            dst = appendCRC dst (subslice dst start (start + 8))
        in Inr (encode_body dst payload 0))"

section \<open>Decoding\<close>

definition DecodeHeader :: "byte list \<Rightarrow> link_error + link_header" where
  "DecodeHeader buf =
     (if length buf < HeaderSize then Inl ErrShortFrame
      else if buf ! 0 \<noteq> StartByte0 \<or> buf ! 1 \<noteq> StartByte1 then Inl ErrBadStart
      else if \<not> CRCValid (take 8 buf) (subslice buf 8 10) then Inl ErrHeaderCRC
      else
        let len = buf ! 2
        in if unat len < MinLength then Inl (ErrBadLength len)
           else Inr \<lparr>LControl = ParseControl (buf ! 3), Dest = get16 (subslice buf 4 6),
                     Src = get16 (subslice buf 6 8), LLength = len\<rparr>)"

function decode_body :: "byte list \<Rightarrow> nat \<Rightarrow> nat \<Rightarrow> byte list \<Rightarrow> link_error + byte list" where
  "decode_body body payloadLen off payload =
     (if off < payloadLen then
        let n = min BlockSize (payloadLen - off);
            block = take n body
        in if \<not> CRCValid block (subslice body n (n + CRCSize)) then Inl (ErrBodyCRC off)
           else decode_body (drop (n + CRCSize) body) payloadLen (off + BlockSize) (payload @ block)
      else Inr payload)"
  by pat_completeness auto
termination
  by (relation "measure (\<lambda>(body, payloadLen, off, payload). payloadLen - off)") auto

text \<open>
  \<open>Decode\<close> also returns how many octets the frame took. The caller's payload buffer only
  saves an allocation in the source; the returned payload is the value it is filled with.
\<close>

definition Decode :: "byte list \<Rightarrow> link_error + link_frame \<times> nat" where
  "Decode buf =
     (case DecodeHeader buf of
        Inl e \<Rightarrow> Inl e
      | Inr h \<Rightarrow>
          (let payloadLen = nat (PayloadLen h);
               total = FrameSize payloadLen
           in if length buf < total then Inl ErrShortFrame
              else case decode_body (subslice buf HeaderSize total) payloadLen 0 [] of
                     Inl e \<Rightarrow> Inl e
                   | Inr payload \<Rightarrow> Inr (\<lparr>LHeader = h, Payload = payload\<rparr>, total)))"

section \<open>The wire image of a frame\<close>

declare encode_body.simps [simp del] decode_body.simps [simp del]

text \<open>
  The reference layout: eight header octets and their CRC, then the payload cut into
  blocks of sixteen, each followed by its CRC.
\<close>

function crc_blocks :: "byte list \<Rightarrow> byte list" where
  "crc_blocks p = (if p = [] then []
     else take BlockSize p @ put16 (CRC (take BlockSize p)) @ crc_blocks (drop BlockSize p))"
  by pat_completeness auto
termination
  by (relation "measure length") auto

declare crc_blocks.simps [simp del]

lemma crc_blocks_Nil [simp]: "crc_blocks [] = []"
  by (simp add: crc_blocks.simps)

lemma crc_blocks_full: "length b = BlockSize \<Longrightarrow> crc_blocks (b @ p) = b @ put16 (CRC b) @ crc_blocks p"
  by (subst crc_blocks.simps) auto

lemma crc_blocks_short: "b \<noteq> [] \<Longrightarrow> length b \<le> BlockSize \<Longrightarrow> crc_blocks b = b @ put16 (CRC b)"
  by (subst crc_blocks.simps) auto

definition header_octets :: "link_header \<Rightarrow> nat \<Rightarrow> byte list" where
  "header_octets h n = [StartByte0, StartByte1, of_nat (MinLength + n), Control_Byte (LControl h)]
     @ put16 (Dest h) @ put16 (Src h)"

definition frame_octets :: "link_header \<Rightarrow> byte list \<Rightarrow> byte list" where
  "frame_octets h p =
     header_octets h (length p) @ put16 (CRC (header_octets h (length p))) @ crc_blocks p"

lemma length_header_octets [simp, wire_simps]: "length (header_octets h n) = 8"
  by (simp add: header_octets_def)

lemma bodySize_step:
  "0 < n \<Longrightarrow> bodySize n = min BlockSize n + CRCSize + bodySize (n - BlockSize)"
proof (cases "n \<le> BlockSize")
  case True
  assume "0 < n"
  then have "(n + 15) div 16 = 1" using True by (simp add: div_nat_eqI)
  with True \<open>0 < n\<close> show ?thesis by (simp add: bodySize_def)
next
  case False
  then have "(n + 15) div 16 = Suc ((n - Suc 0) div 16)" by (simp add: le_div_geq)
  then show ?thesis using False by (simp add: bodySize_def add.commute [of 15])
qed

lemma length_crc_blocks [simp, wire_simps]: "length (crc_blocks p) = bodySize (length p)"
proof (induction p rule: crc_blocks.induct)
  case (1 p)
  show ?case
  proof (cases "p = []")
    case False
    with 1 have "length (crc_blocks p)
        = min BlockSize (length p) + CRCSize + bodySize (length p - BlockSize)"
      by (simp add: crc_blocks.simps [of p] min.commute)
    with False show ?thesis by (simp add: bodySize_step)
  qed (simp add: bodySize_def)
qed

lemma length_frame_octets [simp, wire_simps]: "length (frame_octets h p) = FrameSize (length p)"
  by (simp add: frame_octets_def FrameSize_def)

lemma encode_body_blocks: "encode_body dst p off = dst @ crc_blocks (drop off p)"
proof (induction dst p off rule: encode_body.induct)
  case (1 dst p off)
  show ?case
  proof (cases "off < length p")
    case True
    have "subslice p off (min (off + BlockSize) (length p)) = take BlockSize (drop off p)"
      by (simp add: subslice_def drop_take min_def)
    with 1 True show ?thesis
      by (simp add: encode_body.simps [of dst] Let_def appendCRC_put16
          crc_blocks.simps [of "drop off p"] add.commute)
  next
    case False
    then show ?thesis by (simp add: encode_body.simps)
  qed
qed

lemma Encode_octets: "length p \<le> MaxPayload \<Longrightarrow> Encode dst h p = Inr (dst @ frame_octets h p)"
  by (simp add: Encode_def Let_def encode_body_blocks appendCRC_put16 frame_octets_def
      header_octets_def subslice_def put16_def)

section \<open>Control octets round trip\<close>

lemma ParseControl_Byte: "ParseControl (Control_Byte c) = c\<lparr>LFunc := LFunc c AND 0x0F\<rparr>"
  by (rule link_control.equality)
    (auto simp: ParseControl_def Control_Byte_def byte_mask_bit bit_simps Let_def
      intro!: byte_eqI)

lemma Control_Byte_Parse [simp]: "Control_Byte (ParseControl b) = b"
  by (rule byte_eqI) (auto simp: ParseControl_def Control_Byte_def byte_mask_bit bit_simps Let_def)

lemma LFunc_ParseControl [simp]: "LFunc (ParseControl b) AND 0x0F = LFunc (ParseControl b)"
  by (simp add: ParseControl_def and.assoc)

section \<open>Decoding inverts encoding\<close>

lemma decode_body_blocks:
  "n = off + length p \<Longrightarrow> decode_body (crc_blocks p) n off acc = Inr (acc @ p)"
proof (induction p arbitrary: off acc rule: crc_blocks.induct)
  case (1 p)
  show ?case
  proof (cases "p = []")
    case False
    let ?b = "take BlockSize p" and ?r = "drop BlockSize p"
    let ?m = "min BlockSize (n - off)"
    have m: "?m = length ?b" using 1 by simp
    have cb: "crc_blocks p = ?b @ put16 (CRC ?b) @ crc_blocks ?r"
      using False by (simp add: crc_blocks.simps [of p])
    have tk: "take ?m (crc_blocks p) = ?b"
      and dr: "drop (?m + CRCSize) (crc_blocks p) = crc_blocks ?r"
      and sl: "subslice (crc_blocks p) ?m (?m + CRCSize) = put16 (CRC ?b)"
      unfolding m cb by (simp_all add: subslice_def)
    have rest: "decode_body (crc_blocks ?r) n (off + BlockSize) (acc @ ?b) = Inr ((acc @ ?b) @ ?r)"
    proof (cases "BlockSize \<le> length p")
      case True
      with False 1 show ?thesis by (intro "1.IH") auto
    next
      case short: False
      with "1.prems" show ?thesis by (simp add: decode_body.simps)
    qed
    have "off < n" using False "1.prems" by simp
    then show ?thesis
      using rest CRCValid_put16 [of ?b "[]"]
      by (simp add: decode_body.simps [of "crc_blocks p"] Let_def tk dr sl)
  qed (use 1 in \<open>simp add: decode_body.simps\<close>)
qed

lemma decode_body_sound:
  "decode_body body n off acc = Inr q \<Longrightarrow> length body = bodySize (n - off) \<Longrightarrow>
   \<exists>p. q = acc @ p \<and> body = crc_blocks p \<and> length p = n - off"
proof (induction body n off acc rule: decode_body.induct)
  case (1 body n off acc)
  show ?case
  proof (cases "off < n")
    case True
    let ?m = "min BlockSize (n - off)"
    have len: "length body = ?m + CRCSize + bodySize (n - (off + BlockSize))"
      using "1.prems"(2) True bodySize_step [of "n - off"] by simp
    from "1.prems"(1) True have v: "CRCValid (take ?m body) (subslice body ?m (?m + CRCSize))"
      and d: "decode_body (drop (?m + CRCSize) body) n (off + BlockSize) (acc @ take ?m body) = Inr q"
      by (auto simp: decode_body.simps [of body] Let_def split: if_splits)
    have "length (drop (?m + CRCSize) body) = bodySize (n - (off + BlockSize))"
      using len by simp
    with "1.IH" [OF True refl refl] v d obtain p where
      q: "q = (acc @ take ?m body) @ p" and p: "drop (?m + CRCSize) body = crc_blocks p"
      and lp: "length p = n - (off + BlockSize)" by metis
    have c: "subslice body ?m (?m + CRCSize) = put16 (CRC (take ?m body))"
      using v len by (simp add: CRCValid_iff)
    have lt: "length (take ?m body) = ?m" using len by simp
    have "body = take ?m body @ subslice body ?m (?m + CRCSize) @ drop (?m + CRCSize) body"
      by (rule split_slices)
    then have "body = take ?m body @ put16 (CRC (take ?m body)) @ crc_blocks p"
      by (simp only: c p)
    also have "\<dots> = crc_blocks (take ?m body @ p)"
      using lt lp \<open>off < n\<close>
      by (cases "BlockSize \<le> n - off")
        (auto simp: crc_blocks_full crc_blocks_short simp flip: length_greater_0_conv)
    finally show ?thesis
      using q lp lt True by (intro exI [of _ "take ?m body @ p"]) (auto simp: min_def)
  qed (use 1 in \<open>simp add: decode_body.simps bodySize_def\<close>)
qed

lemma unat_length_octet: "n \<le> MaxPayload \<Longrightarrow> unat (of_nat (MinLength + n) :: byte) = MinLength + n"
  by (simp add: unsigned_of_nat take_bit_nat_eq_self del: of_nat_add)

lemma PayloadLen_octet:
  "n \<le> MaxPayload \<Longrightarrow> LLength h = of_nat (MinLength + n) \<Longrightarrow> PayloadLen h = int n"
  using unat_length_octet [of n] by (simp add: PayloadLen_def del: of_nat_add)

lemma nat_PayloadLen: "nat (PayloadLen h) = unat (LLength h) - MinLength"
  by (simp add: PayloadLen_def nat_minus_as_int)

lemma DecodeHeader_octets:
  assumes "n \<le> MaxPayload"
  shows "DecodeHeader (header_octets h n @ put16 (CRC (header_octets h n)) @ rest) =
    Inr \<lparr>LControl = (LControl h)\<lparr>LFunc := LFunc (LControl h) AND 0x0F\<rparr>, Dest = Dest h, Src = Src h,
         LLength = of_nat (MinLength + n)\<rparr>" (is "DecodeHeader ?buf = _")
proof -
  have crc: "CRCValid (take 8 ?buf) (subslice ?buf 8 10)"
    by (simp add: subslice_def CRCValid_iff)
  have "?buf ! 0 = StartByte0" "?buf ! 1 = StartByte1" "?buf ! 2 = of_nat (MinLength + n)"
    "?buf ! 3 = Control_Byte (LControl h)"
    "subslice ?buf 4 6 = put16 (Dest h)" "subslice ?buf 6 8 = put16 (Src h)"
    by (simp_all add: header_octets_def subslice_def)
  then show ?thesis
    using crc unat_length_octet [OF assms]
    by (simp add: DecodeHeader_def Let_def ParseControl_Byte del: of_nat_add)
qed

lemma Decode_octets:
  assumes "length p \<le> MaxPayload"
  shows "Decode (frame_octets h p @ rest) =
    Inr (\<lparr>LHeader = h\<lparr>LControl := (LControl h)\<lparr>LFunc := LFunc (LControl h) AND 0x0F\<rparr>,
                      LLength := of_nat (MinLength + length p)\<rparr>,
          Payload = p\<rparr>, FrameSize (length p))"
proof -
  let ?buf = "frame_octets h p @ rest"
  have "subslice ?buf HeaderSize (FrameSize (length p)) = crc_blocks p"
    by (simp add: subslice_def frame_octets_def FrameSize_def)
  moreover have "decode_body (crc_blocks p) (length p) 0 [] = Inr p"
    by (simp add: decode_body_blocks)
  ultimately show ?thesis
    using DecodeHeader_octets [OF assms, of h "crc_blocks p @ rest"]
    by (simp add: Decode_def Let_def frame_octets_def PayloadLen_octet [OF assms] FrameSize_def
        del: of_nat_add)
qed

text \<open>
  C14. Decoding what \<open>Encode\<close> produced returns the frame that was encoded (its length octet
  filled in and its function code cut to four bits) and consumes exactly its octets,
  whatever follows them in the buffer.
\<close>

theorem Decode_Encode:
  assumes "Encode [] h p = Inr octets"
  shows "Decode (octets @ rest) =
    Inr (\<lparr>LHeader = h\<lparr>LControl := (LControl h)\<lparr>LFunc := LFunc (LControl h) AND 0x0F\<rparr>,
                      LLength := of_nat (MinLength + length p)\<rparr>,
          Payload = p\<rparr>, length octets)"
proof -
  have "length p \<le> MaxPayload"
    using assms by (auto simp: Encode_def split: if_splits)
  moreover from this assms have "octets = frame_octets h p" by (simp add: Encode_octets)
  ultimately show ?thesis by (simp add: Decode_octets del: of_nat_add)
qed

text \<open>A header for the concrete instances below: unconfirmed user data from master 1 to outstation 10.\<close>

definition sample_header :: link_header where
  "sample_header = \<lparr>LControl = \<lparr>Dir = True, Prm = True, Fcb = False, Fcv = False, LFunc = FuncUnconfirmedUserData\<rparr>,
     Dest = 10, Src = 1, LLength = 0\<rparr>"

theorem Decode_Encode_witness:
  "\<exists>octets. Encode [] sample_header [0xC0, 0xC1] = Inr octets \<and>
     Decode (octets @ [0x05]) =
       Inr (\<lparr>LHeader = sample_header\<lparr>LLength := 7\<rparr>, Payload = [0xC0, 0xC1]\<rparr>, length octets)"
proof -
  have e: "Encode [] sample_header [0xC0, 0xC1] = Inr (frame_octets sample_header [0xC0, 0xC1])"
    by (simp add: Encode_octets)
  show ?thesis
    using Decode_Encode [OF e, of "[0x05]"] e by (simp add: sample_header_def)
qed

section \<open>The decoder accepts nothing but encoded frames\<close>

definition wf_frame :: "link_frame \<Rightarrow> bool" where
  "wf_frame f \<longleftrightarrow> length (Payload f) \<le> MaxPayload \<and>
     LLength (LHeader f) = of_nat (MinLength + length (Payload f)) \<and>
     LFunc (LControl (LHeader f)) AND 0x0F = LFunc (LControl (LHeader f))"

text \<open>What a successful header decode says of the ten octets it read.\<close>

lemma DecodeHeader_sound:
  assumes "DecodeHeader buf = Inr h"
  shows "HeaderSize \<le> length buf" "MinLength \<le> unat (LLength h)"
    "LFunc (LControl h) AND 0x0F = LFunc (LControl h)"
    "take HeaderSize buf = header_octets h (nat (PayloadLen h))
       @ put16 (CRC (header_octets h (nat (PayloadLen h))))"
proof -
  from assms have len: "HeaderSize \<le> length buf"
    and start: "buf ! 0 = StartByte0" "buf ! 1 = StartByte1"
    and crc: "CRCValid (take 8 buf) (subslice buf 8 10)"
    and lo: "MinLength \<le> unat (buf ! 2)"
    and h: "h = \<lparr>LControl = ParseControl (buf ! 3), Dest = get16 (subslice buf 4 6),
                     Src = get16 (subslice buf 6 8), LLength = buf ! 2\<rparr>"
    by (auto simp: DecodeHeader_def Let_def split: if_splits)
  show "HeaderSize \<le> length buf" by (rule len)
  show "MinLength \<le> unat (LLength h)" "LFunc (LControl h) AND 0x0F = LFunc (LControl h)"
    using lo by (simp_all add: h)
  have "of_nat (MinLength + nat (PayloadLen h)) = buf ! 2"
    using lo by (simp add: h PayloadLen_def nat_diff_distrib' flip: of_nat_add)
  moreover have "put16 (get16 (subslice buf 4 6)) = subslice buf 4 6"
    "put16 (get16 (subslice buf 6 8)) = subslice buf 6 8"
    using len by (simp_all add: put16_get16_slice)
  moreover have "take 8 buf = [buf ! 0, buf ! 1, buf ! 2, buf ! 3] @ subslice buf 4 6 @ subslice buf 6 8"
    using len by (simp add: list_eq_iff_nth_eq subslice_def nth_append nth_Cons numeral_eq_Suc
        All_less_Suc)
  ultimately have "header_octets h (nat (PayloadLen h)) = take 8 buf"
    by (simp add: header_octets_def h start [simplified] del: of_nat_add)
  moreover have "subslice buf 8 10 = put16 (CRC (take 8 buf))"
    using crc len by (simp add: CRCValid_iff)
  moreover have "take HeaderSize buf = take 8 buf @ subslice buf 8 10"
    by (simp add: subslice_def drop_take flip: take_add)
  ultimately show "take HeaderSize buf = header_octets h (nat (PayloadLen h))
      @ put16 (CRC (header_octets h (nat (PayloadLen h))))" by simp
qed

lemma Decode_sound_aux:
  assumes "Decode buf = Inr (f, n)"
  shows "wf_frame f" "n = FrameSize (length (Payload f))" "n \<le> length buf"
    "take n buf = frame_octets (LHeader f) (Payload f)"
proof -
  from assms obtain h p where h: "DecodeHeader buf = Inr h"
    and n: "n = FrameSize (nat (PayloadLen h))" "n \<le> length buf"
    and b: "decode_body (subslice buf HeaderSize n) (nat (PayloadLen h)) 0 [] = Inr p"
    and f: "f = \<lparr>LHeader = h, Payload = p\<rparr>"
    by (auto simp: Decode_def Let_def split: sum.splits if_splits)
  note hd = DecodeHeader_sound [OF h]
  have "length (subslice buf HeaderSize n) = bodySize (nat (PayloadLen h) - 0)"
    using n by (simp add: FrameSize_def)
  from decode_body_sound [OF b this]
  have p: "subslice buf HeaderSize n = crc_blocks p" "length p = nat (PayloadLen h)" by auto
  have le: "unat (LLength h) \<le> 255" using ucast_byte_lt_256 [of "LLength h"] by linarith
  have "take n buf = take HeaderSize buf @ subslice buf HeaderSize n"
    using n by (simp add: FrameSize_def subslice_plus take_add)
  then have "take n buf = frame_octets h p"
    using hd p by (simp add: frame_octets_def)
  moreover have "length p \<le> MaxPayload"
    using p(2) hd(2) le by (simp add: nat_PayloadLen)
  moreover have "LLength h = of_nat (MinLength + length p)"
    using hd(2) by (simp add: p PayloadLen_def nat_diff_distrib' flip: of_nat_add)
  ultimately show "wf_frame f" "n = FrameSize (length (Payload f))" "n \<le> length buf"
    "take n buf = frame_octets (LHeader f) (Payload f)"
    using n hd(3) p(2) by (simp_all add: f wf_frame_def del: of_nat_add)
qed

text \<open>
  Whatever octets arrive, a frame the decoder accepts is well formed, and the octets it
  consumed are exactly the encoding of that frame: no other octet string decodes to it.
\<close>

theorem Decode_sound:
  assumes "Decode buf = Inr (f, n)"
  shows "wf_frame f \<and> n \<le> length buf \<and> Encode [] (LHeader f) (Payload f) = Inr (take n buf)"
  using Decode_sound_aux [OF assms] by (simp add: wf_frame_def Encode_octets)

theorem Decode_sound_witness:
  "let octets = frame_octets sample_header [0xC0]; f = \<lparr>LHeader = sample_header\<lparr>LLength := 6\<rparr>, Payload = [0xC0]\<rparr>
   in Decode octets = Inr (f, length octets) \<and> wf_frame f \<and> Encode [] (LHeader f) (Payload f) = Inr octets"
proof -
  have d: "Decode (frame_octets sample_header [0xC0])
      = Inr (\<lparr>LHeader = sample_header\<lparr>LLength := 6\<rparr>, Payload = [0xC0]\<rparr>, FrameSize 1)"
    using Decode_octets [of "[0xC0]" sample_header "[]"] by (simp add: sample_header_def)
  show ?thesis using Decode_sound [OF d] d by simp
qed

section \<open>Decoding a growing buffer\<close>

lemma Decode_wf_frame:
  "wf_frame f \<Longrightarrow>
   Decode (frame_octets (LHeader f) (Payload f) @ rest) = Inr (f, FrameSize (length (Payload f)))"
  by (simp add: wf_frame_def Decode_octets del: of_nat_add)

lemma DecodeHeader_append:
  "HeaderSize \<le> length buf \<Longrightarrow> DecodeHeader (buf @ xs) = DecodeHeader buf"
proof -
  assume len: "HeaderSize \<le> length buf"
  then have "(buf @ xs) ! i = buf ! i" if "i < 4" for i
    using that by (simp add: nth_append)
  with len show ?thesis by (simp add: DecodeHeader_def Let_def)
qed

lemma DecodeHeader_Short_iff: "DecodeHeader buf = Inl ErrShortFrame \<longleftrightarrow> length buf < HeaderSize"
  by (simp add: DecodeHeader_def Let_def)

text \<open>Octets that arrive later change neither a frame nor a rejection, only \<^verbatim>\<open>ErrShortFrame\<close>.\<close>

lemma Decode_append:
  assumes "Decode buf \<noteq> Inl ErrShortFrame"
  shows "Decode (buf @ xs) = Decode buf"
proof (cases "DecodeHeader buf")
  case (Inl e)
  with assms have "HeaderSize \<le> length buf"
    using DecodeHeader_Short_iff [of buf] by (auto simp: Decode_def)
  then show ?thesis by (simp add: Decode_def DecodeHeader_append Inl)
next
  case (Inr h)
  then have "HeaderSize \<le> length buf" by (rule DecodeHeader_sound)
  with assms Inr show ?thesis
    by (auto simp: Decode_def DecodeHeader_append Let_def)
qed

lemma FrameSize_mono: "m \<le> n \<Longrightarrow> FrameSize m \<le> FrameSize n"
  by (auto simp: FrameSize_def bodySize_def Let_def intro!: add_mono div_le_mono)

lemma FrameSize_le: "n \<le> MaxPayload \<Longrightarrow> FrameSize n \<le> MaxFrameSize"
  using FrameSize_mono [of n MaxPayload] by (simp add: FrameSize_def bodySize_def)

lemma FrameSize_ge: "HeaderSize \<le> FrameSize n"
  by (simp add: FrameSize_def)

lemma Decode_size: "Decode buf = Inr (f, n) \<Longrightarrow> HeaderSize \<le> n \<and> n \<le> length buf"
  by (auto simp: Decode_def Let_def FrameSize_def split: sum.splits if_splits)

lemma Decode_Short_bound: "Decode buf = Inl ErrShortFrame \<Longrightarrow> length buf < MaxFrameSize"
proof (cases "DecodeHeader buf")
  case (Inr h)
  have "unat (LLength h) - MinLength \<le> MaxPayload"
    using ucast_byte_lt_256 [of "LLength h"] by linarith
  then have "FrameSize (nat (PayloadLen h)) \<le> MaxFrameSize"
    by (simp only: nat_PayloadLen FrameSize_le)
  moreover assume "Decode buf = Inl ErrShortFrame"
  moreover have "decode_body b n off acc \<noteq> Inl ErrShortFrame" for b n off acc
    by (induction b n off acc rule: decode_body.induct)
      (subst decode_body.simps, simp add: Let_def)
  ultimately show ?thesis
    using Inr by (auto simp: Decode_def Let_def split: if_splits sum.splits)
qed (auto simp: Decode_def DecodeHeader_def Let_def split: if_splits)

lemma Decode_start:
  "Decode buf \<noteq> Inl ErrShortFrame \<Longrightarrow> Decode buf \<noteq> Inl ErrBadStart \<Longrightarrow>
   HeaderSize \<le> length buf \<and> buf ! 0 = StartByte0 \<and> buf ! 1 = StartByte1"
  by (auto simp: Decode_def DecodeHeader_def Let_def split: sum.splits if_splits)

section \<open>Addresses\<close>

text \<open>
  The three families of addresses no station may hold are together exactly
  \<open>0xFFF0\<close> to \<open>0xFFFF\<close>: a source is valid when it is below them.
\<close>

theorem IsValidSource_iff: "IsValidSource addr \<longleftrightarrow> addr < 0xFFF0"
proof -
  have "unat addr < 2 ^ LENGTH(16)" by (rule unsigned_less)
  then show ?thesis
    unfolding IsValidSource_def IsReserved_def IsBroadcast_def
    by (auto simp: word_le_nat_alt word_less_nat_alt unat_arith_simps)
qed

end
