(* ===== verification/Link_Primary.thy ===== *)
theory Link_Primary
  imports Link_Frame
begin

text \<open>
  The transmitting half of the link layer, \<^verbatim>\<open>internal/link/primary.go\<close>: a state machine without
  timers or I/O. Each operation takes the primary and returns it updated together with the
  frame to put on the wire and the action for the session; the zero frame stands where the
  source returns \<^verbatim>\<open>Frame{}\<close>. The lemmas give its invariant and bound its retransmissions.
\<close>

section \<open>State\<close>

datatype Action = ActionNone | ActionTransmit | ActionComplete | ActionFailed

datatype priState = priIdle | priWaitLinkReset | priWaitConfirm | priWaitStatus

record primary =
  PriLocalAddr :: u16
  PriRemoteAddr :: u16
  PriIsMaster :: bool
  UseConfirms :: bool
  MaxRetries :: int
  pri_state :: priState
  linkUp :: bool
  pri_fcb :: bool
  retries :: int
  pending :: "byte list"
  lastSent :: link_frame
  dfc :: bool

datatype primary_error = PriPayloadTooLong nat | PriBusy priState | ErrDataFlowControl

definition zero_frame :: link_frame where
  "zero_frame = \<lparr>LHeader = \<lparr>LControl = \<lparr>Dir = False, Prm = False, Fcb = False, Fcv = False, LFunc = 0\<rparr>,
     Dest = 0, Src = 0, LLength = 0\<rparr>, Payload = []\<rparr>"

section \<open>Operations\<close>

definition Pri_Reset :: "primary \<Rightarrow> primary" where
  "Pri_Reset p = p\<lparr>pri_state := priIdle, linkUp := False, pri_fcb := False, retries := 0,
     pending := [], dfc := False\<rparr>"

definition Pri_Busy :: "primary \<Rightarrow> bool" where
  "Pri_Busy p \<longleftrightarrow> pri_state p \<noteq> priIdle"

definition Pri_frame :: "primary \<Rightarrow> byte \<Rightarrow> bool \<Rightarrow> bool \<Rightarrow> byte list \<Rightarrow> link_frame" where
  "Pri_frame p fn fcb fcv payload =
     \<lparr>LHeader = \<lparr>LControl = \<lparr>Dir = PriIsMaster p, Prm = True, Fcb = fcb, Fcv = fcv, LFunc = fn\<rparr>,
        Dest = PriRemoteAddr p, Src = PriLocalAddr p, LLength = of_nat (MinLength + length payload)\<rparr>,
      Payload = payload\<rparr>"

definition fail :: "primary \<Rightarrow> primary \<times> link_frame \<times> Action" where
  "fail p = (p\<lparr>pri_state := priIdle, linkUp := False, dfc := False, pending := [], retries := 0\<rparr>,
     zero_frame, ActionFailed)"

definition sendPending :: "primary \<Rightarrow> primary \<times> link_frame \<times> Action" where
  "sendPending p =
     (let p = p\<lparr>pri_state := priWaitConfirm\<rparr>;
          f = Pri_frame p FuncConfirmedUserData (pri_fcb p) True (pending p);
          p = p\<lparr>lastSent := f\<rparr>
      in (p, f, ActionTransmit))"

definition Pri_Send :: "byte list \<Rightarrow> primary \<Rightarrow> primary \<times> link_frame \<times> Action \<times> primary_error option" where
  "Pri_Send payload p =
     (if length payload > MaxPayload
      then (p, zero_frame, ActionFailed, Some (PriPayloadTooLong (length payload)))
      else if Pri_Busy p then (p, zero_frame, ActionFailed, Some (PriBusy (pri_state p)))
      else if dfc p then (p, zero_frame, ActionFailed, Some ErrDataFlowControl)
      else
        let p = p\<lparr>retries := 0\<rparr>
        in if \<not> UseConfirms p then
             let f = Pri_frame p FuncUnconfirmedUserData False False payload
             in (p\<lparr>lastSent := f\<rparr>, f, ActionComplete, None)
           else
             let p = p\<lparr>pending := payload\<rparr>
             in if \<not> linkUp p then
                  let p = p\<lparr>pri_state := priWaitLinkReset\<rparr>;
                      f = Pri_frame p FuncResetLinkStates False False []
                  in (p\<lparr>lastSent := f\<rparr>, f, ActionTransmit, None)
                else case sendPending p of (p, f, a) \<Rightarrow> (p, f, a, None))"

definition RequestLinkStatus :: "primary \<Rightarrow> primary \<times> link_frame \<times> Action \<times> primary_error option" where
  "RequestLinkStatus p =
     (if Pri_Busy p then (p, zero_frame, ActionNone, Some (PriBusy (pri_state p)))
      else
        let p = p\<lparr>pri_state := priWaitStatus, retries := 0\<rparr>;
            f = Pri_frame p FuncRequestLinkStatus False False []
        in (p\<lparr>lastSent := f\<rparr>, f, ActionTransmit, None))"

definition Pri_OnFrame :: "link_frame \<Rightarrow> primary \<Rightarrow> primary \<times> link_frame \<times> Action" where
  "Pri_OnFrame f p =
     (let c = LControl (LHeader f)
      in if Prm c then (p, zero_frame, ActionNone)
         else if length (Payload f) > 0 then (p, zero_frame, ActionNone)
         else
           let p = (if pri_state p \<noteq> priIdle then p\<lparr>dfc := Dfc c\<rparr> else p)
           in case pri_state p of
                priWaitLinkReset \<Rightarrow>
                  if LFunc c = FuncAck then sendPending (p\<lparr>linkUp := True, pri_fcb := True, retries := 0\<rparr>)
                  else if LFunc c = FuncNack \<or> LFunc c = FuncNotSupported then fail p
                  else (p, zero_frame, ActionNone)
              | priWaitConfirm \<Rightarrow>
                  if LFunc c = FuncAck then
                    (p\<lparr>pri_fcb := \<not> pri_fcb p, pri_state := priIdle, pending := [], retries := 0\<rparr>,
                     zero_frame, ActionComplete)
                  else if LFunc c = FuncNack then
                    let p = p\<lparr>linkUp := False, pri_state := priWaitLinkReset, retries := 0\<rparr>;
                        next = Pri_frame p FuncResetLinkStates False False []
                    in (p\<lparr>lastSent := next\<rparr>, next, ActionTransmit)
                  else if LFunc c = FuncNotSupported then fail p
                  else (p, zero_frame, ActionNone)
              | priWaitStatus \<Rightarrow>
                  if LFunc c = FuncLinkStatus \<or> LFunc c = FuncAck then
                    (p\<lparr>pri_state := priIdle, retries := 0\<rparr>, zero_frame, ActionComplete)
                  else if LFunc c = FuncNack \<or> LFunc c = FuncNotSupported then fail p
                  else (p, zero_frame, ActionNone)
              | priIdle \<Rightarrow> (p, zero_frame, ActionNone))"

definition Pri_OnTimeout :: "primary \<Rightarrow> primary \<times> link_frame \<times> Action" where
  "Pri_OnTimeout p =
     (if pri_state p = priIdle then (p, zero_frame, ActionNone)
      else if retries p \<ge> MaxRetries p then fail p
      else let p = p\<lparr>retries := retries p + 1\<rparr> in (p, lastSent p, ActionTransmit))"

lemmas primary_defs = Pri_Send_def RequestLinkStatus_def Pri_OnFrame_def Pri_OnTimeout_def fail_def
  sendPending_def Pri_Reset_def Pri_Busy_def Let_def

section \<open>Invariant\<close>

text \<open>
  What every busy state promises: the last frame sent is the one the state waits for an
  answer to, so a retransmission repeats exactly that frame; the payload is kept until it
  is answered, an idle primary keeps none, and confirmed data is only ever outstanding on a
  link that is up.
\<close>

fun awaited :: "primary \<Rightarrow> link_frame option" where
  "awaited p =
     (case pri_state p of
        priIdle \<Rightarrow> None
      | priWaitLinkReset \<Rightarrow> Some (Pri_frame p FuncResetLinkStates False False [])
      | priWaitConfirm \<Rightarrow> Some (Pri_frame p FuncConfirmedUserData (pri_fcb p) True (pending p))
      | priWaitStatus \<Rightarrow> Some (Pri_frame p FuncRequestLinkStatus False False []))"

definition pri_inv :: "primary \<Rightarrow> bool" where
  "pri_inv p \<longleftrightarrow> (case awaited p of None \<Rightarrow> pending p = [] \<and> retries p = 0 | Some f \<Rightarrow> lastSent p = f) \<and>
     (pri_state p = priWaitConfirm \<longrightarrow> linkUp p) \<and> (pri_state p = priWaitLinkReset \<longrightarrow> \<not> linkUp p) \<and>
     (pri_state p = priWaitStatus \<longrightarrow> pending p = []) \<and>
     length (pending p) \<le> MaxPayload \<and> 0 \<le> retries p \<and> retries p \<le> max 0 (MaxRetries p)"

text \<open>The inputs of a primary and what it answers, for stating facts about all of them at once.\<close>

datatype primary_input = InReset | InSend "byte list" | InStatus | InFrame link_frame | InTimeout

fun pri_step :: "primary_input \<Rightarrow> primary \<Rightarrow> primary \<times> link_frame \<times> Action" where
  "pri_step InReset p = (Pri_Reset p, zero_frame, ActionNone)"
| "pri_step (InSend d) p = (case Pri_Send d p of (p', f, a, _) \<Rightarrow> (p', f, a))"
| "pri_step InStatus p = (case RequestLinkStatus p of (p', f, a, _) \<Rightarrow> (p', f, a))"
| "pri_step (InFrame f) p = Pri_OnFrame f p"
| "pri_step InTimeout p = Pri_OnTimeout p"

lemma Pri_frame_cong [simp]:
  "Pri_frame (p\<lparr>pri_state := st\<rparr>) = Pri_frame p" "Pri_frame (p\<lparr>linkUp := b\<rparr>) = Pri_frame p"
  "Pri_frame (p\<lparr>pri_fcb := b\<rparr>) = Pri_frame p" "Pri_frame (p\<lparr>retries := n\<rparr>) = Pri_frame p"
  "Pri_frame (p\<lparr>pending := d\<rparr>) = Pri_frame p" "Pri_frame (p\<lparr>lastSent := f\<rparr>) = Pri_frame p"
  "Pri_frame (p\<lparr>dfc := b\<rparr>) = Pri_frame p"
  by (simp_all add: Pri_frame_def fun_eq_iff)

lemma pri_step_inv [inv_intros]: "pri_inv p \<Longrightarrow> pri_inv (fst (pri_step i p))"
  by (cases i; cases "pri_state p")
    (auto simp: pri_inv_def primary_defs split: if_splits)

lemma pri_step_transmit:
  "pri_inv p \<Longrightarrow> pri_step i p = (p', f, ActionTransmit) \<Longrightarrow> awaited p' = Some f"
  by (cases i; cases "pri_state p")
    (auto simp: pri_inv_def primary_defs split: if_splits)

text \<open>The two ways a send from the idle state goes through.\<close>

lemma Pri_Send_unconfirmed:
  "\<not> UseConfirms p \<Longrightarrow> \<not> Pri_Busy p \<Longrightarrow> \<not> dfc p \<Longrightarrow> length d \<le> MaxPayload \<Longrightarrow>
   Pri_Send d p = (p\<lparr>retries := 0, lastSent := Pri_frame p FuncUnconfirmedUserData False False d\<rparr>,
     Pri_frame p FuncUnconfirmedUserData False False d, ActionComplete, None)"
  by (simp add: Pri_Send_def Let_def)

lemma Pri_Send_confirmed:
  "UseConfirms p \<Longrightarrow> \<not> Pri_Busy p \<Longrightarrow> \<not> dfc p \<Longrightarrow> length d \<le> MaxPayload \<Longrightarrow>
   \<exists>p' f. Pri_Send d p = (p', f, ActionTransmit, None) \<and> pending p' = d \<and> awaited p' = Some f \<and>
     pri_state p' = (if linkUp p then priWaitConfirm else priWaitLinkReset) \<and> pri_fcb p' = pri_fcb p"
  by (cases "linkUp p") (simp_all add: Pri_Send_def sendPending_def Let_def)

lemma wf_Pri_frame:
  "length d \<le> MaxPayload \<Longrightarrow> fn AND 0x0F = fn \<Longrightarrow> wf_frame (Pri_frame p fn fcb fcv d)"
  by (simp add: wf_frame_def Pri_frame_def)

lemma wf_awaited: "pri_inv p \<Longrightarrow> awaited p = Some f \<Longrightarrow> wf_frame f"
  by (cases "pri_state p") (auto simp: pri_inv_def intro!: wf_Pri_frame)

lemma wf_transmitted:
  "pri_inv p \<Longrightarrow> snd (snd (pri_step i p)) = ActionTransmit \<Longrightarrow> wf_frame (fst (snd (pri_step i p)))"
  by (metis pri_step_inv pri_step_transmit prod.collapse wf_awaited)

interpretation pri: history_machine pri_step "\<lambda>_ p. pri_inv p"
  "\<lambda>_ (f, a). a = ActionTransmit \<longrightarrow> wf_frame f"
  by unfold_locales (auto simp: case_prod_beta intro: pri_step_inv wf_transmitted)

text \<open>
  C23. The primary's invariant, over every operation: whatever it is asked to transmit is a well-
  formed frame and is the frame its new state waits for an answer to; a completed exchange
  leaves it idle; and a timeout retransmits the outstanding frame verbatim, frame count bit
  included.
\<close>

theorem primary_invariant:
  assumes "pri_inv p" and "pri_step i p = (p', f, a)"
  shows "pri_inv p' \<and>
    (a = ActionTransmit \<longrightarrow> awaited p' = Some f \<and> wf_frame f) \<and>
    (a = ActionComplete \<longrightarrow> \<not> Pri_Busy p') \<and>
    (i = InTimeout \<and> a = ActionTransmit \<longrightarrow> awaited p = Some f)"
proof -
  have inv: "pri_inv p'" using pri_step_inv [OF assms(1), of i] assms(2) by simp
  have "a = ActionComplete \<longrightarrow> \<not> Pri_Busy p'"
    using assms(2) by (cases i; cases "pri_state p") (auto simp: primary_defs split: if_splits)
  moreover have "i = InTimeout \<and> a = ActionTransmit \<longrightarrow> awaited p = Some f"
    using assms by (cases "pri_state p") (auto simp: pri_inv_def primary_defs split: if_splits)
  ultimately show ?thesis
    using inv pri_step_transmit [OF assms(1)] wf_awaited [OF inv] assms(2) by auto
qed

text \<open>A master at address 1 talking to outstation 10 with confirmations and two retries.\<close>

definition sample_primary :: primary where
  "sample_primary = \<lparr>PriLocalAddr = 1, PriRemoteAddr = 10, PriIsMaster = True, UseConfirms = True,
     MaxRetries = 2, pri_state = priIdle, linkUp = False, pri_fcb = False, retries = 0,
     pending = [], lastSent = zero_frame, dfc = False\<rparr>"

lemma sample_primary_inv: "pri_inv sample_primary"
  by (simp add: pri_inv_def sample_primary_def)

theorem primary_invariant_witness:
  "pri_inv sample_primary \<and>
   (case pri_step (InSend [0xC0, 1]) sample_primary of (p', f, a) \<Rightarrow>
      a = ActionTransmit \<and> pri_inv p' \<and> awaited p' = Some f \<and> wf_frame f \<and> LFunc (LControl (LHeader f)) = FuncResetLinkStates)"
proof -
  obtain p' f a where st: "pri_step (InSend [0xC0, 1]) sample_primary = (p', f, a)"
    by (metis prod_cases3)
  then have "a = ActionTransmit" "LFunc (LControl (LHeader f)) = FuncResetLinkStates"
    by (auto simp: sample_primary_def primary_defs Pri_frame_def)
  then show ?thesis
    using primary_invariant [OF sample_primary_inv st] sample_primary_inv st by simp
qed

section \<open>Bounded retransmission\<close>

lemma timeouts_retransmit:
  assumes "Pri_Busy p" "int n = MaxRetries p - retries p"
  shows "run_ops pri_step (replicate n InTimeout) p =
    (p\<lparr>retries := MaxRetries p\<rparr>, replicate n (lastSent p, ActionTransmit))"
  using assms
proof (induction n arbitrary: p)
  case (Suc n)
  then have "pri_step InTimeout p = (p\<lparr>retries := retries p + 1\<rparr>, lastSent p, ActionTransmit)"
    by (simp add: primary_defs)
  moreover have "run_ops pri_step (replicate n InTimeout) (p\<lparr>retries := retries p + 1\<rparr>) =
      (p\<lparr>retries := MaxRetries p\<rparr>, replicate n (lastSent p, ActionTransmit))"
    using Suc.prems Suc.IH [of "p\<lparr>retries := retries p + 1\<rparr>"] by (simp add: Pri_Busy_def)
  ultimately show ?case by simp
qed simp

text \<open>
  Retransmission is bounded: if no answer ever comes, a busy primary repeats the outstanding
  frame as many times as it has retries left, then reports failure and is idle with the link
  down, so that the next send starts with the reset handshake.
\<close>

theorem retransmissions_bounded:
  assumes "pri_inv p" and "Pri_Busy p" and "0 \<le> MaxRetries p"
  shows "let n = nat (MaxRetries p - retries p); (p', res) = run_ops pri_step (replicate (Suc n) InTimeout) p
    in res = replicate n (lastSent p, ActionTransmit) @ [(zero_frame, ActionFailed)] \<and>
       \<not> Pri_Busy p' \<and> \<not> linkUp p' \<and> \<not> dfc p' \<and> pri_inv p'"
proof -
  let ?n = "nat (MaxRetries p - retries p)" and ?q = "p\<lparr>retries := MaxRetries p\<rparr>"
  have n: "int ?n = MaxRetries p - retries p" using assms(1,3) by (simp add: pri_inv_def)
  have "replicate (Suc ?n) InTimeout = replicate ?n InTimeout @ [InTimeout]"
    by (simp add: replicate_append_same)
  moreover have "pri_step InTimeout ?q = (fst (fail ?q), zero_frame, ActionFailed)"
    using assms(2) by (simp add: primary_defs)
  ultimately have run: "run_ops pri_step (replicate (Suc ?n) InTimeout) p =
      (fst (fail ?q), replicate ?n (lastSent p, ActionTransmit) @ [(zero_frame, ActionFailed)])"
    using timeouts_retransmit [OF assms(2) n] by (simp only: run_ops_append) simp
  have "pri_inv (fst (fail ?q))"
    using pri.run_inv [OF assms(1), of "replicate (Suc ?n) InTimeout"] run by simp
  then show ?thesis unfolding run Let_def by (simp add: primary_defs)
qed

theorem retransmissions_bounded_witness:
  "let p = fst (pri_step (InSend [0xC0, 1]) sample_primary);
       (p', res) = run_ops pri_step [InTimeout, InTimeout, InTimeout] p
   in Pri_Busy p \<and> res = [(lastSent p, ActionTransmit), (lastSent p, ActionTransmit), (zero_frame, ActionFailed)] \<and>
      \<not> Pri_Busy p'"
proof -
  define p where "p = fst (pri_step (InSend [0xC0, 1]) sample_primary)"
  have p: "pri_inv p" "Pri_Busy p" "MaxRetries p = 2" "retries p = 0"
    unfolding p_def by (rule pri_step_inv [OF sample_primary_inv]) (simp_all add: sample_primary_def primary_defs)
  have r: "replicate 3 InTimeout = [InTimeout, InTimeout, InTimeout]"
    "replicate 2 x = [x, x]" for x :: "link_frame \<times> Action"
    by (simp_all add: numeral_3_eq_3 numeral_2_eq_2)
  show ?thesis
    unfolding p_def [symmetric]
    using retransmissions_bounded [OF p(1,2)] p(2)
    by (simp add: p(3,4) r Let_def case_prod_beta del: replicate_Suc run_ops.simps pri_step.simps)
qed

end
