(* ===== verification/Link_Secondary.thy ===== *)
theory Link_Secondary
  imports Link_Frame
begin

text \<open>
  The receiving half of the link layer, \<^verbatim>\<open>internal/link/secondary.go\<close>: it answers the reset
  handshake, checks the frame count bit of confirmed user data and hands accepted payloads
  up. The lemmas say exactly which frames it accepts, what it replies, and that broadcasts
  never make it reply or change its state.
\<close>

section \<open>State and operations\<close>

record secondary =
  SecLocalAddr :: u16
  SecIsMaster :: bool
  sec_reset :: bool
  expectFCB :: bool

text \<open>
  \<open>None\<close> stands for a nil reply and a nil payload. An accepted payload is never nil: the
  length check lets user data through only when there is some.
\<close>

record sec_result =
  Reply :: "link_frame option"
  SecPayload :: "byte list option"
  SecDiscarded :: bool

definition validControl :: "link_control \<Rightarrow> bool" where
  "validControl c =
     (if LFunc c = FuncTestLinkStates \<or> LFunc c = FuncConfirmedUserData then Fcv c
      else if LFunc c = FuncResetLinkStates \<or> LFunc c = FuncUnconfirmedUserData \<or>
              LFunc c = FuncRequestLinkStatus then \<not> Fcv c
      else True)"

definition validLength :: "link_control \<Rightarrow> byte list \<Rightarrow> bool" where
  "validLength c payload =
     (if LFunc c = FuncConfirmedUserData \<or> LFunc c = FuncUnconfirmedUserData then length payload > 0
      else if LFunc c = FuncResetLinkStates \<or> LFunc c = FuncTestLinkStates \<or>
              LFunc c = FuncRequestLinkStatus then length payload = 0
      else True)"

definition Sec_Reset :: "secondary \<Rightarrow> secondary" where
  "Sec_Reset s = s\<lparr>sec_reset := False, expectFCB := False\<rparr>"

definition Sec_reply :: "secondary \<Rightarrow> byte \<Rightarrow> u16 \<Rightarrow> link_frame" where
  "Sec_reply s fn dest =
     \<lparr>LHeader = \<lparr>LControl = \<lparr>Dir = SecIsMaster s, Prm = False, Fcb = False, Fcv = False, LFunc = fn\<rparr>,
        Dest = dest, Src = SecLocalAddr s, LLength = of_nat MinLength\<rparr>,
      Payload = []\<rparr>"

definition onBroadcast :: "link_frame \<Rightarrow> sec_result" where
  "onBroadcast f =
     (let fn = LFunc (LControl (LHeader f))
      in if fn = FuncConfirmedUserData \<or> fn = FuncUnconfirmedUserData
         then \<lparr>Reply = None, SecPayload = Some (Payload f), SecDiscarded = False\<rparr>
         else \<lparr>Reply = None, SecPayload = None, SecDiscarded = True\<rparr>)"

definition Sec_OnFrame :: "link_frame \<Rightarrow> secondary \<Rightarrow> secondary \<times> sec_result" where
  "Sec_OnFrame f s =
     (let c = LControl (LHeader f);
          nothing = \<lparr>Reply = None, SecPayload = None, SecDiscarded = False\<rparr>
      in if \<not> Prm c then (s, nothing)
         else if \<not> validControl c \<or> \<not> validLength c (Payload f) then (s, nothing\<lparr>SecDiscarded := True\<rparr>)
         else if IsBroadcast (Dest (LHeader f)) then (s, onBroadcast f)
         else
           let src = Src (LHeader f);
               answer = (\<lambda>fn. nothing\<lparr>Reply := Some (Sec_reply s fn src)\<rparr>)
           in if LFunc c = FuncResetLinkStates then
                (s\<lparr>sec_reset := True, expectFCB := True\<rparr>, answer FuncAck)
              else if LFunc c = FuncTestLinkStates then
                if \<not> sec_reset s then (s, answer FuncNack)
                else if Fcb c \<noteq> expectFCB s then (s, answer FuncNack)
                else (s\<lparr>expectFCB := \<not> expectFCB s\<rparr>, answer FuncAck)
              else if LFunc c = FuncConfirmedUserData then
                if \<not> sec_reset s then (s, (answer FuncNack)\<lparr>SecDiscarded := True\<rparr>)
                else if Fcb c \<noteq> expectFCB s then (s, (answer FuncAck)\<lparr>SecDiscarded := True\<rparr>)
                else (s\<lparr>expectFCB := \<not> expectFCB s\<rparr>, (answer FuncAck)\<lparr>SecPayload := Some (Payload f)\<rparr>)
              else if LFunc c = FuncUnconfirmedUserData then (s, nothing\<lparr>SecPayload := Some (Payload f)\<rparr>)
              else if LFunc c = FuncRequestLinkStatus then (s, answer FuncLinkStatus)
              else (s, answer FuncNotSupported))"

lemmas secondary_defs = Sec_OnFrame_def onBroadcast_def validControl_def validLength_def Let_def

section \<open>What is accepted and what is answered\<close>

lemma wf_Sec_reply: "fn AND 0x0F = fn \<Longrightarrow> wf_frame (Sec_reply s fn d)"
  by (simp add: wf_frame_def Sec_reply_def)

lemma Reply_wf: "Reply (snd (Sec_OnFrame f s)) = Some g \<Longrightarrow> wf_frame g"
  by (auto simp: secondary_defs wf_Sec_reply split: if_splits)

text \<open>The frames whose payload goes up, as one condition.\<close>

definition accepted :: "secondary \<Rightarrow> link_frame \<Rightarrow> bool" where
  "accepted s f \<longleftrightarrow>
     (let c = LControl (LHeader f)
      in Prm c \<and> Payload f \<noteq> [] \<and>
         (LFunc c = FuncUnconfirmedUserData \<and> \<not> Fcv c \<or>
          LFunc c = FuncConfirmedUserData \<and> Fcv c \<and>
            (IsBroadcast (Dest (LHeader f)) \<or> sec_reset s \<and> Fcb c = expectFCB s)))"

text \<open>
  The secondary passes a payload up exactly for well-formed user data: unconfirmed, or
  broadcast, or confirmed on a reset link with the expected frame count bit; the payload is
  the frame's and is not empty. Whatever it replies is a well-formed secondary frame without
  user data or flow control, from its own address to the frame's source.
\<close>

theorem Sec_OnFrame_accepts:
  "case Sec_OnFrame f s of (s', res) \<Rightarrow>
     SecPayload res = (if accepted s f then Some (Payload f) else None) \<and>
     (case Reply res of None \<Rightarrow> True | Some g \<Rightarrow>
        wf_frame g \<and> \<not> Prm (LControl (LHeader g)) \<and> \<not> Dfc (LControl (LHeader g)) \<and> Payload g = [] \<and>
        Src (LHeader g) = SecLocalAddr s \<and> Dest (LHeader g) = Src (LHeader f))"
  by (auto simp: secondary_defs accepted_def Sec_reply_def Dfc_def wf_frame_def)

text \<open>
  A frame to a broadcast address never makes the secondary transmit and never touches the
  frame count state of the confirmed exchange with its peer.
\<close>

theorem broadcast_silent:
  assumes "IsBroadcast (Dest (LHeader f))"
  shows "fst (Sec_OnFrame f s) = s \<and> Reply (snd (Sec_OnFrame f s)) = None"
  using assms by (auto simp: secondary_defs)

definition broadcast_frame :: link_frame where
  "broadcast_frame = \<lparr>LHeader = \<lparr>LControl = \<lparr>Dir = True, Prm = True, Fcb = True, Fcv = True, LFunc = FuncConfirmedUserData\<rparr>,
     Dest = BroadcastNoConfirm, Src = 1, LLength = 6\<rparr>, Payload = [0xC0]\<rparr>"

definition sample_secondary :: secondary where
  "sample_secondary = \<lparr>SecLocalAddr = 10, SecIsMaster = False, sec_reset = True, expectFCB = True\<rparr>"

theorem broadcast_silent_witness:
  "IsBroadcast (Dest (LHeader broadcast_frame)) \<and>
   Sec_OnFrame broadcast_frame sample_secondary
     = (sample_secondary, \<lparr>Reply = None, SecPayload = Some [0xC0], SecDiscarded = False\<rparr>)"
proof -
  have b: "IsBroadcast (Dest (LHeader broadcast_frame))" by (simp add: broadcast_frame_def IsBroadcast_def)
  moreover have "SecPayload (snd (Sec_OnFrame broadcast_frame sample_secondary)) = Some [0xC0]"
    "\<not> SecDiscarded (snd (Sec_OnFrame broadcast_frame sample_secondary))"
    using b by (simp_all add: secondary_defs) (simp_all add: broadcast_frame_def)
  ultimately show ?thesis
    using broadcast_silent [OF b, of sample_secondary] by (simp add: prod_eq_iff)
qed

section \<open>The confirmed exchange, case by case\<close>

text \<open>How a secondary answers the two frames of the confirmed exchange; the client uses these.\<close>

definition reset_frame :: "link_frame \<Rightarrow> bool" where
  "reset_frame f \<longleftrightarrow> (let c = LControl (LHeader f) in
     Prm c \<and> LFunc c = FuncResetLinkStates \<and> \<not> Fcv c \<and> Payload f = [] \<and> \<not> IsBroadcast (Dest (LHeader f)))"

definition data_frame :: "bool \<Rightarrow> byte list \<Rightarrow> link_frame \<Rightarrow> bool" where
  "data_frame fcb d f \<longleftrightarrow> (let c = LControl (LHeader f) in
     Prm c \<and> LFunc c = FuncConfirmedUserData \<and> Fcv c \<and> Fcb c = fcb \<and> Payload f = d \<and> d \<noteq> [] \<and>
     \<not> IsBroadcast (Dest (LHeader f)))"

definition ack_frame :: "link_frame \<Rightarrow> bool" where
  "ack_frame f \<longleftrightarrow> (let c = LControl (LHeader f) in
     \<not> Prm c \<and> LFunc c = FuncAck \<and> \<not> Fcv c \<and> Payload f = [])"

lemma Sec_on_reset:
  "reset_frame f \<Longrightarrow> \<exists>g. Sec_OnFrame f s = (s\<lparr>sec_reset := True, expectFCB := True\<rparr>,
     \<lparr>Reply = Some g, SecPayload = None, SecDiscarded = False\<rparr>) \<and> ack_frame g"
  by (auto simp: secondary_defs reset_frame_def ack_frame_def Sec_reply_def)

lemma Sec_on_data_new:
  "data_frame (expectFCB s) d f \<Longrightarrow> sec_reset s \<Longrightarrow>
   \<exists>g. Sec_OnFrame f s = (s\<lparr>expectFCB := \<not> expectFCB s\<rparr>,
     \<lparr>Reply = Some g, SecPayload = Some d, SecDiscarded = False\<rparr>) \<and> ack_frame g"
  by (auto simp: secondary_defs data_frame_def ack_frame_def Sec_reply_def)

lemma Sec_on_data_again:
  "data_frame (\<not> expectFCB s) d f \<Longrightarrow> sec_reset s \<Longrightarrow>
   \<exists>g. Sec_OnFrame f s = (s, \<lparr>Reply = Some g, SecPayload = None, SecDiscarded = True\<rparr>) \<and> ack_frame g"
  by (auto simp: secondary_defs data_frame_def ack_frame_def Sec_reply_def)

end
