(* ===== verification/Link_Exchange.thy ===== *)
theory Link_Exchange
  imports Link_Primary Link_Secondary
begin

text \<open>
  A primary and its peer's secondary joined by a line that may lose any frame, in either
  direction. The step relation runs the two state machines of the code; the only assumption
  about the session between them is that its response timer outlasts a frame in flight: the
  timer fires only when nothing is left on the line. The acknowledgements of this protocol
  carry no sequence bit, so an earlier timeout would let a late acknowledgement confirm the
  wrong frame. The theorems give exactly-once delivery in order, and progress on a line that
  loses nothing.
\<close>

section \<open>Model\<close>

text \<open>
  \<open>x_log\<close> records what became of each payload the primary was given (true for completed,
  false for abandoned), \<open>x_got\<close> what the secondary handed up.
\<close>

record exchange =
  x_pri :: primary
  x_sec :: secondary
  x_fwd :: "link_frame option"
  x_rev :: "link_frame option"
  x_log :: "(byte list \<times> bool) list"
  x_got :: "byte list list"

definition outcome :: "primary \<Rightarrow> Action \<Rightarrow> (byte list \<times> bool) list" where
  "outcome p a = (if pending p = [] then []
     else if a = ActionComplete then [(pending p, True)]
     else if a = ActionFailed then [(pending p, False)] else [])"

definition on_wire :: "link_frame \<Rightarrow> Action \<Rightarrow> link_frame option" where
  "on_wire f a = (if a = ActionTransmit then Some f else None)"

inductive xstep :: "exchange \<Rightarrow> exchange \<Rightarrow> bool" where
  send: "\<not> Pri_Busy (x_pri x) \<Longrightarrow> d \<noteq> [] \<Longrightarrow> Pri_Send d (x_pri x) = (p', f, a, None) \<Longrightarrow>
    xstep x (x\<lparr>x_pri := p', x_fwd := on_wire f a\<rparr>)"
| status: "\<not> Pri_Busy (x_pri x) \<Longrightarrow> RequestLinkStatus (x_pri x) = (p', f, a, None) \<Longrightarrow>
    xstep x (x\<lparr>x_pri := p', x_fwd := on_wire f a\<rparr>)"
| lose_fwd: "xstep x (x\<lparr>x_fwd := None\<rparr>)"
| lose_rev: "xstep x (x\<lparr>x_rev := None\<rparr>)"
| arrive: "x_fwd x = Some f \<Longrightarrow> Sec_OnFrame f (x_sec x) = (s', res) \<Longrightarrow>
    xstep x (x\<lparr>x_sec := s', x_fwd := None, x_rev := Reply res,
      x_got := x_got x @ (case SecPayload res of None \<Rightarrow> [] | Some d \<Rightarrow> [d])\<rparr>)"
| answer: "x_rev x = Some f \<Longrightarrow> Pri_OnFrame f (x_pri x) = (p', g, a) \<Longrightarrow>
    xstep x (x\<lparr>x_pri := p', x_rev := None, x_fwd := on_wire g a, x_log := x_log x @ outcome (x_pri x) a\<rparr>)"
| timeout: "x_fwd x = None \<Longrightarrow> x_rev x = None \<Longrightarrow> Pri_OnTimeout (x_pri x) = (p', g, a) \<Longrightarrow>
    xstep x (x\<lparr>x_pri := p', x_fwd := on_wire g a, x_log := x_log x @ outcome (x_pri x) a\<rparr>)"

inductive_cases xstepE: "xstep x y"

text \<open>
  \<open>explains log got\<close>: the payloads handed up are the completed ones, each exactly once and in
  order, with each abandoned one in its place or missing.
\<close>

fun explains :: "(byte list \<times> bool) list \<Rightarrow> byte list list \<Rightarrow> bool" where
  "explains [] got \<longleftrightarrow> got = []"
| "explains ((d, True) # log) got \<longleftrightarrow> (case got of [] \<Rightarrow> False | g # gs \<Rightarrow> g = d \<and> explains log gs)"
| "explains ((d, False) # log) got \<longleftrightarrow>
     explains log got \<or> (case got of [] \<Rightarrow> False | g # gs \<Rightarrow> g = d \<and> explains log gs)"

lemma explains_snoc: "explains log got \<Longrightarrow> explains (log @ [(d, b)]) (got @ [d])"
  by (induction log got rule: explains.induct; cases b) (auto split: list.splits)

lemma explains_abandoned: "explains log got \<Longrightarrow> explains (log @ [(d, False)]) got"
  by (induction log got rule: explains.induct) (auto split: list.splits)

section \<open>Invariant\<close>

text \<open>The two stations agree on the next frame count bit.\<close>

definition in_step :: "primary \<Rightarrow> secondary \<Rightarrow> bool" where
  "in_step p s \<longleftrightarrow> (linkUp p \<longrightarrow> sec_reset s \<and> expectFCB s = pri_fcb p)"

definition phase_inv :: "exchange \<Rightarrow> bool" where
  "phase_inv x \<longleftrightarrow> (let p = x_pri x; s = x_sec x in
     case pri_state p of
       priIdle \<Rightarrow> x_fwd x = None \<and> x_rev x = None \<and> in_step p s \<and> explains (x_log x) (x_got x)
     | priWaitLinkReset \<Rightarrow> pending p \<noteq> [] \<and> explains (x_log x) (x_got x) \<and>
         (x_rev x \<noteq> None \<longrightarrow> sec_reset s \<and> expectFCB s)
     | priWaitConfirm \<Rightarrow> pending p \<noteq> [] \<and> sec_reset s \<and>
         (if expectFCB s = pri_fcb p then x_rev x = None \<and> explains (x_log x) (x_got x)
          else \<exists>got. x_got x = got @ [pending p] \<and> explains (x_log x) got)
     | priWaitStatus \<Rightarrow> in_step p s \<and> explains (x_log x) (x_got x))"

definition line_inv :: "exchange \<Rightarrow> bool" where
  "line_inv x \<longleftrightarrow> (x_fwd x = None \<or> x_rev x = None \<and> x_fwd x = awaited (x_pri x)) \<and>
     (case x_rev x of None \<Rightarrow> True | Some g \<Rightarrow>
        if pri_state (x_pri x) = priWaitStatus
        then LControl (LHeader g) = \<lparr>Dir = SecIsMaster (x_sec x), Prm = False, Fcb = False, Fcv = False, LFunc = FuncLinkStatus\<rparr> \<and> Payload g = []
        else ack_frame g)"

definition xinv :: "exchange \<Rightarrow> bool" where
  "xinv x \<longleftrightarrow> pri_inv (x_pri x) \<and> UseConfirms (x_pri x) \<and> \<not> IsBroadcast (PriRemoteAddr (x_pri x)) \<and>
     phase_inv x \<and> line_inv x"

section \<open>Preservation\<close>

lemma reset_frame_Pri: "\<not> IsBroadcast (PriRemoteAddr p) \<Longrightarrow> reset_frame (Pri_frame p FuncResetLinkStates False False [])"
  by (simp add: reset_frame_def Pri_frame_def)

lemma data_frame_Pri:
  "\<not> IsBroadcast (PriRemoteAddr p) \<Longrightarrow> d \<noteq> [] \<Longrightarrow> data_frame b d (Pri_frame p FuncConfirmedUserData b True d)"
  by (simp add: data_frame_def Pri_frame_def)

lemma Sec_on_status:
  "\<not> IsBroadcast (PriRemoteAddr p) \<Longrightarrow>
   \<exists>g. Sec_OnFrame (Pri_frame p FuncRequestLinkStatus False False []) s =
     (s, \<lparr>Reply = Some g, SecPayload = None, SecDiscarded = False\<rparr>) \<and> Payload g = [] \<and>
     LControl (LHeader g) = \<lparr>Dir = SecIsMaster s, Prm = False, Fcb = False, Fcv = False, LFunc = FuncLinkStatus\<rparr>"
  by (simp add: secondary_defs Pri_frame_def Sec_reply_def)

lemmas exchange_defs = xinv_def phase_inv_def line_inv_def Let_def in_step_def outcome_def on_wire_def

lemma xinv_send:
  assumes "xinv x" "\<not> Pri_Busy (x_pri x)" "d \<noteq> []" "Pri_Send d (x_pri x) = (p', f, a, None)"
  shows "xinv (x\<lparr>x_pri := p', x_fwd := on_wire f a\<rparr>)"
proof -
  have "pri_inv p'" using pri_step_inv [of "x_pri x" "InSend d"] assms by (simp add: xinv_def)
  then show ?thesis using assms by (auto simp: exchange_defs primary_defs split: if_splits)
qed

lemma xinv_status:
  assumes "xinv x" "\<not> Pri_Busy (x_pri x)" "RequestLinkStatus (x_pri x) = (p', f, a, None)"
  shows "xinv (x\<lparr>x_pri := p', x_fwd := on_wire f a\<rparr>)"
proof -
  have "pri_inv p'" using pri_step_inv [of "x_pri x" InStatus] assms by (simp add: xinv_def)
  then show ?thesis using assms by (auto simp: exchange_defs primary_defs split: if_splits)
qed

lemma phase_inv_lose:
  "phase_inv x \<Longrightarrow> phase_inv (x\<lparr>x_fwd := None\<rparr>)" "phase_inv x \<Longrightarrow> phase_inv (x\<lparr>x_rev := None\<rparr>)"
  by (cases "pri_state (x_pri x)"; simp add: phase_inv_def Let_def split: if_splits)+

lemma line_inv_lose:
  "line_inv x \<Longrightarrow> line_inv (x\<lparr>x_fwd := None\<rparr>)" "line_inv x \<Longrightarrow> line_inv (x\<lparr>x_rev := None\<rparr>)"
  by (auto simp: line_inv_def simp del: awaited.simps split: option.splits)

lemma xinv_lose: "xinv x \<Longrightarrow> xinv (x\<lparr>x_fwd := None\<rparr>)" "xinv x \<Longrightarrow> xinv (x\<lparr>x_rev := None\<rparr>)"
  by (simp_all add: xinv_def phase_inv_lose line_inv_lose)

lemma xinv_arrive:
  assumes "xinv x" "x_fwd x = Some f" "Sec_OnFrame f (x_sec x) = (s', res)"
  shows "xinv (x\<lparr>x_sec := s', x_fwd := None, x_rev := Reply res,
      x_got := x_got x @ (case SecPayload res of None \<Rightarrow> [] | Some d \<Rightarrow> [d])\<rparr>)"
proof -
  let ?p = "x_pri x" and ?s = "x_sec x"
  have nb: "\<not> IsBroadcast (PriRemoteAddr ?p)" and aw: "awaited ?p = Some f" and rev: "x_rev x = None"
    using assms(1,2) by (auto simp: exchange_defs simp del: awaited.simps)
  show ?thesis
  proof (cases "pri_state ?p")
    case priWaitLinkReset
    then show ?thesis
      using assms aw Sec_on_reset [OF reset_frame_Pri [OF nb], of ?s] by (auto simp: exchange_defs)
  next
    case priWaitConfirm
    then have "pending ?p \<noteq> []" "sec_reset ?s" using assms(1) by (auto simp: exchange_defs)
    moreover from this have "data_frame (pri_fcb ?p) (pending ?p) f"
      using aw priWaitConfirm data_frame_Pri [OF nb] by auto
    ultimately show ?thesis
      using assms rev priWaitConfirm Sec_on_data_new [of ?s "pending ?p" f]
        Sec_on_data_again [of ?s "pending ?p" f]
      by (cases "expectFCB ?s = pri_fcb ?p") (auto simp: exchange_defs)
  next
    case priWaitStatus
    then show ?thesis using assms aw Sec_on_status [OF nb, of ?s] by (auto simp: exchange_defs)
  qed (use aw in auto)
qed

text \<open>How the primary takes the three answers it can get, and a timeout.\<close>

lemma Pri_on_ack_reset:
  "ack_frame g \<Longrightarrow> pri_state p = priWaitLinkReset \<Longrightarrow>
   Pri_OnFrame g p = sendPending (p\<lparr>dfc := False, linkUp := True, pri_fcb := True, retries := 0\<rparr>)"
  by (simp add: Pri_OnFrame_def ack_frame_def Dfc_def Let_def)

lemma Pri_on_ack_confirm:
  "ack_frame g \<Longrightarrow> pri_state p = priWaitConfirm \<Longrightarrow>
   Pri_OnFrame g p = (p\<lparr>dfc := False, pri_fcb := \<not> pri_fcb p, pri_state := priIdle, pending := [], retries := 0\<rparr>,
     zero_frame, ActionComplete)"
  by (simp add: Pri_OnFrame_def ack_frame_def Dfc_def Let_def)

lemma Pri_on_status:
  "Payload g = [] \<Longrightarrow> LControl (LHeader g) = \<lparr>Dir = b, Prm = False, Fcb = False, Fcv = False, LFunc = FuncLinkStatus\<rparr> \<Longrightarrow>
   pri_state p = priWaitStatus \<Longrightarrow>
   Pri_OnFrame g p = (p\<lparr>dfc := False, pri_state := priIdle, retries := 0\<rparr>, zero_frame, ActionComplete)"
  by (simp add: Pri_OnFrame_def Dfc_def Let_def)

lemma xinv_answer:
  assumes "xinv x" "x_rev x = Some f" "Pri_OnFrame f (x_pri x) = (p', g, a)"
  shows "xinv (x\<lparr>x_pri := p', x_rev := None, x_fwd := on_wire g a, x_log := x_log x @ outcome (x_pri x) a\<rparr>)"
proof -
  let ?p = "x_pri x"
  have inv: "pri_inv p'" using pri_step_inv [of ?p "InFrame f"] assms by (simp add: xinv_def)
  show ?thesis
  proof (cases "pri_state ?p")
    case priWaitLinkReset
    then have "Pri_OnFrame f ?p = sendPending (?p\<lparr>dfc := False, linkUp := True, pri_fcb := True, retries := 0\<rparr>)"
      using assms(1,2) by (intro Pri_on_ack_reset) (simp_all add: exchange_defs)
    with assms inv priWaitLinkReset show ?thesis by (auto simp: exchange_defs sendPending_def)
  next
    case priWaitConfirm
    then have "Pri_OnFrame f ?p = (?p\<lparr>dfc := False, pri_fcb := \<not> pri_fcb ?p, pri_state := priIdle, pending := [], retries := 0\<rparr>,
        zero_frame, ActionComplete)"
      using assms(1,2) by (intro Pri_on_ack_confirm) (simp_all add: exchange_defs)
    with assms inv priWaitConfirm show ?thesis by (auto simp: exchange_defs explains_snoc split: if_splits)
  next
    case priWaitStatus
    then have "Pri_OnFrame f ?p = (?p\<lparr>dfc := False, pri_state := priIdle, retries := 0\<rparr>, zero_frame, ActionComplete)"
      using assms(1,2) by (intro Pri_on_status) (simp_all add: exchange_defs)
    moreover have "pending ?p = []" using assms(1) priWaitStatus by (simp add: xinv_def pri_inv_def)
    ultimately show ?thesis using assms inv priWaitStatus by (auto simp: exchange_defs)
  qed (use assms(1,2) in \<open>simp add: exchange_defs\<close>)
qed

lemma xinv_timeout:
  assumes "xinv x" "x_fwd x = None" "x_rev x = None" "Pri_OnTimeout (x_pri x) = (p', g, a)"
  shows "xinv (x\<lparr>x_pri := p', x_fwd := on_wire g a, x_log := x_log x @ outcome (x_pri x) a\<rparr>)"
proof -
  let ?p = "x_pri x"
  have inv: "pri_inv p'" "pri_inv ?p" using pri_step_inv [of ?p InTimeout] assms by (simp_all add: xinv_def)
  consider "?p = p'" "a = ActionNone" "pri_state ?p = priIdle"
    | "p' = fst (fail ?p)" "a = ActionFailed" "pri_state ?p \<noteq> priIdle"
    | "p' = ?p\<lparr>retries := retries ?p + 1\<rparr>" "g = lastSent ?p" "a = ActionTransmit" "pri_state ?p \<noteq> priIdle"
    using assms(4) by (auto simp: Pri_OnTimeout_def fail_def Let_def split: if_splits)
  then show ?thesis
  proof cases
    case 1
    then show ?thesis using assms by (simp add: exchange_defs)
  next
    case 2
    then show ?thesis using assms(1-3) inv
      by (cases "pri_state ?p")
        (auto simp: exchange_defs fail_def pri_inv_def explains_snoc explains_abandoned split: if_splits)
  next
    case 3
    moreover from 3 inv(2) have "awaited ?p = Some g" by (cases "pri_state ?p") (simp_all add: pri_inv_def)
    ultimately show ?thesis using assms(1-3) inv
      by (cases "pri_state ?p") (simp_all add: exchange_defs)
  qed
qed

lemma xstep_inv [inv_intros]: "xstep x y \<Longrightarrow> xinv x \<Longrightarrow> xinv y"
  by (erule xstepE)
    (auto intro: xinv_send xinv_status xinv_lose xinv_arrive xinv_answer xinv_timeout)

lemma reachable_inv: "xstep\<^sup>*\<^sup>* x y \<Longrightarrow> xinv x \<Longrightarrow> xinv y"
  by (induction rule: rtranclp_induct) (auto intro: xstep_inv)

section \<open>Exactly-once delivery\<close>

definition start_exchange :: "primary \<Rightarrow> secondary \<Rightarrow> exchange" where
  "start_exchange p s = \<lparr>x_pri = p, x_sec = s, x_fwd = None, x_rev = None, x_log = [], x_got = []\<rparr>"

lemma xinv_start:
  "pri_inv p \<Longrightarrow> \<not> Pri_Busy p \<Longrightarrow> \<not> linkUp p \<Longrightarrow> UseConfirms p \<Longrightarrow> \<not> IsBroadcast (PriRemoteAddr p) \<Longrightarrow>
   xinv (start_exchange p s)"
  by (simp add: exchange_defs start_exchange_def Pri_Busy_def)

lemma xinv_explains: "xinv x \<Longrightarrow> explains (x_log x @ outcome (x_pri x) ActionFailed) (x_got x)"
  by (cases "pri_state (x_pri x)")
    (auto simp: exchange_defs pri_inv_def explains_snoc explains_abandoned split: if_splits)

text \<open>
  A line that loses nothing: frames arrive and are answered, and the response timer fires when
  the primary waits with nothing left on the line.
\<close>

inductive clean_step :: "exchange \<Rightarrow> exchange \<Rightarrow> bool" where
  arrive: "x_fwd x = Some f \<Longrightarrow> Sec_OnFrame f (x_sec x) = (s', res) \<Longrightarrow>
    clean_step x (x\<lparr>x_sec := s', x_fwd := None, x_rev := Reply res,
      x_got := x_got x @ (case SecPayload res of None \<Rightarrow> [] | Some d \<Rightarrow> [d])\<rparr>)"
| answer: "x_rev x = Some f \<Longrightarrow> Pri_OnFrame f (x_pri x) = (p', g, a) \<Longrightarrow>
    clean_step x (x\<lparr>x_pri := p', x_rev := None, x_fwd := on_wire g a, x_log := x_log x @ outcome (x_pri x) a\<rparr>)"
| timeout: "x_fwd x = None \<Longrightarrow> x_rev x = None \<Longrightarrow> Pri_Busy (x_pri x) \<Longrightarrow> Pri_OnTimeout (x_pri x) = (p', g, a) \<Longrightarrow>
    clean_step x (x\<lparr>x_pri := p', x_fwd := on_wire g a, x_log := x_log x @ outcome (x_pri x) a\<rparr>)"

inductive_cases clean_stepE: "clean_step x y"

lemma clean_xstep: "clean_step x y \<Longrightarrow> xstep x y"
  by (induction rule: clean_step.induct) (auto intro: xstep.intros)

text \<open>
  \<open>settles k x D\<close>: whatever happens from \<open>x\<close> on a line that loses nothing, it is over after at
  most \<open>k\<close> steps, and then \<open>D\<close> holds.
\<close>

definition settles :: "nat \<Rightarrow> exchange \<Rightarrow> (exchange \<Rightarrow> bool) \<Rightarrow> bool" where
  "settles k x D \<longleftrightarrow> (\<forall>m z. (clean_step ^^ m) x z \<longrightarrow> m \<le> k) \<and>
     (\<forall>z. clean_step\<^sup>*\<^sup>* x z \<and> (\<nexists>z'. clean_step z z') \<longrightarrow> D z)"

lemma settles_over: "(\<nexists>z. clean_step x z) \<Longrightarrow> D x \<Longrightarrow> settles 0 x D"
proof -
  assume over: "\<nexists>z. clean_step x z" and d: "D x"
  have "m \<le> 0" if "(clean_step ^^ m) x z" for m z
    using that over relpowp_Suc_D2 [of _ clean_step x z] by (cases m) blast+
  moreover have "D z" if "clean_step\<^sup>*\<^sup>* x z" for z using that over d by (metis converse_rtranclpE)
  ultimately show ?thesis by (auto simp: settles_def)
qed

lemma settles_step:
  assumes "clean_step x y" "\<And>z. clean_step x z \<Longrightarrow> settles k z D"
  shows "settles (Suc k) x D"
proof -
  have "m \<le> Suc k" if "(clean_step ^^ m) x z" for m z
  proof (cases m)
    case (Suc n)
    then show ?thesis using that assms(2) relpowp_Suc_D2 [of n clean_step x z] unfolding settles_def by blast
  qed simp
  moreover have "D z" if "clean_step\<^sup>*\<^sup>* x z" "\<nexists>z'. clean_step z z'" for z
    using that assms unfolding settles_def by (metis converse_rtranclpE)
  ultimately show ?thesis by (auto simp: settles_def)
qed

lemma settles_reaches: "settles k x D \<Longrightarrow> \<exists>z. clean_step\<^sup>*\<^sup>* x z \<and> D z"
proof (induction k arbitrary: x)
  case (Suc k)
  show ?case
  proof (cases "\<exists>y. clean_step x y")
    case True
    then obtain y where y: "clean_step x y" by blast
    then have "settles k y D"
      using Suc.prems unfolding settles_def by (metis Suc_le_mono converse_rtranclp_into_rtranclp relpowp_Suc_I2)
    with y Suc.IH show ?thesis by (blast intro: converse_rtranclp_into_rtranclp)
  qed (use Suc.prems in \<open>auto simp: settles_def\<close>)
next
  case 0
  then have "\<nexists>y. clean_step x y" unfolding settles_def by (metis relpowp_1 not_one_le_zero)
  with 0 show ?case by (auto simp: settles_def)
qed

text \<open>A frame on the way, or its answer, leaves only one thing to happen.\<close>

lemma settles_arrive:
  assumes "x_fwd x = Some f" "x_rev x = None" "Sec_OnFrame f (x_sec x) = (s', res)"
    and "settles k (x\<lparr>x_sec := s', x_fwd := None, x_rev := Reply res,
      x_got := x_got x @ (case SecPayload res of None \<Rightarrow> [] | Some d \<Rightarrow> [d])\<rparr>) D"
  shows "settles (Suc k) x D"
  by (rule settles_step [OF clean_step.arrive [OF assms(1,3)]]) (use assms in \<open>auto elim!: clean_stepE\<close>)

lemma settles_answer:
  assumes "x_fwd x = None" "x_rev x = Some f" "Pri_OnFrame f (x_pri x) = (p', g, a)"
    and "settles k (x\<lparr>x_pri := p', x_rev := None, x_fwd := on_wire g a, x_log := x_log x @ outcome (x_pri x) a\<rparr>) D"
  shows "settles (Suc k) x D"
  by (rule settles_step [OF clean_step.answer [OF assms(2,3)]]) (use assms in \<open>auto elim!: clean_stepE\<close>)

lemma settles_idle:
  assumes "x_fwd x = None" "x_rev x = None" "\<not> Pri_Busy (x_pri x)" "D x"
  shows "settles 0 x D"
  by (rule settles_over) (use assms in \<open>auto elim!: clean_stepE\<close>)

text \<open>The payload in the confirm phase is handed up and completed.\<close>

lemma confirm_completes:
  assumes "xinv x" "pri_state (x_pri x) = priWaitConfirm" "x_fwd x = awaited (x_pri x)" "x_rev x = None"
    "expectFCB (x_sec x) = pri_fcb (x_pri x)"
  shows "settles 2 x (\<lambda>y. \<not> Pri_Busy (x_pri y) \<and> x_fwd y = None \<and> x_rev y = None \<and>
    x_log y = x_log x @ [(pending (x_pri x), True)] \<and> x_got y = x_got x @ [pending (x_pri x)])" (is "settles 2 x ?D")
proof -
  let ?p = "x_pri x" and ?s = "x_sec x" and ?f = "Pri_frame (x_pri x) FuncConfirmedUserData (pri_fcb (x_pri x)) True (pending (x_pri x))"
  have d: "pending ?p \<noteq> []" "sec_reset ?s" "\<not> IsBroadcast (PriRemoteAddr ?p)"
    using assms(1,2) by (simp_all add: exchange_defs)
  obtain g where g: "Sec_OnFrame ?f ?s = (?s\<lparr>expectFCB := \<not> expectFCB ?s\<rparr>,
      \<lparr>Reply = Some g, SecPayload = Some (pending ?p), SecDiscarded = False\<rparr>)" "ack_frame g"
    using Sec_on_data_new [of ?s "pending ?p" ?f] data_frame_Pri [OF d(3,1)] d(2) assms(5) by auto
  let ?y = "x\<lparr>x_sec := ?s\<lparr>expectFCB := \<not> expectFCB ?s\<rparr>, x_fwd := None, x_rev := Some g,
      x_got := x_got x @ [pending ?p]\<rparr>"
  have "settles (Suc 0) ?y ?D"
    by (rule settles_answer [OF _ _ Pri_on_ack_confirm [OF g(2)]])
      (use assms(2) d(1) in \<open>auto simp: outcome_def on_wire_def Pri_Busy_def intro!: settles_idle\<close>)
  then show ?thesis
    unfolding numeral_2_eq_2 using assms(2,3,4) by (intro settles_arrive [OF _ _ g(1)]) simp_all
qed

text \<open>The handshake leads into the confirm phase.\<close>

lemma reset_leads_to_confirm:
  assumes "xinv x" "pri_state (x_pri x) = priWaitLinkReset" "x_fwd x = awaited (x_pri x)" "x_rev x = None"
  shows "settles 4 x (\<lambda>y. \<not> Pri_Busy (x_pri y) \<and> x_fwd y = None \<and> x_rev y = None \<and>
    x_log y = x_log x @ [(pending (x_pri x), True)] \<and> x_got y = x_got x @ [pending (x_pri x)])" (is "settles 4 x ?D")
proof -
  let ?p = "x_pri x" and ?s = "x_sec x" and ?f = "Pri_frame (x_pri x) FuncResetLinkStates False False []"
  have d: "pending ?p \<noteq> []" "\<not> IsBroadcast (PriRemoteAddr ?p)"
    using assms(1,2) by (simp_all add: exchange_defs)
  obtain g where g: "Sec_OnFrame ?f ?s = (?s\<lparr>sec_reset := True, expectFCB := True\<rparr>,
      \<lparr>Reply = Some g, SecPayload = None, SecDiscarded = False\<rparr>)" "ack_frame g"
    using Sec_on_reset [OF reset_frame_Pri [OF d(2)], of ?s] by auto
  let ?y = "x\<lparr>x_sec := ?s\<lparr>sec_reset := True, expectFCB := True\<rparr>, x_fwd := None, x_rev := Some g\<rparr>"
  obtain p' f' a where a: "Pri_OnFrame g ?p = (p', f', a)" by (metis prod_cases3)
  let ?z = "?y\<lparr>x_pri := p', x_rev := None, x_fwd := on_wire f' a, x_log := x_log ?y @ outcome ?p a\<rparr>"
  have y: "clean_step x ?y" using clean_step.arrive [OF _ g(1)] assms(2,3) by simp
  have z: "clean_step ?y ?z" using clean_step.answer [of ?y g p' f' a] a by simp
  have inv: "xinv ?z" using assms(1) y z clean_xstep xstep_inv by blast
  have "settles 2 ?z ?D"
    using confirm_completes [OF inv] a Pri_on_ack_reset [OF g(2), of ?p] assms(2)
    by (fastforce simp: sendPending_def outcome_def on_wire_def Let_def)
  then have "settles 3 ?y ?D" using settles_answer [of ?y, OF _ _ ] a by (simp add: numeral_3_eq_3 numeral_2_eq_2)
  then show ?thesis using settles_arrive [OF _ assms(4) g(1)] assms(2,3) by (simp add: eval_nat_numeral)
qed

text \<open>The exchange once an idle primary has been given a payload to send.\<close>

definition given :: "byte list \<Rightarrow> exchange \<Rightarrow> exchange" where
  "given d x = (case Pri_Send d (x_pri x) of (p, f, a, err) \<Rightarrow> x\<lparr>x_pri := p, x_fwd := on_wire f a\<rparr>)"

lemma given_settles:
  assumes "xinv x" and "\<not> Pri_Busy (x_pri x)" "\<not> dfc (x_pri x)" and "d \<noteq> []" "length d \<le> MaxPayload"
  shows "xstep x (given d x)"
    and "settles 4 (given d x) (\<lambda>y. \<not> Pri_Busy (x_pri y) \<and> x_fwd y = None \<and> x_rev y = None \<and>
      x_log y = x_log x @ [(d, True)] \<and> x_got y = x_got x @ [d])" (is "settles 4 _ ?D")
proof -
  have "UseConfirms (x_pri x)" using assms(1) by (simp add: xinv_def)
  then obtain p' f where s: "Pri_Send d (x_pri x) = (p', f, ActionTransmit, None)" "pending p' = d"
    and st: "pri_state p' = (if linkUp (x_pri x) then priWaitConfirm else priWaitLinkReset)"
      "awaited p' = Some f" "pri_fcb p' = pri_fcb (x_pri x)"
    using Pri_Send_confirmed [OF _ assms(2,3,5)] by blast
  let ?y = "x\<lparr>x_pri := p', x_fwd := on_wire f ActionTransmit\<rparr>"
  have g: "given d x = ?y" by (simp add: given_def s(1))
  show y: "xstep x (given d x)" unfolding g using assms(2,4) s(1) by (rule xstep.send)
  then have inv: "xinv ?y" using assms(1) xstep_inv g by metis
  have line: "x_rev ?y = None" "x_fwd ?y = awaited (x_pri ?y)"
    using assms(1,2) st(2) by (simp_all add: exchange_defs Pri_Busy_def del: awaited.simps)
  show "settles 4 (given d x) ?D"
  proof (cases "linkUp (x_pri x)")
    case True
    then have "expectFCB (x_sec ?y) = pri_fcb (x_pri ?y)"
      using assms(1,2) st(3) by (simp add: exchange_defs Pri_Busy_def)
    then have "settles 2 ?y ?D" using confirm_completes [OF inv _ line(2,1)] True st(1) s(2) by simp
    then show ?thesis unfolding g settles_def by (meson le_trans numeral_le_iff semiring_norm)
  next
    case False
    then show ?thesis using reset_leads_to_confirm [OF inv _ line(2,1)] st(1) s(2) g by simp
  qed
qed

definition sample_exchange :: exchange where
  "sample_exchange = start_exchange sample_primary (Sec_Reset sample_secondary)"

lemma sample_exchange_inv: "xinv sample_exchange"
  unfolding sample_exchange_def
  by (rule xinv_start [OF sample_primary_inv]) (simp_all add: sample_primary_def Pri_Busy_def IsBroadcast_def)

lemma sample_idle: "\<not> Pri_Busy (x_pri sample_exchange)" "\<not> dfc (x_pri sample_exchange)"
  by (simp_all add: sample_exchange_def start_exchange_def sample_primary_def Pri_Busy_def)

text \<open>
  C1. Exactly once, in order: over a line that loses any frames in either direction, with
  retransmissions, handshakes and keep-alives interleaved, the payloads the secondary hands
  up are those the primary reported complete, each once and in the order they were sent,
  with each payload that was abandoned or is still in progress present at most once in its
  place. The frame count bit never lets a retransmission through twice.
\<close>

theorem exactly_once:
  assumes "xstep\<^sup>*\<^sup>* (start_exchange p s) x"
    and "pri_inv p" "\<not> Pri_Busy p" "\<not> linkUp p" "UseConfirms p" "\<not> IsBroadcast (PriRemoteAddr p)"
  shows "explains (x_log x @ outcome (x_pri x) ActionFailed) (x_got x)"
  by (rule xinv_explains [OF reachable_inv [OF assms(1) xinv_start [OF assms(2-)]]])

theorem exactly_once_witness:
  "\<exists>x. xstep\<^sup>*\<^sup>* (start_exchange sample_primary (Sec_Reset sample_secondary)) x \<and>
     x_log x = [([0xC0, 1], True)] \<and> x_got x = [[0xC0, 1]] \<and>
     explains (x_log x @ outcome (x_pri x) ActionFailed) (x_got x)"
proof -
  have p: "\<not> Pri_Busy sample_primary" "\<not> linkUp sample_primary" "UseConfirms sample_primary"
    "\<not> IsBroadcast (PriRemoteAddr sample_primary)"
    by (simp_all add: sample_primary_def Pri_Busy_def IsBroadcast_def)
  note sent = given_settles [OF sample_exchange_inv sample_idle, of "[0xC0, 1]"]
  have "x_log sample_exchange = []" "x_got sample_exchange = []"
    by (simp_all add: sample_exchange_def start_exchange_def)
  then obtain x where x: "clean_step\<^sup>*\<^sup>* (given [0xC0, 1] sample_exchange) x" "x_log x = [([0xC0, 1], True)]" "x_got x = [[0xC0, 1]]"
    using settles_reaches [OF sent(2)] by auto
  have "xstep\<^sup>*\<^sup>* (given [0xC0, 1] sample_exchange) x" using x(1) clean_xstep by (metis mono_rtranclp)
  with sent(1) have "xstep\<^sup>*\<^sup>* (start_exchange sample_primary (Sec_Reset sample_secondary)) x"
    unfolding sample_exchange_def by (simp add: converse_rtranclp_into_rtranclp)
  then show ?thesis using exactly_once [OF _ sample_primary_inv p] x(2,3) by blast
qed

text \<open>
  C24. Progress: let an idle primary without flow control be given a payload of a legal size, on a
  line that loses nothing, with the response timer free to fire whenever nothing is on the
  line. Then every run from there is over after at most four steps, and when it is over the
  primary is idle again, the payload is reported complete, once, and the secondary has handed
  it up, once: at the first attempt, through the reset handshake if the link was down.
\<close>

theorem send_completes:
  assumes "xinv x" and "\<not> Pri_Busy (x_pri x)" "\<not> dfc (x_pri x)" and "d \<noteq> []" "length d \<le> MaxPayload"
  shows "(\<forall>m z. (clean_step ^^ m) (given d x) z \<longrightarrow> m \<le> 4) \<and>
    (\<forall>z. clean_step\<^sup>*\<^sup>* (given d x) z \<and> (\<nexists>z'. clean_step z z') \<longrightarrow>
       \<not> Pri_Busy (x_pri z) \<and> x_log z = x_log x @ [(d, True)] \<and> x_got z = x_got x @ [d])"
  using given_settles(2) [OF assms] unfolding settles_def by blast

theorem send_completes_witness:
  "\<exists>z. clean_step\<^sup>*\<^sup>* (given [0xC0, 1] sample_exchange) z \<and> (\<nexists>z'. clean_step z z') \<and>
     x_log z = [([0xC0, 1], True)] \<and> x_got z = [[0xC0, 1]]"
proof -
  have "x_log sample_exchange = []" "x_got sample_exchange = []"
    by (simp_all add: sample_exchange_def start_exchange_def)
  moreover obtain z where z: "clean_step\<^sup>*\<^sup>* (given [0xC0, 1] sample_exchange) z"
    and idle: "\<not> Pri_Busy (x_pri z)" "x_fwd z = None" "x_rev z = None"
    using settles_reaches [OF given_settles(2) [OF sample_exchange_inv sample_idle, of "[0xC0, 1]"]] by auto
  moreover have "\<nexists>z'. clean_step z z'" using idle by (auto elim: clean_stepE)
  ultimately show ?thesis using send_completes [OF sample_exchange_inv sample_idle, of "[0xC0, 1]"] by auto
qed

end
