(* ===== verification/Link_Parser.thy ===== *)
theory Link_Parser
  imports Link_Frame
begin

text \<open>
  The resynchronising frame parser of \<^verbatim>\<open>internal/link/parser.go\<close>: a fixed array addressed by a
  read and a write offset, the operations that fill and drain it, and the counters. The
  array parser is shown to refine a parser on plain octet sequences, and the refinement
  carries the properties of the stream: how it is cut into reads does not change the
  frames found, garbage between frames costs only itself, a reader that drains between
  reads never meets a full buffer, and every octet is accounted for.
\<close>

section \<open>State\<close>

record link_stats =
  FramesDecoded :: u64
  BytesDiscarded :: u64
  HeaderCRCErrors :: u64
  BodyCRCErrors :: u64
  BadLength :: u64
  Resyncs :: u64

abbreviation (input) parserBufSize :: nat where "parserBufSize \<equiv> 584"

text \<open>The buffered octets are \<^verbatim>\<open>buf[r:w]\<close>.\<close>

record parser =
  p_buf :: "byte list"
  p_r :: nat
  p_w :: nat
  p_stats :: link_stats

definition NewParser :: parser where
  "NewParser = \<lparr>p_buf = replicate parserBufSize 0, p_r = 0, p_w = 0,
     p_stats = \<lparr>FramesDecoded = 0, BytesDiscarded = 0, HeaderCRCErrors = 0, BodyCRCErrors = 0,
                BadLength = 0, Resyncs = 0\<rparr>\<rparr>"

definition Buffered :: "parser \<Rightarrow> nat" where
  "Buffered p = p_w p - p_r p"

definition Free :: "parser \<Rightarrow> nat" where
  "Free p = length (p_buf p) - Buffered p"

definition window :: "parser \<Rightarrow> byte list" where
  "window p = subslice (p_buf p) (p_r p) (p_w p)"

section \<open>Operations\<close>

text \<open>Go's \<^verbatim>\<open>copy(dst, src)\<close>: it overwrites a prefix of \<open>dst\<close> and stops at the shorter of the two.\<close>

definition go_copy :: "'a list \<Rightarrow> 'a list \<Rightarrow> 'a list" where
  "go_copy dst src = (let n = min (length dst) (length src) in take n src @ drop n dst)"

definition slide :: "parser \<Rightarrow> parser" where
  "slide p =
     (if p_r p = 0 then p
      else p\<lparr>p_buf := go_copy (p_buf p) (window p),
             p_w := min (length (p_buf p)) (length (window p)),
             p_r := 0\<rparr>)"

text \<open>\<open>Write\<close> returns the count it accepted and whether it was short (\<^verbatim>\<open>ErrBufferFull\<close>).\<close>

definition Write :: "parser \<Rightarrow> byte list \<Rightarrow> parser \<times> nat \<times> bool" where
  "Write p b =
     (let p = (if length b > length (p_buf p) - p_w p then slide p else p);
          n = min (length (p_buf p) - p_w p) (length b);
          p = p\<lparr>p_buf := take (p_w p) (p_buf p) @ go_copy (drop (p_w p) (p_buf p)) b,
                p_w := p_w p + n\<rparr>
      in (p, n, n < length b))"

text \<open>\<^verbatim>\<open>bytes.Index(buf, delimiter)\<close>: where the first \<open>05 64\<close> starts, if anywhere.\<close>

fun find_delimiter :: "byte list \<Rightarrow> nat option" where
  "find_delimiter (a # b # xs) =
     (if a = StartByte0 \<and> b = StartByte1 then Some 0 else map_option Suc (find_delimiter (b # xs)))"
| "find_delimiter _ = None"

definition bump_stats :: "(link_stats \<Rightarrow> link_stats) \<Rightarrow> parser \<Rightarrow> parser" where
  "bump_stats f p = p\<lparr>p_stats := f (p_stats p)\<rparr>"

definition add_discarded :: "nat \<Rightarrow> link_stats \<Rightarrow> link_stats" where
  "add_discarded n s = s\<lparr>BytesDiscarded := BytesDiscarded s + of_nat n\<rparr>"

definition resync :: "parser \<Rightarrow> parser" where
  "resync p =
     (let p = bump_stats (\<lambda>s. s\<lparr>Resyncs := Resyncs s + 1\<rparr>) p;
          buf = window p;
          p = (case find_delimiter buf of
                 None \<Rightarrow>
                   (let keep = (if buf \<noteq> [] \<and> last buf = StartByte0 then 1 else 0)
                    in (bump_stats (add_discarded (length buf - keep)) p)\<lparr>p_r := p_w p - keep\<rparr>)
               | Some i \<Rightarrow>
                   (if i > 0 then (bump_stats (add_discarded i) p)\<lparr>p_r := p_r p + i\<rparr> else p))
      in slide p)"

text \<open>The counter a rejected frame adds to, and the octet dropped before looking further.\<close>

fun count_error :: "link_error \<Rightarrow> link_stats \<Rightarrow> link_stats" where
  "count_error ErrHeaderCRC s = s\<lparr>HeaderCRCErrors := HeaderCRCErrors s + 1\<rparr>"
| "count_error (ErrBodyCRC _) s = s\<lparr>BodyCRCErrors := BodyCRCErrors s + 1\<rparr>"
| "count_error (ErrBadLength _) s = s\<lparr>BadLength := BadLength s + 1\<rparr>"
| "count_error _ s = s"

definition drop_octet :: "parser \<Rightarrow> parser" where
  "drop_octet p = (bump_stats (add_discarded 1) p)\<lparr>p_r := p_r p + 1\<rparr>"

lemma window_bump_stats [simp]: "window (bump_stats f p) = window p"
  by (simp add: window_def bump_stats_def)

lemma bump_stats_sel [simp]:
  "p_buf (bump_stats f p) = p_buf p" "p_r (bump_stats f p) = p_r p" "p_w (bump_stats f p) = p_w p"
  "p_stats (bump_stats f p) = f (p_stats p)"
  "(bump_stats f p)\<lparr>p_r := n\<rparr> = bump_stats f (p\<lparr>p_r := n\<rparr>)"
  by (simp_all add: bump_stats_def)

lemma p_stats_slide [simp]: "p_stats (slide p) = p_stats p"
  by (simp add: slide_def)

lemma BytesDiscarded_add [simp]: "BytesDiscarded (add_discarded n s) = BytesDiscarded s + of_nat n"
  by (simp add: add_discarded_def)

lemma window_slide [simp]: "window (slide p) = window p"
  by (simp add: slide_def window_def go_copy_def subslice_def)

lemma window_advance: "window (p\<lparr>p_r := p_r p + n\<rparr>) = drop n (window p)"
  by (simp add: window_def subslice_def add.commute)

lemma window_drop_octet [simp]: "window (drop_octet p) = drop 1 (window p)"
  by (simp add: drop_octet_def window_def bump_stats_def subslice_def)

section \<open>The octet sequence a resynchronisation keeps\<close>

text \<open>
  \<open>sync\<close> drops octets up to the next delimiter, or all of them but a final \<open>05\<close> that may be
  the first half of one.
\<close>

definition sync :: "byte list \<Rightarrow> byte list" where
  "sync xs = (case find_delimiter xs of
     None \<Rightarrow> if xs \<noteq> [] \<and> last xs = StartByte0 then [StartByte0] else []
   | Some i \<Rightarrow> drop i xs)"

lemma find_delimiter_Some:
  "find_delimiter xs = Some i \<Longrightarrow> i + 2 \<le> length xs \<and> xs ! i = StartByte0 \<and> xs ! (i + 1) = StartByte1"
  by (induction xs arbitrary: i rule: find_delimiter.induct) (auto split: if_splits)

lemma find_delimiter_0:
  "find_delimiter xs = Some 0 \<longleftrightarrow> 2 \<le> length xs \<and> xs ! 0 = StartByte0 \<and> xs ! 1 = StartByte1"
  by (cases xs rule: find_delimiter.cases) auto

lemma length_sync_le: "length (sync xs) \<le> length xs"
  by (cases xs) (auto simp: sync_def split: option.splits)

lemma length_sync_less:
  assumes "HeaderSize \<le> length xs" and "xs ! 0 \<noteq> StartByte0 \<or> xs ! 1 \<noteq> StartByte1"
  shows "length (sync xs) < length xs"
proof (cases "find_delimiter xs")
  case (Some i)
  then have "i \<noteq> 0" using assms(2) find_delimiter_0 [of xs] by auto
  with Some assms(1) show ?thesis by (simp add: sync_def)
qed (use assms in \<open>auto simp: sync_def\<close>)

lemma length_window_resync: "length (window (resync p)) \<le> length (sync (window p))"
  by (auto simp: resync_def sync_def Let_def window_advance split: option.splits)
    (auto simp: window_def)

section \<open>Next\<close>

text \<open>
  \<open>Next\<close> returns the decoded frame, or \<open>None\<close> for \<^verbatim>\<open>ErrNeedMore\<close>, the only error it has. The
  loop ends because every turn shortens the buffered octets.
\<close>

function Next :: "parser \<Rightarrow> parser \<times> link_frame option" where
  "Next p =
     (let buf = window p
      in if length buf < HeaderSize then (p, None)
         else if buf ! 0 \<noteq> StartByte0 \<or> buf ! 1 \<noteq> StartByte1 then Next (resync p)
         else case Decode buf of
                Inr (f, n) \<Rightarrow>
                  ((bump_stats (\<lambda>s. s\<lparr>FramesDecoded := FramesDecoded s + 1\<rparr>) p)\<lparr>p_r := p_r p + n\<rparr>, Some f)
              | Inl e \<Rightarrow>
                  (if e = ErrShortFrame then (p, None)
                   else Next (resync (drop_octet (bump_stats (count_error e) p)))))"
  by pat_completeness auto
termination
proof (relation "measure (\<lambda>p. length (window p))", goal_cases)
  case (2 p buf)
  then show ?case
    using length_window_resync [of p] length_sync_less [of "window p"] by simp
next
  case (3 p buf e)
  then have "0 < length (window p)" by auto
  then show ?case
    using length_window_resync [of "drop_octet (bump_stats (count_error e) p)"]
      length_sync_le [of "drop 1 (window p)"] by (simp del: length_greater_0_conv)
qed simp

declare Next.simps [simp del]

section \<open>Invariant and refinement\<close>

definition parser_inv :: "parser \<Rightarrow> bool" where
  "parser_inv p \<longleftrightarrow> p_r p \<le> p_w p \<and> p_w p \<le> length (p_buf p) \<and> length (p_buf p) = parserBufSize"

lemma parser_inv_New [simp, inv_intros]: "parser_inv NewParser"
  by (simp add: parser_inv_def NewParser_def)

lemma window_New [simp]: "window NewParser = []"
  by (simp add: window_def NewParser_def)

lemma length_window: "parser_inv p \<Longrightarrow> length (window p) = Buffered p"
  by (simp add: window_def Buffered_def parser_inv_def)

lemma parser_inv_bump [simp, inv_intros]: "parser_inv (bump_stats f p) = parser_inv p"
  by (simp add: parser_inv_def bump_stats_def)

lemma parser_inv_slide [simp, inv_intros]: "parser_inv p \<Longrightarrow> parser_inv (slide p)"
  by (auto simp: parser_inv_def slide_def go_copy_def)

lemma length_p_buf_slide [simp]: "length (p_buf (slide p)) = length (p_buf p)"
  by (auto simp: slide_def go_copy_def min_def)

lemma slide_room: "parser_inv p \<Longrightarrow> p_r p \<noteq> 0 \<Longrightarrow> p_w (slide p) = length (window p)"
  by (auto simp: slide_def window_def parser_inv_def)

lemma window_advance_inv:
  "parser_inv p \<Longrightarrow> n \<le> length (window p) \<Longrightarrow> parser_inv (p\<lparr>p_r := p_r p + n\<rparr>)"
  by (auto simp: parser_inv_def window_def)

lemma parser_inv_drop_octet [inv_intros]:
  "parser_inv p \<Longrightarrow> window p \<noteq> [] \<Longrightarrow> parser_inv (drop_octet p)"
  by (auto simp: drop_octet_def parser_inv_def window_def bump_stats_def subslice_def)

lemma resync_refines:
  assumes "parser_inv p"
  shows "parser_inv (resync p) \<and> window (resync p) = sync (window p)"
proof (cases "find_delimiter (window p)")
  case None
  let ?k = "if window p \<noteq> [] \<and> last (window p) = StartByte0 then 1 else 0 :: nat"
  have k: "?k \<le> length (window p)" by (cases "window p") auto
  then have "subslice (p_buf p) (p_w p - ?k) (p_w p) = drop (length (window p) - ?k) (window p)"
    using assms by (auto simp: subslice_def window_def parser_inv_def)
  also have "\<dots> = sync (window p)"
    using None by (cases "window p" rule: rev_cases) (auto simp: sync_def)
  finally have "window (p\<lparr>p_r := p_w p - ?k\<rparr>) = sync (window p)" by (simp add: window_def)
  moreover have "parser_inv (p\<lparr>p_r := p_w p - ?k\<rparr>)"
    using assms by (auto simp: parser_inv_def)
  ultimately show ?thesis
    using None by (simp add: resync_def Let_def)
next
  case (Some i)
  then have "i \<le> length (window p)" using find_delimiter_Some by fastforce
  with assms Some show ?thesis
    by (simp add: resync_def Let_def sync_def window_advance window_advance_inv)
qed

lemmas parser_refines = resync_refines [THEN conjunct1] resync_refines [THEN conjunct2]

section \<open>The parser on octet sequences\<close>

text \<open>
  \<open>next_octets\<close> is what \<open>Next\<close> does to the buffered octets, free of the array: the octets
  left, and the frame found.
\<close>

function next_octets :: "byte list \<Rightarrow> byte list \<times> link_frame option" where
  "next_octets xs =
     (if length xs < HeaderSize then (xs, None)
      else if xs ! 0 \<noteq> StartByte0 \<or> xs ! 1 \<noteq> StartByte1 then next_octets (sync xs)
      else case Decode xs of
             Inr (f, n) \<Rightarrow> (drop n xs, Some f)
           | Inl e \<Rightarrow> if e = ErrShortFrame then (xs, None) else next_octets (sync (drop 1 xs)))"
  by pat_completeness auto
termination
proof (relation "measure length", goal_cases)
  case (2 xs)
  then show ?case using length_sync_less [of xs] by simp
next
  case (3 xs e)
  then have "0 < length xs" by auto
  then show ?case
    using length_sync_le [of "drop 1 xs"] by (simp del: length_greater_0_conv)
qed simp

declare next_octets.simps [simp del]

text \<open>
  The five situations the parsers meet, and what each does there: too few octets for a
  header, no delimiter in front, a frame, an incomplete frame, a rejected one.
\<close>

definition starts :: "byte list \<Rightarrow> bool" where
  "starts xs \<longleftrightarrow> HeaderSize \<le> length xs \<and> xs ! 0 = StartByte0 \<and> xs ! 1 = StartByte1"

lemma scan_cases:
  obtains (short) "length xs < HeaderSize"
  | (garbage) "HeaderSize \<le> length xs" "\<not> starts xs"
  | (frame) f n where "starts xs" "Decode xs = Inr (f, n)"
  | (need) "starts xs" "Decode xs = Inl ErrShortFrame"
  | (bad) e where "starts xs" "Decode xs = Inl e" "e \<noteq> ErrShortFrame"
  by (cases "starts xs"; cases "Decode xs"; cases "length xs < HeaderSize") (auto simp: not_less)

lemma next_octets_scan:
  "length xs < HeaderSize \<Longrightarrow> next_octets xs = (xs, None)"
  "HeaderSize \<le> length xs \<Longrightarrow> \<not> starts xs \<Longrightarrow> next_octets xs = next_octets (sync xs)"
  "starts xs \<Longrightarrow> Decode xs = Inr (f, n) \<Longrightarrow> next_octets xs = (drop n xs, Some f)"
  "starts xs \<Longrightarrow> Decode xs = Inl ErrShortFrame \<Longrightarrow> next_octets xs = (xs, None)"
  "starts xs \<Longrightarrow> Decode xs = Inl e \<Longrightarrow> e \<noteq> ErrShortFrame \<Longrightarrow> next_octets xs = next_octets (sync (drop 1 xs))"
  by (subst next_octets.simps, auto simp: starts_def)+

lemma Next_scan:
  "length (window p) < HeaderSize \<Longrightarrow> Next p = (p, None)"
  "HeaderSize \<le> length (window p) \<Longrightarrow> \<not> starts (window p) \<Longrightarrow> Next p = Next (resync p)"
  "starts (window p) \<Longrightarrow> Decode (window p) = Inr (f, n) \<Longrightarrow>
     Next p = (bump_stats (\<lambda>s. s\<lparr>FramesDecoded := FramesDecoded s + 1\<rparr>) (p\<lparr>p_r := p_r p + n\<rparr>), Some f)"
  "starts (window p) \<Longrightarrow> Decode (window p) = Inl ErrShortFrame \<Longrightarrow> Next p = (p, None)"
  "starts (window p) \<Longrightarrow> Decode (window p) = Inl e \<Longrightarrow> e \<noteq> ErrShortFrame \<Longrightarrow>
     Next p = Next (resync (drop_octet (bump_stats (count_error e) p)))"
  by (subst Next.simps, auto simp: starts_def Let_def)+

lemma parser_measure_induct [case_names step]:
  assumes "\<And>p. (\<And>q. length (window q) < length (window p) \<Longrightarrow> P q) \<Longrightarrow> P p"
  shows "P p"
  by (induction "length (window p)" arbitrary: p rule: less_induct) (auto intro: assms)

lemma scan_decreases:
  "HeaderSize \<le> length xs \<Longrightarrow> \<not> starts xs \<Longrightarrow> length (sync xs) < length xs"
  "starts xs \<Longrightarrow> length (sync (drop 1 xs)) < length xs"
  using length_sync_less [of xs] length_sync_le [of "drop 1 xs"] by (auto simp: starts_def)

lemma Next_refines_aux:
  "parser_inv p \<Longrightarrow> Next p = (p', r) \<Longrightarrow> parser_inv p' \<and> next_octets (window p) = (window p', r)"
proof (induction p rule: parser_measure_induct)
  case (step p)
  note IH = step.IH and inv = step.prems(1) and eq = step.prems(2)
  show ?case
  proof (cases "window p" rule: scan_cases)
    case garbage
    with IH [of "resync p"] inv eq show ?thesis
      by (simp add: parser_refines Next_scan next_octets_scan scan_decreases)
  next
    case (bad e)
    let ?q = "drop_octet (bump_stats (count_error e) p)"
    from bad inv have "parser_inv ?q" by (intro parser_inv_drop_octet) (auto simp: starts_def)
    with bad IH [of "resync ?q"] eq scan_decreases(2) [of "window p"] show ?thesis
      by (simp add: parser_refines Next_scan(5) next_octets_scan(5))
  qed (use inv eq Decode_size [of "window p"] in
      \<open>auto simp: Next_scan next_octets_scan window_advance window_advance_inv\<close>)
qed

text \<open>
  C22. The array parser refines the parser on octet sequences: from any state of the
  invariant, \<open>Next\<close> keeps the invariant, reports exactly the frame (or the need for more)
  that the octet parser reports on the buffered octets, and leaves exactly its rest.
\<close>

theorem Next_refines:
  assumes "parser_inv p" and "Next p = (p', r)"
  shows "parser_inv p' \<and> next_octets (window p) = (window p', r)"
  using assms by (rule Next_refines_aux)

theorem Next_refines_witness:
  "parser_inv NewParser \<and> Next NewParser = (NewParser, None) \<and> next_octets (window NewParser) = (window NewParser, None)"
proof -
  have n: "Next NewParser = (NewParser, None)" by (simp add: Next_scan)
  show ?thesis using Next_refines [OF parser_inv_New n] n by simp
qed

section \<open>Write\<close>

lemma Write_aux:
  assumes "parser_inv p" and "Write p b = (p', n, short)"
  shows "parser_inv p' \<and> n = min (Free p) (length b) \<and> window p' = window p @ take n b \<and>
    (short \<longleftrightarrow> n < length b)"
proof -
  define q where "q = (if length b > length (p_buf p) - p_w p then slide p else p)"
  have q: "parser_inv q" "window q = window p" "length (p_buf q) = length (p_buf p)"
    using assms(1) by (auto simp: q_def)
  have room: "min (length (p_buf q) - p_w q) (length b) = min (Free p) (length b)"
    using assms(1) slide_room [OF assms(1)] length_window [OF assms(1)] q
    by (auto simp: q_def Free_def Buffered_def parser_inv_def slide_def go_copy_def split: if_splits)
  from assms(2) have n: "n = min (length (p_buf q) - p_w q) (length b)" "short \<longleftrightarrow> n < length b"
    and p': "p' = q\<lparr>p_buf := take (p_w q) (p_buf q) @ go_copy (drop (p_w q) (p_buf q)) b, p_w := p_w q + n\<rparr>"
    by (auto simp: Write_def Let_def q_def)
  have "parser_inv p'" "window p' = window q @ take n b"
    using q(1) n by (auto simp: p' parser_inv_def go_copy_def window_def subslice_def min_def)
  with n room q(2) show ?thesis by simp
qed

text \<open>
  \<open>Write\<close> accepts as many octets as there is free space for, wherever in the array that
  space is, reports a short write exactly when it accepted fewer than it was offered, and
  appends what it accepted to the buffered octets: none is lost and none is overwritten.
\<close>

theorem Write_appends:
  assumes "parser_inv p" and "Write p b = (p', n, short)"
  shows "parser_inv p' \<and> n = min (Free p) (length b) \<and> window p' = window p @ take n b \<and>
    (short \<longleftrightarrow> n < length b)"
  using assms by (rule Write_aux)

theorem Write_appends_witness:
  "\<exists>p'. Write NewParser [0x05, 0x64] = (p', 2, False) \<and> parser_inv p' \<and> window p' = [0x05, 0x64]"
proof -
  obtain p' n short where w: "Write NewParser [0x05, 0x64] = (p', n, short)"
    by (cases "Write NewParser [0x05, 0x64]")
  have "Free NewParser = parserBufSize" by (simp add: Free_def Buffered_def NewParser_def)
  then show ?thesis using Write_appends [OF parser_inv_New w] w by simp
qed

section \<open>Draining the buffer\<close>

text \<open>
  The inner loop of \<open>Drain\<close>: hand each frame to the callback until more octets are needed or
  the callback fails. The callback is a parameter, a state transformer with an optional error.
\<close>

lemma next_octets_Some_less: "next_octets xs = (ys, Some f) \<Longrightarrow> length ys < length xs"
proof (induction xs rule: length_induct)
  case (1 xs)
  then show ?case
    by (cases xs rule: scan_cases)
      (use Decode_size [of xs] scan_decreases [of xs] in
        \<open>fastforce simp: next_octets_scan intro: less_trans\<close>)+
qed

lemma resync_decreases:
  "HeaderSize \<le> length (window p) \<Longrightarrow> \<not> starts (window p) \<Longrightarrow>
     length (window (resync p)) < length (window p)"
  "starts (window p) \<Longrightarrow> length (window (resync (drop_octet (bump_stats f p)))) < length (window p)"
  using length_window_resync [of p] length_window_resync [of "drop_octet (bump_stats f p)"]
    scan_decreases [of "window p"] by (auto intro: le_less_trans)

lemma Next_Some_window_less: "Next p = (p', Some f) \<Longrightarrow> length (window p') < length (window p)"
proof (induction p rule: parser_measure_induct)
  case (step p)
  show ?case
  proof (cases "window p" rule: scan_cases)
    case garbage
    with step show ?thesis
      using resync_decreases(1) [of p] by (auto simp: Next_scan(2) intro: less_trans)
  next
    case (bad e)
    with step show ?thesis
      using resync_decreases(2) [of p "count_error e"] by (auto simp: Next_scan(5) intro: less_trans)
  next
    case (frame g n)
    then have "HeaderSize \<le> n" "n \<le> length (window p)" using Decode_size by blast+
    with frame step.prems show ?thesis by (auto simp: Next_scan(3) window_advance)
  qed (use step.prems in \<open>simp_all add: Next_scan\<close>)
qed

function drain_frames ::
  "(link_frame \<Rightarrow> 's \<Rightarrow> 's \<times> 'e option) \<Rightarrow> parser \<Rightarrow> 's \<Rightarrow> parser \<times> 's \<times> 'e option" where
  "drain_frames fn p s =
     (case Next p of
        (p, None) \<Rightarrow> (p, s, None)
      | (p, Some f) \<Rightarrow>
          (case fn f s of
             (s, Some e) \<Rightarrow> (p, s, Some e)
           | (s, None) \<Rightarrow> drain_frames fn p s))"
  by pat_completeness auto
termination
  by (relation "measure (\<lambda>(fn, p, s). length (window p))") (auto dest: Next_Some_window_less [OF sym])

declare drain_frames.simps [simp del]

text \<open>All the frames an octet sequence holds, and the octets left over.\<close>

function all_frames :: "byte list \<Rightarrow> link_frame list \<times> byte list" where
  "all_frames xs =
     (case next_octets xs of
        (ys, None) \<Rightarrow> ([], ys)
      | (ys, Some f) \<Rightarrow> (let (fs, zs) = all_frames ys in (f # fs, zs)))"
  by pat_completeness auto
termination
  by (relation "measure length") (auto dest: next_octets_Some_less [OF sym])

declare all_frames.simps [simp del]

definition frames_of :: "byte list \<Rightarrow> link_frame list" where
  "frames_of xs = fst (all_frames xs)"

definition rest_of :: "byte list \<Rightarrow> byte list" where
  "rest_of xs = snd (all_frames xs)"

lemma frames_of_None: "next_octets xs = (ys, None) \<Longrightarrow> frames_of xs = [] \<and> rest_of xs = ys"
  by (simp add: frames_of_def rest_of_def all_frames.simps [of xs])

lemma frames_of_Some:
  "next_octets xs = (ys, Some f) \<Longrightarrow> frames_of xs = f # frames_of ys \<and> rest_of xs = rest_of ys"
  by (simp add: frames_of_def rest_of_def all_frames.simps [of xs] split: prod.splits)

lemma frames_of_cong:
  "next_octets xs = next_octets ys \<Longrightarrow> frames_of xs = frames_of ys \<and> rest_of xs = rest_of ys"
  by (simp add: frames_of_def rest_of_def all_frames.simps [of xs] all_frames.simps [of ys])

lemmas frames_of_scan =
  next_octets_scan(1) [THEN frames_of_None] next_octets_scan(2) [THEN frames_of_cong]
  next_octets_scan(3) [THEN frames_of_Some] next_octets_scan(4) [THEN frames_of_None]
  next_octets_scan(5) [THEN frames_of_cong]

section \<open>Synchronising is stable under more octets\<close>

lemma find_delimiter_skip:
  "find_delimiter (g @ take 1 y) = None \<Longrightarrow>
   find_delimiter (g @ y) = map_option (\<lambda>i. i + length g) (find_delimiter y)"
proof (induction g rule: find_delimiter.induct)
  case (1 a b g)
  then show ?case by (auto simp: option.map_comp comp_def split: if_splits)
qed (cases y; auto simp: option.map_comp comp_def option.map_ident split: if_splits)+

lemma find_delimiter_append: "find_delimiter a = Some i \<Longrightarrow> find_delimiter (a @ b) = Some i"
  by (induction a arbitrary: i rule: find_delimiter.induct) (auto split: if_splits)

lemma sync_skip: "find_delimiter (g @ take 1 y) = None \<Longrightarrow> y \<noteq> [] \<Longrightarrow> sync (g @ y) = sync y"
  by (simp add: sync_def find_delimiter_skip split: option.splits)

lemma find_delimiter_snoc:
  "find_delimiter a = None \<Longrightarrow> last a \<noteq> StartByte0 \<or> a = [] \<Longrightarrow> find_delimiter (a @ [x]) = None"
  by (induction a rule: find_delimiter.induct) (auto split: if_splits)

lemma sync_sync_append: "sync (sync a @ b) = sync (a @ b)"
proof (cases "find_delimiter a")
  case (Some i)
  then have "find_delimiter (drop i a) = Some 0"
    using find_delimiter_Some [OF Some] by (auto simp: find_delimiter_0)
  then have "find_delimiter (drop i a @ b) = Some 0" by (rule find_delimiter_append)
  with Some show ?thesis
    using find_delimiter_Some [OF Some] by (simp add: sync_def find_delimiter_append)
next
  case None
  show ?thesis
  proof (cases "a \<noteq> [] \<and> last a = StartByte0")
    case True
    then have a: "butlast a @ [StartByte0] = a" by (metis append_butlast_last_id)
    with None have "sync (butlast a @ ([StartByte0] @ b)) = sync ([StartByte0] @ b)"
      by (intro sync_skip) simp_all
    moreover have "a @ b = butlast a @ ([StartByte0] @ b)" by (simp flip: append_assoc add: a)
    ultimately show ?thesis using None True by (simp only: sync_def [of a]) simp
  next
    case False
    then have s: "sync a = []" using None by (auto simp: sync_def)
    show ?thesis
    proof (cases b)
      case Nil
      with None False show ?thesis by (simp add: s) (simp add: sync_def)
    next
      case (Cons x xs)
      then have "sync (a @ b) = sync b"
        using None False by (intro sync_skip) (auto intro: find_delimiter_snoc)
      then show ?thesis by (simp add: s)
    qed
  qed
qed

lemma frames_of_sync: "frames_of (sync xs) = frames_of xs"
proof (cases xs rule: scan_cases)
  case short
  then show ?thesis
    using length_sync_le [of xs] by (simp add: frames_of_scan)
next
  case garbage
  then show ?thesis by (simp add: frames_of_scan)
qed (auto simp: starts_def sync_def find_delimiter_0 [THEN iffD2])

lemma frames_of_sync_append: "frames_of (sync a @ b) = frames_of (a @ b)"
  using frames_of_sync [of "sync a @ b"] frames_of_sync [of "a @ b"] by (simp add: sync_sync_append)

section \<open>Reads do not matter\<close>

lemma starts_append: "starts a \<Longrightarrow> starts (a @ b)"
  by (auto simp: starts_def nth_append)

lemma frames_of_append: "frames_of (a @ b) = frames_of a @ frames_of (rest_of a @ b)"
proof (induction a rule: length_induct)
  case (1 a)
  show ?case
  proof (cases a rule: scan_cases)
    case garbage
    with 1 scan_decreases(1) [of a] show ?thesis
      using frames_of_sync_append [of a b] by (simp add: frames_of_scan)
  next
    case (frame f n)
    then have "Decode (a @ b) = Inr (f, n)" using Decode_append [of a b] by simp
    moreover have n: "HeaderSize \<le> n" "n \<le> length a" using frame Decode_size by blast+
    moreover have "length (drop n a) < length a" using n by simp
    ultimately show ?thesis
      using frame 1 by (simp add: frames_of_scan starts_append)
  next
    case (bad e)
    then have "Decode (a @ b) = Inl e" using Decode_append [of a b] by simp
    moreover have "drop 1 (a @ b) = drop 1 a @ b" using bad by (auto simp: starts_def)
    ultimately show ?thesis
      using bad 1 scan_decreases(2) [of a] frames_of_sync_append [of "drop 1 a" b]
      by (simp add: frames_of_scan starts_append frames_of_sync del: drop_append)
  qed (simp_all add: frames_of_scan)
qed

section \<open>Drain\<close>

text \<open>
  \<open>Drain\<close> reads its source to exhaustion. The source is a parameter: the list of what
  successive \<^verbatim>\<open>Read\<close> calls return, each the octets read and possibly an error. \<open>drain_pending\<close>
  is the loop that pushes one read through the buffer; it is a partial function whose value
  \<open>None\<close> would be a loop that never ends. \<open>Drain\<close> is \<open>None\<close> when the source neither fails nor
  ends: the call is still waiting.
\<close>

datatype 'r read_error = EOF | ReadError 'r

datatype ('e, 'r) drain_error = CallbackError 'e | SourceError 'r

partial_function (option) drain_pending ::
  "(link_frame \<Rightarrow> 's \<Rightarrow> 's \<times> 'e option) \<Rightarrow> parser \<Rightarrow> 's \<Rightarrow> byte list \<Rightarrow> (parser \<times> 's \<times> 'e option) option" where
  "drain_pending fn p s pending =
     (if pending = [] then Some (p, s, None)
      else
        (case Write p pending of (p, written, werr) \<Rightarrow>
        (case drain_frames fn p s of (p, s, err) \<Rightarrow>
           if err \<noteq> None then Some (p, s, err)
           else
             drain_pending fn
               (if werr \<and> written = 0 \<and> Buffered p = length (p_buf p)
                then resync (drop_octet p) else p)
               s (drop written pending))))"

fun Drain ::
  "(link_frame \<Rightarrow> 's \<Rightarrow> 's \<times> 'e option) \<Rightarrow> parser \<Rightarrow> 's \<Rightarrow> (byte list \<times> 'r read_error option) list
    \<Rightarrow> (parser \<times> 's \<times> ('e, 'r) drain_error option) option" where
  "Drain fn p s [] = None"
| "Drain fn p s ((chunk, rerr) # reads) =
     (case drain_pending fn p s chunk of
        None \<Rightarrow> None
      | Some (p, s, Some e) \<Rightarrow> Some (p, s, Some (CallbackError e))
      | Some (p, s, None) \<Rightarrow>
          (case rerr of
             None \<Rightarrow> Drain fn p s reads
           | Some EOF \<Rightarrow> Some (p, s, None)
           | Some (ReadError r) \<Rightarrow> Some (p, s, Some (SourceError r))))"

text \<open>A callback that keeps the frames it is given, in order, and never fails.\<close>

definition collect :: "link_frame \<Rightarrow> link_frame list \<Rightarrow> link_frame list \<times> unit option" where
  "collect f fs = (fs @ [f], None)"

lemma drain_collect:
  "parser_inv p \<Longrightarrow> \<exists>p'. drain_frames collect p fs = (p', fs @ frames_of (window p), None)
     \<and> parser_inv p' \<and> window p' = rest_of (window p)"
proof (induction p arbitrary: fs rule: parser_measure_induct)
  case (step p)
  obtain p' r where n: "Next p = (p', r)" by (cases "Next p")
  note ref = Next_refines_aux [OF step.prems n]
  show ?case
  proof (cases r)
    case None
    with n ref show ?thesis
      by (auto simp: drain_frames.simps [of _ p] frames_of_None)
  next
    case (Some f)
    with step.IH [of p' "fs @ [f]"] ref n Next_Some_window_less [of p p' f] show ?thesis
      by (auto simp: drain_frames.simps [of _ p] collect_def frames_of_Some)
  qed
qed

text \<open>Once drained, less than one frame stays buffered, so a whole read fits.\<close>

lemma rest_of_bound: "length (rest_of xs) < MaxFrameSize"
proof (induction xs rule: length_induct)
  case (1 xs)
  show ?case
  proof (cases xs rule: scan_cases)
    case (frame f n)
    then have "length (drop n xs) < length xs" using Decode_size [of xs] by fastforce
    with 1 frame show ?thesis by (simp add: frames_of_scan)
  qed (use 1 scan_decreases [of xs] Decode_Short_bound [of xs] in \<open>simp_all add: frames_of_scan\<close>)
qed

lemma frames_of_rest [simp]: "frames_of (rest_of xs) = []"
  using frames_of_append [of xs "[]"] by simp

definition drained :: "parser \<Rightarrow> bool" where
  "drained p \<longleftrightarrow> parser_inv p \<and> frames_of (window p) = [] \<and> length (window p) < MaxFrameSize"

lemma Write_whole:
  assumes "drained p" and "length c \<le> MaxFrameSize"
  shows "\<exists>p'. Write p c = (p', length c, False) \<and> parser_inv p' \<and> window p' = window p @ c"
proof -
  obtain p' n short where w: "Write p c = (p', n, short)" by (cases "Write p c")
  moreover have "length c \<le> Free p"
    using assms length_window [of p] by (auto simp: Free_def drained_def parser_inv_def)
  ultimately show ?thesis
    using Write_aux [of p c p' n short] assms by (auto simp: drained_def)
qed

lemma drain_pending_collect:
  assumes "drained p" and "length c \<le> MaxFrameSize"
  shows "\<exists>p'. drain_pending collect p fs c = Some (p', fs @ frames_of (window p @ c), None)
    \<and> drained p' \<and> (\<forall>d. frames_of (window p @ c @ d) = frames_of (window p @ c) @ frames_of (window p' @ d))"
proof (cases "c = []")
  case True
  with assms show ?thesis
    by (auto simp: drain_pending.simps drained_def)
next
  case False
  from Write_whole [OF assms] obtain q where q: "Write p c = (q, length c, False)"
    "parser_inv q" "window q = window p @ c" by blast
  from drain_collect [OF q(2), of fs] obtain p' where p':
    "drain_frames collect q fs = (p', fs @ frames_of (window p @ c), None)"
    "parser_inv p'" "window p' = rest_of (window p @ c)" by (auto simp: q(3))
  have "drain_pending collect p fs c = drain_pending collect p' (fs @ frames_of (window p @ c)) []"
    using False q p' by (simp add: drain_pending.simps [of _ p])
  then show ?thesis
    using p' rest_of_bound [of "window p @ c"] frames_of_append [of "window p @ c"]
    by (simp add: drain_pending.simps drained_def)
qed

lemma Drain_collect:
  "drained p \<Longrightarrow> \<forall>c \<in> set cs. length c \<le> MaxFrameSize \<Longrightarrow> length l \<le> MaxFrameSize \<Longrightarrow>
   \<exists>p'. Drain collect p fs (map (\<lambda>c. (c, None)) cs @ [(l, Some EOF)])
     = Some (p', fs @ frames_of (window p @ concat cs @ l), None)"
proof (induction cs arbitrary: p fs)
  case Nil
  then show ?case using drain_pending_collect [of p l fs] by fastforce
next
  case (Cons c cs)
  obtain q where q: "drain_pending collect p fs c = Some (q, fs @ frames_of (window p @ c), None)"
    "drained q"
    "\<And>d. frames_of (window p @ c @ d) = frames_of (window p @ c) @ frames_of (window q @ d)"
    using drain_pending_collect [of p c fs] Cons.prems by force
  then show ?case
    using Cons.IH [OF q(2), of "fs @ frames_of (window p @ c)"] Cons.prems by simp
qed

section \<open>Frames in noise\<close>

definition wire :: "link_frame \<Rightarrow> byte list" where
  "wire f = frame_octets (LHeader f) (Payload f)"

lemma wire_starts [simp]: "starts (wire f @ rest)"
  by (simp add: starts_def wire_def frame_octets_def header_octets_def)

lemma frames_of_wire:
  assumes "wf_frame f"
  shows "frames_of (wire f @ rest) = f # frames_of rest"
proof -
  have "Decode (wire f @ rest) = Inr (f, length (wire f))"
    using Decode_wf_frame [OF assms] by (simp add: wire_def)
  then show ?thesis by (simp add: frames_of_scan)
qed

interpretation link_codec: prefix_codec wire Decode wf_frame
proof
  show "Decode (wire x @ rest) = Inr (x, length (wire x))" if "wf_frame x" for x rest
    using Decode_wf_frame [OF that] by (simp add: wire_def)
qed (simp add: wire_def frame_octets_def header_octets_def)

text \<open>Octets are quiet when no delimiter starts in them, even if a frame follows at once.\<close>

definition quiet :: "byte list \<Rightarrow> bool" where
  "quiet g \<longleftrightarrow> find_delimiter (g @ [StartByte0]) = None"

lemma frames_of_quiet:
  assumes "quiet g"
  shows "frames_of (g @ wire f @ rest) = frames_of (wire f @ rest)"
proof -
  have "take 1 (wire f @ rest) = [StartByte0]" "wire f @ rest \<noteq> []"
    by (simp_all add: wire_def frame_octets_def header_octets_def)
  then have "sync (g @ wire f @ rest) = sync (wire f @ rest)"
    using assms by (intro sync_skip) (simp_all add: quiet_def)
  then show ?thesis using frames_of_sync by metis
qed

lemma frames_of_stream:
  "\<forall>(g, f) \<in> set gfs. quiet g \<and> wf_frame f \<Longrightarrow>
   frames_of (concat (map (\<lambda>(g, f). g @ wire f) gfs)) = map snd gfs"
  by (induction gfs) (auto simp: frames_of_quiet frames_of_wire frames_of_scan)

lemma drained_New: "drained NewParser"
  by (simp add: drained_def frames_of_scan)

text \<open>
  C6. However a byte stream is cut into reads of at most one frame size, draining it hands
  over exactly the frames in it, in order, and returns at the end of the stream: for a
  stream of well-formed frames with noise between them that holds no delimiter, every
  frame arrives exactly once and none is invented.
\<close>

theorem Drain_delivers:
  assumes "\<forall>(g, f) \<in> set gfs. quiet g \<and> wf_frame f"
    and "concat cs @ l = concat (map (\<lambda>(g, f). g @ wire f) gfs)"
    and "\<forall>c \<in> set (l # cs). length c \<le> MaxFrameSize"
  shows "\<exists>p'. Drain collect NewParser [] (map (\<lambda>c. (c, None)) cs @ [(l, Some EOF)])
    = Some (p', map snd gfs, None)"
  using Drain_collect [OF drained_New, of cs l "[]"] assms frames_of_stream [of gfs] by simp

definition sample_frame :: link_frame where
  "sample_frame = \<lparr>LHeader = sample_header\<lparr>LLength := 6\<rparr>, Payload = [0xC0]\<rparr>"

lemma wf_sample_frame: "wf_frame sample_frame"
  by (simp add: wf_frame_def sample_frame_def sample_header_def)

theorem Drain_delivers_witness:
  "\<exists>p'. Drain collect NewParser []
      (map (\<lambda>c. (c, None)) [[0x05, 0x05] @ take 3 (wire sample_frame)] @ [(drop 3 (wire sample_frame), Some EOF)])
    = Some (p', [sample_frame], None)"
proof -
  have len: "length (wire sample_frame) = 13"
    by (simp add: wire_def sample_frame_def FrameSize_def bodySize_def)
  show ?thesis
    using Drain_delivers [of "[([0x05, 0x05], sample_frame)]"
        "[[0x05, 0x05] @ take 3 (wire sample_frame)]" "drop 3 (wire sample_frame)"]
    by (simp add: wf_sample_frame len quiet_def)
qed

section \<open>Every octet is accounted for\<close>

text \<open>Octets discarded so far plus octets still buffered, modulo the counter's width.\<close>

definition octets_seen :: "parser \<Rightarrow> u64" where
  "octets_seen p = BytesDiscarded (p_stats p) + of_nat (length (window p))"

lemma octets_seen_slide [simp]: "octets_seen (slide p) = octets_seen p"
  by (simp add: octets_seen_def)

lemma octets_seen_skip:
  "n \<le> length (window p) \<Longrightarrow> length (window q) = length (window p) - n \<Longrightarrow>
   BytesDiscarded (p_stats q) = BytesDiscarded (p_stats p) + of_nat n \<Longrightarrow> octets_seen q = octets_seen p"
  by (simp add: octets_seen_def)

lemma resync_seen:
  assumes "parser_inv p"
  shows "octets_seen (resync p) = octets_seen p"
proof (rule octets_seen_skip [of "length (window p) - length (sync (window p))"])
  show "BytesDiscarded (p_stats (resync p))
      = BytesDiscarded (p_stats p) + of_nat (length (window p) - length (sync (window p)))"
  proof (cases "find_delimiter (window p)")
    case (Some i)
    then have "i \<le> length (window p)" using find_delimiter_Some by fastforce
    with Some show ?thesis
      by (simp add: resync_def sync_def Let_def)
  qed (auto simp: resync_def sync_def Let_def)
qed (use length_sync_le [of "window p"] parser_refines(2) [OF assms] in simp_all)

lemma BytesDiscarded_drop_octet: "BytesDiscarded (p_stats (drop_octet p)) = BytesDiscarded (p_stats p) + 1"
  by (simp add: drop_octet_def)

lemma drop_octet_seen: "window p \<noteq> [] \<Longrightarrow> octets_seen (drop_octet p) = octets_seen p"
  by (rule octets_seen_skip [of 1]) (auto simp: Suc_le_eq BytesDiscarded_drop_octet)

lemma octets_seen_bump_error [simp]: "octets_seen (bump_stats (count_error e) p) = octets_seen p"
  by (cases e) (simp_all add: octets_seen_def)

text \<open>
  Every octet is accounted for: across \<open>Next\<close>, what the discard counter gains and what the
  returned frame occupied is exactly what left the buffer (counters wrap at 64 bits).
\<close>

theorem Next_accounts:
  assumes "parser_inv p" and "Next p = (p', r)"
  shows "octets_seen p = octets_seen p' +
    (case r of None \<Rightarrow> 0 | Some f \<Rightarrow> of_nat (FrameSize (length (Payload f))))"
  using assms
proof (induction p rule: parser_measure_induct)
  case (step p)
  show ?case
  proof (cases "window p" rule: scan_cases)
    case garbage
    with step.IH [OF resync_decreases(1)] step.prems show ?thesis
      by (simp add: Next_scan(2) parser_refines resync_seen)
  next
    case (frame f n)
    then have n: "n \<le> length (window p)" "n = FrameSize (length (Payload f))"
      using Decode_size Decode_sound_aux by blast+
    with frame step.prems show ?thesis
      by (auto simp: Next_scan(3) octets_seen_def window_advance)
  next
    case (bad e)
    let ?q = "drop_octet (bump_stats (count_error e) p)"
    have ne: "window p \<noteq> []" using bad by (auto simp: starts_def)
    then have "parser_inv ?q" using step.prems by (intro parser_inv_drop_octet) auto
    with bad ne step.IH [OF resync_decreases(2) [of p "count_error e"]] step.prems show ?thesis
      by (simp add: Next_scan(5) parser_refines resync_seen drop_octet_seen)
  qed (use step.prems in \<open>auto simp: Next_scan\<close>)
qed

theorem Next_accounts_witness:
  "let p = fst (Write NewParser (wire sample_frame)); (p', r) = Next p
   in r = Some sample_frame \<and> octets_seen p = octets_seen p' + of_nat (FrameSize 1)"
proof -
  have len: "length (wire sample_frame) = 13"
    by (simp add: wire_def sample_frame_def FrameSize_def bodySize_def)
  obtain p where p: "Write NewParser (wire sample_frame) = (p, length (wire sample_frame), False)"
    "parser_inv p" "window p = wire sample_frame"
    using Write_whole [OF drained_New, of "wire sample_frame"] len by auto
  have d: "Decode (window p) = Inr (sample_frame, FrameSize 1)"
    using Decode_wf_frame [OF wf_sample_frame, of "[]"]
    by (simp add: p wire_def) (simp add: sample_frame_def)
  moreover have "starts (window p)" using wire_starts [of sample_frame "[]"] by (simp add: p)
  ultimately obtain p' where n: "Next p = (p', Some sample_frame)" by (simp add: Next_scan(3))
  show ?thesis using Next_accounts [OF p(2) n] n by (simp add: p(1)) (simp add: sample_frame_def)
qed

end
