(* ===== verification/Transport_Fn.thy ===== *)
theory Transport_Fn
  imports Dnp_Prelude
begin

text \<open>
  The transport function of \<^verbatim>\<open>internal/transport/transport.go\<close>: the one-octet header, the
  segmenter that cuts an application fragment into segments, and the reassembler that puts
  fragments back together. The lemmas show that segments reassemble to the fragment they
  were cut from, whatever state the reassembler was in, and that a reassembler fed any
  segments at all only ever delivers the payloads of one gapless run of them.
\<close>

section \<open>Header\<close>

abbreviation (input) THeaderSize :: nat where "THeaderSize \<equiv> 1"
abbreviation (input) MaxSegmentPayload :: nat where "MaxSegmentPayload \<equiv> 249"
abbreviation (input) MaxSegmentSize :: nat where "MaxSegmentSize \<equiv> 250"
abbreviation (input) TSeqModulus :: byte where "TSeqModulus \<equiv> 64"
abbreviation (input) DefaultMaxFragment :: nat where "DefaultMaxFragment \<equiv> 2048"

definition SegmentsFor :: "nat \<Rightarrow> nat" where
  "SegmentsFor n = (if n = 0 then 1 else (n + MaxSegmentPayload - 1) div MaxSegmentPayload)"

record transport_header =
  TFir :: bool
  TFin :: bool
  TSeq :: byte

definition TParseHeader :: "byte \<Rightarrow> transport_header" where
  "TParseHeader b = \<lparr>TFir = (b AND 0x40 \<noteq> 0), TFin = (b AND 0x80 \<noteq> 0), TSeq = b AND 0x3F\<rparr>"

definition THeader_Byte :: "transport_header \<Rightarrow> byte" where
  "THeader_Byte h =
     (let b = 0;
          b = (if TFin h then b OR 0x80 else b);
          b = (if TFir h then b OR 0x40 else b)
      in b OR (TSeq h AND 0x3F))"

section \<open>Segmenter\<close>

record segmenter =
  s_frag :: "byte list"
  s_off :: nat
  s_seq :: byte
  s_live :: bool

definition SetSeq :: "byte \<Rightarrow> segmenter \<Rightarrow> segmenter" where
  "SetSeq v s = s\<lparr>s_seq := v mod TSeqModulus\<rparr>"

definition Seg_Reset :: "byte list \<Rightarrow> segmenter \<Rightarrow> segmenter" where
  "Seg_Reset fragment s = s\<lparr>s_frag := fragment, s_off := 0, s_live := True\<rparr>"

definition Seg_Pending :: "segmenter \<Rightarrow> bool" where
  "Seg_Pending s = s_live s"

definition Seg_Clear :: "segmenter \<Rightarrow> segmenter" where
  "Seg_Clear s = s\<lparr>s_frag := [], s_off := 0, s_live := False\<rparr>"

definition Seg_Next :: "segmenter \<Rightarrow> byte list \<Rightarrow> segmenter \<times> byte list \<times> bool" where
  "Seg_Next s dst =
     (if \<not> s_live s then (s, dst, False)
      else
        let first = (s_off s = 0);
            stop = min (s_off s + MaxSegmentPayload) (length (s_frag s));
            last = (stop \<ge> length (s_frag s));
            h = \<lparr>TFir = first, TFin = last, TSeq = s_seq s\<rparr>;
            dst = dst @ [THeader_Byte h];
            dst = dst @ subslice (s_frag s) (s_off s) stop;
            s = s\<lparr>s_off := stop, s_seq := (s_seq s + 1) mod TSeqModulus\<rparr>;
            s = (if last then s\<lparr>s_live := False, s_frag := []\<rparr> else s)
        in (s, dst, True))"

text \<open>The loop of \<open>SegmentAll\<close>; it ends because each turn advances the offset or finishes.\<close>

function segment_loop :: "segmenter \<Rightarrow> byte list list \<Rightarrow> segmenter \<times> byte list list" where
  "segment_loop s out =
     (case Seg_Next s [] of (s', seg, ok) \<Rightarrow>
        if \<not> ok then (s', out) else segment_loop s' (out @ [seg]))"
  by pat_completeness auto
termination
  by (relation "measure (\<lambda>(s, out). if s_live s then Suc (length (s_frag s) - s_off s) else 0)")
    (auto simp: Seg_Next_def Let_def split: if_splits)

declare segment_loop.simps [simp del]

definition SegmentAll :: "segmenter \<Rightarrow> byte list \<Rightarrow> segmenter \<times> byte list list" where
  "SegmentAll s fragment = segment_loop (Seg_Reset fragment s) []"

section \<open>Reassembler\<close>

datatype DiscardReason =
    DiscardNone
  | DiscardEmptySegment
  | DiscardNoFIR
  | DiscardUnexpectedFIR
  | DiscardBadSequence
  | DiscardOverflow

record transport_stats =
  SegmentsReceived :: u64
  FragmentsCompleted :: u64
  SegmentsDiscarded :: u64
  Discards :: "DiscardReason \<Rightarrow> u64"

record reassembler =
  MaxFragment :: int
  r_buf :: "byte list"
  r_expect :: byte
  r_assembly :: bool
  r_stats :: transport_stats

definition NewReassembler :: "int \<Rightarrow> reassembler" where
  "NewReassembler m =
     \<lparr>MaxFragment = (if m \<le> 0 then int DefaultMaxFragment else m), r_buf = [], r_expect = 0,
      r_assembly = False,
      r_stats = \<lparr>SegmentsReceived = 0, FragmentsCompleted = 0, SegmentsDiscarded = 0, Discards = (\<lambda>_. 0)\<rparr>\<rparr>"

definition R_Reset :: "reassembler \<Rightarrow> reassembler" where
  "R_Reset r = r\<lparr>r_buf := [], r_assembly := False\<rparr>"

text \<open>The fragment is \<open>None\<close> where the source returns a nil slice.\<close>

record reasm_result =
  Fragment :: "byte list option"
  Discarded :: DiscardReason

definition maxFragment :: "reassembler \<Rightarrow> int" where
  "maxFragment r = (if MaxFragment r \<le> 0 then int DefaultMaxFragment else MaxFragment r)"

definition count_discard :: "DiscardReason \<Rightarrow> reassembler \<Rightarrow> reassembler" where
  "count_discard reason r = r\<lparr>r_stats := (r_stats r)
     \<lparr>SegmentsDiscarded := SegmentsDiscarded (r_stats r) + 1,
      Discards := (Discards (r_stats r))(reason := Discards (r_stats r) reason + 1)\<rparr>\<rparr>"

definition discard :: "DiscardReason \<Rightarrow> reassembler \<Rightarrow> reassembler \<times> reasm_result" where
  "discard reason r = (count_discard reason r, \<lparr>Fragment = None, Discarded = reason\<rparr>)"

definition R_append :: "transport_header \<Rightarrow> byte list \<Rightarrow> reassembler \<Rightarrow> reassembler \<times> reasm_result" where
  "R_append h payload r =
     (if int (length (r_buf r)) + int (length payload) > maxFragment r
      then discard DiscardOverflow (R_Reset r)
      else
        let r = r\<lparr>r_buf := r_buf r @ payload, r_expect := (TSeq h + 1) mod TSeqModulus\<rparr>
        in if \<not> TFin h then (r, \<lparr>Fragment = None, Discarded = DiscardNone\<rparr>)
           else (r\<lparr>r_assembly := False,
                   r_stats := (r_stats r)\<lparr>FragmentsCompleted := FragmentsCompleted (r_stats r) + 1\<rparr>\<rparr>,
                 \<lparr>Fragment = Some (r_buf r), Discarded = DiscardNone\<rparr>))"

definition Accept :: "byte list \<Rightarrow> reassembler \<Rightarrow> reassembler \<times> reasm_result" where
  "Accept segment r =
     (let r = r\<lparr>r_stats := (r_stats r)\<lparr>SegmentsReceived := SegmentsReceived (r_stats r) + 1\<rparr>\<rparr>
      in if length segment < THeaderSize then discard DiscardEmptySegment r
         else
           let h = TParseHeader (segment ! 0);
               payload = drop THeaderSize segment
           in if TFir h then
                let reported = (if r_assembly r then DiscardUnexpectedFIR else DiscardNone);
                    r = (if r_assembly r then count_discard DiscardUnexpectedFIR r else r);
                    r = r\<lparr>r_buf := [], r_assembly := True, r_expect := TSeq h\<rparr>;
                    (r, res) = R_append h payload r
                in (r, if Discarded res = DiscardNone then res\<lparr>Discarded := reported\<rparr> else res)
              else if \<not> r_assembly r then discard DiscardNoFIR r
              else if TSeq h \<noteq> r_expect r then discard DiscardBadSequence (R_Reset r)
              else R_append h payload r)"

section \<open>Header octet\<close>

lemma mod_64_eq_and: "(x :: byte) mod 64 = x AND 0x3F"
  using take_bit_eq_mod [of 6 x] take_bit_eq_mask [of 6 x] by (simp add: mask_eq_exp_minus_1)

lemma bit_0x3F: "bit (0x3F :: byte) n \<longleftrightarrow> n < 6"
  using bit_mask_iff [where 'a = "8 word", of 6 n] by (auto simp: mask_eq_exp_minus_1)

lemma bit_0x40: "bit (0x40 :: byte) n \<longleftrightarrow> n = 6"
  using bit_exp_iff [where 'a = "8 word", of 6 n] by auto

lemma bit_0x80: "bit (0x80 :: byte) n \<longleftrightarrow> n = 7"
  using bit_exp_iff [where 'a = "8 word", of 7 n] by auto

lemmas octet_bits = bit_0x3F bit_0x40 bit_0x80 bit_and_iff bit_or_iff

lemma TParseHeader_THeader_Byte:
  "TParseHeader (THeader_Byte h) = h\<lparr>TSeq := TSeq h AND 0x3F\<rparr>"
  by (cases h) (auto simp: TParseHeader_def THeader_Byte_def Let_def byte_mask_bit octet_bits
      intro!: byte_eqI)

lemma THeader_Byte_TParseHeader: "THeader_Byte (TParseHeader b) = b"
  by (rule byte_eqI) (auto simp: TParseHeader_def THeader_Byte_def Let_def byte_mask_bit octet_bits)

lemma and_0x3F_idem [simp]: "(x AND 0x3F) AND 0x3F = x AND (0x3F :: byte)"
  by (simp add: and.assoc)

lemma TSeq_TParseHeader: "TSeq (TParseHeader b) AND 0x3F = TSeq (TParseHeader b)"
  by (simp add: TParseHeader_def)

section \<open>Segmenting\<close>

text \<open>The segments of a fragment, as a recursion on what is left of it.\<close>

function ref_segments :: "byte \<Rightarrow> bool \<Rightarrow> byte list \<Rightarrow> byte list list" where
  "ref_segments seq first p =
     (if length p \<le> MaxSegmentPayload
      then [THeader_Byte \<lparr>TFir = first, TFin = True, TSeq = seq\<rparr> # p]
      else (THeader_Byte \<lparr>TFir = first, TFin = False, TSeq = seq\<rparr> # take MaxSegmentPayload p)
        # ref_segments ((seq + 1) mod TSeqModulus) False (drop MaxSegmentPayload p))"
  by pat_completeness auto
termination
  by (relation "measure (\<lambda>(seq, first, p). length p)") auto

declare ref_segments.simps [simp del]

lemma ref_segments_ne [simp]: "ref_segments seq first p \<noteq> []"
  by (subst ref_segments.simps) simp

text \<open>One call of \<open>Seg_Next\<close> takes the first of the remaining segments.\<close>

lemma Seg_Next_ref:
  assumes "s_live s" "s_off s \<le> length (s_frag s)"
  obtains s' segment where "Seg_Next s [] = (s', segment, True)"
    "ref_segments (s_seq s) (s_off s = 0) (drop (s_off s) (s_frag s)) =
       segment # (if s_live s' then ref_segments (s_seq s') False (drop (s_off s') (s_frag s')) else [])"
    "s_live s' \<longrightarrow> 0 < s_off s' \<and> s_off s' \<le> length (s_frag s')"
proof (cases "length (s_frag s) - s_off s \<le> MaxSegmentPayload")
  case True
  then have n: "Seg_Next s [] = (s\<lparr>s_off := length (s_frag s), s_seq := (s_seq s + 1) mod TSeqModulus,
      s_live := False, s_frag := []\<rparr>,
      THeader_Byte \<lparr>TFir = (s_off s = 0), TFin = True, TSeq = s_seq s\<rparr> # drop (s_off s) (s_frag s), True)"
    using assms by (auto simp: Seg_Next_def Let_def min_def subslice_def)
  show ?thesis using True by (intro that [OF n]) (simp_all add: ref_segments.simps [of "s_seq s"])
next
  case False
  then have n: "Seg_Next s [] = (s\<lparr>s_off := s_off s + MaxSegmentPayload, s_seq := (s_seq s + 1) mod TSeqModulus\<rparr>,
      THeader_Byte \<lparr>TFir = (s_off s = 0), TFin = False, TSeq = s_seq s\<rparr>
        # take MaxSegmentPayload (drop (s_off s) (s_frag s)), True)"
    using assms by (auto simp: Seg_Next_def Let_def min_def subslice_def drop_take)
  show ?thesis using False assms
    by (intro that [OF n]) (simp_all add: ref_segments.simps [of "s_seq s"] add.commute)
qed

lemma segment_loop_ref:
  assumes "s_live s" "s_off s \<le> length (s_frag s)"
  shows "\<exists>s'. segment_loop s out = (s', out @ ref_segments (s_seq s) (s_off s = 0) (drop (s_off s) (s_frag s)))
    \<and> \<not> s_live s'"
  using assms
proof (induction s out rule: segment_loop.induct)
  case (1 s out)
  from 1(2,3) obtain s' segment where n: "Seg_Next s [] = (s', segment, True)"
    "ref_segments (s_seq s) (s_off s = 0) (drop (s_off s) (s_frag s)) =
       segment # (if s_live s' then ref_segments (s_seq s') False (drop (s_off s') (s_frag s')) else [])"
    "s_live s' \<longrightarrow> 0 < s_off s' \<and> s_off s' \<le> length (s_frag s')"
    by (rule Seg_Next_ref) blast
  show ?case
  proof (cases "s_live s'")
    case True
    then show ?thesis using 1(1) [OF n(1) [symmetric]] n
      by (simp add: segment_loop.simps [of s])
  next
    case False
    then have "segment_loop s' out' = (s', out')" for out'
      by (simp add: segment_loop.simps [of s'] Seg_Next_def)
    then show ?thesis using False n by (simp add: segment_loop.simps [of s])
  qed
qed

lemma SegmentAll_ref:
  "\<exists>s'. SegmentAll s p = (s', ref_segments (s_seq s) True p) \<and> \<not> Seg_Pending s'"
  using segment_loop_ref [of "Seg_Reset p s" "[]"]
  by (simp add: SegmentAll_def Seg_Reset_def Seg_Pending_def)

lemma snd_SegmentAll: "snd (SegmentAll s p) = ref_segments (s_seq s) True p"
  using SegmentAll_ref [of s p] by auto

lemma SegmentsFor_step:
  "MaxSegmentPayload < n \<Longrightarrow> SegmentsFor n = Suc (SegmentsFor (n - MaxSegmentPayload))"
  by (simp add: SegmentsFor_def le_div_geq)

lemma SegmentsFor_one: "n \<le> MaxSegmentPayload \<Longrightarrow> SegmentsFor n = 1"
  by (cases "n = 0") (simp_all add: SegmentsFor_def div_nat_eqI)

lemma length_ref_segments: "length (ref_segments seq first p) = SegmentsFor (length p)"
proof (induction seq first p rule: ref_segments.induct)
  case (1 seq first p)
  then show ?case
    by (subst ref_segments.simps) (simp add: SegmentsFor_one SegmentsFor_step)
qed

lemma ref_segments_size:
  "seg \<in> set (ref_segments seq first p) \<Longrightarrow> THeaderSize \<le> length seg \<and> length seg \<le> MaxSegmentSize"
proof (induction seq first p rule: ref_segments.induct)
  case (1 seq first p)
  from 1(2) show ?case
    by (subst (asm) ref_segments.simps) (auto split: if_splits dest: 1(1))
qed

lemma concat_ref_segments: "concat (map tl (ref_segments seq first p)) = p"
proof (induction seq first p rule: ref_segments.induct)
  case (1 seq first p)
  then show ?case by (subst ref_segments.simps) simp
qed

text \<open>
  Segmenting a fragment of any length gives exactly \<open>SegmentsFor\<close> segments, leaves nothing
  pending, every segment has its header octet and fits a link frame's payload, and the
  payloads in order are the fragment.
\<close>

theorem SegmentAll_cover:
  "case SegmentAll s p of (s', segs) \<Rightarrow>
     length segs = SegmentsFor (length p) \<and> \<not> Seg_Pending s' \<and> concat (map tl segs) = p \<and>
     list_all (\<lambda>seg. THeaderSize \<le> length seg \<and> length seg \<le> MaxSegmentSize) segs"
  using SegmentAll_ref [of s p] ref_segments_size
  by (auto simp: length_ref_segments concat_ref_segments list_all_iff)

section \<open>Reassembling\<close>

lemma R_append_inv:
  "int (length (r_buf r) + length p) \<le> maxFragment r \<Longrightarrow> \<not> TFin h \<Longrightarrow>
   R_append h p r = (r\<lparr>r_buf := r_buf r @ p, r_expect := (TSeq h + 1) mod TSeqModulus\<rparr>,
     \<lparr>Fragment = None, Discarded = DiscardNone\<rparr>)"
  by (simp add: R_append_def)

lemma R_append_fin:
  "int (length (r_buf r) + length p) \<le> maxFragment r \<Longrightarrow> TFin h \<Longrightarrow>
   \<exists>r'. R_append h p r = (r', \<lparr>Fragment = Some (r_buf r @ p), Discarded = DiscardNone\<rparr>) \<and>
     \<not> r_assembly r' \<and> r_buf r' = r_buf r @ p \<and> MaxFragment r' = MaxFragment r"
  by (simp add: R_append_def)

lemma maxFragment_cong [simp]:
  "maxFragment (r\<lparr>r_buf := b\<rparr>) = maxFragment r" "maxFragment (r\<lparr>r_expect := e\<rparr>) = maxFragment r"
  "maxFragment (r\<lparr>r_assembly := a\<rparr>) = maxFragment r" "maxFragment (r\<lparr>r_stats := st\<rparr>) = maxFragment r"
  by (simp_all add: maxFragment_def)

lemma maxFragment_pos: "0 < maxFragment r"
  by (simp add: maxFragment_def)

text \<open>
  A reassembler that waits for the next segment of a run completes the fragment when the
  rest of its segments arrive, each but the last returning nothing.
\<close>

lemma Accept_ref_segments:
  assumes "r_assembly r" "r_expect r = seq" "seq AND 0x3F = seq"
    and "int (length (r_buf r) + length p) \<le> maxFragment r"
  shows "\<exists>r'. run_ops Accept (ref_segments seq False p) r =
     (r', replicate (SegmentsFor (length p) - 1) \<lparr>Fragment = None, Discarded = DiscardNone\<rparr>
          @ [\<lparr>Fragment = Some (r_buf r @ p), Discarded = DiscardNone\<rparr>]) \<and> \<not> r_assembly r'"
  using assms
proof (induction seq "False" p arbitrary: r rule: ref_segments.induct)
  case (1 seq p)
  note IH = 1(1) and r = 1(2-5)
  let ?r = "r\<lparr>r_stats := (r_stats r)\<lparr>SegmentsReceived := SegmentsReceived (r_stats r) + 1\<rparr>\<rparr>"
  have h: "TParseHeader (THeader_Byte \<lparr>TFir = False, TFin = fin, TSeq = seq\<rparr>)
      = \<lparr>TFir = False, TFin = fin, TSeq = seq\<rparr>" for fin
    using r(3) by (simp add: TParseHeader_THeader_Byte)
  show ?case
  proof (cases "length p \<le> MaxSegmentPayload")
    case True
    then show ?thesis
      using r R_append_fin [of ?r p "\<lparr>TFir = False, TFin = True, TSeq = seq\<rparr>"]
      by (auto simp: ref_segments.simps [of seq] Accept_def h SegmentsFor_one)
  next
    case False
    let ?p = "take MaxSegmentPayload p" and ?q = "drop MaxSegmentPayload p"
    let ?s = "?r\<lparr>r_buf := r_buf r @ ?p, r_expect := (seq + 1) mod TSeqModulus\<rparr>"
    have a: "Accept (THeader_Byte \<lparr>TFir = False, TFin = False, TSeq = seq\<rparr> # ?p) r =
        (?s, \<lparr>Fragment = None, Discarded = DiscardNone\<rparr>)"
      using r False R_append_inv [of ?r ?p "\<lparr>TFir = False, TFin = False, TSeq = seq\<rparr>"]
      by (simp add: Accept_def h)
    obtain r' where "run_ops Accept (ref_segments ((seq + 1) mod TSeqModulus) False ?q) ?s =
       (r', replicate (SegmentsFor (length ?q) - 1) \<lparr>Fragment = None, Discarded = DiscardNone\<rparr>
          @ [\<lparr>Fragment = Some (r_buf ?s @ ?q), Discarded = DiscardNone\<rparr>])" "\<not> r_assembly r'"
      using IH [of ?s] False r by (auto simp: mod_64_eq_and)
    moreover have "SegmentsFor (length p) - 1 = Suc (SegmentsFor (length ?q) - 1)"
      using False length_ref_segments [of 0 False ?q] by (simp add: SegmentsFor_step) (metis Suc_pred length_greater_0_conv ref_segments_ne)
    ultimately show ?thesis using False by (simp add: ref_segments.simps [of seq] a)
  qed
qed

lemma take_bit_succ_int: "take_bit 6 (take_bit 6 k + 1) = take_bit 6 (k + 1 :: int)"
  by (simp add: take_bit_eq_mod mod_simps)

lemma take_bit_succ: "take_bit 6 (take_bit 6 x + 1) = take_bit 6 (x + 1 :: byte)"
  by transfer (simp add: take_bit_succ_int)

lemma masked_succ: "((x AND 0x3F) + 1) mod TSeqModulus = (x + 1) mod (TSeqModulus :: byte)"
  using take_bit_succ [of x] by (simp add: mod_64_eq_and take_bit_eq_mask mask_eq_exp_minus_1)

lemma Accept_FIR:
  assumes "int (length p) \<le> maxFragment r"
  shows "\<exists>r' d. Accept (THeader_Byte \<lparr>TFir = True, TFin = fin, TSeq = seq\<rparr> # p) r =
      (r', \<lparr>Fragment = (if fin then Some p else None), Discarded = d\<rparr>) \<and>
    r_assembly r' = (\<not> fin) \<and> r_buf r' = p \<and> r_expect r' = (seq + 1) mod TSeqModulus \<and>
    maxFragment r' = maxFragment r"
  using assms
  by (auto simp: Accept_def TParseHeader_THeader_Byte R_append_def Let_def masked_succ count_discard_def)

lemma reassemble_aux:
  assumes "int (length p) \<le> maxFragment r"
  shows "\<exists>r' res. run_ops Accept (snd (SegmentAll s p)) r = (r', res) \<and> \<not> r_assembly r' \<and>
    map Fragment res = replicate (SegmentsFor (length p) - 1) None @ [Some p]"
proof (cases "length p \<le> MaxSegmentPayload")
  case True
  then show ?thesis
    using Accept_FIR [OF assms, of True "s_seq s"]
    by (fastforce simp: snd_SegmentAll ref_segments.simps [of "s_seq s"] SegmentsFor_one)
next
  case False
  let ?p = "take MaxSegmentPayload p" and ?q = "drop MaxSegmentPayload p"
  have p: "int (length ?p) \<le> maxFragment r" using assms by simp
  obtain r1 d where r1: "Accept (THeader_Byte \<lparr>TFir = True, TFin = False, TSeq = s_seq s\<rparr> # ?p) r
      = (r1, \<lparr>Fragment = None, Discarded = d\<rparr>)" "r_assembly r1" "r_buf r1 = ?p"
      "r_expect r1 = (s_seq s + 1) mod TSeqModulus" "maxFragment r1 = maxFragment r"
    using Accept_FIR [OF p, of False "s_seq s"] by auto
  obtain r2 where r2: "run_ops Accept (ref_segments ((s_seq s + 1) mod TSeqModulus) False ?q) r1 =
     (r2, replicate (SegmentsFor (length ?q) - 1) \<lparr>Fragment = None, Discarded = DiscardNone\<rparr>
        @ [\<lparr>Fragment = Some p, Discarded = DiscardNone\<rparr>])" "\<not> r_assembly r2"
    using Accept_ref_segments [OF r1(2,4), of ?q] assms False r1(3,5) by (auto simp: mod_64_eq_and)
  have n: "SegmentsFor (length p) - 1 = Suc (SegmentsFor (length ?q) - 1)"
    using False length_ref_segments [of 0 False ?q]
    by (simp add: SegmentsFor_step) (metis Suc_pred length_greater_0_conv ref_segments_ne)
  show ?thesis
    using r1(1) r2 False n
    by (auto simp: snd_SegmentAll ref_segments.simps [of "s_seq s"] map_replicate_const)
qed

text \<open>
  Feeding the segments of a fragment to a reassembler, whatever it was doing before and
  whatever the sequence counter, delivers exactly that fragment, with the last segment and
  not before; the reassembler is then idle.
\<close>

theorem reassemble_SegmentAll:
  assumes "int (length p) \<le> maxFragment r"
  shows "\<exists>r' res. run_ops Accept (snd (SegmentAll s p)) r = (r', res) \<and> \<not> r_assembly r' \<and>
    map Fragment res = replicate (SegmentsFor (length p) - 1) None @ [Some p]"
  using assms by (rule reassemble_aux)

definition idle_segmenter :: segmenter where
  "idle_segmenter = \<lparr>s_frag = [], s_off = 0, s_seq = 63, s_live = False\<rparr>"

theorem reassemble_SegmentAll_witness:
  "int (length (replicate 600 0xAA :: byte list)) \<le> maxFragment (NewReassembler 0) \<and>
   (\<exists>r' res. run_ops Accept (snd (SegmentAll idle_segmenter (replicate 600 0xAA))) (NewReassembler 0) = (r', res) \<and>
     map Fragment res = [None, None, Some (replicate 600 0xAA)])"
proof -
  have "int (length (replicate 600 0xAA :: byte list)) \<le> maxFragment (NewReassembler 0)"
    by (simp add: maxFragment_def NewReassembler_def)
  moreover have "replicate (SegmentsFor 600 - 1) None = [None, None :: byte list option]"
    by (simp add: SegmentsFor_def numeral_2_eq_2)
  ultimately show ?thesis
    using reassemble_SegmentAll [of "replicate 600 0xAA" "NewReassembler 0" idle_segmenter] by auto
qed

section \<open>What a reassembler can deliver\<close>

abbreviation seg_header :: "byte list \<Rightarrow> transport_header" where
  "seg_header s \<equiv> TParseHeader (s ! 0)"

abbreviation next_seq :: "byte list \<Rightarrow> byte" where
  "next_seq s \<equiv> (TSeq (seg_header s) + 1) mod TSeqModulus"

text \<open>
  A run of segments: FIR on the first only, each sequence number one more than the last.
  \<open>fragment_run\<close> also asks for FIN on the last and on no other.
\<close>

fun gapless :: "byte \<Rightarrow> byte list list \<Rightarrow> bool" where
  "gapless seq [] \<longleftrightarrow> True"
| "gapless seq (s # ss) \<longleftrightarrow>
     \<not> TFir (seg_header s) \<and> TSeq (seg_header s) = seq \<and> gapless (next_seq s) ss"

fun open_run :: "byte list list \<Rightarrow> bool" where
  "open_run [] \<longleftrightarrow> False"
| "open_run (s # ss) \<longleftrightarrow> TFir (seg_header s) \<and> gapless (next_seq s) ss"

definition fragment_run :: "byte list list \<Rightarrow> bool" where
  "fragment_run run \<longleftrightarrow> open_run run \<and> TFin (seg_header (last run)) \<and>
     list_all (\<lambda>s. \<not> TFin (seg_header s)) (butlast run)"

lemma gapless_snoc:
  "gapless seq (ss @ [s]) \<longleftrightarrow> gapless seq ss \<and> \<not> TFir (seg_header s) \<and>
     TSeq (seg_header s) = (if ss = [] then seq else next_seq (last ss))"
  by (induction ss arbitrary: seq) auto

lemma open_run_snoc:
  "run \<noteq> [] \<Longrightarrow> open_run (run @ [s]) \<longleftrightarrow>
     open_run run \<and> \<not> TFir (seg_header s) \<and> TSeq (seg_header s) = next_seq (last run)"
  by (cases run) (auto simp: gapless_snoc)

lemma open_run_ne: "open_run run \<Longrightarrow> run \<noteq> []"
  by auto

text \<open>
  \<open>assembling h r\<close>: what the reassembler holds is the payload of a run that ends the
  segments so far. Segments without even a header octet are skipped.
\<close>

definition assembling :: "byte list list \<Rightarrow> reassembler \<Rightarrow> bool" where
  "assembling h r \<longleftrightarrow> (\<exists>pre run. filter (\<lambda>s. s \<noteq> []) h = pre @ run \<and> open_run run \<and>
     list_all (\<lambda>s. \<not> TFin (seg_header s)) run \<and> r_buf r = concat (map tl run) \<and>
     r_expect r = next_seq (last run))"

definition reasm_inv :: "int \<Rightarrow> byte list list \<Rightarrow> reassembler \<Rightarrow> bool" where
  "reasm_inv m h r \<longleftrightarrow> maxFragment r = m \<and> int (length (r_buf r)) \<le> m \<and>
     (r_assembly r \<longrightarrow> assembling h r)"

definition delivers_run :: "int \<Rightarrow> byte list list \<Rightarrow> reasm_result \<Rightarrow> bool" where
  "delivers_run m h res \<longleftrightarrow> (\<forall>f. Fragment res = Some f \<longrightarrow> int (length f) \<le> m \<and>
     (\<exists>pre run. filter (\<lambda>s. s \<noteq> []) h = pre @ run \<and> fragment_run run \<and> f = concat (map tl run)))"

lemma assembling_FIR:
  "TFir (seg_header s) \<Longrightarrow> \<not> TFin (seg_header s) \<Longrightarrow> s \<noteq> [] \<Longrightarrow> r_buf r = tl s \<Longrightarrow>
   r_expect r = next_seq s \<Longrightarrow> assembling (h @ [s]) r"
  unfolding assembling_def
  by (rule exI [where x = "filter (\<lambda>s. s \<noteq> []) h"], rule exI [where x = "[s]"]) auto

lemma assembling_next:
  assumes "assembling h r" "\<not> TFir (seg_header s)" "\<not> TFin (seg_header s)" "s \<noteq> []"
    "TSeq (seg_header s) = r_expect r" "r_buf r' = r_buf r @ tl s" "r_expect r' = next_seq s"
  shows "assembling (h @ [s]) r'"
proof -
  from assms(1) obtain pre run where run: "filter (\<lambda>s. s \<noteq> []) h = pre @ run" "open_run run"
    "list_all (\<lambda>s. \<not> TFin (seg_header s)) run" "r_buf r = concat (map tl run)"
    "r_expect r = next_seq (last run)"
    by (auto simp: assembling_def)
  then show ?thesis using assms(2-)
    unfolding assembling_def
    by (rule_tac x = pre in exI, rule_tac x = "run @ [s]" in exI) (auto simp: open_run_snoc open_run_ne)
qed

lemma fragment_run_next:
  assumes "assembling h r" "\<not> TFir (seg_header s)" "TFin (seg_header s)" "s \<noteq> []"
    "TSeq (seg_header s) = r_expect r"
  shows "\<exists>pre run. filter (\<lambda>s. s \<noteq> []) (h @ [s]) = pre @ run \<and> fragment_run run \<and>
    r_buf r @ tl s = concat (map tl run)"
proof -
  from assms(1) obtain pre run where run: "filter (\<lambda>s. s \<noteq> []) h = pre @ run" "open_run run"
    "list_all (\<lambda>s. \<not> TFin (seg_header s)) run" "r_buf r = concat (map tl run)"
    "r_expect r = next_seq (last run)"
    by (auto simp: assembling_def)
  then show ?thesis using assms(2-)
    by (rule_tac x = pre in exI, rule_tac x = "run @ [s]" in exI)
      (auto simp: fragment_run_def open_run_snoc open_run_ne)
qed

lemma fragment_run_single:
  "TFir (seg_header s) \<Longrightarrow> TFin (seg_header s) \<Longrightarrow> s \<noteq> [] \<Longrightarrow>
   \<exists>pre run. filter (\<lambda>s. s \<noteq> []) (h @ [s]) = pre @ run \<and> fragment_run run \<and> tl s = concat (map tl run)"
  by (rule exI [where x = "filter (\<lambda>s. s \<noteq> []) h"], rule exI [where x = "[s]"])
    (auto simp: fragment_run_def)

lemma assembling_skip: "assembling (h @ [[]]) r \<longleftrightarrow> assembling h r"
  by (simp add: assembling_def)

lemma assembling_stats [simp]: "assembling h (r\<lparr>r_stats := st\<rparr>) \<longleftrightarrow> assembling h r"
  by (simp add: assembling_def)

lemmas accept_defs = Accept_def R_append_def discard_def count_discard_def R_Reset_def Let_def

lemma Accept_inv: "reasm_inv m h r \<Longrightarrow> reasm_inv m (h @ [s]) (fst (Accept s r))"
  using maxFragment_pos [of r]
  by (cases "s = []")
    (auto simp: reasm_inv_def accept_defs Suc_le_eq assembling_skip drop_Suc
      intro: assembling_FIR assembling_next split: prod.splits if_splits)

lemma Accept_good: "reasm_inv m h r \<Longrightarrow> delivers_run m (h @ [s]) (snd (Accept s r))"
  using fragment_run_next [of h r s] fragment_run_single [of s h]
  by (cases "s = []")
    (auto simp: reasm_inv_def accept_defs Suc_le_eq delivers_run_def drop_Suc
      split: prod.splits if_splits)

interpretation reasm: history_machine Accept "reasm_inv m" "delivers_run m" for m
  by unfold_locales (auto intro: Accept_inv Accept_good)

text \<open>
  C2. A reassembler never stitches around a hole: whatever segments arrive, in whatever
  order, a fragment delivered at the \<open>n\<close>-th of them is the payload of one complete run that
  ends there (FIR on the first only, FIN on the last only, every sequence number one more
  than the one before), and is no longer than the configured maximum.
\<close>

theorem Accept_delivers_runs:
  assumes "n < length segs"
    and "snd (run_ops Accept segs (NewReassembler m)) ! n = res" and "Fragment res = Some f"
  shows "int (length f) \<le> maxFragment (NewReassembler m) \<and>
    (\<exists>pre run. filter (\<lambda>s. s \<noteq> []) (take (Suc n) segs) = pre @ run \<and> fragment_run run \<and>
       f = concat (map tl run))"
proof -
  have "reasm_inv (maxFragment (NewReassembler m)) [] (NewReassembler m)"
    using maxFragment_pos [of "NewReassembler m"] by (simp add: reasm_inv_def) (simp add: NewReassembler_def)
  from reasm.run_good [OF this assms(1)] assms(2,3) show ?thesis by (simp add: delivers_run_def)
qed

theorem Accept_delivers_runs_witness:
  "let segs = [[0x40, 1], [], [0x81, 2], [0xC5, 3 :: byte]] in
   Fragment (snd (run_ops Accept segs (NewReassembler 0)) ! 2) = Some [1, 2] \<and>
   (\<exists>pre run. [[0x40, 1], [0x81, 2]] = pre @ run \<and> fragment_run run \<and> [1, 2] = concat (map tl run))"
proof -
  let ?segs = "[[0x40, 1], [], [0x81, 2], [0xC5, 3 :: byte]]"
  have f: "Fragment (snd (run_ops Accept ?segs (NewReassembler 0)) ! 2) = Some [1, 2]"
    by (simp add: NewReassembler_def accept_defs TParseHeader_def maxFragment_def)
  show ?thesis
    using Accept_delivers_runs [of 2 ?segs 0, OF _ refl f] f by simp
qed

definition stats_consistent :: "transport_stats \<Rightarrow> bool" where
  "stats_consistent st \<longleftrightarrow> Discards st DiscardNone = 0 \<and>
     SegmentsDiscarded st = Discards st DiscardEmptySegment + Discards st DiscardNoFIR
       + Discards st DiscardUnexpectedFIR + Discards st DiscardBadSequence + Discards st DiscardOverflow"

text \<open>
  The counters stay consistent: every call counts one segment, counts a completed fragment
  exactly when it delivers one, and keeps the discard total equal to the sum of the
  per-reason counters, with nothing ever filed under \<open>DiscardNone\<close> (all counters wrap at 64 bits).
\<close>

theorem Accept_accounts:
  assumes "stats_consistent (r_stats r)" and "Accept s r = (r', res)"
  shows "stats_consistent (r_stats r') \<and>
    SegmentsReceived (r_stats r') = SegmentsReceived (r_stats r) + 1 \<and>
    FragmentsCompleted (r_stats r') = FragmentsCompleted (r_stats r) + of_bool (Fragment res \<noteq> None)"
  using assms by (auto simp: accept_defs stats_consistent_def split: prod.splits if_splits)

theorem Accept_accounts_witness:
  "stats_consistent (r_stats (NewReassembler 0)) \<and>
   (case Accept [0x85, 1] (NewReassembler 0) of (r', res) \<Rightarrow>
      res = \<lparr>Fragment = None, Discarded = DiscardNoFIR\<rparr> \<and> stats_consistent (r_stats r') \<and>
      SegmentsReceived (r_stats r') = 1)"
proof -
  have c: "stats_consistent (r_stats (NewReassembler 0))"
    by (simp add: stats_consistent_def NewReassembler_def)
  show ?thesis
    using Accept_accounts [OF c, of "[0x85, 1]" "fst (Accept [0x85, 1] (NewReassembler 0))"
        "snd (Accept [0x85, 1] (NewReassembler 0))"] c
    by (simp add: case_prod_beta) (simp add: NewReassembler_def accept_defs TParseHeader_def)
qed

end
