(* ===== verification/Stack_Fn.thy ===== *)
theory Stack_Fn
  imports Link_Parser Link_Primary Link_Secondary Transport_Fn
begin

text \<open>
  The link and transport layers of one connection, \<^verbatim>\<open>internal/stack/stack.go\<close>. The writer and
  the fragment callback are the session's: they are parameters that act on a world of their
  own, and the callback may use the stack again, as a session does when it answers a request
  from inside it. The reused transmit buffers of the source hold no state between calls and
  are not modelled. The lemmas show which frames reach the link state machines, that the
  stack's own bookkeeping agrees with the primary's, and that a fragment one stack sends is
  the fragment the peer's stack delivers.
\<close>

section \<open>State\<close>

record stack_config =
  LocalAddr :: u16
  RemoteAddr :: u16
  IsMaster :: bool
  CfgSelfAddress :: bool
  CfgUseConfirms :: bool
  CfgMaxRetries :: int
  MaxRxFragment :: int

record stack =
  cfg :: stack_config
  prs :: parser
  pri :: primary
  sec :: secondary
  seg :: segmenter
  reasm :: reassembler
  awaiting :: bool
  dest :: u16

record received =
  RFragment :: "byte list"
  RSource :: u16
  RDest :: u16
  RBroadcast :: bool

text \<open>
  A writer: what \<^verbatim>\<open>Write\<close> does to the world, with its error if any, and for a writer that
  is a \<^verbatim>\<open>messageWriter\<close> its two bracketing calls.
\<close>

record ('w, 'e) writer =
  w_write :: "byte list \<Rightarrow> 'w \<Rightarrow> 'w \<times> 'e option"
  w_message :: "(('w \<Rightarrow> 'w) \<times> ('w \<Rightarrow> 'w \<times> 'e option)) option"

datatype 'e stack_error =
    EmptyFragment
  | FragmentInFlight
  | LinkSend primary_error
  | LinkRefused
  | LinkStatus primary_error
  | EncodeError link_error
  | WriteError 'e
  | StackBufferFull

definition New :: "stack_config \<Rightarrow> stack" where
  "New c =
     (let c = (if MaxRxFragment c \<le> 0 then c\<lparr>MaxRxFragment := int DefaultMaxFragment\<rparr> else c)
      in \<lparr>cfg = c, prs = NewParser,
          pri = \<lparr>PriLocalAddr = LocalAddr c, PriRemoteAddr = RemoteAddr c, PriIsMaster = IsMaster c,
                 UseConfirms = CfgUseConfirms c, MaxRetries = CfgMaxRetries c, pri_state = priIdle,
                 linkUp = False, pri_fcb = False, retries = 0, pending = [], lastSent = zero_frame,
                 dfc = False\<rparr>,
          sec = \<lparr>SecLocalAddr = LocalAddr c, SecIsMaster = IsMaster c, sec_reset = False, expectFCB = False\<rparr>,
          seg = \<lparr>s_frag = [], s_off = 0, s_seq = 0, s_live = False\<rparr>,
          reasm = NewReassembler (MaxRxFragment c), awaiting = False, dest = RemoteAddr c\<rparr>)"

definition Stack_Reset :: "stack \<Rightarrow> stack" where
  "Stack_Reset s = s\<lparr>prs := NewParser, reasm := R_Reset (reasm s), pri := Pri_Reset (pri s),
     sec := Sec_Reset (sec s), awaiting := False, seg := Seg_Clear (seg s)\<rparr>"

definition Stack_Pending :: "stack \<Rightarrow> bool" where
  "Stack_Pending s = awaiting s"

definition Stack_Busy :: "stack \<Rightarrow> bool" where
  "Stack_Busy s \<longleftrightarrow> awaiting s \<or> Seg_Pending (seg s)"

section \<open>Transmitting\<close>

definition stack_write :: "('w, 'e) writer \<Rightarrow> link_frame \<Rightarrow> 'w \<Rightarrow> 'w \<times> 'e stack_error option" where
  "stack_write io f w =
     (case Encode [] (LHeader f) (Payload f) of
        Inl e \<Rightarrow> (w, Some (EncodeError e))
      | Inr out \<Rightarrow> (case w_write io out w of (w, e) \<Rightarrow> (w, map_option WriteError e)))"

text \<open>
  The loop of \<open>pumpFrames\<close>. The primary's remote address is the fragment's destination while
  the segment is handed to it, and is put back afterwards.
\<close>

lemma Seg_Next_decreases:
  "Seg_Next s [] = (s', out, True) \<Longrightarrow>
   (if s_live s' then Suc (length (s_frag s') - s_off s') else 0) < (if s_live s then Suc (length (s_frag s) - s_off s) else 0)"
  by (auto simp: Seg_Next_def Let_def split: if_splits)

function pumpFrames :: "('w, 'e) writer \<Rightarrow> stack \<Rightarrow> 'w \<Rightarrow> stack \<times> 'w \<times> 'e stack_error option" where
  "pumpFrames io s w =
     (if \<not> Seg_Pending (seg s) then (s\<lparr>awaiting := False\<rparr>, w, None)
      else if dfc (pri s) then (s, w, None)
      else
        case Seg_Next (seg s) [] of (sg, segment, ok) \<Rightarrow>
          let s = s\<lparr>seg := sg\<rparr>
          in if \<not> ok then (s\<lparr>awaiting := False\<rparr>, w, None)
             else
               case Pri_Send segment ((pri s)\<lparr>PriRemoteAddr := dest s\<rparr>) of (p, f, action, err) \<Rightarrow>
                 let s = s\<lparr>pri := p\<lparr>PriRemoteAddr := PriRemoteAddr (pri s)\<rparr>\<rparr>
                 in case err of
                      Some e \<Rightarrow> (s, w, Some (LinkSend e))
                    | None \<Rightarrow>
                        if action = ActionFailed then (s, w, Some LinkRefused)
                        else case stack_write io f w of
                               (w, Some e) \<Rightarrow> (s, w, Some e)
                             | (w, None) \<Rightarrow>
                                 if action = ActionTransmit then (s\<lparr>awaiting := True\<rparr>, w, None)
                                 else pumpFrames io s w)"
  by pat_completeness auto
termination
proof (relation "measure (\<lambda>(io, s, w). if s_live (seg s) then Suc (length (s_frag (seg s)) - s_off (seg s)) else 0)")
qed (auto simp: Let_def dest!: Seg_Next_decreases [OF sym] split: if_splits)

declare pumpFrames.simps [simp del]

text \<open>An error of \<^verbatim>\<open>EndMessage\<close> is reported only when the frames themselves went out.\<close>

definition pump :: "('w, 'e) writer \<Rightarrow> stack \<Rightarrow> 'w \<Rightarrow> stack \<times> 'w \<times> 'e stack_error option" where
  "pump io s w =
     (case w_message io of
        None \<Rightarrow> pumpFrames io s w
      | Some (BeginMessage, EndMessage) \<Rightarrow>
          (case pumpFrames io s (BeginMessage w) of (s, w, err) \<Rightarrow>
             case EndMessage w of (w, eerr) \<Rightarrow>
               (s, w, if err = None then map_option WriteError eerr else err)))"

definition SendTo :: "('w, 'e) writer \<Rightarrow> stack \<Rightarrow> u16 \<Rightarrow> byte list \<Rightarrow> 'w \<Rightarrow> stack \<times> 'w \<times> 'e stack_error option" where
  "SendTo io s d fragment w =
     (if length fragment = 0 then (s, w, Some EmptyFragment)
      else if Stack_Busy s then (s, w, Some FragmentInFlight)
      else pump io (s\<lparr>dest := d, seg := Seg_Reset fragment (seg s)\<rparr>) w)"

definition Send :: "('w, 'e) writer \<Rightarrow> stack \<Rightarrow> byte list \<Rightarrow> 'w \<Rightarrow> stack \<times> 'w \<times> 'e stack_error option" where
  "Send io s fragment w = SendTo io s (RemoteAddr (cfg s)) fragment w"

definition Stack_OnTimeout :: "('w, 'e) writer \<Rightarrow> stack \<Rightarrow> 'w \<Rightarrow> stack \<times> 'w \<times> bool \<times> 'e stack_error option" where
  "Stack_OnTimeout io s w =
     (if \<not> awaiting s then (s, w, False, None)
      else
        case Pri_OnTimeout (pri s) of (p, f, action) \<Rightarrow>
          let s = s\<lparr>pri := p\<rparr>
          in if action = ActionTransmit then (case stack_write io f w of (w, e) \<Rightarrow> (s, w, False, e))
             else if action = ActionFailed then (s\<lparr>awaiting := False, seg := Seg_Clear (seg s)\<rparr>, w, True, None)
             else (s\<lparr>awaiting := False\<rparr>, w, False, None))"

definition SendLinkStatusRequest :: "('w, 'e) writer \<Rightarrow> stack \<Rightarrow> 'w \<Rightarrow> stack \<times> 'w \<times> 'e stack_error option" where
  "SendLinkStatusRequest io s w =
     (if awaiting s then (s, w, None)
      else
        case RequestLinkStatus (pri s) of (p, f, action, err) \<Rightarrow>
          let s = s\<lparr>pri := p\<rparr>
          in case err of
               Some e \<Rightarrow> (s, w, Some (LinkStatus e))
             | None \<Rightarrow>
                 if action \<noteq> ActionTransmit then (s, w, None)
                 else case stack_write io f w of (w, e) \<Rightarrow> (s\<lparr>awaiting := True\<rparr>, w, e))"

section \<open>Receiving\<close>

type_synonym 'w callback = "received \<Rightarrow> stack \<Rightarrow> 'w \<Rightarrow> stack \<times> 'w"

definition addressedToUs :: "stack \<Rightarrow> u16 \<Rightarrow> bool" where
  "addressedToUs s d \<longleftrightarrow> d = LocalAddr (cfg s) \<or> IsBroadcast d \<or>
     (CfgSelfAddress (cfg s) \<and> \<not> IsMaster (cfg s) \<and> d = SelfAddress)"

definition deliver :: "'w callback \<Rightarrow> link_frame \<Rightarrow> byte list \<Rightarrow> stack \<Rightarrow> 'w \<Rightarrow> stack \<times> 'w" where
  "deliver fn f payload s w =
     (case Accept payload (reasm s) of (r, res) \<Rightarrow>
        let s = s\<lparr>reasm := r\<rparr>
        in case Fragment res of
             None \<Rightarrow> (s, w)
           | Some frag \<Rightarrow> fn \<lparr>RFragment = frag, RSource = Src (LHeader f), RDest = Dest (LHeader f),
                           RBroadcast = IsBroadcast (Dest (LHeader f))\<rparr> s w)"

text \<open>The two halves a frame is routed to, then the body of the loop of \<open>drain\<close>.\<close>

definition drain_primary :: "('w, 'e) writer \<Rightarrow> 'w callback \<Rightarrow> link_frame \<Rightarrow> stack \<Rightarrow> 'w \<Rightarrow> stack \<times> 'w \<times> 'e stack_error option" where
  "drain_primary io fn f s w =
     (case Sec_OnFrame f (sec s) of (sc, res) \<Rightarrow>
        let s = s\<lparr>sec := sc\<rparr>
        in case (case Reply res of None \<Rightarrow> (w, None) | Some r \<Rightarrow> stack_write io r w) of
             (w, Some e) \<Rightarrow> (s, w, Some e)
           | (w, None) \<Rightarrow>
               (case SecPayload res of
                  None \<Rightarrow> (s, w, None)
                | Some payload \<Rightarrow> (case deliver fn f payload s w of (s, w) \<Rightarrow> (s, w, None))))"

definition drain_secondary :: "('w, 'e) writer \<Rightarrow> link_frame \<Rightarrow> stack \<Rightarrow> 'w \<Rightarrow> stack \<times> 'w \<times> 'e stack_error option" where
  "drain_secondary io f s w =
     (let src = Src (LHeader f)
      in if src \<noteq> dest s \<and> (dest s \<noteq> SelfAddress \<or> \<not> IsValidSource src) then (s, w, None)
         else
           let s = (if src \<noteq> dest s then s\<lparr>dest := src\<rparr> else s)
           in case Pri_OnFrame f (pri s) of (p, nxt, action) \<Rightarrow>
                let s = s\<lparr>pri := p\<rparr>
                in case action of
                     ActionTransmit \<Rightarrow> (case stack_write io nxt w of (w, e) \<Rightarrow> (s, w, e))
                   | ActionComplete \<Rightarrow> pump io (s\<lparr>awaiting := False\<rparr>) w
                   | ActionFailed \<Rightarrow> (s\<lparr>awaiting := False, seg := Seg_Clear (seg s)\<rparr>, w, None)
                   | ActionNone \<Rightarrow> (s, w, None))"

definition drain_frame :: "('w, 'e) writer \<Rightarrow> 'w callback \<Rightarrow> link_frame \<Rightarrow> stack \<Rightarrow> 'w \<Rightarrow> stack \<times> 'w \<times> 'e stack_error option" where
  "drain_frame io fn f s w =
     (let h = LHeader f
      in if \<not> addressedToUs s (Dest h) then (s, w, None)
         else if Dir (LControl h) = IsMaster (cfg s) then (s, w, None)
         else if \<not> IsValidSource (Src h) then (s, w, None)
         else if Prm (LControl h) then drain_primary io fn f s w
         else drain_secondary io f s w)"

text \<open>
  The loop itself. A callback might feed the parser again, so the loop is partial: \<open>None\<close>
  would be a call that never returns.
\<close>

partial_function (option) drain ::
  "('w, 'e) writer \<Rightarrow> 'w callback \<Rightarrow> stack \<Rightarrow> 'w \<Rightarrow> (stack \<times> 'w \<times> 'e stack_error option) option" where
  "drain io fn s w =
     (case Next (prs s) of (p, r) \<Rightarrow>
        let s = s\<lparr>prs := p\<rparr>
        in case r of
             None \<Rightarrow> Some (s, w, None)
           | Some f \<Rightarrow>
               (case drain_frame io fn f s w of (s, w, err) \<Rightarrow>
                  case err of
                    Some e \<Rightarrow> Some (s, w, Some e)
                  | None \<Rightarrow> drain io fn s w))"

partial_function (option) Receive ::
  "('w, 'e) writer \<Rightarrow> 'w callback \<Rightarrow> stack \<Rightarrow> byte list \<Rightarrow> 'w \<Rightarrow> (stack \<times> 'w \<times> 'e stack_error option) option" where
  "Receive io fn s data w =
     (if data = [] then Some (s, w, None)
      else
        case Write (prs s) data of (p, n, short) \<Rightarrow>
          Option.bind (drain io fn (s\<lparr>prs := p\<rparr>) w) (\<lambda>(s, w, err).
            case err of
              Some e \<Rightarrow> Some (s, w, Some e)
            | None \<Rightarrow>
                if short \<and> n = 0 then Some (s, w, Some StackBufferFull)
                else Receive io fn s (drop n data) w))"

section \<open>The parser is a stage of its own\<close>

text \<open>
  A callback that neither reads nor writes the parser, as every session's callback does.
  Then nothing else in the stack touches it either, so receiving is handling the frames of
  the stream one after the other.
\<close>

definition parser_blind :: "'w callback \<Rightarrow> bool" where
  "parser_blind fn \<longleftrightarrow> (\<forall>r s w p. fn r (s\<lparr>prs := p\<rparr>) w = (case fn r s w of (s', w') \<Rightarrow> (s'\<lparr>prs := p\<rparr>, w')))"

definition with_parser :: "parser \<Rightarrow> stack \<times> 'w \<times> 'x \<Rightarrow> stack \<times> 'w \<times> 'x" where
  "with_parser p r = (case r of (s, w, e) \<Rightarrow> (s\<lparr>prs := p\<rparr>, w, e))"

lemma with_parser_simps [simp]:
  "with_parser p (s, x) = (s\<lparr>prs := p\<rparr>, x)"
  by (cases x) (simp add: with_parser_def)

lemma stack_prs_commute:
  "(s :: stack)\<lparr>prs := p, awaiting := b\<rparr> = s\<lparr>awaiting := b, prs := p\<rparr>"
  "(s :: stack)\<lparr>prs := p, seg := g\<rparr> = s\<lparr>seg := g, prs := p\<rparr>"
  "(s :: stack)\<lparr>prs := p, pri := q\<rparr> = s\<lparr>pri := q, prs := p\<rparr>"
  "(s :: stack)\<lparr>prs := p, sec := c\<rparr> = s\<lparr>sec := c, prs := p\<rparr>"
  "(s :: stack)\<lparr>prs := p, reasm := r\<rparr> = s\<lparr>reasm := r, prs := p\<rparr>"
  "(s :: stack)\<lparr>prs := p, dest := d\<rparr> = s\<lparr>dest := d, prs := p\<rparr>"
  by simp_all

lemma pumpFrames_parser: "pumpFrames io (s\<lparr>prs := p\<rparr>) w = with_parser p (pumpFrames io s w)"
proof (induction io s w rule: pumpFrames.induct)
  case (1 io s w)
  show ?case
    apply (subst pumpFrames.simps, subst (2) pumpFrames.simps)
    using 1 by (auto simp: Let_def stack_prs_commute split: prod.splits option.splits)
qed

lemma pump_parser: "pump io (s\<lparr>prs := p\<rparr>) w = with_parser p (pump io s w)"
  by (simp add: pump_def pumpFrames_parser split: option.splits prod.splits)

lemma deliver_parser:
  "parser_blind fn \<Longrightarrow> deliver fn f d (s\<lparr>prs := p\<rparr>) w = (case deliver fn f d s w of (s', w') \<Rightarrow> (s'\<lparr>prs := p\<rparr>, w'))"
  by (auto simp: deliver_def Let_def parser_blind_def stack_prs_commute split: prod.splits option.splits)

lemma drain_primary_parser:
  "parser_blind fn \<Longrightarrow> drain_primary io fn f (s\<lparr>prs := p\<rparr>) w = with_parser p (drain_primary io fn f s w)"
  by (simp add: drain_primary_def Let_def stack_prs_commute deliver_parser split: prod.splits option.splits)

lemma drain_secondary_parser:
  "drain_secondary io f (s\<lparr>prs := p\<rparr>) w = with_parser p (drain_secondary io f s w)"
  by (simp add: drain_secondary_def Let_def stack_prs_commute pump_parser split: prod.splits Action.splits)

lemma drain_frame_parser:
  "parser_blind fn \<Longrightarrow> drain_frame io fn f (s\<lparr>prs := p\<rparr>) w = with_parser p (drain_frame io fn f s w)"
  by (simp add: drain_frame_def addressedToUs_def drain_primary_parser drain_secondary_parser Let_def)

text \<open>Handling frames one after the other, up to the first error.\<close>

fun handle_all ::
  "('w, 'e) writer \<Rightarrow> 'w callback \<Rightarrow> link_frame list \<Rightarrow> stack \<Rightarrow> 'w \<Rightarrow> stack \<times> 'w \<times> 'e stack_error option" where
  "handle_all io fn [] s w = (s, w, None)"
| "handle_all io fn (f # fs) s w =
     (case drain_frame io fn f s w of
        (s, w, Some e) \<Rightarrow> (s, w, Some e)
      | (s, w, None) \<Rightarrow> handle_all io fn fs s w)"

lemma handle_all_append:
  "handle_all io fn (fs @ gs) s w =
     (case handle_all io fn fs s w of
        (s, w, Some e) \<Rightarrow> (s, w, Some e)
      | (s, w, None) \<Rightarrow> handle_all io fn gs s w)"
  by (induction fs arbitrary: s w) (auto split: prod.splits option.splits)

lemma handle_all_parser:
  "parser_blind fn \<Longrightarrow> handle_all io fn fs (s\<lparr>prs := p\<rparr>) w = with_parser p (handle_all io fn fs s w)"
  by (induction fs arbitrary: s w) (auto simp: drain_frame_parser split: prod.splits option.splits)

lemma drain_handle_all:
  assumes "parser_blind fn" "parser_inv p"
    and "handle_all io fn (frames_of (window p)) s w = (s', w', None)"
  shows "\<exists>p'. drain io fn (s\<lparr>prs := p\<rparr>) w = Some (s'\<lparr>prs := p'\<rparr>, w', None) \<and>
    parser_inv p' \<and> window p' = rest_of (window p)"
  using assms(2,3)
proof (induction p arbitrary: s w rule: parser_measure_induct)
  case (step p)
  obtain p1 r where n: "Next p = (p1, r)" by (cases "Next p")
  note ref = Next_refines_aux [OF step.prems(1) n]
  show ?case
  proof (cases r)
    case None
    then have "drain io fn (s\<lparr>prs := p\<rparr>) w = Some (s\<lparr>prs := p1\<rparr>, w, None)"
      using n by (subst drain.simps) simp
    with None ref step.prems(2) show ?thesis by (auto simp: frames_of_None)
  next
    case (Some f)
    obtain s1 w1 e where fr: "drain_frame io fn f s w = (s1, w1, e)" by (metis prod_cases3)
    have fs: "frames_of (window p) = f # frames_of (window p1)" "rest_of (window p) = rest_of (window p1)"
      using ref Some frames_of_Some by auto
    with step.prems(2) fr have e: "e = None" by (auto split: option.splits)
    with fs fr step.prems(2) have rest: "handle_all io fn (frames_of (window p1)) s1 w1 = (s', w', None)" by simp
    have "drain io fn (s\<lparr>prs := p\<rparr>) w = drain io fn (s1\<lparr>prs := p1\<rparr>) w1"
      using n Some fr e by (simp add: drain.simps [of _ _ "s\<lparr>prs := p\<rparr>"] drain_frame_parser [OF assms(1)])
    then show ?thesis
      using step.IH [OF Next_Some_window_less _ rest] n ref Some fs(2) by auto
  qed
qed

lemma Receive_handle_all:
  assumes "parser_blind fn" "drained p"
    and "handle_all io fn (frames_of (window p @ data)) s w = (s', w', None)"
  shows "\<exists>p'. Receive io fn (s\<lparr>prs := p\<rparr>) data w = Some (s'\<lparr>prs := p'\<rparr>, w', None) \<and> drained p' \<and>
    (\<forall>d. frames_of (window p @ data @ d) = frames_of (window p @ data) @ frames_of (window p' @ d))"
  using assms(2,3)
proof (induction data arbitrary: p s w rule: length_induct)
  case (1 data)
  show ?case
  proof (cases "data = []")
    case True
    with 1(2,3) show ?thesis by (auto simp: Receive.simps drained_def)
  next
    case False
    obtain q n short where wr: "Write p data = (q, n, short)" by (cases "Write p data")
    have inv: "parser_inv p" and room: "0 < Free p"
      using 1(2) length_window [of p] by (auto simp: drained_def Free_def parser_inv_def)
    note w = Write_aux [OF inv wr]
    have n: "0 < n" using w room False by simp
    let ?c = "take n data" and ?d = "drop n data"
    have split: "frames_of (window p @ data @ e) = frames_of (window q) @ frames_of (rest_of (window q) @ ?d @ e)" for e
      using frames_of_append [of "window q" "?d @ e"] w
      by (metis append.assoc append_take_drop_id)
    obtain s1 w1 e1 where h1: "handle_all io fn (frames_of (window q)) s w = (s1, w1, e1)" by (metis prod_cases3)
    have "e1 = None" and h2: "handle_all io fn (frames_of (rest_of (window q) @ ?d)) s1 w1 = (s', w', None)"
      using 1(3) split [of "[]"] h1 by (auto simp: handle_all_append split: option.splits)
    with h1 drain_handle_all [OF assms(1), of q io s w s1 w1] w obtain q' where
      q': "drain io fn (s\<lparr>prs := q\<rparr>) w = Some (s1\<lparr>prs := q'\<rparr>, w1, None)" "parser_inv q'" "window q' = rest_of (window q)"
      by auto
    have dr: "drained q'" using q' rest_of_bound [of "window q"] by (simp add: drained_def)
    have "Receive io fn (s\<lparr>prs := p\<rparr>) data w = Receive io fn (s1\<lparr>prs := q'\<rparr>) ?d w1"
      using False n wr q'(1) by (simp add: Receive.simps [of _ _ "s\<lparr>prs := p\<rparr>"])
    moreover have "length ?d < length data" using n False by simp
    ultimately show ?thesis
      using 1(1) [rule_format, of ?d q' s1 w1] dr h2 q'(3) split split [of "[]"] by auto
  qed
qed

section \<open>From one stack to the other\<close>

text \<open>A writer that records the octets it is given, and a callback that records the fragments.\<close>

definition tape :: "(byte list, unit) writer" where
  "tape = \<lparr>w_write = (\<lambda>out w. (w @ out, None)), w_message = None\<rparr>"

definition note_fragment :: "received list callback" where
  "note_fragment r s w = (s, w @ [r])"

lemma parser_blind_note: "parser_blind note_fragment"
  by (simp add: parser_blind_def note_fragment_def)

lemma stack_write_tape: "wf_frame f \<Longrightarrow> stack_write tape f w = (w @ wire f, None)"
  by (simp add: stack_write_def tape_def wire_def wf_frame_def Encode_octets)

text \<open>The frame an unconfirmed segment travels in.\<close>

definition segment_frame :: "stack \<Rightarrow> byte list \<Rightarrow> link_frame" where
  "segment_frame s segment =
     Pri_frame ((pri s)\<lparr>PriRemoteAddr := dest s\<rparr>) FuncUnconfirmedUserData False False segment"

definition can_send :: "stack \<Rightarrow> bool" where
  "can_send s \<longleftrightarrow> \<not> UseConfirms (pri s) \<and> \<not> Pri_Busy (pri s) \<and> \<not> dfc (pri s)"

lemma wf_segment_frame: "length d \<le> MaxPayload \<Longrightarrow> wf_frame (segment_frame s d)"
  by (simp add: segment_frame_def wf_Pri_frame)

lemma pumpFrames_unconfirmed:
  assumes "can_send s" "s_live (seg s)" "s_off (seg s) \<le> length (s_frag (seg s))"
  shows "\<exists>s'. pumpFrames tape s w = (s', w @ concat (map (\<lambda>d. wire (segment_frame s d))
      (ref_segments (s_seq (seg s)) (s_off (seg s) = 0) (drop (s_off (seg s)) (s_frag (seg s))))), None) \<and>
    can_send s' \<and> \<not> Stack_Busy s'"
  using assms
proof (induction "if s_live (seg s) then Suc (length (s_frag (seg s)) - s_off (seg s)) else 0" arbitrary: s w
    rule: less_induct)
  case less
  note 1 = less
  from 1(3,4) obtain sg segment where n: "Seg_Next (seg s) [] = (sg, segment, True)"
    "ref_segments (s_seq (seg s)) (s_off (seg s) = 0) (drop (s_off (seg s)) (s_frag (seg s))) =
       segment # (if s_live sg then ref_segments (s_seq sg) False (drop (s_off sg) (s_frag sg)) else [])"
    "s_live sg \<longrightarrow> 0 < s_off sg \<and> s_off sg \<le> length (s_frag sg)"
    by (rule Seg_Next_ref) blast
  have len: "length segment \<le> MaxPayload"
    using ref_segments_size [of segment] n(2) by (metis list.set_intros(1))
  let ?p = "(pri s)\<lparr>PriRemoteAddr := dest s\<rparr>"
  let ?s = "s\<lparr>seg := sg, pri := (pri s)\<lparr>retries := 0, lastSent := segment_frame s segment\<rparr>\<rparr>"
  have p: "Pri_Send segment ?p = (?p\<lparr>retries := 0, lastSent := segment_frame s segment\<rparr>,
      segment_frame s segment, ActionComplete, None)"
    using 1(2) len by (simp add: Pri_Send_unconfirmed can_send_def segment_frame_def Pri_Busy_def)
  have pump: "pumpFrames tape s w = pumpFrames tape ?s (w @ wire (segment_frame s segment))"
    using 1(2,3) n(1) p wf_segment_frame [OF len, of s]
    by (simp add: pumpFrames.simps [of _ s] can_send_def Seg_Pending_def stack_write_tape Let_def)
  have cs: "can_send ?s" using 1(2) by (simp add: can_send_def Pri_Busy_def)
  have sf: "segment_frame ?s = segment_frame s"
    by (simp add: segment_frame_def Pri_frame_def fun_eq_iff)
  show ?case
  proof (cases "s_live sg")
    case True
    then have "\<exists>s'. pumpFrames tape ?s (w @ wire (segment_frame s segment)) = (s', (w @ wire (segment_frame s segment)) @
        concat (map (\<lambda>d. wire (segment_frame ?s d))
          (ref_segments (s_seq (seg ?s)) (s_off (seg ?s) = 0) (drop (s_off (seg ?s)) (s_frag (seg ?s))))), None) \<and>
        can_send s' \<and> \<not> Stack_Busy s'"
      using n(3) cs Seg_Next_decreases [OF n(1)] by (intro 1(1)) simp_all
    then show ?thesis using True n by (simp add: pump sf)
  next
    case False
    then show ?thesis
      using n(2) cs by (simp add: pump) (simp add: pumpFrames.simps [of _ ?s] Seg_Pending_def Stack_Busy_def can_send_def)
  qed
qed

text \<open>The session's reader hands over the stream in whatever pieces it arrives.\<close>

fun feed :: "('w, 'e) writer \<Rightarrow> 'w callback \<Rightarrow> stack \<Rightarrow> byte list list \<Rightarrow> 'w \<Rightarrow> (stack \<times> 'w \<times> 'e stack_error option) option" where
  "feed io fn s [] w = Some (s, w, None)"
| "feed io fn s (c # cs) w =
     Option.bind (Receive io fn s c w) (\<lambda>(s, w, err).
       case err of Some e \<Rightarrow> Some (s, w, Some e) | None \<Rightarrow> feed io fn s cs w)"

lemma feed_handle_all:
  assumes "parser_blind fn" "drained p"
    and "handle_all io fn (frames_of (window p @ concat cs)) s w = (s', w', None)"
  shows "\<exists>p'. feed io fn (s\<lparr>prs := p\<rparr>) cs w = Some (s'\<lparr>prs := p'\<rparr>, w', None) \<and> drained p'"
  using assms(2,3)
proof (induction cs arbitrary: p s w)
  case Nil
  then show ?case by (auto simp: drained_def)
next
  case (Cons c cs)
  obtain s1 w1 e1 where h: "handle_all io fn (frames_of (window p @ c)) s w = (s1, w1, e1)" by (metis prod_cases3)
  have pre: "\<exists>gs. frames_of (window p @ c @ concat cs) = frames_of (window p @ c) @ gs"
    using frames_of_append [of "window p @ c" "concat cs"] by simp
  then have "e1 = None" using Cons.prems(2) h by (auto simp: handle_all_append split: option.splits)
  then obtain p1 where r: "Receive io fn (s\<lparr>prs := p\<rparr>) c w = Some (s1\<lparr>prs := p1\<rparr>, w1, None)" "drained p1"
    "frames_of (window p @ c @ concat cs) = frames_of (window p @ c) @ frames_of (window p1 @ concat cs)"
    using Receive_handle_all [OF assms(1) Cons.prems(1)] h by blast
  then have "handle_all io fn (frames_of (window p1 @ concat cs)) s1 w1 = (s', w', None)"
    using Cons.prems(2) h \<open>e1 = None\<close> by (simp add: handle_all_append)
  from Cons.IH [OF r(2) this] r(1) show ?case by simp
qed

text \<open>
  \<open>hears r s\<close>: the frames \<open>s\<close> is sending are addressed to \<open>r\<close>, come from the opposite role and
  carry a source address a station may hold.
\<close>

definition hears :: "stack \<Rightarrow> stack \<Rightarrow> bool" where
  "hears r s \<longleftrightarrow> addressedToUs r (dest s) \<and> PriIsMaster (pri s) \<noteq> IsMaster (cfg r) \<and>
     IsValidSource (PriLocalAddr (pri s))"

definition received_from :: "stack \<Rightarrow> byte list \<Rightarrow> received" where
  "received_from s frag = \<lparr>RFragment = frag, RSource = PriLocalAddr (pri s), RDest = dest s,
     RBroadcast = IsBroadcast (dest s)\<rparr>"

definition fragments_of :: "reasm_result list \<Rightarrow> byte list list" where
  "fragments_of res = List.map_filter Fragment res"

lemma drain_frame_segment:
  "hears r s \<Longrightarrow> d \<noteq> [] \<Longrightarrow>
   drain_frame io note_fragment (segment_frame s d) r w =
     (case Accept d (reasm r) of (q, res) \<Rightarrow>
        (r\<lparr>reasm := q\<rparr>, w @ map (received_from s) (fragments_of [res]), None))"
  by (auto simp: drain_frame_def hears_def segment_frame_def Pri_frame_def drain_primary_def secondary_defs
      deliver_def note_fragment_def received_from_def fragments_of_def List.map_filter_def split: prod.splits option.splits)

lemma hears_reasm [simp]: "hears (r\<lparr>reasm := q\<rparr>) s = hears r s"
  by (simp add: hears_def addressedToUs_def)

lemma handle_segments:
  "hears r s \<Longrightarrow> [] \<notin> set ds \<Longrightarrow>
   handle_all io note_fragment (map (segment_frame s) ds) r w =
     (r\<lparr>reasm := fst (run_ops Accept ds (reasm r))\<rparr>,
      w @ map (received_from s) (fragments_of (snd (run_ops Accept ds (reasm r)))), None)"
proof (induction ds arbitrary: r w)
  case Nil
  then show ?case by (simp add: fragments_of_def List.map_filter_def)
next
  case (Cons d ds)
  then show ?case
    by (cases "Accept d (reasm r)")
      (auto simp: drain_frame_segment fragments_of_def List.map_filter_def split: prod.splits)
qed

lemma frames_of_wires:
  "(\<And>d. d \<in> set ds \<Longrightarrow> wf_frame (mk d)) \<Longrightarrow> frames_of (concat (map (\<lambda>d. wire (mk d)) ds)) = map mk ds"
proof (induction ds)
  case Nil
  then show ?case by (simp add: frames_of_scan)
qed (simp add: frames_of_wire)

lemma fragments_of_complete:
  assumes "map Fragment res = replicate n None @ [Some f]"
  shows "fragments_of res = [f]"
proof -
  have "fragments_of res = List.map_filter id (map Fragment res)"
    by (simp add: fragments_of_def List.map_filter_def filter_map comp_def)
  then show ?thesis by (simp add: assms List.map_filter_def)
qed

lemma tape_SendTo:
  assumes "can_send s" "\<not> Stack_Busy s" "fragment \<noteq> []"
  shows "\<exists>s'. SendTo tape s d fragment w = (s', w @ concat (map (\<lambda>g. wire (segment_frame (s\<lparr>dest := d\<rparr>) g))
      (ref_segments (s_seq (seg s)) True fragment)), None) \<and> can_send s' \<and> \<not> Stack_Busy s'"
proof -
  let ?s = "s\<lparr>dest := d, seg := Seg_Reset fragment (seg s)\<rparr>"
  have "segment_frame ?s = segment_frame (s\<lparr>dest := d\<rparr>)" by (simp add: segment_frame_def fun_eq_iff)
  then show ?thesis
    using pumpFrames_unconfirmed [of ?s w] assms
    by (simp add: SendTo_def pump_def tape_def [THEN arg_cong [where f = w_message]] can_send_def Seg_Reset_def)
qed

text \<open>
  C8. End to end, without link confirmations: a fragment handed to one stack goes out at once
  and leaves it idle, and a peer stack that is addressed by it and is not in the middle of a
  frame, fed the octets in pieces of any sizes, hands exactly that fragment to its session,
  once, with the right addresses.
\<close>

theorem SendTo_Receive:
  assumes "can_send s" "\<not> Stack_Busy s" and "fragment \<noteq> []" "int (length fragment) \<le> maxFragment (reasm r)"
    and "hears r (s\<lparr>dest := d\<rparr>)" and "drained (prs r)" "quiet (window (prs r))"
  shows "\<exists>s' octets. SendTo tape s d fragment [] = (s', octets, None) \<and> \<not> Stack_Busy s' \<and>
    (\<forall>cs. concat cs = octets \<longrightarrow> (\<exists>r'. feed io note_fragment r cs [] =
       Some (r', [received_from (s\<lparr>dest := d\<rparr>) fragment], None)))"
proof -
  let ?t = "s\<lparr>dest := d\<rparr>" and ?ds = "ref_segments (s_seq (seg s)) True fragment"
  let ?octets = "concat (map (\<lambda>g. wire (segment_frame ?t g)) ?ds)"
  obtain s' where s': "SendTo tape s d fragment [] = (s', ?octets, None)" "\<not> Stack_Busy s'"
    using tape_SendTo [OF assms(1-3), of d "[]"] by auto
  have size: "d \<noteq> []" "length d \<le> MaxPayload" if "d \<in> set ?ds" for d
    using ref_segments_size [OF that] by auto
  obtain q res where q: "run_ops Accept ?ds (reasm r) = (q, res)"
    "map Fragment res = replicate (SegmentsFor (length fragment) - 1) None @ [Some fragment]"
    using reassemble_aux [OF assms(4), of "seg s"] by (auto simp: snd_SegmentAll)
  have "frames_of ?octets = map (segment_frame ?t) ?ds"
    by (rule frames_of_wires) (simp add: wf_segment_frame size)
  moreover have "handle_all io note_fragment (map (segment_frame ?t) ?ds) r [] =
      (r\<lparr>reasm := q\<rparr>, [received_from ?t fragment], None)"
    using handle_segments [OF assms(5), of ?ds io "[]"] q fragments_of_complete [OF q(2)] size(1) by auto
  moreover have "frames_of (window (prs r) @ ?octets) = frames_of ?octets"
    using frames_of_quiet [OF assms(7)] by (cases ?ds) simp_all
  ultimately have h: "handle_all io note_fragment (frames_of (window (prs r) @ ?octets)) r [] =
      (r\<lparr>reasm := q\<rparr>, [received_from ?t fragment], None)" by simp
  have "\<exists>r'. feed io note_fragment r cs [] = Some (r', [received_from ?t fragment], None)"
    if "concat cs = ?octets" for cs
    using feed_handle_all [OF parser_blind_note assms(6) h [folded that]] by auto
  with s' show ?thesis by blast
qed

definition master_config :: stack_config where
  "master_config = \<lparr>LocalAddr = 1, RemoteAddr = 10, IsMaster = True, CfgSelfAddress = False,
     CfgUseConfirms = False, CfgMaxRetries = 2, MaxRxFragment = 0\<rparr>"

definition outstation_config :: stack_config where
  "outstation_config = master_config\<lparr>LocalAddr := 10, RemoteAddr := 1, IsMaster := False\<rparr>"

lemmas sample_stack_defs = New_def master_config_def outstation_config_def Let_def

definition silent :: "(received list, unit) writer" where
  "silent = \<lparr>w_write = (\<lambda>_ w. (w, None)), w_message = None\<rparr>"

lemma sample_stack_hears:
  "can_send (New master_config)" "\<not> Stack_Busy (New master_config)" "hears (New outstation_config) ((New master_config)\<lparr>dest := 10\<rparr>)"
  "maxFragment (reasm (New outstation_config)) = 2048" "prs (New outstation_config) = NewParser"
  by (simp_all add: sample_stack_defs can_send_def Pri_Busy_def Stack_Busy_def Seg_Pending_def hears_def
      addressedToUs_def IsValidSource_def IsReserved_def IsBroadcast_def maxFragment_def NewReassembler_def
      word_le_nat_alt)

theorem SendTo_Receive_witness:
  "\<exists>s' octets. SendTo tape (New master_config) 10 (replicate 500 0xC3) [] = (s', octets, None) \<and> \<not> Stack_Busy s' \<and>
    (\<exists>r'. feed silent note_fragment (New outstation_config) [octets] [] =
       Some (r', [\<lparr>RFragment = replicate 500 0xC3, RSource = 1, RDest = 10, RBroadcast = False\<rparr>], None))"
proof -
  have "received_from ((New master_config)\<lparr>dest := 10\<rparr>) (replicate 500 0xC3) =
      \<lparr>RFragment = replicate 500 0xC3, RSource = 1, RDest = 10, RBroadcast = False\<rparr>"
    by (simp add: received_from_def sample_stack_defs IsBroadcast_def)
  moreover have "drained (prs (New outstation_config))" "quiet (window (prs (New outstation_config)))"
    using drained_New by (simp_all add: sample_stack_hears quiet_def)
  ultimately obtain s' octets where "SendTo tape (New master_config) 10 (replicate 500 0xC3) [] = (s', octets, None)"
    "\<not> Stack_Busy s'" "\<forall>cs. concat cs = octets \<longrightarrow> (\<exists>r'. feed silent note_fragment (New outstation_config) cs [] =
       Some (r', [\<lparr>RFragment = replicate 500 0xC3, RSource = 1, RDest = 10, RBroadcast = False\<rparr>], None))"
    using SendTo_Receive [OF sample_stack_hears(1,2) _ _ sample_stack_hears(3), of "replicate 500 0xC3" silent]
    by (auto simp: sample_stack_hears(4))
  moreover have "concat [octets] = octets" by simp
  ultimately show ?thesis by blast
qed

section \<open>Frames that are none of our business\<close>

definition foreign :: "stack \<Rightarrow> link_frame \<Rightarrow> bool" where
  "foreign s f \<longleftrightarrow> (let h = LHeader f in
     \<not> addressedToUs s (Dest h) \<or> Dir (LControl h) = IsMaster (cfg s) \<or> \<not> IsValidSource (Src h) \<or>
     (\<not> Prm (LControl h) \<and> Src h \<noteq> dest s \<and> dest s \<noteq> SelfAddress))"

lemma drain_frame_foreign: "foreign s f \<Longrightarrow> drain_frame io fn f s w = (s, w, None)"
  by (auto simp: foreign_def drain_frame_def drain_secondary_def Let_def)

lemma handle_all_foreign: "list_all (foreign s) fs \<Longrightarrow> handle_all io fn fs s w = (s, w, None)"
  by (induction fs) (simp_all add: drain_frame_foreign)

lemma stack_prs_self [simp]: "(s :: stack)\<lparr>prs := prs s\<rparr> = s"
  by simp

text \<open>
  A stream that holds only frames for other stations, from our own role, from an address
  no station may hold, or answers from a station we are not exchanging with, has no effect:
  nothing is written, no fragment is delivered, and no link or transport state changes,
  however the stream is cut into reads. No such frame is answered or completes an exchange.
\<close>

theorem foreign_frames_ignored:
  assumes "parser_blind fn" "drained (prs s)"
    and "list_all (foreign s) (frames_of (window (prs s) @ concat cs))"
  shows "\<exists>p'. feed io fn s cs w = Some (s\<lparr>prs := p'\<rparr>, w, None)"
  using feed_handle_all [OF assms(1,2) handle_all_foreign [OF assms(3)]] by auto

theorem foreign_frames_ignored_witness:
  "\<exists>p'. feed silent note_fragment (New master_config) [wire sample_frame] [] =
     Some ((New master_config)\<lparr>prs := p'\<rparr>, [], None)"
proof -
  have p: "prs (New master_config) = NewParser" by (simp add: New_def Let_def)
  have "frames_of (window (prs (New master_config)) @ concat [wire sample_frame]) = [sample_frame]"
    using frames_of_wire [OF wf_sample_frame, of "[]"] by (simp add: p frames_of_scan)
  moreover have "foreign (New master_config) sample_frame"
    by (simp add: foreign_def sample_stack_defs addressedToUs_def sample_frame_def sample_header_def)
  ultimately show ?thesis
    using foreign_frames_ignored [OF parser_blind_note, of "New master_config" "[wire sample_frame]" silent "[]"]
      drained_New by (simp add: p)
qed

section \<open>The stack agrees with its primary\<close>

text \<open>A writer that never fails. Session code tears the connection down on a write error.\<close>

definition infallible :: "('w, 'e) writer \<Rightarrow> bool" where
  "infallible io \<longleftrightarrow> (\<forall>out w. snd (w_write io out w) = None) \<and>
     (\<forall>b e w. w_message io = Some (b, e) \<longrightarrow> snd (e w) = None)"

text \<open>
  The primary's invariant up to the address its last frame went to: \<open>pumpFrames\<close> puts the
  configured address back after each segment.
\<close>

definition pri_inv_at :: "primary \<Rightarrow> bool" where
  "pri_inv_at p \<longleftrightarrow> (\<exists>a. pri_inv (p\<lparr>PriRemoteAddr := a\<rparr>))"

definition stack_inv :: "stack \<Rightarrow> bool" where
  "stack_inv s \<longleftrightarrow> drained (prs s) \<and> pri_inv_at (pri s) \<and> (awaiting s \<longleftrightarrow> Pri_Busy (pri s)) \<and>
     (Seg_Pending (seg s) \<and> \<not> awaiting s \<longrightarrow> dfc (pri s)) \<and>
     (s_live (seg s) \<longrightarrow> s_off (seg s) \<le> length (s_frag (seg s)))"

lemma Pri_frame_at [simp]:
  "Pri_frame (p\<lparr>pri_state := st, PriRemoteAddr := a\<rparr>) = Pri_frame (p\<lparr>PriRemoteAddr := a\<rparr>)"
  "Pri_frame (p\<lparr>retries := n, PriRemoteAddr := a\<rparr>) = Pri_frame (p\<lparr>PriRemoteAddr := a\<rparr>)"
  "Pri_frame (p\<lparr>lastSent := f, PriRemoteAddr := a\<rparr>) = Pri_frame (p\<lparr>PriRemoteAddr := a\<rparr>)"
  "Pri_frame (p\<lparr>dfc := b, PriRemoteAddr := a\<rparr>) = Pri_frame (p\<lparr>PriRemoteAddr := a\<rparr>)"
  by (simp_all add: Pri_frame_def fun_eq_iff)

lemma pri_step_inv_or:
  "pri_inv (p\<lparr>PriRemoteAddr := a\<rparr>) \<Longrightarrow>
   pri_inv ((fst (pri_step i p))\<lparr>PriRemoteAddr := a\<rparr>) \<or> pri_inv (fst (pri_step i p))"
  by (cases i; cases "pri_state p") (auto simp: pri_inv_def primary_defs split: if_splits)

lemma pri_step_inv_at: "pri_inv_at p \<Longrightarrow> pri_inv_at (fst (pri_step i p))"
proof -
  assume "pri_inv_at p"
  then obtain a where "pri_inv (p\<lparr>PriRemoteAddr := a\<rparr>)" by (auto simp: pri_inv_at_def)
  from pri_step_inv_or [OF this, of i] show ?thesis
    by (cases "fst (pri_step i p)") (auto simp: pri_inv_at_def)
qed

lemma pri_inv_at_addr [simp]: "pri_inv_at (p\<lparr>PriRemoteAddr := a\<rparr>) = pri_inv_at p"
  by (simp add: pri_inv_at_def)

lemma pri_step_transmit_wf:
  assumes "pri_inv_at p" "pri_step i p = (p', f, ActionTransmit)"
  shows "wf_frame f"
proof -
  have "lastSent p' = f" "Pri_Busy p'" using assms(2)
    by (cases i; cases "pri_state p"; auto simp: primary_defs split: if_splits)+
  moreover obtain a where a: "pri_inv (p'\<lparr>PriRemoteAddr := a\<rparr>)"
    using pri_step_inv_at [OF assms(1), of i] assms(2) by (auto simp: pri_inv_at_def)
  ultimately have "awaited (p'\<lparr>PriRemoteAddr := a\<rparr>) = Some f"
    by (cases "pri_state p'") (auto simp: pri_inv_def Pri_Busy_def)
  then show ?thesis by (rule wf_awaited [OF a])
qed

lemma stack_write_infallible:
  "infallible io \<Longrightarrow> wf_frame f \<Longrightarrow> \<exists>w'. stack_write io f w = (w', None)"
  by (auto simp: stack_write_def infallible_def wf_frame_def Encode_octets split: prod.splits)
    (metis snd_conv)

lemma Pri_Send_ok:
  assumes "pri_inv_at p" "\<not> Pri_Busy p" "\<not> dfc p" "length d \<le> MaxPayload"
  obtains p' f a where "Pri_Send d p = (p', f, a, None)" "wf_frame f" "pri_inv_at p'" "a \<noteq> ActionFailed"
    "a = ActionTransmit \<longleftrightarrow> Pri_Busy p'"
proof (cases "UseConfirms p")
  case False
  let ?f = "Pri_frame p FuncUnconfirmedUserData False False d"
  have eq: "Pri_Send d p = (p\<lparr>retries := 0, lastSent := ?f\<rparr>, ?f, ActionComplete, None)"
    using False assms(2-) by (rule Pri_Send_unconfirmed)
  moreover have "pri_inv_at (p\<lparr>retries := 0, lastSent := ?f\<rparr>)"
    using pri_step_inv_at [OF assms(1), of "InSend d"] eq by simp
  ultimately show thesis using assms(2,4) by (intro that [OF eq]) (simp_all add: wf_Pri_frame Pri_Busy_def)
next
  case True
  then obtain p' f where eq: "Pri_Send d p = (p', f, ActionTransmit, None)" "awaited p' = Some f"
    using Pri_Send_confirmed [OF _ assms(2-)] by blast
  then have "pri_inv_at p'" "wf_frame f" "Pri_Busy p'"
    using pri_step_inv_at [OF assms(1), of "InSend d"] pri_step_transmit_wf [OF assms(1), of "InSend d" p' f]
    by (auto simp: Pri_Busy_def)
  then show thesis by (intro that [OF eq(1)]) simp_all
qed

lemma Seg_Next_live:
  assumes "s_live s" "s_off s \<le> length (s_frag s)"
  obtains s' d where "Seg_Next s [] = (s', d, True)" "length d \<le> MaxPayload"
    "s_live s' \<longrightarrow> s_off s' \<le> length (s_frag s')"
proof -
  from assms obtain s' d where n: "Seg_Next s [] = (s', d, True)"
    "ref_segments (s_seq s) (s_off s = 0) (drop (s_off s) (s_frag s)) =
       d # (if s_live s' then ref_segments (s_seq s') False (drop (s_off s') (s_frag s')) else [])"
    "s_live s' \<longrightarrow> 0 < s_off s' \<and> s_off s' \<le> length (s_frag s')"
    by (rule Seg_Next_ref) blast
  moreover from n(2) have "length d \<le> MaxPayload"
    using ref_segments_size [of d] by (metis list.set_intros(1))
  ultimately show thesis using that by blast
qed

text \<open>The stack between two exchanges: nothing awaited and the primary idle.\<close>

definition ready :: "stack \<Rightarrow> bool" where
  "ready s \<longleftrightarrow> drained (prs s) \<and> pri_inv_at (pri s) \<and> \<not> awaiting s \<and> \<not> Pri_Busy (pri s) \<and>
     (s_live (seg s) \<longrightarrow> s_off (seg s) \<le> length (s_frag (seg s)))"

lemma pumpFrames_inv:
  assumes "infallible io" "ready s"
  shows "\<exists>s' w'. pumpFrames io s w = (s', w', None) \<and> stack_inv s'"
  using assms(2)
proof (induction "if s_live (seg s) then Suc (length (s_frag (seg s)) - s_off (seg s)) else 0" arbitrary: s w
    rule: less_induct)
  case less
  note r = less.prems
  show ?case
  proof (cases "Seg_Pending (seg s) \<and> \<not> dfc (pri s)")
    case False
    then show ?thesis using r
      by (auto simp: pumpFrames.simps [of io s] stack_inv_def ready_def Pri_Busy_def Seg_Pending_def)
  next
    case True
    then have "s_live (seg s)" "s_off (seg s) \<le> length (s_frag (seg s))"
      using r by (auto simp: Seg_Pending_def ready_def)
    then obtain sg d where n: "Seg_Next (seg s) [] = (sg, d, True)" "length d \<le> MaxPayload"
      "s_live sg \<longrightarrow> s_off sg \<le> length (s_frag sg)"
      by (rule Seg_Next_live) blast
    let ?p = "(pri s)\<lparr>PriRemoteAddr := dest s\<rparr>"
    have "pri_inv_at ?p" "\<not> Pri_Busy ?p" "\<not> dfc ?p" using r True by (simp_all add: ready_def Pri_Busy_def)
    then obtain p' f a where snd: "Pri_Send d ?p = (p', f, a, None)" "wf_frame f" "pri_inv_at p'" "a \<noteq> ActionFailed"
      "a = ActionTransmit \<longleftrightarrow> Pri_Busy p'"
      using n(2) by (rule Pri_Send_ok) blast
    obtain w1 where w: "stack_write io f w = (w1, None)" using stack_write_infallible [OF assms(1) snd(2)] by blast
    let ?s = "s\<lparr>seg := sg, pri := p'\<lparr>PriRemoteAddr := PriRemoteAddr (pri s)\<rparr>\<rparr>"
    have step: "pumpFrames io s w = (if a = ActionTransmit then (?s\<lparr>awaiting := True\<rparr>, w1, None) else pumpFrames io ?s w1)"
      using True n(1) snd(1,4) w by (simp add: pumpFrames.simps [of io s] Let_def)
    show ?thesis
    proof (cases "a = ActionTransmit")
      case True
      then have "stack_inv (?s\<lparr>awaiting := True\<rparr>)"
        using r n(3) snd(3,5) by (simp add: stack_inv_def ready_def Pri_Busy_def)
      with True step show ?thesis by simp
    next
      case False
      then have "ready ?s" using r n(3) snd(3,5) by (simp add: ready_def Pri_Busy_def)
      then have "\<exists>s' w'. pumpFrames io ?s w1 = (s', w', None) \<and> stack_inv s'"
        using Seg_Next_decreases [OF n(1)] by (intro less.hyps) (auto split: if_splits)
      with False step show ?thesis by simp
    qed
  qed
qed

lemma pump_inv:
  assumes "infallible io" "ready s"
  shows "\<exists>s' w'. pump io s w = (s', w', None) \<and> stack_inv s'"
proof (cases "w_message io")
  case None
  then show ?thesis using pumpFrames_inv [OF assms, of w] by (simp add: pump_def)
next
  case (Some be)
  obtain b e where be: "be = (b, e)" by (cases be)
  obtain s' w' where "pumpFrames io s (b w) = (s', w', None)" "stack_inv s'"
    using pumpFrames_inv [OF assms, of "b w"] by blast
  moreover have "snd (e w') = None" using assms(1) Some be by (simp add: infallible_def)
  ultimately show ?thesis using Some be by (auto simp: pump_def split: prod.splits)
qed

lemma SendTo_inv:
  assumes "infallible io" "stack_inv s" "SendTo io s d fragment w = (s', w', e)"
  shows "stack_inv s' \<and> (e = None \<or> s' = s \<and> w' = w)"
proof (cases "fragment = [] \<or> Stack_Busy s")
  case True
  then show ?thesis using assms(2,3) by (auto simp: SendTo_def split: if_splits)
next
  case False
  then have "ready (s\<lparr>dest := d, seg := Seg_Reset fragment (seg s)\<rparr>)"
    using assms(2) by (simp add: ready_def stack_inv_def Stack_Busy_def Seg_Reset_def)
  from pump_inv [OF assms(1) this, of w] False assms(3) show ?thesis by (auto simp: SendTo_def)
qed

lemma SendLinkStatusRequest_inv:
  assumes "infallible io" "stack_inv s" "SendLinkStatusRequest io s w = (s', w', e)"
  shows "stack_inv s' \<and> e = None"
proof (cases "awaiting s")
  case True
  then show ?thesis using assms(2,3) by (simp add: SendLinkStatusRequest_def)
next
  case False
  then have idle: "\<not> Pri_Busy (pri s)" using assms(2) by (simp add: stack_inv_def)
  obtain p' f where r: "RequestLinkStatus (pri s) = (p', f, ActionTransmit, None)" "Pri_Busy p'" "dfc p' = dfc (pri s)"
    using idle by (simp add: RequestLinkStatus_def Let_def Pri_Busy_def)
  have at: "pri_inv_at (pri s)" using assms(2) by (simp add: stack_inv_def)
  have "wf_frame f" using pri_step_transmit_wf [OF at, of InStatus] r(1) by simp
  then obtain w1 where "stack_write io f w = (w1, None)" using stack_write_infallible [OF assms(1)] by blast
  moreover have "pri_inv_at p'" using pri_step_inv_at [OF at, of InStatus] r(1) by simp
  ultimately show ?thesis using assms(2,3) False r
    by (auto simp: SendLinkStatusRequest_def stack_inv_def Let_def)
qed

lemma Stack_OnTimeout_inv:
  assumes "infallible io" "stack_inv s" "Stack_OnTimeout io s w = (s', w', failed, e)"
  shows "stack_inv s' \<and> e = None"
proof (cases "awaiting s")
  case False
  then show ?thesis using assms(2,3) by (simp add: Stack_OnTimeout_def)
next
  case True
  obtain p' f a where r: "Pri_OnTimeout (pri s) = (p', f, a)" by (metis prod_cases3)
  have at: "pri_inv_at (pri s)" "Pri_Busy (pri s)" using assms(2) True by (simp_all add: stack_inv_def)
  have at': "pri_inv_at p'" using pri_step_inv_at [OF at(1), of InTimeout] r by simp
  show ?thesis
  proof (cases "a = ActionTransmit")
    case t: True
    then have "wf_frame f" using pri_step_transmit_wf [OF at(1), of InTimeout] r by simp
    then obtain w1 where "stack_write io f w = (w1, None)" using stack_write_infallible [OF assms(1)] by blast
    moreover have "Pri_Busy p'" using r at(2) t by (auto simp: primary_defs split: if_splits)
    ultimately show ?thesis using assms(2,3) True r t at' by (auto simp: Stack_OnTimeout_def stack_inv_def Let_def)
  next
    case False
    then have "a = ActionFailed" "\<not> Pri_Busy p'" using r at(2) by (auto simp: primary_defs split: if_splits)
    then show ?thesis using assms(2,3) True r at'
      by (auto simp: Stack_OnTimeout_def stack_inv_def Let_def Seg_Clear_def Seg_Pending_def)
  qed
qed

lemma stack_inv_sides [simp]:
  "stack_inv (s\<lparr>sec := c\<rparr>) = stack_inv s" "stack_inv (s\<lparr>reasm := r\<rparr>) = stack_inv s"
  "stack_inv (s\<lparr>dest := d\<rparr>) = stack_inv s"
  by (simp_all add: stack_inv_def)

definition keeps_stack_inv :: "'w callback \<Rightarrow> bool" where
  "keeps_stack_inv fn \<longleftrightarrow> (\<forall>r s w. stack_inv s \<longrightarrow> stack_inv (fst (fn r s w)))"

lemma Pri_OnFrame_effect:
  "Pri_OnFrame f p = (p', g, a) \<Longrightarrow>
   (a = ActionTransmit \<longrightarrow> Pri_Busy p \<and> Pri_Busy p') \<and>
   (a = ActionComplete \<or> a = ActionFailed \<longrightarrow> \<not> Pri_Busy p') \<and>
   (a = ActionNone \<longrightarrow> Pri_Busy p' = Pri_Busy p \<and> (\<not> Pri_Busy p \<longrightarrow> p' = p))"
  by (cases "pri_state p") (auto simp: primary_defs split: if_splits)

lemma drain_primary_inv:
  assumes "infallible io" "keeps_stack_inv fn" "stack_inv s"
  shows "\<exists>s' w'. drain_primary io fn f s w = (s', w', None) \<and> stack_inv s'"
proof -
  obtain sc res where r: "Sec_OnFrame f (sec s) = (sc, res)" by (cases "Sec_OnFrame f (sec s)")
  have "\<exists>w1. (case Reply res of None \<Rightarrow> (w, None) | Some g \<Rightarrow> stack_write io g w) = (w1, None)"
    using Reply_wf [of f "sec s"] r stack_write_infallible [OF assms(1)] by (auto split: option.splits)
  then obtain w1 where w: "(case Reply res of None \<Rightarrow> (w, None) | Some g \<Rightarrow> stack_write io g w) = (w1, None)" ..
  have "stack_inv s1" if "deliver fn f d (s\<lparr>sec := sc\<rparr>) w1 = (s1, w2)" for d s1 w2
    using assms(2,3) that unfolding keeps_stack_inv_def deliver_def Let_def
    by (auto split: prod.splits option.splits) (metis fst_conv stack_inv_sides(1,2))
  with assms(3) r w show ?thesis
    by (auto simp: drain_primary_def Let_def split: option.splits prod.splits)
qed

lemma drain_secondary_inv:
  assumes "infallible io" "stack_inv s"
  shows "\<exists>s' w'. drain_secondary io f s w = (s', w', None) \<and> stack_inv s'"
proof (cases "Src (LHeader f) \<noteq> dest s \<and> (dest s \<noteq> SelfAddress \<or> \<not> IsValidSource (Src (LHeader f)))")
  case True
  then show ?thesis using assms(2) by (auto simp: drain_secondary_def Let_def)
next
  case False
  define t where "t = (if Src (LHeader f) \<noteq> dest s then s\<lparr>dest := Src (LHeader f)\<rparr> else s)"
  have t: "stack_inv t" "pri t = pri s" using assms(2) by (simp_all add: t_def)
  obtain p' g a where r: "Pri_OnFrame f (pri s) = (p', g, a)" by (metis prod_cases3)
  have at: "pri_inv_at (pri s)" using assms(2) by (simp add: stack_inv_def)
  then have at': "pri_inv_at p'" using pri_step_inv_at [OF at, of "InFrame f"] r by simp
  note eff = Pri_OnFrame_effect [OF r]
  have step: "drain_secondary io f s w =
      (case a of
         ActionTransmit \<Rightarrow> (case stack_write io g w of (w, e) \<Rightarrow> (t\<lparr>pri := p'\<rparr>, w, e))
       | ActionComplete \<Rightarrow> pump io (t\<lparr>pri := p', awaiting := False\<rparr>) w
       | ActionFailed \<Rightarrow> (t\<lparr>pri := p', awaiting := False, seg := Seg_Clear (seg t)\<rparr>, w, None)
       | ActionNone \<Rightarrow> (t\<lparr>pri := p'\<rparr>, w, None))"
    using False r t(2) by (cases a) (auto simp: drain_secondary_def Let_def t_def)
  show ?thesis
  proof (cases a)
    case ActionNone
    then show ?thesis using step t at' eff by (auto simp: stack_inv_def)
  next
    case ActionTransmit
    then have "wf_frame g" using pri_step_transmit_wf [OF at, of "InFrame f" p' g] r by simp
    then obtain w1 where "stack_write io g w = (w1, None)" using stack_write_infallible [OF assms(1)] by blast
    then show ?thesis using step t at' eff ActionTransmit by (simp add: stack_inv_def)
  next
    case ActionComplete
    then have "ready (t\<lparr>pri := p', awaiting := False\<rparr>)"
      using t at' eff by (simp add: ready_def stack_inv_def)
    from pump_inv [OF assms(1) this] show ?thesis using step ActionComplete by simp
  next
    case ActionFailed
    then show ?thesis using step t at' eff by (simp add: stack_inv_def Seg_Clear_def Seg_Pending_def)
  qed
qed

lemma drain_frame_inv:
  assumes "infallible io" "keeps_stack_inv fn" "stack_inv s"
  shows "\<exists>s' w'. drain_frame io fn f s w = (s', w', None) \<and> stack_inv s'"
  using assms drain_primary_inv [OF assms] drain_secondary_inv [OF assms(1,3)]
  by (auto simp: drain_frame_def Let_def)

lemma handle_all_inv:
  "infallible io \<Longrightarrow> keeps_stack_inv fn \<Longrightarrow> stack_inv s \<Longrightarrow>
   \<exists>s' w'. handle_all io fn fs s w = (s', w', None) \<and> stack_inv s'"
proof (induction fs arbitrary: s w)
  case (Cons f fs)
  then show ?case using drain_frame_inv [of io fn s f w] by fastforce
qed simp

lemma stack_inv_parser: "stack_inv s \<Longrightarrow> drained p \<Longrightarrow> stack_inv (s\<lparr>prs := p\<rparr>)"
  by (simp add: stack_inv_def)

text \<open>
  C25. Receiving terminates and keeps the stack in order: with a writer that does not fail, any
  octets whatever, in reads of any size, are taken in without an error and without the call
  hanging, and afterwards the stack again awaits an answer exactly when its primary does,
  with unsent segments left only behind flow control.
\<close>

theorem Receive_total:
  assumes "infallible io" and "parser_blind fn" "keeps_stack_inv fn" and "stack_inv s"
  shows "\<exists>s' w'. Receive io fn s data w = Some (s', w', None) \<and> stack_inv s'"
proof -
  have d: "drained (prs s)" using assms(4) by (simp add: stack_inv_def)
  obtain s' w' where h: "handle_all io fn (frames_of (window (prs s) @ data)) s w = (s', w', None)" "stack_inv s'"
    using handle_all_inv [OF assms(1,3,4)] by blast
  then show ?thesis
    using Receive_handle_all [OF assms(2) d h(1)] stack_inv_parser by auto
qed

lemma stack_inv_New: "stack_inv (New c)"
proof -
  have "pri_inv (pri (New c))" by (simp add: New_def pri_inv_def Let_def)
  then have "pri_inv_at (pri (New c))"
    unfolding pri_inv_at_def by (intro exI [of _ "PriRemoteAddr (pri (New c))"]) simp
  then show ?thesis
    using drained_New by (simp add: New_def stack_inv_def Pri_Busy_def Seg_Pending_def Let_def)
qed

lemma keeps_stack_inv_note: "keeps_stack_inv note_fragment"
  by (simp add: keeps_stack_inv_def note_fragment_def)

lemma infallible_silent: "infallible silent" "infallible tape"
  by (simp_all add: infallible_def silent_def tape_def)

theorem Receive_total_witness:
  "\<exists>s' w'. Receive silent note_fragment (New outstation_config) (wire sample_frame @ [5, 100, 7]) [] = Some (s', w', None) \<and>
     stack_inv s'"
  by (rule Receive_total [OF infallible_silent(1) parser_blind_note keeps_stack_inv_note stack_inv_New])

text \<open>
  The other operations keep the same invariant: with a writer that does not fail, a send, a
  link timeout, a keep-alive and a reset all leave the stack awaiting an answer exactly when
  its primary is, the last three without an error; a refused send changes nothing; and a
  reset leaves the stack idle.
\<close>

theorem stack_operations_inv:
  assumes "infallible io" and "stack_inv s"
  shows "(case SendTo io s d fragment w of (s', w', e) \<Rightarrow> stack_inv s' \<and> (e = None \<or> s' = s \<and> w' = w)) \<and>
    (case Stack_OnTimeout io s w of (s', w', failed, e) \<Rightarrow> stack_inv s' \<and> e = None) \<and>
    (case SendLinkStatusRequest io s w of (s', w', e) \<Rightarrow> stack_inv s' \<and> e = None) \<and>
    stack_inv (Stack_Reset s) \<and> \<not> Stack_Busy (Stack_Reset s)"
proof -
  have "pri_inv_at (Pri_Reset (pri s))"
    using pri_step_inv_at [of "pri s" InReset] assms(2) by (simp add: stack_inv_def)
  then have "stack_inv (Stack_Reset s) \<and> \<not> Stack_Busy (Stack_Reset s)"
    using drained_New
    by (simp add: Stack_Reset_def stack_inv_def Stack_Busy_def Seg_Clear_def Seg_Pending_def Pri_Reset_def Pri_Busy_def)
  then show ?thesis
    using SendTo_inv [OF assms, of d fragment w] Stack_OnTimeout_inv [OF assms, of w]
      SendLinkStatusRequest_inv [OF assms, of w]
    by (auto split: prod.splits)
qed

theorem stack_operations_inv_witness:
  "case SendTo tape (New master_config) 10 [0xC0, 1] [] of (s', w', e) \<Rightarrow> stack_inv s' \<and> e = None"
proof -
  obtain s' w' where "SendTo tape (New master_config) 10 [0xC0, 1] [] = (s', w', None)"
    using tape_SendTo [OF sample_stack_hears(1,2), of "[0xC0, 1]" 10 "[]"] by auto
  then show ?thesis
    using stack_operations_inv [OF infallible_silent(2) stack_inv_New [of master_config],
        where d = 10 and fragment = "[0xC0, 1]" and w = "[]"] by simp
qed

section \<open>The destination of a confirmed fragment\<close>

text \<open>
  C26. What happens to a link-confirmed fragment sent to a station other than the configured
  one, when the link is down: the reset request goes to that station, but once the station
  acknowledges it, the frame with the user data is addressed to the configured remote, so the
  station that was sent to never gets it.
\<close>

theorem reset_ack_misaddresses_data:
  assumes "pri_inv_at (pri s)" "pri_state (pri s) = priWaitLinkReset"
    and "ack_frame f" "Src (LHeader f) = dest s" and "dest s \<noteq> PriRemoteAddr (pri s)"
  shows "\<exists>s' g. drain_secondary tape f s w = (s', w @ wire g, None) \<and>
    LFunc (LControl (LHeader g)) = FuncConfirmedUserData \<and> Payload g = pending (pri s) \<and>
    Dest (LHeader g) = PriRemoteAddr (pri s) \<and> Dest (LHeader g) \<noteq> dest s'"
proof -
  have "Pri_OnFrame f (pri s) = sendPending ((pri s)\<lparr>dfc := False, linkUp := True, pri_fcb := True, retries := 0\<rparr>)"
    using assms(2,3) by (simp add: Pri_OnFrame_def ack_frame_def Dfc_def Let_def)
  then obtain p' g where r: "Pri_OnFrame f (pri s) = (p', g, ActionTransmit)"
    "g = Pri_frame (pri s) FuncConfirmedUserData True True (pending (pri s))"
    by (simp add: sendPending_def Let_def)
  have "wf_frame g" using pri_step_transmit_wf [OF assms(1), of "InFrame f" p' g] r(1) by simp
  then show ?thesis
    using r assms(4,5) by (simp add: drain_secondary_def stack_write_tape Let_def) (auto simp: Pri_frame_def)
qed

text \<open>An outstation configured for master 1 that answers master 3, which acknowledges the reset.\<close>

definition ack_from_3 :: link_frame where
  "ack_from_3 = Sec_reply \<lparr>SecLocalAddr = 3, SecIsMaster = True, sec_reset = True, expectFCB = True\<rparr> FuncAck 10"

theorem reset_ack_misaddresses_data_witness:
  "case SendTo tape (New (outstation_config\<lparr>CfgUseConfirms := True\<rparr>)) 3 [0xC0, 0x81] [] of (s, w, e) \<Rightarrow>
     e = None \<and> dest s = 3 \<and>
     (\<exists>s' g. drain_secondary tape ack_from_3 s w = (s', w @ wire g, None) \<and>
        Payload g = [0xC0, 0xC0, 0x81] \<and> Dest (LHeader g) = 1)"
proof -
  let ?o = "New (outstation_config\<lparr>CfgUseConfirms := True\<rparr>)"
  obtain s w e where st: "SendTo tape ?o 3 [0xC0, 0x81] [] = (s, w, e)" by (metis prod_cases3)
  have w: "wf_frame (Pri_frame p FuncResetLinkStates False False [])" for p by (simp add: wf_Pri_frame)
  from st have s: "e = None" "dest s = 3" "pri_state (pri s) = priWaitLinkReset" "PriRemoteAddr (pri s) = 1"
    "pending (pri s) = [0xC0, 0xC0, 0x81]"
    by (auto simp: SendTo_def pump_def tape_def [THEN arg_cong [where f = w_message]] pumpFrames.simps sample_stack_defs
        Stack_Busy_def Seg_Pending_def Seg_Reset_def Seg_Next_def subslice_def THeader_Byte_def Pri_Send_def
        Pri_Busy_def stack_write_tape w)
  have at: "pri_inv_at (pri s)"
    using SendTo_inv [OF infallible_silent(2) stack_inv_New st] by (simp add: stack_inv_def)
  have a: "ack_frame ack_from_3" "Src (LHeader ack_from_3) = dest s"
    by (simp_all add: ack_from_3_def ack_frame_def Sec_reply_def s(2))
  show ?thesis
    using reset_ack_misaddresses_data [OF at s(3) a, of w] st s by auto
qed

end
