(* ===== verification/App_Header.thy ===== *)
theory App_Header
  imports Dnp_Prelude
begin

text \<open>
  The application fragment header: internal indications (\<^verbatim>\<open>internal/app/iin.go\<close>), function
  codes (\<^verbatim>\<open>funccode.go\<close>), and the control octet and header codec (\<^verbatim>\<open>header.go\<close>). The lemmas
  give the round trips of the codec in both directions.
\<close>

section \<open>Internal indications\<close>

type_synonym IIN = u16

abbreviation (input) IINBroadcast :: IIN where "IINBroadcast \<equiv> 0x0001"
abbreviation (input) IINClass1Events :: IIN where "IINClass1Events \<equiv> 0x0002"
abbreviation (input) IINClass2Events :: IIN where "IINClass2Events \<equiv> 0x0004"
abbreviation (input) IINClass3Events :: IIN where "IINClass3Events \<equiv> 0x0008"
abbreviation (input) IINNeedTime :: IIN where "IINNeedTime \<equiv> 0x0010"
abbreviation (input) IINLocalControl :: IIN where "IINLocalControl \<equiv> 0x0020"
abbreviation (input) IINDeviceTrouble :: IIN where "IINDeviceTrouble \<equiv> 0x0040"
abbreviation (input) IINDeviceRestart :: IIN where "IINDeviceRestart \<equiv> 0x0080"
abbreviation (input) IINNoFuncCodeSupport :: IIN where "IINNoFuncCodeSupport \<equiv> 0x0100"
abbreviation (input) IINObjectUnknown :: IIN where "IINObjectUnknown \<equiv> 0x0200"
abbreviation (input) IINParameterError :: IIN where "IINParameterError \<equiv> 0x0400"
abbreviation (input) IINEventBufferOverflow :: IIN where "IINEventBufferOverflow \<equiv> 0x0800"
abbreviation (input) IINAlreadyExecuting :: IIN where "IINAlreadyExecuting \<equiv> 0x1000"
abbreviation (input) IINConfigCorrupt :: IIN where "IINConfigCorrupt \<equiv> 0x2000"

definition EventClassMask :: IIN where
  "EventClassMask = IINClass1Events OR IINClass2Events OR IINClass3Events"

definition RequestErrorMask :: IIN where
  "RequestErrorMask = IINNoFuncCodeSupport OR IINObjectUnknown OR IINParameterError OR IINAlreadyExecuting"

definition ErrorMask :: IIN where
  "ErrorMask = IINNoFuncCodeSupport OR IINObjectUnknown OR IINParameterError OR
     IINAlreadyExecuting OR IINConfigCorrupt"

definition ParseIIN :: "byte \<Rightarrow> byte \<Rightarrow> IIN" where
  "ParseIIN iin1 iin2 = ucast iin1 OR push_bit 8 (ucast iin2)"

definition IIN_Octets :: "IIN \<Rightarrow> byte \<times> byte" where
  "IIN_Octets i = (ucast i, ucast (drop_bit 8 i))"

definition IIN_Has :: "IIN \<Rightarrow> IIN \<Rightarrow> bool" where
  "IIN_Has i bits \<longleftrightarrow> i AND bits = bits"

definition IIN_HasAny :: "IIN \<Rightarrow> IIN \<Rightarrow> bool" where
  "IIN_HasAny i bits \<longleftrightarrow> i AND bits \<noteq> 0"

definition IIN_Set :: "IIN \<Rightarrow> IIN \<Rightarrow> IIN" where
  "IIN_Set i bits = i OR bits"

definition IIN_Clear :: "IIN \<Rightarrow> IIN \<Rightarrow> IIN" where
  "IIN_Clear i bits = i AND NOT bits"

definition HasEvents :: "IIN \<Rightarrow> bool" where
  "HasEvents i = IIN_HasAny i EventClassMask"

definition HasError :: "IIN \<Rightarrow> bool" where
  "HasError i = IIN_HasAny i ErrorMask"

definition EventClasses :: "IIN \<Rightarrow> IIN" where
  "EventClasses i = i AND EventClassMask"

section \<open>Function codes\<close>

type_synonym FuncCode = byte

abbreviation (input) FuncConfirm :: FuncCode where "FuncConfirm \<equiv> 0"
abbreviation (input) FuncRead :: FuncCode where "FuncRead \<equiv> 1"
abbreviation (input) FuncWrite :: FuncCode where "FuncWrite \<equiv> 2"
abbreviation (input) FuncSelect :: FuncCode where "FuncSelect \<equiv> 3"
abbreviation (input) FuncOperate :: FuncCode where "FuncOperate \<equiv> 4"
abbreviation (input) FuncDirectOperate :: FuncCode where "FuncDirectOperate \<equiv> 5"
abbreviation (input) FuncDirectOperateNR :: FuncCode where "FuncDirectOperateNR \<equiv> 6"
abbreviation (input) FuncImmedFreeze :: FuncCode where "FuncImmedFreeze \<equiv> 7"
abbreviation (input) FuncImmedFreezeNR :: FuncCode where "FuncImmedFreezeNR \<equiv> 8"
abbreviation (input) FuncFreezeClear :: FuncCode where "FuncFreezeClear \<equiv> 9"
abbreviation (input) FuncFreezeClearNR :: FuncCode where "FuncFreezeClearNR \<equiv> 10"
abbreviation (input) FuncFreezeAtTime :: FuncCode where "FuncFreezeAtTime \<equiv> 11"
abbreviation (input) FuncFreezeAtTimeNR :: FuncCode where "FuncFreezeAtTimeNR \<equiv> 12"
abbreviation (input) FuncColdRestart :: FuncCode where "FuncColdRestart \<equiv> 13"
abbreviation (input) FuncWarmRestart :: FuncCode where "FuncWarmRestart \<equiv> 14"
abbreviation (input) FuncInitializeData :: FuncCode where "FuncInitializeData \<equiv> 15"
abbreviation (input) FuncInitializeAppl :: FuncCode where "FuncInitializeAppl \<equiv> 16"
abbreviation (input) FuncStartAppl :: FuncCode where "FuncStartAppl \<equiv> 17"
abbreviation (input) FuncStopAppl :: FuncCode where "FuncStopAppl \<equiv> 18"
abbreviation (input) FuncSaveConfig :: FuncCode where "FuncSaveConfig \<equiv> 19"
abbreviation (input) FuncEnableUnsolicited :: FuncCode where "FuncEnableUnsolicited \<equiv> 20"
abbreviation (input) FuncDisableUnsolicited :: FuncCode where "FuncDisableUnsolicited \<equiv> 21"
abbreviation (input) FuncAssignClass :: FuncCode where "FuncAssignClass \<equiv> 22"
abbreviation (input) FuncDelayMeasure :: FuncCode where "FuncDelayMeasure \<equiv> 23"
abbreviation (input) FuncRecordCurrentTime :: FuncCode where "FuncRecordCurrentTime \<equiv> 24"
abbreviation (input) FuncOpenFile :: FuncCode where "FuncOpenFile \<equiv> 25"
abbreviation (input) FuncCloseFile :: FuncCode where "FuncCloseFile \<equiv> 26"
abbreviation (input) FuncDeleteFile :: FuncCode where "FuncDeleteFile \<equiv> 27"
abbreviation (input) FuncGetFileInfo :: FuncCode where "FuncGetFileInfo \<equiv> 28"
abbreviation (input) FuncAuthenticateFile :: FuncCode where "FuncAuthenticateFile \<equiv> 29"
abbreviation (input) FuncAbortFile :: FuncCode where "FuncAbortFile \<equiv> 30"
abbreviation (input) FuncActivateConfig :: FuncCode where "FuncActivateConfig \<equiv> 31"
abbreviation (input) FuncAuthRequest :: FuncCode where "FuncAuthRequest \<equiv> 32"
abbreviation (input) FuncAuthRequestNoAck :: FuncCode where "FuncAuthRequestNoAck \<equiv> 33"
abbreviation (input) FuncResponse :: FuncCode where "FuncResponse \<equiv> 129"
abbreviation (input) FuncUnsolicitedResponse :: FuncCode where "FuncUnsolicitedResponse \<equiv> 130"
abbreviation (input) FuncAuthResponse :: FuncCode where "FuncAuthResponse \<equiv> 131"

definition FuncIsResponse :: "FuncCode \<Rightarrow> bool" where
  "FuncIsResponse f \<longleftrightarrow> f = FuncResponse \<or> f = FuncUnsolicitedResponse \<or> f = FuncAuthResponse"

text \<open>The keys of the name table are the codes 0 to 33 and the three response codes.\<close>

definition IsKnown :: "FuncCode \<Rightarrow> bool" where
  "IsKnown f \<longleftrightarrow> f \<le> FuncAuthRequestNoAck \<or> f = FuncResponse \<or> f = FuncUnsolicitedResponse \<or> f = FuncAuthResponse"

definition NoReply :: "FuncCode \<Rightarrow> bool" where
  "NoReply f \<longleftrightarrow> f \<in> {FuncDirectOperateNR, FuncImmedFreezeNR, FuncFreezeClearNR, FuncFreezeAtTimeNR, FuncAuthRequestNoAck}"

definition CarriesObjectData :: "FuncCode \<Rightarrow> bool" where
  "CarriesObjectData f \<longleftrightarrow> f \<notin> {FuncRead, FuncImmedFreeze, FuncImmedFreezeNR, FuncFreezeClear, FuncFreezeClearNR,
     FuncEnableUnsolicited, FuncDisableUnsolicited, FuncAssignClass, FuncConfirm, FuncColdRestart, FuncWarmRestart,
     FuncDelayMeasure, FuncRecordCurrentTime, FuncInitializeData, FuncSaveConfig, FuncGetFileInfo, FuncDeleteFile}"

definition RequiresObjects :: "FuncCode \<Rightarrow> bool" where
  "RequiresObjects f \<longleftrightarrow> f \<in> {FuncRead, FuncWrite, FuncSelect, FuncOperate, FuncDirectOperate, FuncDirectOperateNR,
     FuncFreezeAtTime, FuncFreezeAtTimeNR, FuncEnableUnsolicited, FuncDisableUnsolicited, FuncAssignClass}"

definition IsControl :: "FuncCode \<Rightarrow> bool" where
  "IsControl f \<longleftrightarrow> f \<in> {FuncSelect, FuncOperate, FuncDirectOperate, FuncDirectOperateNR}"

section \<open>Control octet and header\<close>

abbreviation (input) RequestHeaderSize :: nat where "RequestHeaderSize \<equiv> 2"
abbreviation (input) ResponseHeaderSize :: nat where "ResponseHeaderSize \<equiv> 4"
abbreviation (input) AppSeqModulus :: byte where "AppSeqModulus \<equiv> 16"
abbreviation (input) AppMaxFragment :: nat where "AppMaxFragment \<equiv> 2048"

record app_control =
  AFir :: bool
  AFin :: bool
  ACon :: bool
  AUns :: bool
  ASeq :: byte

definition AParseControl :: "byte \<Rightarrow> app_control" where
  "AParseControl b = \<lparr>AFir = (b AND 0x80 \<noteq> 0), AFin = (b AND 0x40 \<noteq> 0), ACon = (b AND 0x20 \<noteq> 0),
     AUns = (b AND 0x10 \<noteq> 0), ASeq = b AND 0x0F\<rparr>"

definition AControl_Byte :: "app_control \<Rightarrow> byte" where
  "AControl_Byte c =
     (let b = 0;
          b = (if AFir c then b OR 0x80 else b);
          b = (if AFin c then b OR 0x40 else b);
          b = (if ACon c then b OR 0x20 else b);
          b = (if AUns c then b OR 0x10 else b)
      in b OR (ASeq c AND 0x0F))"

record app_header =
  AControl :: app_control
  AFunc :: FuncCode
  AIIN :: IIN

definition AIsResponse :: "app_header \<Rightarrow> bool" where
  "AIsResponse h = FuncIsResponse (AFunc h)"

definition AHeader_Size :: "app_header \<Rightarrow> nat" where
  "AHeader_Size h = (if AIsResponse h then ResponseHeaderSize else RequestHeaderSize)"

datatype app_error =
    ErrShortFragment
  | ErrTruncated
  | ErrBadQualifier
  | ErrBadRange
  | ErrUnknownObject byte byte
  | ErrFragmentTooLarge
  | AtOffset nat app_error
  | HeaderAlreadyWritten
  | HeaderNotWritten
  | ExpectedRequest FuncCode
  | ExpectedResponse FuncCode
  | FreeFormatTooLong nat
  | NotFreeFormat
  | SizePrefixPastEnd
  | ObjectPastEnd nat
  | NoFreeFormatObject

definition AParseHeader :: "byte list \<Rightarrow> app_error + app_header \<times> nat" where
  "AParseHeader buf =
     (if length buf < RequestHeaderSize then Inl ErrShortFragment
      else
        let h = \<lparr>AControl = AParseControl (buf ! 0), AFunc = buf ! 1, AIIN = 0\<rparr>
        in if \<not> AIsResponse h then Inr (h, RequestHeaderSize)
           else if length buf < ResponseHeaderSize then Inl ErrShortFragment
           else Inr (h\<lparr>AIIN := ParseIIN (buf ! 2) (buf ! 3)\<rparr>, ResponseHeaderSize))"

definition AppendHeader :: "byte list \<Rightarrow> app_header \<Rightarrow> byte list" where
  "AppendHeader dst h =
     (let dst = dst @ [AControl_Byte (AControl h), AFunc h]
      in if AIsResponse h then (case IIN_Octets (AIIN h) of (iin1, iin2) \<Rightarrow> dst @ [iin1, iin2]) else dst)"

section \<open>Round trips\<close>

lemma ParseIIN_Octets: "ParseIIN (fst (IIN_Octets i)) (snd (IIN_Octets i)) = i"
  using get16_put16_Nil [of i] by (simp add: ParseIIN_def IIN_Octets_def get16_def put16_def)

lemma Octets_ParseIIN: "IIN_Octets (ParseIIN a b) = (a, b)"
  using put16_get16 [of a b] by (simp add: ParseIIN_def IIN_Octets_def get16_def put16_def)

lemma AParseControl_Byte: "AParseControl (AControl_Byte c) = c\<lparr>ASeq := ASeq c AND 0x0F\<rparr>"
  by (cases c) (auto simp: AParseControl_def AControl_Byte_def Let_def byte_mask_bit bit_and_iff bit_or_iff
      intro!: byte_eqI)

lemma AControl_Byte_Parse: "AControl_Byte (AParseControl b) = b"
  by (rule byte_eqI) (auto simp: AParseControl_def AControl_Byte_def Let_def byte_mask_bit bit_and_iff bit_or_iff)

text \<open>
  A header as it can appear on the wire: the sequence number in its four bits, and no
  indications on a request.
\<close>

definition wf_app_header :: "app_header \<Rightarrow> bool" where
  "wf_app_header h \<longleftrightarrow> ASeq (AControl h) AND 0x0F = ASeq (AControl h) \<and> (AIsResponse h \<or> AIIN h = 0)"

lemma length_AppendHeader [simp, wire_simps]: "length (AppendHeader dst h) = length dst + AHeader_Size h"
  by (simp add: AppendHeader_def AHeader_Size_def Let_def split: prod.splits)

lemma AppendHeader_append: "AppendHeader dst h = dst @ AppendHeader [] h"
  by (simp add: AppendHeader_def Let_def split: prod.splits)

lemma AParse_Append:
  assumes "wf_app_header h"
  shows "AParseHeader (AppendHeader [] h @ rest) = Inr (h, length (AppendHeader [] h))"
proof -
  have c: "AParseControl (AControl_Byte (AControl h)) = AControl h"
    using assms by (simp add: AParseControl_Byte wf_app_header_def)
  obtain a b where o: "IIN_Octets (AIIN h) = (a, b)" by (cases "IIN_Octets (AIIN h)")
  then have "ParseIIN a b = AIIN h" using ParseIIN_Octets [of "AIIN h"] by simp
  then show ?thesis
    using assms c o by (cases h) (auto simp: AParseHeader_def AppendHeader_def wf_app_header_def AIsResponse_def Let_def)
qed

interpretation app_header: prefix_codec "AppendHeader []" AParseHeader wf_app_header
proof
  show "AppendHeader [] x \<noteq> []" if "wf_app_header x" for x
    by (simp add: AppendHeader_def Let_def split: prod.splits)
qed (rule AParse_Append)

lemma AParse_sound:
  assumes "AParseHeader buf = Inr (h, n)"
  shows "wf_app_header h" "n = AHeader_Size h" "n \<le> length buf" "AppendHeader [] h = take n buf"
proof -
  note defs = AParseHeader_def AppendHeader_def AIsResponse_def AHeader_Size_def wf_app_header_def Let_def
  from assms have len: "2 \<le> length buf" by (auto simp: AParseHeader_def split: if_splits)
  then obtain a b r where buf: "buf = a # b # r" by (cases buf; cases "tl buf") auto
  show "wf_app_header h" "n = AHeader_Size h" "n \<le> length buf" "AppendHeader [] h = take n buf"
  proof -
    show "wf_app_header h" "n = AHeader_Size h" "n \<le> length buf"
      using assms by (auto simp: defs AParseControl_def split: if_splits)
    show "AppendHeader [] h = take n buf"
    proof (cases "FuncIsResponse b")
      case True
      then obtain c d r' where "r = c # d # r'" using assms buf by (cases r; cases "tl r") (auto simp: defs split: if_splits)
      with True assms buf show ?thesis by (auto simp: defs AControl_Byte_Parse Octets_ParseIIN split: if_splits)
    next
      case False
      with assms buf show ?thesis by (auto simp: defs AControl_Byte_Parse)
    qed
  qed
qed

text \<open>
  The header codec loses nothing: whatever buffer is parsed, the header accepted encodes
  back to exactly the octets consumed, and every header with a four-bit sequence number
  (and no indications on a request) is parsed back from its encoding, whatever follows it.
\<close>

theorem app_header_roundtrip:
  "case AParseHeader buf of
     Inl e \<Rightarrow> e = ErrShortFragment \<and> length buf < ResponseHeaderSize
   | Inr (h, n) \<Rightarrow> n = AHeader_Size h \<and> n \<le> length buf \<and> AppendHeader [] h = take n buf \<and>
       AParseHeader (AppendHeader [] h @ rest) = Inr (h, n)"
proof (cases "AParseHeader buf")
  case (Inl e)
  then show ?thesis by (auto simp: AParseHeader_def Let_def split: if_splits)
next
  case (Inr hn)
  obtain h n where hn: "hn = (h, n)" by (cases hn)
  from AParse_sound [OF Inr [unfolded hn]] show ?thesis
    using Inr hn AParse_Append [of h rest] by simp
qed

end
