(* ===== verification/App_Objects.thy ===== *)
theory App_Objects
  imports App_Header
begin

text \<open>
  Object headers of the application layer: qualifier, range and prefix encodings
  (\<^verbatim>\<open>internal/app/qualifier.go\<close>), the size table (\<^verbatim>\<open>sizes.go\<close> and \<^verbatim>\<open>zz_generated_sizes.go\<close>), and
  the header parser that walks the data a header introduces (\<^verbatim>\<open>objheader.go\<close>). Counts and
  lengths are kept at the widths of the source: 32-bit counts, 64-bit products. The lemmas
  show that parsing never reads past the buffer, that it loses nothing, and that counts do
  not wrap.
\<close>

section \<open>Qualifiers\<close>

type_synonym Qualifier = byte
type_synonym IndexPrefix = byte
type_synonym RangeSpec = byte

abbreviation (input) PrefixNone :: IndexPrefix where "PrefixNone \<equiv> 0"
abbreviation (input) PrefixIndex1 :: IndexPrefix where "PrefixIndex1 \<equiv> 1"
abbreviation (input) PrefixIndex2 :: IndexPrefix where "PrefixIndex2 \<equiv> 2"
abbreviation (input) PrefixIndex4 :: IndexPrefix where "PrefixIndex4 \<equiv> 3"
abbreviation (input) PrefixSize1 :: IndexPrefix where "PrefixSize1 \<equiv> 4"
abbreviation (input) PrefixSize2 :: IndexPrefix where "PrefixSize2 \<equiv> 5"
abbreviation (input) PrefixSize4 :: IndexPrefix where "PrefixSize4 \<equiv> 6"

abbreviation (input) RangeStartStop8 :: RangeSpec where "RangeStartStop8 \<equiv> 0"
abbreviation (input) RangeStartStop16 :: RangeSpec where "RangeStartStop16 \<equiv> 1"
abbreviation (input) RangeStartStop32 :: RangeSpec where "RangeStartStop32 \<equiv> 2"
abbreviation (input) RangeVirtual8 :: RangeSpec where "RangeVirtual8 \<equiv> 3"
abbreviation (input) RangeVirtual16 :: RangeSpec where "RangeVirtual16 \<equiv> 4"
abbreviation (input) RangeVirtual32 :: RangeSpec where "RangeVirtual32 \<equiv> 5"
abbreviation (input) RangeAllObjects :: RangeSpec where "RangeAllObjects \<equiv> 6"
abbreviation (input) RangeCount8 :: RangeSpec where "RangeCount8 \<equiv> 7"
abbreviation (input) RangeCount16 :: RangeSpec where "RangeCount16 \<equiv> 8"
abbreviation (input) RangeCount32 :: RangeSpec where "RangeCount32 \<equiv> 9"
abbreviation (input) RangeVariable :: RangeSpec where "RangeVariable \<equiv> 11"

definition Q_IndexPrefix :: "Qualifier \<Rightarrow> IndexPrefix" where
  "Q_IndexPrefix q = drop_bit 4 q AND 0x07"

definition Q_RangeSpec :: "Qualifier \<Rightarrow> RangeSpec" where
  "Q_RangeSpec q = q AND 0x0F"

definition Reserved :: "Qualifier \<Rightarrow> bool" where
  "Reserved q \<longleftrightarrow> q AND 0x80 \<noteq> 0"

definition MakeQualifier :: "IndexPrefix \<Rightarrow> RangeSpec \<Rightarrow> Qualifier" where
  "MakeQualifier p r = push_bit 4 (p AND 0x07) OR (r AND 0x0F)"

definition Prefix_Octets :: "IndexPrefix \<Rightarrow> nat" where
  "Prefix_Octets p =
     (if p = PrefixNone then 0
      else if p = PrefixIndex1 \<or> p = PrefixSize1 then 1
      else if p = PrefixIndex2 \<or> p = PrefixSize2 then 2
      else if p = PrefixIndex4 \<or> p = PrefixSize4 then 4
      else 0)"

definition IsIndex :: "IndexPrefix \<Rightarrow> bool" where
  "IsIndex p \<longleftrightarrow> p = PrefixIndex1 \<or> p = PrefixIndex2 \<or> p = PrefixIndex4"

definition IsSize :: "IndexPrefix \<Rightarrow> bool" where
  "IsSize p \<longleftrightarrow> p = PrefixSize1 \<or> p = PrefixSize2 \<or> p = PrefixSize4"

definition Prefix_Valid :: "IndexPrefix \<Rightarrow> bool" where
  "Prefix_Valid p \<longleftrightarrow> p \<le> PrefixSize4"

definition Range_Octets :: "RangeSpec \<Rightarrow> nat" where
  "Range_Octets r =
     (if r = RangeStartStop8 \<or> r = RangeVirtual8 then 2
      else if r = RangeStartStop16 \<or> r = RangeVirtual16 then 4
      else if r = RangeStartStop32 \<or> r = RangeVirtual32 then 8
      else if r = RangeAllObjects then 0
      else if r = RangeCount8 \<or> r = RangeVariable then 1
      else if r = RangeCount16 then 2
      else if r = RangeCount32 then 4
      else 0)"

definition IsStartStop :: "RangeSpec \<Rightarrow> bool" where
  "IsStartStop r \<longleftrightarrow> r \<le> RangeVirtual32"

definition IsCount :: "RangeSpec \<Rightarrow> bool" where
  "IsCount r \<longleftrightarrow> r = RangeCount8 \<or> r = RangeCount16 \<or> r = RangeCount32 \<or> r = RangeVariable"

definition Range_Valid :: "RangeSpec \<Rightarrow> bool" where
  "Range_Valid r \<longleftrightarrow> r \<le> RangeCount32 \<or> r = RangeVariable"

definition Consistent :: "Qualifier \<Rightarrow> bool" where
  "Consistent q =
     (let p = Q_IndexPrefix q; r = Q_RangeSpec q
      in if Reserved q \<or> \<not> Prefix_Valid p \<or> \<not> Range_Valid r then False
         else if IsIndex p then r = RangeCount8 \<or> r = RangeCount16 \<or> r = RangeCount32
         else if IsSize p then r = RangeVariable
         else r \<noteq> RangeVariable)"

section \<open>Ranges\<close>

record obj_range =
  RSpec :: RangeSpec
  RStart :: u32
  RStop :: u32
  RCount :: u32

definition IndexOf :: "obj_range \<Rightarrow> u32 \<Rightarrow> u32" where
  "IndexOf r i = RStart r + i"

text \<open>The count of a start-stop range is computed in 64 bits and refused when it needs more than 32.\<close>

definition parseRange :: "RangeSpec \<Rightarrow> byte list \<Rightarrow> app_error + obj_range \<times> nat" where
  "parseRange spec buf =
     (let n = Range_Octets spec;
          rng = \<lparr>RSpec = spec, RStart = 0, RStop = 0, RCount = 0\<rparr>
      in if length buf < n then Inl ErrTruncated
         else if spec = RangeAllObjects then Inr (rng, 0)
         else
           let decoded =
             (if spec = RangeStartStop8 \<or> spec = RangeVirtual8 then
                Inr (rng\<lparr>RStart := ucast (buf ! 0), RStop := ucast (buf ! 1)\<rparr>)
              else if spec = RangeStartStop16 \<or> spec = RangeVirtual16 then
                Inr (rng\<lparr>RStart := ucast (get16 (subslice buf 0 2)), RStop := ucast (get16 (subslice buf 2 4))\<rparr>)
              else if spec = RangeStartStop32 \<or> spec = RangeVirtual32 then
                Inr (rng\<lparr>RStart := get32 (subslice buf 0 4), RStop := get32 (subslice buf 4 8)\<rparr>)
              else if spec = RangeCount8 \<or> spec = RangeVariable then Inr (rng\<lparr>RCount := ucast (buf ! 0)\<rparr>)
              else if spec = RangeCount16 then Inr (rng\<lparr>RCount := ucast (get16 (subslice buf 0 2))\<rparr>)
              else if spec = RangeCount32 then Inr (rng\<lparr>RCount := get32 (subslice buf 0 4)\<rparr>)
              else Inl ErrBadQualifier)
           in case decoded of
                Inl e \<Rightarrow> Inl e
              | Inr rng \<Rightarrow>
                  if IsStartStop spec then
                    if RStop rng < RStart rng then Inl ErrBadRange
                    else
                      let count = (ucast (RStop rng) - ucast (RStart rng) + 1 :: u64)
                      in if count > ucast (NOT 0 :: u32) then Inl ErrBadRange
                         else Inr (rng\<lparr>RCount := ucast count\<rparr>, n)
                  else Inr (rng, n))"

definition appendRange :: "byte list \<Rightarrow> obj_range \<Rightarrow> byte list" where
  "appendRange dst r =
     (let spec = RSpec r
      in if spec = RangeAllObjects then dst
         else if spec = RangeStartStop8 \<or> spec = RangeVirtual8 then dst @ [ucast (RStart r), ucast (RStop r)]
         else if spec = RangeStartStop16 \<or> spec = RangeVirtual16 then
           dst @ put16 (ucast (RStart r)) @ put16 (ucast (RStop r))
         else if spec = RangeStartStop32 \<or> spec = RangeVirtual32 then dst @ put32 (RStart r) @ put32 (RStop r)
         else if spec = RangeCount8 \<or> spec = RangeVariable then dst @ [ucast (RCount r)]
         else if spec = RangeCount16 then dst @ put16 (ucast (RCount r))
         else if spec = RangeCount32 then dst @ put32 (RCount r)
         else dst)"

section \<open>Object sizes\<close>

definition gv :: "byte \<Rightarrow> byte \<Rightarrow> u16" where
  "gv grp variation = push_bit 8 (ucast grp) OR ucast variation"

definition generatedSizes :: "(u16 \<times> int) list" where
  "generatedSizes =
    [(gv 1 1, 1), (gv 1 2, 8), (gv 2 1, 8), (gv 2 2, 56), (gv 2 3, 24), (gv 3 1, 2),
     (gv 3 2, 8), (gv 4 1, 8), (gv 4 2, 56), (gv 4 3, 24), (gv 10 1, 1), (gv 10 2, 8),
     (gv 11 1, 8), (gv 11 2, 56), (gv 12 1, 88), (gv 12 2, 88), (gv 12 3, 1), (gv 13 1, 8),
     (gv 13 2, 56), (gv 20 1, 40), (gv 20 2, 24), (gv 20 5, 32), (gv 20 6, 16), (gv 21 1, 40),
     (gv 21 2, 24), (gv 21 5, 88), (gv 21 6, 72), (gv 21 9, 32), (gv 21 10, 16), (gv 22 1, 40),
     (gv 22 2, 24), (gv 22 5, 88), (gv 22 6, 72), (gv 23 1, 40), (gv 23 2, 24), (gv 23 5, 88),
     (gv 23 6, 72), (gv 30 1, 40), (gv 30 2, 24), (gv 30 3, 32), (gv 30 4, 16), (gv 30 5, 40),
     (gv 30 6, 72), (gv 31 1, 40), (gv 31 2, 24), (gv 31 3, 88), (gv 31 4, 72), (gv 31 5, 32),
     (gv 31 6, 16), (gv 31 7, 40), (gv 31 8, 72), (gv 32 1, 40), (gv 32 2, 24), (gv 32 3, 88),
     (gv 32 4, 72), (gv 32 5, 40), (gv 32 6, 72), (gv 32 7, 88), (gv 32 8, 120), (gv 33 1, 40),
     (gv 33 2, 24), (gv 33 3, 88), (gv 33 4, 72), (gv 33 5, 40), (gv 33 6, 72), (gv 33 7, 88),
     (gv 33 8, 120), (gv 34 1, 16), (gv 34 2, 32), (gv 34 3, 32), (gv 40 1, 40), (gv 40 2, 24),
     (gv 40 3, 40), (gv 40 4, 72), (gv 41 1, 40), (gv 41 2, 24), (gv 41 3, 40), (gv 41 4, 72),
     (gv 42 1, 40), (gv 42 2, 24), (gv 42 3, 88), (gv 42 4, 72), (gv 42 5, 40), (gv 42 6, 72),
     (gv 42 7, 88), (gv 42 8, 120), (gv 43 1, 40), (gv 43 2, 24), (gv 43 3, 88), (gv 43 4, 72),
     (gv 43 5, 40), (gv 43 6, 72), (gv 43 7, 88), (gv 43 8, 120), (gv 50 1, 48), (gv 50 2, 80),
     (gv 50 3, 48), (gv 50 4, 88), (gv 51 1, 48), (gv 51 2, 48), (gv 52 1, 16), (gv 52 2, 16),
     (gv 60 1, 0), (gv 60 2, 0), (gv 60 3, 0), (gv 60 4, 0), (gv 80 1, 1), (gv 86 2, 8),
     (gv 120 3, 48), (gv 120 4, 16), (gv 121 1, 56), (gv 122 1, 56), (gv 122 2, 104)]"

definition lengthIsVariationGroups :: "byte list" where
  "lengthIsVariationGroups = [110, 111, 112, 113]"

definition variableGroups :: "byte list" where
  "variableGroups = [0, 70, 85, 86, 87, 88, 90, 91, 120]"

text \<open>A sizer gives the size of one object in bits; \<open>None\<close> is the source's not-ok.\<close>

type_synonym sizer = "byte \<Rightarrow> byte \<Rightarrow> int option"

definition SizeBits :: sizer where
  "SizeBits grp variation =
     (if grp \<in> set lengthIsVariationGroups then Some (uint variation * 8)
      else case map_of generatedSizes (gv grp variation) of
             Some bits \<Rightarrow> Some bits
           | None \<Rightarrow>
               if grp \<in> set variableGroups then None
               else map_of generatedSizes (gv grp variation))"

definition Known :: "byte \<Rightarrow> byte \<Rightarrow> bool" where
  "Known grp variation \<longleftrightarrow> SizeBits grp variation \<noteq> None"

section \<open>Object headers\<close>

abbreviation (input) ObjectHeaderSize :: nat where "ObjectHeaderSize \<equiv> 3"

record object_header =
  OGroup :: byte
  OVariation :: byte
  OQualifier :: Qualifier
  ORange :: obj_range
  OData :: "byte list"
  OOffset :: nat
  ODataOffset :: nat

definition GroupVar :: "object_header \<Rightarrow> u16" where
  "GroupVar h = push_bit 8 (ucast (OGroup h)) OR ucast (OVariation h)"

definition O_Count :: "object_header \<Rightarrow> u32" where
  "O_Count h = RCount (ORange h)"

definition O_Size :: "object_header \<Rightarrow> nat" where
  "O_Size h = ObjectHeaderSize + Range_Octets (Q_RangeSpec (OQualifier h)) + length (OData h)"

definition readUintLE :: "byte list \<Rightarrow> nat \<Rightarrow> u32" where
  "readUintLE buf width =
     (if width = 1 then ucast (buf ! 0)
      else if width = 2 then ucast (get16 buf)
      else if width = 4 then get32 buf
      else 0)"

definition checkFits :: "u64 \<Rightarrow> byte list \<Rightarrow> app_error + nat" where
  "checkFits n buf = (if unat n > length buf then Inl ErrTruncated else Inr (unat n))"

text \<open>The loops over self-describing objects, as recursions on the number of objects left.\<close>

fun walkAttributes :: "nat \<Rightarrow> byte list \<Rightarrow> nat \<Rightarrow> app_error + nat" where
  "walkAttributes 0 buf off = Inr off"
| "walkAttributes (Suc k) buf off =
     (if off + 2 > length buf then Inl ErrTruncated
      else
        let size = unat (buf ! (off + 1))
        in if off + 2 + size > length buf then Inl ErrTruncated
           else walkAttributes k buf (off + 2 + size))"

fun walkSizePrefixed :: "nat \<Rightarrow> nat \<Rightarrow> byte list \<Rightarrow> nat \<Rightarrow> app_error + nat" where
  "walkSizePrefixed width 0 buf off = Inr off"
| "walkSizePrefixed width (Suc k) buf off =
     (if off + width > length buf then Inl ErrTruncated
      else
        let size = unat (readUintLE (drop off buf) width);
            off = off + width
        in if off + size > length buf then Inl ErrTruncated
           else walkSizePrefixed width k buf (off + size))"

text \<open>Group 91 variation 1: four octets, a count octet, then that many strings with a length octet each.\<close>

fun walkStrings :: "nat \<Rightarrow> byte list \<Rightarrow> nat \<Rightarrow> app_error + nat" where
  "walkStrings 0 buf off = Inr off"
| "walkStrings (Suc k) buf off =
     (if off \<ge> length buf \<or> buf ! off = 0 \<or> unat (buf ! off) + 1 > length buf - off then Inl ErrTruncated
      else walkStrings k buf (off + 1 + unat (buf ! off)))"

fun walkActivation :: "nat \<Rightarrow> byte list \<Rightarrow> nat \<Rightarrow> app_error + nat" where
  "walkActivation 0 buf off = Inr off"
| "walkActivation (Suc k) buf off =
     (if length buf - off < 5 then Inl ErrTruncated
      else case walkStrings (unat (buf ! (off + 4))) buf (off + 5) of
             Inl e \<Rightarrow> Inl e
           | Inr off \<Rightarrow> walkActivation k buf off)"

definition objectDataLen :: "sizer \<Rightarrow> object_header \<Rightarrow> byte list \<Rightarrow> bool \<Rightarrow> app_error + nat" where
  "objectDataLen sizer h buf carriesData =
     (let prefix = Q_IndexPrefix (OQualifier h);
          count = RCount (ORange h)
      in if IsSize prefix \<and> count > 0 \<and> OVariation h \<noteq> 0 then
           walkSizePrefixed (Prefix_Octets prefix) (unat count) buf 0
         else if IsSize prefix \<and> count > 0 then Inl ErrBadQualifier
         else if \<not> carriesData then
           if IsIndex prefix \<and> IsCount (RSpec (ORange h)) then
             checkFits (ucast count * of_nat (Prefix_Octets prefix)) buf
           else Inr 0
         else if OVariation h = 0 then Inr 0
         else if RSpec (ORange h) = RangeAllObjects then Inr 0
         else if count = 0 then Inr 0
         else if OGroup h = 0 then walkAttributes (unat count) buf 0
         else if OGroup h = 91 \<and> OVariation h = 1 then
           if prefix \<noteq> PrefixNone then Inl ErrBadQualifier else walkActivation (unat count) buf 0
         else
           case sizer (OGroup h) (OVariation h) of
             None \<Rightarrow> Inl (ErrUnknownObject (OGroup h) (OVariation h))
           | Some bits \<Rightarrow>
               let prefixOctets = Prefix_Octets prefix
               in if bits = 0 then Inr 0
                  else if bits < 8 then
                    if prefixOctets \<noteq> 0 then Inl ErrBadQualifier
                    else checkFits ((ucast count * of_int bits + 7) div 8) buf
                  else if bits mod 8 \<noteq> 0 then Inl (ErrUnknownObject (OGroup h) (OVariation h))
                  else checkFits (ucast count * (of_nat prefixOctets + of_int bits div 8)) buf)"

definition ParseObjectHeader :: "sizer option \<Rightarrow> byte list \<Rightarrow> nat \<Rightarrow> bool \<Rightarrow> app_error + object_header \<times> nat" where
  "ParseObjectHeader szr buf offset carriesData =
     (let sizer = (case szr of None \<Rightarrow> SizeBits | Some z \<Rightarrow> z)
      in if length buf < ObjectHeaderSize then Inl ErrTruncated
         else
           let q = buf ! 2;
               h = \<lparr>OGroup = buf ! 0, OVariation = buf ! 1, OQualifier = q,
                    ORange = \<lparr>RSpec = 0, RStart = 0, RStop = 0, RCount = 0\<rparr>, OData = [],
                    OOffset = offset, ODataOffset = 0\<rparr>
           in if Reserved q then Inl ErrBadQualifier
              else if \<not> Prefix_Valid (Q_IndexPrefix q) then Inl ErrBadQualifier
              else if \<not> Range_Valid (Q_RangeSpec q) then Inl ErrBadQualifier
              else
                case parseRange (Q_RangeSpec q) (drop ObjectHeaderSize buf) of
                  Inl e \<Rightarrow> Inl e
                | Inr (rng, rangeLen) \<Rightarrow>
                    let dataStart = ObjectHeaderSize + rangeLen;
                        h = h\<lparr>ORange := rng, ODataOffset := offset + dataStart\<rparr>
                    in case objectDataLen sizer h (drop dataStart buf) carriesData of
                         Inl e \<Rightarrow> Inl e
                       | Inr dataLen \<Rightarrow>
                           Inr (h\<lparr>OData := subslice buf dataStart (dataStart + dataLen)\<rparr>, dataStart + dataLen))"

definition AppendObjectHeader :: "byte list \<Rightarrow> object_header \<Rightarrow> byte list" where
  "AppendObjectHeader dst h =
     (let dst = dst @ [OGroup h, OVariation h, OQualifier h];
          dst = appendRange dst (ORange h)
      in dst @ OData h)"

section \<open>The range codec\<close>

lemma length_appendRange: "length (appendRange dst r) = length dst + Range_Octets (RSpec r)"
  by (auto simp: appendRange_def Range_Octets_def Let_def)

lemma appendRange_append: "appendRange dst r = dst @ appendRange [] r"
  by (simp add: appendRange_def Let_def)

text \<open>
  The ranges that can appear on the wire: indexes and counts within the width of their
  specifier, the count of a start-stop range in agreement with its indexes and within 32
  bits, and the unused fields zero.
\<close>

definition start_stop :: "nat \<Rightarrow> obj_range \<Rightarrow> bool" where
  "start_stop w r \<longleftrightarrow> RStart r \<le> RStop r \<and> unat (RStop r) < 2 ^ w \<and>
     unat (RCount r) = unat (RStop r) - unat (RStart r) + 1"

definition counted :: "nat \<Rightarrow> obj_range \<Rightarrow> bool" where
  "counted w r \<longleftrightarrow> RStart r = 0 \<and> RStop r = 0 \<and> unat (RCount r) < 2 ^ w"

definition wf_range :: "obj_range \<Rightarrow> bool" where
  "wf_range r =
     (let spec = RSpec r
      in if spec = RangeStartStop8 \<or> spec = RangeVirtual8 then start_stop 8 r
         else if spec = RangeStartStop16 \<or> spec = RangeVirtual16 then start_stop 16 r
         else if spec = RangeStartStop32 \<or> spec = RangeVirtual32 then start_stop 32 r
         else if spec = RangeAllObjects then RStart r = 0 \<and> RStop r = 0 \<and> RCount r = 0
         else if spec = RangeCount8 \<or> spec = RangeVariable then counted 8 r
         else if spec = RangeCount16 then counted 16 r
         else spec = RangeCount32 \<and> counted 32 r)"

text \<open>The 64-bit count of the source, read as a number.\<close>

lemma unat_u32_u64 [simp]: "unat (ucast (x :: u32) :: u64) = unat x"
proof -
  have "unat x < 2 ^ LENGTH(32)" by (rule unsigned_less)
  then show ?thesis by (simp add: unsigned_ucast_eq take_bit_nat_eq_self_iff)
qed

lemma count_64:
  fixes start stop :: u32
  assumes "start \<le> stop"
  shows "unat (ucast stop - ucast start + 1 :: u64) = unat stop - unat start + 1"
proof -
  have b: "unat stop < 2 ^ 32" "unat start \<le> unat stop"
    using unsigned_less [of stop] assms by (simp_all add: word_le_nat_alt)
  then have "unat (ucast stop - ucast start :: u64) = unat stop - unat start"
    by (simp add: unat_sub word_le_nat_alt)
  then show ?thesis using b by (simp add: unat_word_ariths unat_add_lem)
qed

lemma unat_ucast_down: "unat x < 2 ^ 32 \<Longrightarrow> unat (ucast (x :: u64) :: u32) = unat x"
  by (simp add: unsigned_ucast_eq take_bit_nat_eq_self_iff)

lemma count_fits: "ucast (- 1 :: u32) < (x :: u64) \<longleftrightarrow> 2 ^ 32 \<le> unat x"
proof -
  have "unat (- 1 :: u32) = 4294967295" by (simp add: unsigned_minus_1_eq_mask mask_eq_exp_minus_1)
  then show ?thesis by (auto simp: word_less_nat_alt)
qed

lemma ucast_roundtrip [simp]:
  "(ucast (ucast (b :: byte) :: u32) :: byte) = b" "(ucast (ucast (x :: u16) :: u32) :: u16) = x"
  by (rule bit_word_eqI, simp add: bit_simps)+

text \<open>The parser, one form at a time.\<close>

definition close_range :: "obj_range \<Rightarrow> nat \<Rightarrow> app_error + obj_range \<times> nat" where
  "close_range r n =
     (if RStop r < RStart r \<or> 2 ^ 32 \<le> unat (RStop r) - unat (RStart r) + 1 then Inl ErrBadRange
      else Inr (r\<lparr>RCount := RStop r - RStart r + 1\<rparr>, n))"

lemma ucast_count_int: "take_bit 32 (take_bit 32 b - take_bit 32 a + 1) = take_bit 32 (b - a + 1 :: int)"
  by (simp add: take_bit_eq_mod) (metis mod_add_left_eq mod_diff_eq)

lemma ucast_count: "ucast (ucast b - ucast a + 1 :: u64) = (b - a + 1 :: u32)"
  by transfer (simp add: ucast_count_int)

lemma IsStartStop_simps [simp]:
  "IsStartStop 0" "IsStartStop 1" "IsStartStop 2" "IsStartStop 3" "IsStartStop 4" "IsStartStop 5"
  "\<not> IsStartStop 6" "\<not> IsStartStop 7" "\<not> IsStartStop 8" "\<not> IsStartStop 9" "\<not> IsStartStop 11"
  by (simp_all add: IsStartStop_def word_le_nat_alt)

lemma finish_range:
  "(if RStop r < RStart r then Inl ErrBadRange
    else let count = (ucast (RStop r) - ucast (RStart r) + 1 :: u64)
         in if count > ucast (NOT 0 :: u32) then Inl ErrBadRange else Inr (r\<lparr>RCount := ucast count\<rparr>, n))
   = close_range r n"
  by (auto simp: close_range_def Let_def count_fits count_64 ucast_count not_less)

lemma parseRange_start_stop:
  "spec = 0 \<or> spec = 3 \<Longrightarrow> parseRange spec buf = (if length buf < 2 then Inl ErrTruncated
     else close_range \<lparr>RSpec = spec, RStart = ucast (buf ! 0), RStop = ucast (buf ! 1), RCount = 0\<rparr> 2)"
  "spec = 1 \<or> spec = 4 \<Longrightarrow> parseRange spec buf = (if length buf < 4 then Inl ErrTruncated
     else close_range \<lparr>RSpec = spec, RStart = ucast (get16 (subslice buf 0 2)), RStop = ucast (get16 (subslice buf 2 4)), RCount = 0\<rparr> 4)"
  "spec = 2 \<or> spec = 5 \<Longrightarrow> parseRange spec buf = (if length buf < 8 then Inl ErrTruncated
     else close_range \<lparr>RSpec = spec, RStart = get32 (subslice buf 0 4), RStop = get32 (subslice buf 4 8), RCount = 0\<rparr> 8)"
  by (elim disjE; simp add: parseRange_def Range_Octets_def Let_def flip: finish_range)+

lemma parseRange_count:
  "parseRange 6 buf = Inr (\<lparr>RSpec = 6, RStart = 0, RStop = 0, RCount = 0\<rparr>, 0)"
  "spec = 7 \<or> spec = 11 \<Longrightarrow> parseRange spec buf = (if length buf < 1 then Inl ErrTruncated
     else Inr (\<lparr>RSpec = spec, RStart = 0, RStop = 0, RCount = ucast (buf ! 0)\<rparr>, 1))"
  "parseRange 8 buf = (if length buf < 2 then Inl ErrTruncated
     else Inr (\<lparr>RSpec = 8, RStart = 0, RStop = 0, RCount = ucast (get16 (subslice buf 0 2))\<rparr>, 2))"
  "parseRange 9 buf = (if length buf < 4 then Inl ErrTruncated
     else Inr (\<lparr>RSpec = 9, RStart = 0, RStop = 0, RCount = get32 (subslice buf 0 4)\<rparr>, 4))"
  by (auto simp: parseRange_def Range_Octets_def Let_def)

lemma range_forms:
  assumes "Range_Valid spec"
  obtains "spec = 0 \<or> spec = 3" | "spec = 1 \<or> spec = 4" | "spec = 2 \<or> spec = 5" | "spec = 6"
    | "spec = 7 \<or> spec = 11" | "spec = 8" | "spec = 9"
proof (cases "spec = 11")
  case False
  then have "unat spec \<le> 9" using assms by (simp add: Range_Valid_def word_le_nat_alt)
  then have "unat spec \<in> {0, 1, 2, 3, 4, 5, 6, 7, 8, 9}" by auto
  then have "spec \<in> {0, 1, 2, 3, 4, 5, 6, 7, 8, 9}" by (auto simp: word_unat_eq_iff)
  with that show thesis by blast
qed (use that in blast)

lemma close_range_sound:
  assumes "close_range r n = Inr (r', m)" "unat (RStop r) < 2 ^ w"
  shows "start_stop w r'" "r' = r\<lparr>RCount := RCount r'\<rparr>" "m = n"
proof -
  have le: "RStart r \<le> RStop r" and fit: "unat (RStop r) - unat (RStart r) + 1 < 2 ^ 32"
    and r': "r' = r\<lparr>RCount := RStop r - RStart r + 1\<rparr>" and m: "m = n"
    using assms(1) by (auto simp: close_range_def not_less split: if_splits)
  have "unat (RStop r - RStart r + 1) = unat (ucast (ucast (RStop r) - ucast (RStart r) + 1 :: u64) :: u32)"
    by (simp only: ucast_count)
  also have "\<dots> = unat (RStop r) - unat (RStart r) + 1"
    using count_64 [OF le] fit by (subst unat_ucast_down) simp_all
  finally show "start_stop w r'" using le assms(2) r' by (simp add: start_stop_def)
  show "r' = r\<lparr>RCount := RCount r'\<rparr>" "m = n" using r' m by simp_all
qed

lemma close_range_complete:
  assumes "start_stop w r" "w \<le> 32"
  shows "close_range (r\<lparr>RCount := 0\<rparr>) n = Inr (r, n)"
proof -
  have c: "unat (RCount r) = unat (RStop r) - unat (RStart r) + 1" and le: "RStart r \<le> RStop r"
    using assms(1) by (simp_all add: start_stop_def)
  have "unat (RCount r) < 2 ^ LENGTH(32)" by (rule unsigned_less)
  with c have fit: "unat (RStop r) - unat (RStart r) + 1 < 2 ^ 32" by simp
  have "unat (RStop r - RStart r + 1) = unat (ucast (ucast (RStop r) - ucast (RStart r) + 1 :: u64) :: u32)"
    by (simp only: ucast_count)
  also have "\<dots> = unat (RCount r)"
    using count_64 [OF le] fit c by (subst unat_ucast_down) simp_all
  finally have "RStop r - RStart r + 1 = RCount r" by (rule word_unat_eq_iff [THEN iffD2])
  then show ?thesis using le fit by (cases r) (simp add: close_range_def)
qed

lemma u16_lt [simp]: "unat (x :: u16) < 65536" "unat (y :: u32) < 4294967296"
proof -
  have "unat x < 2 ^ LENGTH(16)" "unat y < 2 ^ LENGTH(32)" by (rule unsigned_less)+
  then show "unat x < 65536" "unat y < 4294967296" by simp_all
qed

lemma u16_in_u32 [simp]: "unat (ucast (x :: u16) :: u32) = unat x" "unat (ucast (b :: byte) :: u32) = unat b"
  by (simp_all add: unsigned_ucast_eq take_bit_nat_eq_self_iff less_trans [OF u16_lt(1)] less_trans [OF ucast_byte_lt_256])

lemma take_2: "2 \<le> length buf \<Longrightarrow> [buf ! 0, buf ! 1] = take 2 buf"
  by (cases buf; cases "tl buf") (auto simp: numeral_2_eq_2)

lemma slices_4: "4 \<le> length buf \<Longrightarrow> put16 (get16 (subslice buf 0 2)) @ put16 (get16 (subslice buf 2 4)) = take 4 buf"
  using take_add [of 2 2 buf] by (simp add: put16_get16_slice subslice_def drop_take)

lemma slices_8: "8 \<le> length buf \<Longrightarrow> put32 (get32 (subslice buf 0 4)) @ put32 (get32 (subslice buf 4 8)) = take 8 buf"
  using take_add [of 4 4 buf] by (simp add: put32_get32_slice subslice_def drop_take)

lemma parseRange_sound:
  assumes "parseRange spec buf = Inr (r, n)" "Range_Valid spec"
  shows "wf_range r \<and> RSpec r = spec \<and> n = Range_Octets spec \<and> n \<le> length buf \<and> appendRange [] r = take n buf"
  using assms(2)
proof (cases rule: range_forms)
  case 1
  let ?r = "\<lparr>RSpec = spec, RStart = ucast (buf ! 0), RStop = ucast (buf ! 1), RCount = 0\<rparr> :: obj_range"
  have c: "2 \<le> length buf" "close_range ?r 2 = Inr (r, n)"
    using assms(1) by (auto simp: parseRange_start_stop(1) [OF 1] split: if_splits)
  from close_range_sound [OF c(2), of 8] have "start_stop 8 r" "r = ?r\<lparr>RCount := RCount r\<rparr>" "n = 2" by simp_all
  then show ?thesis using 1 c(1) take_2 [OF c(1)]
    by (cases r) (auto simp: wf_range_def Range_Octets_def appendRange_def Let_def)
next
  case 2
  let ?r = "\<lparr>RSpec = spec, RStart = ucast (get16 (subslice buf 0 2)), RStop = ucast (get16 (subslice buf 2 4)), RCount = 0\<rparr> :: obj_range"
  have c: "4 \<le> length buf" "close_range ?r 4 = Inr (r, n)"
    using assms(1) by (auto simp: parseRange_start_stop(2) [OF 2] split: if_splits)
  from close_range_sound [OF c(2), of 16] have "start_stop 16 r" "r = ?r\<lparr>RCount := RCount r\<rparr>" "n = 4" by simp_all
  then show ?thesis using 2 c(1) slices_4 [OF c(1)]
    by (cases r) (auto simp: wf_range_def Range_Octets_def appendRange_def Let_def)
next
  case 3
  let ?r = "\<lparr>RSpec = spec, RStart = get32 (subslice buf 0 4), RStop = get32 (subslice buf 4 8), RCount = 0\<rparr> :: obj_range"
  have c: "8 \<le> length buf" "close_range ?r 8 = Inr (r, n)"
    using assms(1) by (auto simp: parseRange_start_stop(3) [OF 3] split: if_splits)
  from close_range_sound [OF c(2), of 32] have "start_stop 32 r" "r = ?r\<lparr>RCount := RCount r\<rparr>" "n = 8" by simp_all
  then show ?thesis using 3 c(1) slices_8 [OF c(1)]
    by (cases r) (auto simp: wf_range_def Range_Octets_def appendRange_def Let_def)
qed (use assms(1) in \<open>auto simp: parseRange_count wf_range_def counted_def Range_Octets_def appendRange_def
    put16_get16_slice put32_get32_slice subslice_def take_Suc hd_conv_nth Suc_le_eq split: if_splits\<close>)

lemma ucast_down_up:
  "unat (v :: u32) < 256 \<Longrightarrow> ucast (ucast v :: byte) = v"
  "unat (v :: u32) < 65536 \<Longrightarrow> ucast (ucast v :: u16) = v"
  by (simp_all add: word_unat_eq_iff unsigned_ucast_eq unsigned_take_bit_eq take_bit_nat_eq_self_iff)

lemma start_stop_bounds:
  "start_stop w r \<Longrightarrow> unat (RStart r) < 2 ^ w \<and> unat (RStop r) < 2 ^ w"
  by (auto simp: start_stop_def word_le_nat_alt)

lemma parseRange_appendRange:
  assumes "wf_range r"
  shows "Range_Valid (RSpec r) \<and> parseRange (RSpec r) (appendRange [] r @ rest) = Inr (r, Range_Octets (RSpec r))"
proof -
  let ?spec = "RSpec r"
  have v: "Range_Valid ?spec"
    using assms by (auto simp: wf_range_def Range_Valid_def Let_def word_le_nat_alt split: if_splits)
  then have "parseRange ?spec (appendRange [] r @ rest) = Inr (r, Range_Octets ?spec)"
  proof (cases rule: range_forms)
    case 1
    then have s: "start_stop 8 r" using assms by (auto simp: wf_range_def Let_def)
    with 1 close_range_complete [OF s, of 2] start_stop_bounds [OF s] show ?thesis
      by (cases r) (auto simp: parseRange_start_stop appendRange_def Range_Octets_def Let_def ucast_down_up)
  next
    case 2
    then have s: "start_stop 16 r" using assms by (auto simp: wf_range_def Let_def)
    with 2 close_range_complete [OF s, of 4] start_stop_bounds [OF s] show ?thesis
      by (cases r) (auto simp: parseRange_start_stop appendRange_def Range_Octets_def Let_def ucast_down_up
          subslice_def drop_take)
  next
    case 3
    then have s: "start_stop 32 r" using assms by (auto simp: wf_range_def Let_def)
    with 3 close_range_complete [OF s, of 8] show ?thesis
      by (cases r) (auto simp: parseRange_start_stop appendRange_def Range_Octets_def Let_def subslice_def drop_take)
  qed (use assms in \<open>cases r, auto simp: parseRange_count wf_range_def counted_def appendRange_def Range_Octets_def
      Let_def ucast_down_up subslice_def\<close>)
  with v show ?thesis ..
qed

text \<open>
  The range codec: a parsed range encodes back to exactly the octets it was read from, its
  count agrees with its indexes (computed without wrapping, up to the full 32 bits) and fits
  the specifier's width; and every such range is parsed back from its encoding. The range
  \<open>0..0xFFFFFFFF\<close>, whose count needs a 33rd bit, is refused.
\<close>

theorem range_roundtrip:
  "(\<forall>spec buf r n. Range_Valid spec \<and> parseRange spec buf = Inr (r, n) \<longrightarrow>
      wf_range r \<and> RSpec r = spec \<and> n \<le> length buf \<and> appendRange [] r = take n buf) \<and>
   (\<forall>r rest. wf_range r \<longrightarrow> parseRange (RSpec r) (appendRange [] r @ rest) = Inr (r, length (appendRange [] r)))"
  using parseRange_sound parseRange_appendRange by (auto simp: length_appendRange)

theorem range_roundtrip_witness:
  "wf_range \<lparr>RSpec = RangeStartStop16, RStart = 3, RStop = 300, RCount = 298\<rparr> \<and>
   parseRange RangeStartStop16 [3, 0, 0x2C, 1, 0xFF]
     = Inr (\<lparr>RSpec = RangeStartStop16, RStart = 3, RStop = 300, RCount = 298\<rparr>, 4)"
proof -
  let ?r = "\<lparr>RSpec = RangeStartStop16, RStart = 3, RStop = 300, RCount = 298\<rparr> :: obj_range"
  have w: "wf_range ?r" by (simp add: wf_range_def start_stop_def word_le_nat_alt)
  have a: "appendRange [] ?r = [3, 0, 0x2C, 1]" by (simp add: appendRange_def put16_def drop_bit_eq_div)
  show ?thesis
    using range_roundtrip [THEN conjunct2, rule_format, OF w, of "[0xFF]"] w by (simp add: a)
qed

section \<open>Walking object data\<close>

lemma walkAttributes_bound: "walkAttributes k buf off = Inr n \<Longrightarrow> off \<le> length buf \<Longrightarrow> off \<le> n \<and> n \<le> length buf"
  by (induction k buf off rule: walkAttributes.induct) (fastforce simp: Let_def split: if_splits)+

lemma walkSizePrefixed_bound:
  "walkSizePrefixed width k buf off = Inr n \<Longrightarrow> off \<le> length buf \<Longrightarrow> off \<le> n \<and> n \<le> length buf"
  by (induction width k buf off rule: walkSizePrefixed.induct) (fastforce simp: Let_def split: if_splits)+

lemma walkStrings_bound: "walkStrings k buf off = Inr n \<Longrightarrow> off \<le> length buf \<Longrightarrow> off \<le> n \<and> n \<le> length buf"
  by (induction k buf off rule: walkStrings.induct) (fastforce split: if_splits)+

lemma walkActivation_bound: "walkActivation k buf off = Inr n \<Longrightarrow> off \<le> length buf \<Longrightarrow> off \<le> n \<and> n \<le> length buf"
proof (induction k arbitrary: off)
  case (Suc k)
  then obtain m where "walkStrings (unat (buf ! (off + 4))) buf (off + 5) = Inr m" "5 \<le> length buf - off"
    "walkActivation k buf m = Inr n"
    by (auto split: if_splits sum.splits)
  with Suc.IH [of m] walkStrings_bound [of _ buf "off + 5" m] show ?case by fastforce
qed simp

lemma checkFits_bound: "checkFits t buf = Inr n \<Longrightarrow> n \<le> length buf"
  by (auto simp: checkFits_def split: if_splits)

lemmas walk_bounds = walkAttributes_bound [of _ _ 0] walkSizePrefixed_bound [of _ _ _ 0]
  walkActivation_bound [of _ _ 0] checkFits_bound

lemma objectDataLen_bound: "objectDataLen sizer h buf c = Inr n \<Longrightarrow> n \<le> length buf"
  by (auto simp: objectDataLen_def Let_def dest: walk_bounds split: if_splits option.splits)

lemma AppendObjectHeader_append: "AppendObjectHeader dst h = dst @ AppendObjectHeader [] h"
  by (simp add: AppendObjectHeader_def Let_def appendRange_append [of "dst @ _"] appendRange_append [of "[_, _, _]"])

lemma length_AppendObjectHeader:
  "length (AppendObjectHeader dst h) = length dst + 3 + Range_Octets (RSpec (ORange h)) + length (OData h)"
  by (simp add: AppendObjectHeader_def Let_def length_appendRange)

text \<open>What a parsed header promises.\<close>

definition wf_object :: "object_header \<Rightarrow> bool" where
  "wf_object h \<longleftrightarrow> \<not> Reserved (OQualifier h) \<and> Prefix_Valid (Q_IndexPrefix (OQualifier h)) \<and>
     RSpec (ORange h) = Q_RangeSpec (OQualifier h) \<and> wf_range (ORange h)"

lemma wf_object_size: "wf_object h \<Longrightarrow> length (AppendObjectHeader [] h) = O_Size h"
  by (simp add: wf_object_def length_AppendObjectHeader O_Size_def)

lemma split_3: "3 \<le> length buf \<Longrightarrow> buf = buf ! 0 # buf ! 1 # buf ! 2 # drop 3 buf"
  by (cases buf; cases "tl buf"; cases "tl (tl buf)") (auto simp: numeral_2_eq_2 numeral_3_eq_3)

lemma slices_3:
  assumes "3 \<le> length buf"
  shows "[buf ! 0, buf ! 1, buf ! 2] @ take m (drop 3 buf) @ subslice buf (3 + m) (3 + m + d) = take (3 + m + d) buf"
proof -
  have "[buf ! 0, buf ! 1, buf ! 2] = take 3 buf"
    using arg_cong [OF split_3 [OF assms], of "take 3"] by (simp add: numeral_3_eq_3)
  then show ?thesis by (simp only: subslice_plus take_add append_assoc)
qed

lemma ParseObjectHeader_sound:
  assumes "ParseObjectHeader szr buf offset c = Inr (h, n)"
  shows "wf_object h \<and> n = O_Size h \<and> n \<le> length buf \<and> AppendObjectHeader [] h = take n buf \<and>
    OOffset h = offset \<and> ODataOffset h + length (OData h) = offset + n"
proof -
  let ?q = "buf ! 2"
  from assms have len: "3 \<le> length buf" and q: "\<not> Reserved ?q" "Prefix_Valid (Q_IndexPrefix ?q)" "Range_Valid (Q_RangeSpec ?q)"
    by (auto simp: ParseObjectHeader_def Let_def split: if_splits)
  from assms len q obtain rng m d where p: "parseRange (Q_RangeSpec ?q) (drop 3 buf) = Inr (rng, m)"
    and d: "d \<le> length (drop (3 + m) buf)" and n: "n = 3 + m + d"
    and h: "h = \<lparr>OGroup = buf ! 0, OVariation = buf ! 1, OQualifier = ?q, ORange = rng,
        OData = subslice buf (3 + m) (3 + m + d), OOffset = offset, ODataOffset = offset + (3 + m)\<rparr>"
    by (auto simp: ParseObjectHeader_def Let_def split: sum.splits prod.splits dest: objectDataLen_bound)
  note r = parseRange_sound [OF p q(3)]
  have le: "n \<le> length buf" using n d r len by auto
  have "AppendObjectHeader [] h = [buf ! 0, buf ! 1, ?q] @ take m (drop 3 buf) @ subslice buf (3 + m) (3 + m + d)"
    using r by (simp add: h AppendObjectHeader_def appendRange_append [of "[_, _, _]"])
  also have "\<dots> = take n buf" using slices_3 [OF len] n by simp
  finally show ?thesis
    using le r n q d by (simp add: wf_object_def O_Size_def h)
qed

section \<open>The size of object data\<close>

lemma generatedSizes_range: "list_all (\<lambda>(k, b). 0 \<le> b \<and> b \<le> 120) generatedSizes"
  by (simp add: generatedSizes_def)

lemma SizeBits_range:
  assumes "SizeBits g v = Some b"
  shows "0 \<le> b \<and> b \<le> 2040"
proof (cases "g \<in> set lengthIsVariationGroups")
  case True
  then have "b = uint v * 8" using assms by (simp add: SizeBits_def)
  moreover have "0 \<le> uint v" "uint v < 2 ^ LENGTH(8)" by (rule unsigned_greater_eq, rule unsigned_less)
  ultimately show ?thesis by simp
next
  case False
  then have "map_of generatedSizes (gv g v) = Some b" using assms by (auto simp: SizeBits_def split: option.splits if_splits)
  then have "(gv g v, b) \<in> set generatedSizes" by (rule map_of_SomeD)
  then show ?thesis using generatedSizes_range by (auto simp: list_all_iff)
qed

lemma unat_of_nat_64: "k < 2 ^ 64 \<Longrightarrow> unat (of_nat k :: u64) = k"
  by (simp add: unsigned_of_nat take_bit_nat_eq_self_iff)

lemma unat_product_64:
  fixes count :: u32
  assumes "k < 2 ^ 16"
  shows "unat (ucast count * of_nat k :: u64) = unat count * k"
proof -
  have "unat count * k < 2 ^ 32 * 2 ^ 16" using assms by (intro mult_strict_mono) simp_all
  then show ?thesis using assms by (subst unat_mult_lem [THEN iffD1]) (simp_all add: unat_of_nat_64)
qed

lemma of_nat_div_8: "m \<le> 2040 \<Longrightarrow> (of_nat m div 8 :: u64) = of_nat (m div 8)"
  by (simp add: word_unat_eq_iff unat_div unat_of_nat_64)

lemma octets_64:
  assumes "0 \<le> b" "b \<le> 2040"
  shows "(of_nat p + of_int b div 8 :: u64) = of_nat (p + nat b div 8)"
proof -
  obtain m where "b = int m" using assms(1) nonneg_int_cases by blast
  with assms(2) show ?thesis by (simp add: of_nat_div_8)
qed

lemma objectDataLen_exact_aux:
  assumes "SizeBits (OGroup h) (OVariation h) = Some bits" "0 < bits"
    and "\<not> IsSize (Q_IndexPrefix (OQualifier h))" "OVariation h \<noteq> 0" "OGroup h \<noteq> 0" "\<not> (OGroup h = 91 \<and> OVariation h = 1)"
    and "RSpec (ORange h) \<noteq> RangeAllObjects" "RCount (ORange h) \<noteq> 0"
    and "if bits < 8 then Prefix_Octets (Q_IndexPrefix (OQualifier h)) = 0 else bits mod 8 = 0"
  shows "objectDataLen SizeBits h buf True =
    (let count = unat (RCount (ORange h));
         n = (if bits < 8 then (count * nat bits + 7) div 8
              else count * (Prefix_Octets (Q_IndexPrefix (OQualifier h)) + nat bits div 8))
     in if length buf < n then Inl ErrTruncated else Inr n)"
proof -
  let ?c = "RCount (ORange h)" and ?p = "Prefix_Octets (Q_IndexPrefix (OQualifier h))"
  have b: "0 \<le> bits" "bits \<le> 2040" using SizeBits_range [OF assms(1)] by simp_all
  have p: "?p \<le> 4" by (simp add: Prefix_Octets_def)
  have "unat (ucast ?c * (of_nat ?p + of_int bits div 8) :: u64) = unat ?c * (?p + nat bits div 8)"
    unfolding octets_64 [OF b] using b p by (intro unat_product_64) simp
  moreover have "unat ((ucast ?c * of_int bits + 7 :: u64) div 8) = (unat ?c * nat bits + 7) div 8"
  proof -
    have "unat (ucast ?c * of_int bits :: u64) = unat ?c * nat bits"
      using unat_product_64 [of "nat bits" ?c] b by simp
    moreover have "unat ?c * nat bits < 2 ^ 32 * 2 ^ 16" using b by (intro mult_strict_mono) simp_all
    ultimately have "unat (ucast ?c * of_int bits + 7 :: u64) = unat ?c * nat bits + 7"
      by (subst unat_add_lem [THEN iffD1]) simp_all
    then show ?thesis by (simp add: unat_div)
  qed
  ultimately show ?thesis
    using assms by (auto simp: objectDataLen_def checkFits_def Let_def)
qed

text \<open>
  The 64-bit arithmetic of the walk is exact: with the specification's size table, the data
  of a header whose objects take a whole number of octets is exactly count times the prefix
  and object octets, and packed data is the bit count rounded up to octets; the data is
  refused as truncated exactly when the buffer is shorter. No count, however large, wraps
  into a length that fits.
\<close>

theorem objectDataLen_exact:
  assumes "SizeBits (OGroup h) (OVariation h) = Some bits" "0 < bits"
    and "\<not> IsSize (Q_IndexPrefix (OQualifier h))" "OVariation h \<noteq> 0" "OGroup h \<noteq> 0" "\<not> (OGroup h = 91 \<and> OVariation h = 1)"
    and "RSpec (ORange h) \<noteq> RangeAllObjects" "RCount (ORange h) \<noteq> 0"
    and "if bits < 8 then Prefix_Octets (Q_IndexPrefix (OQualifier h)) = 0 else bits mod 8 = 0"
  shows "objectDataLen SizeBits h buf True =
    (let count = unat (RCount (ORange h));
         n = (if bits < 8 then (count * nat bits + 7) div 8
              else count * (Prefix_Octets (Q_IndexPrefix (OQualifier h)) + nat bits div 8))
     in if length buf < n then Inl ErrTruncated else Inr n)"
  using assms by (rule objectDataLen_exact_aux)

text \<open>A response header for three 32-bit analog inputs with flags: fifteen octets of data.\<close>

definition analog_header :: object_header where
  "analog_header = \<lparr>OGroup = 30, OVariation = 1, OQualifier = 0x00,
     ORange = \<lparr>RSpec = RangeStartStop8, RStart = 4, RStop = 6, RCount = 3\<rparr>,
     OData = replicate 15 0, OOffset = 0, ODataOffset = 5\<rparr>"

lemma SizeBits_30_1: "SizeBits 30 1 = Some 40"
  by (simp add: SizeBits_def lengthIsVariationGroups_def generatedSizes_def gv_def)

theorem objectDataLen_exact_witness:
  "objectDataLen SizeBits analog_header (replicate 20 0) True = Inr 15 \<and>
   objectDataLen SizeBits analog_header (replicate 14 0) True = Inl ErrTruncated"
proof -
  have "\<not> IsSize (Q_IndexPrefix 0)" "Prefix_Octets (Q_IndexPrefix 0) = 0"
    by (simp_all add: IsSize_def Q_IndexPrefix_def Prefix_Octets_def)
  then show ?thesis
    using objectDataLen_exact [of analog_header 40 "replicate 20 0"]
      objectDataLen_exact [of analog_header 40 "replicate 14 0"]
    by (simp add: analog_header_def SizeBits_30_1)
qed

section \<open>Parsing what was encoded\<close>

text \<open>More octets after the data do not change how far the walk goes.\<close>

lemma walkAttributes_append:
  "walkAttributes k buf off = Inr n \<Longrightarrow> walkAttributes k (buf @ rest) off = Inr n"
  by (induction k buf off rule: walkAttributes.induct) (auto simp: Let_def nth_append split: if_splits)

lemma readUintLE_append:
  "width \<le> length xs \<Longrightarrow> readUintLE (xs @ rest) width = readUintLE xs width"
  by (auto simp: readUintLE_def get16_def get32_def nth_append)

lemma walkSizePrefixed_append:
  "walkSizePrefixed width k buf off = Inr n \<Longrightarrow> walkSizePrefixed width k (buf @ rest) off = Inr n"
  by (induction width k buf off rule: walkSizePrefixed.induct)
    (auto simp: Let_def readUintLE_append split: if_splits)

lemma walkStrings_append: "walkStrings k buf off = Inr n \<Longrightarrow> walkStrings k (buf @ rest) off = Inr n"
  by (induction k buf off rule: walkStrings.induct) (auto simp: nth_append split: if_splits)

lemma walkActivation_append: "walkActivation k buf off = Inr n \<Longrightarrow> walkActivation k (buf @ rest) off = Inr n"
  by (induction k arbitrary: off) (auto simp: nth_append walkStrings_append split: if_splits sum.splits)

lemma checkFits_append: "checkFits t buf = Inr n \<Longrightarrow> checkFits t (buf @ rest) = Inr n"
  by (auto simp: checkFits_def split: if_splits)

lemmas walk_append = walkAttributes_append walkSizePrefixed_append walkActivation_append checkFits_append

lemma objectDataLen_append:
  assumes "objectDataLen sizer h buf c = Inr n"
  shows "objectDataLen sizer h (buf @ rest) c = Inr n"
proof (cases "sizer (OGroup h) (OVariation h)")
  case None
  with assms show ?thesis
    unfolding objectDataLen_def Let_def by (simp only: option.case walk_append split: if_split_asm) simp_all
next
  case (Some bits)
  with assms show ?thesis
    unfolding objectDataLen_def Let_def by (simp only: option.case walk_append split: if_split_asm) simp_all
qed

lemma objectDataLen_cong:
  "objectDataLen sizer \<lparr>OGroup = OGroup h, OVariation = OVariation h, OQualifier = OQualifier h, ORange = ORange h,
     OData = d, OOffset = x, ODataOffset = y\<rparr> buf c = objectDataLen sizer h buf c"
  unfolding objectDataLen_def Let_def by (simp only: object_header.select_convs)

lemma past_header [simp]: "drop (3 + m) (a # b # c # xs) = drop m xs" "drop 3 (a # b # c # xs) = xs"
  by (simp_all add: numeral_3_eq_3)

lemma subslice_past_header: "subslice (a # b # c # xs) (3 + m) (3 + m + d) = take d (drop m xs)"
  by (simp only: subslice_plus past_header)

lemma ParseObjectHeader_Cons:
  "\<not> Reserved q \<Longrightarrow> Prefix_Valid (Q_IndexPrefix q) \<Longrightarrow> Range_Valid (Q_RangeSpec q) \<Longrightarrow>
   parseRange (Q_RangeSpec q) xs = Inr (rng, m) \<Longrightarrow>
   objectDataLen (case szr of None \<Rightarrow> SizeBits | Some z \<Rightarrow> z)
     \<lparr>OGroup = g, OVariation = v, OQualifier = q, ORange = rng, OData = [], OOffset = offset, ODataOffset = offset + (3 + m)\<rparr>
     (drop m xs) c = Inr d \<Longrightarrow>
   ParseObjectHeader szr (g # v # q # xs) offset c =
     Inr (\<lparr>OGroup = g, OVariation = v, OQualifier = q, ORange = rng, OData = take d (drop m xs),
        OOffset = offset, ODataOffset = offset + (3 + m)\<rparr>, 3 + m + d)"
  unfolding ParseObjectHeader_def Let_def by (simp add: subslice_past_header del: subslice_plus)

text \<open>
  A header a parser at \<open>offset\<close> can return: its fields are legal and its data is as long as its
  own description says.
\<close>

definition encodable :: "sizer option \<Rightarrow> nat \<Rightarrow> bool \<Rightarrow> object_header \<Rightarrow> bool" where
  "encodable szr offset c h \<longleftrightarrow> wf_object h \<and> OOffset h = offset \<and>
     ODataOffset h = offset + 3 + Range_Octets (RSpec (ORange h)) \<and>
     objectDataLen (case szr of None \<Rightarrow> SizeBits | Some z \<Rightarrow> z) h (OData h) c = Inr (length (OData h))"

lemma Parse_Append_object:
  assumes "encodable szr offset c h"
  shows "ParseObjectHeader szr (AppendObjectHeader [] h @ rest) offset c = Inr (h, length (AppendObjectHeader [] h))"
proof -
  let ?sizer = "case szr of None \<Rightarrow> SizeBits | Some z \<Rightarrow> z" and ?r = "ORange h"
  have q: "\<not> Reserved (OQualifier h)" "Prefix_Valid (Q_IndexPrefix (OQualifier h))"
    "Q_RangeSpec (OQualifier h) = RSpec ?r" "wf_range ?r" "ODataOffset h = offset + 3 + Range_Octets (RSpec ?r)"
    "OOffset h = offset"
    using assms by (simp_all add: encodable_def wf_object_def)
  have len: "objectDataLen ?sizer h (OData h @ rest) c = Inr (length (OData h))"
    using assms by (intro objectDataLen_append) (simp add: encodable_def)
  have buf: "AppendObjectHeader [] h @ rest =
      OGroup h # OVariation h # OQualifier h # appendRange [] ?r @ OData h @ rest"
    by (simp add: AppendObjectHeader_def appendRange_append [of "[_, _, _]"])
  have l: "length (appendRange [] ?r) = Range_Octets (RSpec ?r)" by (simp add: length_appendRange)
  have p: "Range_Valid (RSpec ?r)"
    "parseRange (Q_RangeSpec (OQualifier h)) (appendRange [] ?r @ OData h @ rest) = Inr (?r, Range_Octets (RSpec ?r))"
    using parseRange_appendRange [OF q(4), of "OData h @ rest"] q(3) by simp_all
  have "ParseObjectHeader szr (AppendObjectHeader [] h @ rest) offset c =
    Inr (\<lparr>OGroup = OGroup h, OVariation = OVariation h, OQualifier = OQualifier h, ORange = ?r, OData = OData h,
        OOffset = offset, ODataOffset = offset + (3 + Range_Octets (RSpec ?r))\<rparr>, 3 + Range_Octets (RSpec ?r) + length (OData h))"
    unfolding buf using q(1-3) p len l
    by (subst ParseObjectHeader_Cons [OF _ _ _ p(2), where d = "length (OData h)"]) (simp_all add: objectDataLen_cong)
  moreover have "\<lparr>OGroup = OGroup h, OVariation = OVariation h, OQualifier = OQualifier h, ORange = ?r, OData = OData h,
        OOffset = offset, ODataOffset = offset + (3 + Range_Octets (RSpec ?r))\<rparr> = h"
    using q(5,6) by (cases h) simp
  ultimately show ?thesis by (simp add: length_AppendObjectHeader)
qed

interpretation object_codec: prefix_codec "AppendObjectHeader []"
  "\<lambda>buf. ParseObjectHeader szr buf offset c" "encodable szr offset c" for szr offset c
proof
  show "AppendObjectHeader [] x \<noteq> []" if "encodable szr offset c x" for x
    by (simp add: AppendObjectHeader_def Let_def appendRange_append [of "[_, _, _]"])
qed (rule Parse_Append_object)

text \<open>
  C7. Parsing an object header loses nothing and stays in bounds: whatever the octets, the sizer
  and the kind of fragment, an accepted header and its data encode back to exactly the
  octets consumed, which are never more than the buffer holds and never none; the qualifier
  is one the standard defines and the recorded offsets point at those octets.
\<close>

theorem ParseObjectHeader_lossless:
  assumes "ParseObjectHeader szr buf offset c = Inr (h, n)"
  shows "0 < n \<and> n \<le> length buf \<and> n = O_Size h \<and> AppendObjectHeader [] h = take n buf \<and> wf_object h \<and>
    OOffset h = offset \<and> ODataOffset h + length (OData h) = offset + n"
  using ParseObjectHeader_sound [OF assms] by (simp add: O_Size_def)

lemma analog_encodable: "encodable None 0 True analog_header"
proof -
  have "\<not> IsSize (Q_IndexPrefix 0)" "Prefix_Octets (Q_IndexPrefix 0) = 0"
    by (simp_all add: IsSize_def Q_IndexPrefix_def Prefix_Octets_def)
  moreover have "wf_object analog_header"
    by (simp add: wf_object_def wf_range_def analog_header_def Reserved_def Q_IndexPrefix_def Q_RangeSpec_def Prefix_Valid_def
        Range_Valid_def IsStartStop_def start_stop_def)
  ultimately show ?thesis
    using objectDataLen_exact_aux [of analog_header 40 "replicate 15 0"]
    by (simp add: encodable_def analog_header_def SizeBits_30_1 Range_Octets_def)
qed

lemma parse_analog: "ParseObjectHeader None ([30, 1, 0, 4, 6] @ replicate 15 0 @ [60]) 0 True = Inr (analog_header, 20)"
proof -
  have "AppendObjectHeader [] analog_header = [30, 1, 0, 4, 6] @ replicate 15 0"
    by (simp add: AppendObjectHeader_def appendRange_def analog_header_def)
  with Parse_Append_object [OF analog_encodable, of "[60]"] show ?thesis by simp
qed

theorem ParseObjectHeader_lossless_witness:
  "ParseObjectHeader None ([30, 1, 0, 4, 6] @ replicate 15 0 @ [60]) 0 True = Inr (analog_header, 20) \<and>
   AppendObjectHeader [] analog_header = [30, 1, 0, 4, 6] @ replicate 15 0"
  using parse_analog ParseObjectHeader_lossless [OF parse_analog] by simp

end
