(* ===== verification/App_Fragment.thy ===== *)
theory App_Fragment
  imports App_Objects
begin

text \<open>
  Whole application fragments: parsing (\<^verbatim>\<open>internal/app/fragment.go\<close>), the size-limited builder,
  the request and response short forms, and free-format objects (\<^verbatim>\<open>freeformat.go\<close>). The lemmas
  show that a parsed fragment accounts for every octet, that what is built is parsed back,
  and that the builder never exceeds its limit.
\<close>

section \<open>Parsing\<close>

record fragment =
  FHeader :: app_header
  FObjects :: "object_header list"
  FRaw :: "byte list"

text \<open>Go's zero value of the header struct, which an unparsable fragment carries.\<close>

definition zero_header :: app_header where
  "zero_header = \<lparr>AControl = \<lparr>AFir = False, AFin = False, ACon = False, AUns = False, ASeq = 0\<rparr>, AFunc = 0, AIIN = 0\<rparr>"

text \<open>Whether the header at an offset carries data: freeze-at-time requests mix both kinds.\<close>

definition objectCarriesData :: "FuncCode \<Rightarrow> byte \<Rightarrow> bool" where
  "objectCarriesData fc first =
     (if fc = FuncFreezeAtTime \<or> fc = FuncFreezeAtTimeNR then first = 50 else CarriesObjectData fc)"

function parse_objects :: "sizer \<Rightarrow> FuncCode \<Rightarrow> byte list \<Rightarrow> nat \<Rightarrow> object_header list \<Rightarrow> object_header list \<times> app_error option" where
  "parse_objects szr fc buf off objs =
     (if \<not> off < length buf then (objs, None)
      else
        case ParseObjectHeader (Some szr) (drop off buf) off (objectCarriesData fc (buf ! off)) of
          Inl e \<Rightarrow> (objs, Some (AtOffset off e))
        | Inr (oh, used) \<Rightarrow>
            if used = 0 then (objs, Some (AtOffset off ErrTruncated))
            else parse_objects szr fc buf (off + used) (objs @ [oh]))"
  by auto
termination by (relation "measure (\<lambda>(szr, fc, buf, off, objs). length buf - off)") auto

declare parse_objects.simps [simp del]

definition ParseFragment :: "sizer option \<Rightarrow> byte list \<Rightarrow> fragment \<times> app_error option" where
  "ParseFragment szr buf =
     (let sizer = (case szr of None \<Rightarrow> SizeBits | Some z \<Rightarrow> z)
      in case AParseHeader buf of
           Inl e \<Rightarrow> (\<lparr>FHeader = zero_header, FObjects = [], FRaw = buf\<rparr>, Some e)
         | Inr (h, n) \<Rightarrow>
             (case parse_objects sizer (AFunc h) buf n [] of
                (objs, err) \<Rightarrow> (\<lparr>FHeader = h, FObjects = objs, FRaw = buf\<rparr>, err)))"

definition ParseRequest :: "sizer option \<Rightarrow> byte list \<Rightarrow> fragment \<times> app_error option" where
  "ParseRequest szr buf =
     (case ParseFragment szr buf of
        (f, Some e) \<Rightarrow> (f, Some e)
      | (f, None) \<Rightarrow>
          if AIsResponse (FHeader f) then (f, Some (ExpectedRequest (AFunc (FHeader f)))) else (f, None))"

definition ParseResponse :: "sizer option \<Rightarrow> byte list \<Rightarrow> fragment \<times> app_error option" where
  "ParseResponse szr buf =
     (case ParseFragment szr buf of
        (f, Some e) \<Rightarrow> (f, Some e)
      | (f, None) \<Rightarrow>
          if \<not> AIsResponse (FHeader f) then (f, Some (ExpectedResponse (AFunc (FHeader f)))) else (f, None))"

section \<open>Building\<close>

text \<open>\<open>int\<close> values of the source are integers here; a slice length is never negative.\<close>

record builder =
  BBuf :: "byte list"
  BMax :: int
  BHeaderWritten :: bool

definition NewBuilder :: "int \<Rightarrow> builder" where
  "NewBuilder mx = (let mx = (if mx \<le> 0 then int AppMaxFragment else mx)
     in \<lparr>BBuf = [], BMax = mx, BHeaderWritten = False\<rparr>)"

definition Builder_Reset :: "builder \<Rightarrow> builder" where
  "Builder_Reset b = b\<lparr>BBuf := [], BHeaderWritten := False\<rparr>"

definition Builder_Len :: "builder \<Rightarrow> int" where
  "Builder_Len b = int (length (BBuf b))"

definition Remaining :: "builder \<Rightarrow> int" where
  "Remaining b = BMax b - int (length (BBuf b))"

definition SetHeader :: "builder \<Rightarrow> app_header \<Rightarrow> builder \<times> app_error option" where
  "SetHeader b h =
     (if BHeaderWritten b then (b, Some HeaderAlreadyWritten)
      else if int (AHeader_Size h) > Remaining b then (b, Some ErrFragmentTooLarge)
      else (b\<lparr>BBuf := AppendHeader (BBuf b) h, BHeaderWritten := True\<rparr>, None))"

definition AddObject :: "builder \<Rightarrow> object_header \<Rightarrow> builder \<times> app_error option" where
  "AddObject b h =
     (if \<not> BHeaderWritten b then (b, Some HeaderNotWritten)
      else if int (O_Size h) > Remaining b then (b, Some ErrFragmentTooLarge)
      else (b\<lparr>BBuf := AppendObjectHeader (BBuf b) h\<rparr>, None))"

definition Fits :: "builder \<Rightarrow> object_header \<Rightarrow> bool" where
  "Fits b h \<longleftrightarrow> int (O_Size h) \<le> Remaining b"

definition BuildRequest :: "byte list \<Rightarrow> app_control \<Rightarrow> FuncCode \<Rightarrow> object_header list \<Rightarrow> byte list" where
  "BuildRequest dst c fc objects =
     foldl AppendObjectHeader (AppendHeader dst \<lparr>AControl = c, AFunc = fc, AIIN = 0\<rparr>) objects"

definition BuildResponse :: "byte list \<Rightarrow> app_control \<Rightarrow> FuncCode \<Rightarrow> IIN \<Rightarrow> object_header list \<Rightarrow> byte list" where
  "BuildResponse dst c fc iin objects =
     foldl AppendObjectHeader (AppendHeader dst \<lparr>AControl = c, AFunc = fc, AIIN = iin\<rparr>) objects"

definition ReadAllObjects :: "byte \<Rightarrow> byte \<Rightarrow> object_header" where
  "ReadAllObjects grp variation =
     \<lparr>OGroup = grp, OVariation = variation, OQualifier = MakeQualifier PrefixNone RangeAllObjects,
      ORange = \<lparr>RSpec = RangeAllObjects, RStart = 0, RStop = 0, RCount = 0\<rparr>, OData = [], OOffset = 0, ODataOffset = 0\<rparr>"

definition ReadRange :: "byte \<Rightarrow> byte \<Rightarrow> u32 \<Rightarrow> u32 \<Rightarrow> object_header" where
  "ReadRange grp variation start stop =
     (let spec = (if stop \<le> 0xFF then RangeStartStop8
                  else if stop \<le> 0xFFFF then RangeStartStop16
                  else RangeStartStop32)
      in \<lparr>OGroup = grp, OVariation = variation, OQualifier = MakeQualifier PrefixNone spec,
          ORange = \<lparr>RSpec = spec, RStart = start, RStop = stop, RCount = stop - start + 1\<rparr>,
          OData = [], OOffset = 0, ODataOffset = 0\<rparr>)"

section \<open>Free format\<close>

definition FreeFormatQualifier :: Qualifier where
  "FreeFormatQualifier = MakeQualifier PrefixSize2 RangeVariable"

abbreviation (input) MaxFreeFormatObject :: nat where "MaxFreeFormatObject \<equiv> 0xFFFF"

definition FreeFormat :: "byte \<Rightarrow> byte \<Rightarrow> byte list \<Rightarrow> app_error + object_header" where
  "FreeFormat grp variation object =
     (if length object > MaxFreeFormatObject then Inl (FreeFormatTooLong (length object))
      else
        let data = put16 (of_nat (length object)) @ object
        in Inr \<lparr>OGroup = grp, OVariation = variation, OQualifier = FreeFormatQualifier,
                ORange = \<lparr>RSpec = RangeVariable, RStart = 0, RStop = 0, RCount = 1\<rparr>,
                OData = data, OOffset = 0, ODataOffset = 0\<rparr>)"

text \<open>
  The loop over the objects of a header. The width is that of a size prefix, so at least one
  octet, and every round advances; the test for zero only makes the function total.
\<close>

function free_objects :: "nat \<Rightarrow> byte list \<Rightarrow> nat \<Rightarrow> byte list list \<Rightarrow> app_error + byte list list" where
  "free_objects width data off out =
     (if \<not> off < length data \<or> width = 0 then Inr out
      else if off + width > length data then Inl SizePrefixPastEnd
      else
        let size = unat (readUintLE (drop off data) width);
            off = off + width
        in if off + size > length data then Inl (ObjectPastEnd size)
           else free_objects width data (off + size) (out @ [subslice data off (off + size)]))"
  by auto
termination by (relation "measure (\<lambda>(width, data, off, out). length data - off)") auto

declare free_objects.simps [simp del]

definition FreeFormatObjects :: "object_header \<Rightarrow> app_error + byte list list" where
  "FreeFormatObjects h =
     (let prefix = Q_IndexPrefix (OQualifier h)
      in if \<not> IsSize prefix then Inl NotFreeFormat
         else free_objects (Prefix_Octets prefix) (OData h) 0 [])"

definition FirstFreeFormatObject :: "object_header \<Rightarrow> app_error + byte list" where
  "FirstFreeFormatObject h =
     (case FreeFormatObjects h of
        Inl e \<Rightarrow> Inl e
      | Inr objs \<Rightarrow> if objs = [] then Inl NoFreeFormatObject else Inr (objs ! 0))"

section \<open>Parsing accounts for every octet\<close>

text \<open>The octets of a list of objects, and where a parser finds them.\<close>

definition encode_objects :: "object_header list \<Rightarrow> byte list" where
  "encode_objects objs = concat (map (AppendObjectHeader []) objs)"

lemma encode_objects_simps [simp]:
  "encode_objects [] = []" "encode_objects (x # xs) = AppendObjectHeader [] x @ encode_objects xs"
  "encode_objects (xs @ ys) = encode_objects xs @ encode_objects ys"
  by (simp_all add: encode_objects_def)

lemma AppendObjectHeader_dst: "AppendObjectHeader dst h = dst @ AppendObjectHeader [] h"
  by (simp add: AppendObjectHeader_def Let_def appendRange_append [of "_ # _"] appendRange_append [of "_ @ _"])

lemma foldl_AppendObjectHeader: "foldl AppendObjectHeader dst objs = dst @ encode_objects objs"
proof (induction objs arbitrary: dst)
  case (Cons h objs)
  show ?case using Cons.IH [of "AppendObjectHeader dst h"] AppendObjectHeader_dst [of dst h] by simp
qed simp

lemma parse_objects_sound:
  assumes "parse_objects szr fc buf off objs = (objs', err)" "off \<le> length buf"
    and "front @ encode_objects objs = take off buf" "list_all wf_object objs"
  shows "list_all wf_object objs' \<and>
    (case err of None \<Rightarrow> front @ encode_objects objs' = buf
     | Some e \<Rightarrow> \<exists>at e'. e = AtOffset at e' \<and> at < length buf \<and> front @ encode_objects objs' = take at buf)"
  using assms
proof (induction szr fc buf off objs arbitrary: objs' err rule: parse_objects.induct)
  case (1 szr fc buf off objs)
  note step = parse_objects.simps [of szr fc buf off objs]
  show ?case
  proof (cases "off < length buf")
    case False
    with 1 step show ?thesis by auto
  next
    case True
    let ?p = "ParseObjectHeader (Some szr) (drop off buf) off (objectCarriesData fc (buf ! off))"
    show ?thesis
    proof (cases ?p)
      case (Inl e)
      with 1(2-) step True show ?thesis by auto
    next
      case (Inr r)
      obtain oh used where r: "?p = Inr (oh, used)" using Inr by (cases r) auto
      note s = ParseObjectHeader_sound [OF r]
      have "0 < used" using s by (simp add: O_Size_def)
      moreover from this have "parse_objects szr fc buf (off + used) (objs @ [oh]) = (objs', err)"
        using 1(2) step True r by simp
      moreover have "front @ encode_objects (objs @ [oh]) = take (off + used) buf"
        using 1(4) s by (simp add: take_add flip: append_assoc)
      ultimately show ?thesis using True s 1(3,5) by (intro 1(1) [OF _ r refl]) auto
    qed
  qed
qed

text \<open>
  C15. A parsed fragment accounts for every octet of its buffer. Without an error, the header and
  the objects encode back to exactly the buffer; with one, either the buffer is too short
  for a header, or the error names an offset inside the buffer and the objects returned
  with it, all well-formed, are exactly the octets before that offset.
\<close>

theorem ParseFragment_lossless:
  "case ParseFragment szr buf of
     (f, err) \<Rightarrow> FRaw f = buf \<and> list_all wf_object (FObjects f) \<and>
       (case err of
          None \<Rightarrow> AppendHeader [] (FHeader f) @ encode_objects (FObjects f) = buf
        | Some e \<Rightarrow>
            e = ErrShortFragment \<and> length buf < ResponseHeaderSize \<and> FObjects f = [] \<or>
            (\<exists>at e'. e = AtOffset at e' \<and> at < length buf \<and>
               AppendHeader [] (FHeader f) @ encode_objects (FObjects f) = take at buf))"
proof (cases "AParseHeader buf")
  case (Inl e)
  then have "e = ErrShortFragment \<and> length buf < ResponseHeaderSize"
    by (auto simp: AParseHeader_def Let_def split: if_splits)
  with Inl show ?thesis by (simp add: ParseFragment_def)
next
  case (Inr r)
  obtain h n where hn: "AParseHeader buf = Inr (h, n)" using Inr by (cases r) auto
  let ?z = "case szr of None \<Rightarrow> SizeBits | Some z \<Rightarrow> z"
  obtain objs err where p: "parse_objects ?z (AFunc h) buf n [] = (objs, err)" by fastforce
  have "ParseFragment szr buf = (\<lparr>FHeader = h, FObjects = objs, FRaw = buf\<rparr>, err)"
    using hn p by (simp add: ParseFragment_def Let_def)
  with parse_objects_sound [OF p AParse_sound(3) [OF hn], of "AppendHeader [] h"] AParse_sound(4) [OF hn]
  show ?thesis by (auto split: option.splits)
qed

section \<open>Parsing what was built\<close>

text \<open>
  A parser fills in the offsets a builder leaves at zero; an object can be sent under a
  function code when its fields are legal and its data is as long as its description says.
\<close>

fun place :: "nat \<Rightarrow> object_header list \<Rightarrow> object_header list" where
  "place off [] = []"
| "place off (h # hs) =
     h\<lparr>OOffset := off, ODataOffset := off + 3 + Range_Octets (RSpec (ORange h))\<rparr> # place (off + O_Size h) hs"

definition sendable :: "sizer \<Rightarrow> FuncCode \<Rightarrow> object_header \<Rightarrow> bool" where
  "sendable szr fc h \<longleftrightarrow> wf_object h \<and>
     objectDataLen szr h (OData h) (objectCarriesData fc (OGroup h)) = Inr (length (OData h))"

lemma objectDataLen_offsets: "objectDataLen szr (h\<lparr>OOffset := x, ODataOffset := y\<rparr>) buf c = objectDataLen szr h buf c"
  using objectDataLen_cong [of szr h "OData h" x y buf c] by (cases h) simp

lemma AppendObjectHeader_offsets: "AppendObjectHeader dst (h\<lparr>OOffset := x, ODataOffset := y\<rparr>) = AppendObjectHeader dst h"
  by (simp add: AppendObjectHeader_def)

lemma sendable_encodable:
  "sendable szr fc h \<Longrightarrow> encodable (Some szr) off (objectCarriesData fc (OGroup h))
     (h\<lparr>OOffset := off, ODataOffset := off + 3 + Range_Octets (RSpec (ORange h))\<rparr>)"
  by (simp add: sendable_def encodable_def objectDataLen_offsets wf_object_def)

lemma AppendObjectHeader_first: "AppendObjectHeader [] h \<noteq> []" "(AppendObjectHeader [] h @ rest) ! 0 = OGroup h"
  by (simp_all add: AppendObjectHeader_def appendRange_append [of "[_, _, _]"])

lemma parse_objects_encode:
  "list_all (sendable szr fc) hs \<Longrightarrow>
   parse_objects szr fc (pre @ encode_objects hs) (length pre) objs = (objs @ place (length pre) hs, None)"
proof (induction hs arbitrary: pre objs)
  case Nil
  then show ?case by (simp add: parse_objects.simps)
next
  case (Cons h hs)
  let ?e = "AppendObjectHeader [] h" and ?off = "length pre"
  let ?h = "h\<lparr>OOffset := ?off, ODataOffset := ?off + 3 + Range_Octets (RSpec (ORange h))\<rparr>"
  have s: "sendable szr fc h" "list_all (sendable szr fc) hs" using Cons.prems by simp_all
  have len: "length ?e = O_Size h" using s(1) wf_object_size by (simp add: sendable_def)
  have p: "ParseObjectHeader (Some szr) (?e @ encode_objects hs) ?off (objectCarriesData fc (OGroup h)) = Inr (?h, O_Size h)"
    using Parse_Append_object [OF sendable_encodable [OF s(1), of ?off], of "encode_objects hs"]
    by (simp add: AppendObjectHeader_offsets len)
  have at: "(pre @ ?e @ encode_objects hs) ! ?off = OGroup h"
    using AppendObjectHeader_first(2) by (simp add: nth_append)
  have "parse_objects szr fc (pre @ ?e @ encode_objects hs) ?off objs =
     parse_objects szr fc (pre @ ?e @ encode_objects hs) (?off + O_Size h) (objs @ [?h])"
    using parse_objects.simps [of szr fc "pre @ ?e @ encode_objects hs" ?off objs] at p AppendObjectHeader_first(1) [of h]
    by (simp add: O_Size_def)
  also have "\<dots> = (objs @ [?h] @ place (?off + O_Size h) hs, None)"
    using Cons.IH [OF s(2), of "pre @ ?e" "objs @ [?h]"] by (simp add: len)
  finally show ?case by simp
qed

lemma ParseFragment_encode:
  assumes "wf_app_header h" "list_all (sendable (case szr of None \<Rightarrow> SizeBits | Some z \<Rightarrow> z) (AFunc h)) objs"
  shows "ParseFragment szr (AppendHeader [] h @ encode_objects objs) =
    (\<lparr>FHeader = h, FObjects = place (AHeader_Size h) objs, FRaw = AppendHeader [] h @ encode_objects objs\<rparr>, None)"
  using AParse_Append [OF assms(1), of "encode_objects objs"] parse_objects_encode [OF assms(2), of "AppendHeader [] h" "[]"]
  by (simp add: ParseFragment_def)

section \<open>Requests that name objects\<close>

text \<open>The object headers a master puts in a request that names objects without carrying their data.\<close>

datatype read_spec = Every byte byte | Span byte byte u32 u32

fun read_header :: "read_spec \<Rightarrow> object_header" where
  "read_header (Every g v) = ReadAllObjects g v"
| "read_header (Span g v start stop) = ReadRange g v start stop"

fun read_ok :: "read_spec \<Rightarrow> bool" where
  "read_ok (Every g v) = True"
| "read_ok (Span g v start stop) = (start \<le> stop \<and> unat stop - unat start + 1 < 2 ^ 32)"

lemma qualifier_PrefixNone [simp]:
  "Q_IndexPrefix (MakeQualifier 0 r) = 0" "Q_RangeSpec (MakeQualifier 0 r) = r AND 0x0F" "\<not> Reserved (MakeQualifier 0 r)"
  by (rule bit_word_eqI | auto simp: Q_IndexPrefix_def Q_RangeSpec_def MakeQualifier_def Reserved_def bit_simps
      byte_mask_bit and.assoc)+

lemma unnamed_prefix [simp]: "Prefix_Valid 0" "\<not> IsSize 0" "\<not> IsIndex 0"
  by (simp_all add: Prefix_Valid_def IsSize_def IsIndex_def)

lemma ReadRange_wf:
  assumes "start \<le> stop" "unat stop - unat start + 1 < 2 ^ 32"
  shows "wf_object (ReadRange g v start stop)"
proof -
  have "unat start \<le> unat stop" using assms(1) by (simp add: word_le_nat_alt)
  then have c: "unat (stop - start + 1) = unat stop - unat start + 1"
    using assms by (subst unat_add_lem [THEN iffD1]) (simp_all add: unat_sub)
  have "start_stop 8 \<lparr>RSpec = 0, RStart = start, RStop = stop, RCount = stop - start + 1\<rparr>" if "stop \<le> 0xFF"
    using that assms(1) c by (simp add: start_stop_def word_le_nat_alt)
  moreover have "start_stop 16 \<lparr>RSpec = 1, RStart = start, RStop = stop, RCount = stop - start + 1\<rparr>" if "stop \<le> 0xFFFF"
    using that assms(1) c by (simp add: start_stop_def word_le_nat_alt)
  moreover have "start_stop 32 \<lparr>RSpec = 2, RStart = start, RStop = stop, RCount = stop - start + 1\<rparr>"
    using assms(1) c by (simp add: start_stop_def)
  ultimately show ?thesis by (simp add: wf_object_def wf_range_def ReadRange_def Let_def)
qed

lemma read_header_sendable:
  assumes "read_ok r" "\<not> CarriesObjectData fc"
  shows "sendable szr fc (read_header r)"
proof -
  have fc: "\<not> objectCarriesData fc x" for x
    using assms(2) by (auto simp: objectCarriesData_def CarriesObjectData_def)
  show ?thesis
  proof (cases r)
    case (Every g v)
    then show ?thesis
      using fc by (simp add: sendable_def wf_object_def wf_range_def ReadAllObjects_def objectDataLen_def Let_def)
  next
    case (Span g v start stop)
    then have "wf_object (read_header r)" using assms(1) ReadRange_wf by simp
    moreover have "OData (read_header r) = []" "Q_IndexPrefix (OQualifier (read_header r)) = 0"
      using Span by (simp_all add: ReadRange_def Let_def)
    ultimately show ?thesis using fc by (simp add: sendable_def objectDataLen_def Let_def)
  qed
qed

lemma not_CarriesObjectData_request: "\<not> CarriesObjectData fc \<Longrightarrow> \<not> FuncIsResponse fc"
  by (auto simp: CarriesObjectData_def FuncIsResponse_def)

text \<open>
  Requests that only name objects (reads, freezes, class assignments, restarts and the
  others whose function code carries no data) survive the wire: built from all-objects headers
  and index ranges of up to 2^32 - 1 points, in whatever number and order and whatever the
  widths chosen for them, they are parsed back to the same header and object headers, each
  at its offset.
\<close>

theorem read_request_roundtrip:
  assumes "ASeq c AND 0x0F = ASeq c" "\<not> CarriesObjectData fc" "list_all read_ok reads"
  shows "ParseRequest szr (BuildRequest [] c fc (map read_header reads)) =
    (\<lparr>FHeader = \<lparr>AControl = c, AFunc = fc, AIIN = 0\<rparr>, FObjects = place 2 (map read_header reads),
      FRaw = BuildRequest [] c fc (map read_header reads)\<rparr>, None)"
proof -
  let ?h = "\<lparr>AControl = c, AFunc = fc, AIIN = 0\<rparr>"
  have nr: "\<not> AIsResponse ?h" using not_CarriesObjectData_request [OF assms(2)] by (simp add: AIsResponse_def)
  have "wf_app_header ?h" using assms(1) by (simp add: wf_app_header_def)
  moreover have "list_all (sendable (case szr of None \<Rightarrow> SizeBits | Some z \<Rightarrow> z) (AFunc ?h)) (map read_header reads)"
    using assms(2,3) read_header_sendable by (auto simp: list_all_iff)
  ultimately show ?thesis
    using ParseFragment_encode [of ?h szr "map read_header reads"] nr
    by (simp add: ParseRequest_def BuildRequest_def foldl_AppendObjectHeader AHeader_Size_def)
qed

theorem read_request_roundtrip_witness:
  "ParseRequest None (BuildRequest [] \<lparr>AFir = True, AFin = True, ACon = False, AUns = False, ASeq = 5\<rparr> 1
       [ReadAllObjects 60 2, ReadRange 30 0 3 300]) =
    (\<lparr>FHeader = \<lparr>AControl = \<lparr>AFir = True, AFin = True, ACon = False, AUns = False, ASeq = 5\<rparr>, AFunc = 1, AIIN = 0\<rparr>,
      FObjects = place 2 [ReadAllObjects 60 2, ReadRange 30 0 3 300],
      FRaw = BuildRequest [] \<lparr>AFir = True, AFin = True, ACon = False, AUns = False, ASeq = 5\<rparr> 1
       [ReadAllObjects 60 2, ReadRange 30 0 3 300]\<rparr>, None)"
  using read_request_roundtrip [of "\<lparr>AFir = True, AFin = True, ACon = False, AUns = False, ASeq = 5\<rparr>" 1
      "[Every 60 2, Span 30 0 3 300]" None]
  by (simp add: CarriesObjectData_def)

section \<open>The builder\<close>

text \<open>
  What a builder promises: the content is a header and a list of objects, every addition is
  taken whole or refused without effect, and the octets never exceed the limit.
\<close>

datatype builder_op = BReset | BHeader app_header | BObject object_header

fun builder_step :: "builder_op \<Rightarrow> builder \<Rightarrow> builder \<times> app_error option" where
  "builder_step BReset b = (Builder_Reset b, None)"
| "builder_step (BHeader h) b = SetHeader b h"
| "builder_step (BObject h) b = AddObject b h"

type_synonym content = "(app_header \<times> object_header list) option"

fun octets :: "content \<Rightarrow> byte list" where
  "octets None = []"
| "octets (Some (h, objs)) = AppendHeader [] h @ encode_objects objs"

fun content_step :: "int \<Rightarrow> builder_op \<Rightarrow> content \<Rightarrow> content \<times> app_error option" where
  "content_step mx BReset c = (None, None)"
| "content_step mx (BHeader h) None =
     (if int (length (octets (Some (h, [])))) \<le> mx then (Some (h, []), None) else (None, Some ErrFragmentTooLarge))"
| "content_step mx (BHeader h) (Some c) = (Some c, Some HeaderAlreadyWritten)"
| "content_step mx (BObject x) None = (None, Some HeaderNotWritten)"
| "content_step mx (BObject x) (Some (h, objs)) =
     (if int (length (octets (Some (h, objs @ [x])))) \<le> mx then (Some (h, objs @ [x]), None)
      else (Some (h, objs), Some ErrFragmentTooLarge))"

definition built :: "int \<Rightarrow> content \<Rightarrow> builder" where
  "built mx c = \<lparr>BBuf = octets c, BMax = mx, BHeaderWritten = (c \<noteq> None)\<rparr>"

fun op_ok :: "builder_op \<Rightarrow> bool" where
  "op_ok (BObject h) = (RSpec (ORange h) = Q_RangeSpec (OQualifier h))"
| "op_ok _ = True"

lemma length_AppendObjectHeader_O_Size:
  "RSpec (ORange h) = Q_RangeSpec (OQualifier h) \<Longrightarrow> length (AppendObjectHeader [] h) = O_Size h"
  by (simp add: length_AppendObjectHeader O_Size_def)

lemma builder_step_refines:
  assumes "op_ok op"
  shows "builder_step op (built mx c) = (built mx (fst (content_step mx op c)), snd (content_step mx op c))"
  using assms
proof (induction mx op c rule: content_step.induct)
  case (5 mx x h objs)
  then show ?case
    by (simp add: built_def AddObject_def Remaining_def length_AppendObjectHeader_O_Size AppendObjectHeader_dst [of "_ @ _"])
qed (simp_all add: built_def Builder_Reset_def SetHeader_def AddObject_def Remaining_def)

lemma content_step_bounded:
  "int (length (octets c)) \<le> mx \<Longrightarrow> int (length (octets (fst (content_step mx op c)))) \<le> mx"
  by (induction mx op c rule: content_step.induct) auto

lemma content_run:
  "list_all op_ok ops \<Longrightarrow> int (length (octets c)) \<le> mx \<Longrightarrow>
   case run_ops (content_step mx) ops c of (c', errs) \<Rightarrow>
     run_ops builder_step ops (built mx c) = (built mx c', errs) \<and> int (length (octets c')) \<le> mx"
proof (induction ops arbitrary: c)
  case (Cons op ops)
  from Cons.IH [OF _ content_step_bounded [OF Cons.prems(2), of op]] Cons.prems(1) show ?case
    by (auto simp: builder_step_refines split: prod.splits)
qed simp

text \<open>
  C27. The fragment builder refines its contract: from a new builder, any sequence of resets,
  headers and objects leaves in the buffer exactly the encoding of the header and objects it
  accepted since the last reset, reports the same errors as the contract, and never holds
  more octets than its limit; a refused object leaves the content as it was. The one thing
  asked of the caller is that the range of an object is of the form its qualifier names: the
  builder measures an object by its qualifier and writes it by its range.
\<close>

theorem builder_refines_content:
  assumes "list_all op_ok ops"
  shows "case run_ops (content_step (BMax (NewBuilder mx))) ops None of (c, errs) \<Rightarrow>
    run_ops builder_step ops (NewBuilder mx) = (built (BMax (NewBuilder mx)) c, errs) \<and>
    int (length (octets c)) \<le> BMax (NewBuilder mx)"
proof -
  have "NewBuilder mx = built (BMax (NewBuilder mx)) None" "0 \<le> BMax (NewBuilder mx)"
    by (simp_all add: NewBuilder_def built_def Let_def)
  with content_run [OF assms, of None "BMax (NewBuilder mx)"] show ?thesis by simp
qed

theorem builder_refines_content_witness:
  "run_ops builder_step [BHeader zero_header, BObject analog_header, BObject analog_header] (NewBuilder 30) =
    (built 30 (Some (zero_header, [analog_header])), [None, None, Some ErrFragmentTooLarge])"
proof -
  have l: "length (AppendObjectHeader [] analog_header) = 20"
    by (simp add: AppendObjectHeader_def appendRange_def analog_header_def)
  have h: "AHeader_Size zero_header = 2" by (simp add: AHeader_Size_def AIsResponse_def FuncIsResponse_def zero_header_def)
  have "op_ok (BObject analog_header)" by (simp add: analog_header_def Q_RangeSpec_def)
  with builder_refines_content [of "[BHeader zero_header, BObject analog_header, BObject analog_header]" 30] l h
  show ?thesis by (simp add: NewBuilder_def)
qed

section \<open>Free-format objects\<close>

text \<open>
  The reader of free-format objects and the size walk of the header parser agree: where the
  walk over \<open>k\<close> objects ended exactly at the end of the data, the reader finds \<open>k\<close> objects.
\<close>

lemma free_objects_walk:
  assumes "walkSizePrefixed width k data off = Inr (length data)" "0 < width" "off \<le> length data"
  shows "\<exists>objs. free_objects width data off out = Inr (out @ objs) \<and> length objs = k"
  using assms
proof (induction width k data off arbitrary: out rule: walkSizePrefixed.induct)
  case (1 width data off)
  then show ?case by (simp add: free_objects.simps)
next
  case (2 width k data off)
  let ?size = "unat (readUintLE (drop off data) width)"
  have fits: "off + width \<le> length data" "off + width + ?size \<le> length data"
    and walk: "walkSizePrefixed width k data (off + width + ?size) = Inr (length data)"
    using 2(2) by (auto simp: Let_def split: if_splits)
  have less: "off < length data" using fits 2(3) by simp
  let ?o = "subslice data (off + width) (off + width + ?size)"
  have step: "free_objects width data off out = free_objects width data (off + width + ?size) (out @ [?o])"
    using free_objects.simps [of width data off out] fits less 2(3) by (simp add: Let_def)
  have "\<exists>objs. free_objects width data (off + width + ?size) (out @ [?o]) = Inr ((out @ [?o]) @ objs) \<and> length objs = k"
    by (rule 2(1) [OF _ refl refl _ walk 2(3)]) (use fits in auto)
  then obtain objs where "free_objects width data (off + width + ?size) (out @ [?o]) = Inr ((out @ [?o]) @ objs)" "length objs = k"
    by blast
  with step show ?case by (intro exI [of _ "?o # objs"]) simp
qed

lemma readUintLE_take: "off + width \<le> n \<Longrightarrow> n \<le> length buf \<Longrightarrow>
    readUintLE (drop off (take n buf)) width = readUintLE (drop off buf) width"
  using readUintLE_append [of width "drop off (take n buf)" "drop n buf"] drop_append [of off "take n buf" "drop n buf"]
  by simp

lemma walkSizePrefixed_take:
  assumes "walkSizePrefixed width k buf off = Inr n" "n \<le> length buf"
  shows "walkSizePrefixed width k (take n buf) off = Inr n"
  using assms
proof (induction width k buf off rule: walkSizePrefixed.induct)
  case (2 width k buf off)
  let ?size = "unat (readUintLE (drop off buf) width)"
  have fits: "off + width \<le> length buf" "off + width + ?size \<le> length buf"
    and walk: "walkSizePrefixed width k buf (off + width + ?size) = Inr n"
    using 2(2) by (auto simp: Let_def split: if_splits)
  have le: "off + width + ?size \<le> n" using walkSizePrefixed_bound [OF walk] fits by simp
  have "walkSizePrefixed width k (take n buf) (off + width + ?size) = Inr n"
    by (rule 2(1) [OF _ refl refl _ walk 2(3)]) (use fits in auto)
  moreover have "readUintLE (drop off (take n buf)) width = readUintLE (drop off buf) width"
    using le 2(3) by (intro readUintLE_take) auto
  ultimately show ?case using le 2(3) by (simp add: Let_def)
qed simp

lemma sized_prefix_octets: "IsSize p \<Longrightarrow> 0 < Prefix_Octets p"
  by (auto simp: IsSize_def Prefix_Octets_def)

lemma ParseObjectHeader_data:
  assumes "ParseObjectHeader szr buf offset c = Inr (h, n)"
  shows "\<exists>m. objectDataLen (case szr of None \<Rightarrow> SizeBits | Some z \<Rightarrow> z) h (drop m buf) c = Inr (length (OData h)) \<and>
    OData h = take (length (OData h)) (drop m buf)"
proof -
  let ?z = "case szr of None \<Rightarrow> SizeBits | Some z \<Rightarrow> z"
  from assms obtain rng m d where
    d: "objectDataLen ?z \<lparr>OGroup = buf ! 0, OVariation = buf ! 1, OQualifier = buf ! 2, ORange = rng, OData = [],
         OOffset = offset, ODataOffset = offset + (3 + m)\<rparr> (drop (3 + m) buf) c = Inr d"
    and h: "h = \<lparr>OGroup = buf ! 0, OVariation = buf ! 1, OQualifier = buf ! 2, ORange = rng,
         OData = subslice buf (3 + m) (3 + m + d), OOffset = offset, ODataOffset = offset + (3 + m)\<rparr>"
    by (auto simp: ParseObjectHeader_def Let_def split: if_splits sum.splits prod.splits)
  have "d \<le> length (drop (3 + m) buf)" by (rule objectDataLen_bound [OF d])
  then have "OData h = take d (drop (3 + m) buf)" "length (OData h) = d" using h by (simp_all add: subslice_plus)
  moreover have "objectDataLen ?z h (drop (3 + m) buf) c = Inr d"
    using d h objectDataLen_cong [of ?z h "[]" offset "offset + (3 + m)" "drop (3 + m) buf" c] by simp
  ultimately show ?thesis by (intro exI [of _ "3 + m"]) simp
qed

lemma sized_walk:
  assumes "objectDataLen szr h buf c = Inr n" "IsSize (Q_IndexPrefix (OQualifier h))"
  shows "walkSizePrefixed (Prefix_Octets (Q_IndexPrefix (OQualifier h))) (unat (RCount (ORange h))) buf 0 = Inr n"
proof (cases "RCount (ORange h) = 0")
  case True
  have "\<not> IsIndex (Q_IndexPrefix (OQualifier h))" using assms(2) by (auto simp: IsSize_def IsIndex_def)
  with True assms(1) show ?thesis by (auto simp: objectDataLen_def Let_def split: if_splits)
next
  case False
  then have "0 < RCount (ORange h)" by (simp add: word_gt_0)
  with assms show ?thesis by (auto simp: objectDataLen_def Let_def split: if_splits)
qed

lemma FreeFormatObjects_walk:
  assumes "IsSize (Q_IndexPrefix (OQualifier h))"
    and "walkSizePrefixed (Prefix_Octets (Q_IndexPrefix (OQualifier h))) (unat (RCount (ORange h))) (OData h) 0 = Inr (length (OData h))"
  shows "\<exists>objs. FreeFormatObjects h = Inr objs \<and> length objs = unat (RCount (ORange h))"
  using free_objects_walk [OF assms(2) sized_prefix_octets [OF assms(1)], of "[]"] assms(1)
  by (simp add: FreeFormatObjects_def Let_def)

text \<open>
  What the header parser accepts, the free-format reader can read: from a header with a size
  prefix, \<^verbatim>\<open>FreeFormatObjects\<close> returns exactly as many objects as the header's count, and
  never an error.
\<close>

theorem FreeFormatObjects_count:
  assumes "ParseObjectHeader szr buf offset c = Inr (h, n)" "IsSize (Q_IndexPrefix (OQualifier h))"
  shows "\<exists>objs. FreeFormatObjects h = Inr objs \<and> length objs = unat (RCount (ORange h))"
proof -
  from ParseObjectHeader_data [OF assms(1)] obtain m where
    len: "objectDataLen (case szr of None \<Rightarrow> SizeBits | Some z \<Rightarrow> z) h (drop m buf) c = Inr (length (OData h))"
    and data: "OData h = take (length (OData h)) (drop m buf)" by blast
  from walkSizePrefixed_take [OF sized_walk [OF len assms(2)] objectDataLen_bound [OF len]] show ?thesis
    using assms(2) by (intro FreeFormatObjects_walk) (simp_all flip: data)
qed

definition file_header :: object_header where
  "file_header = \<lparr>OGroup = 70, OVariation = 5, OQualifier = 0x5B,
     ORange = \<lparr>RSpec = RangeVariable, RStart = 0, RStop = 0, RCount = 2\<rparr>,
     OData = [1, 0, 9, 2, 0, 7, 8], OOffset = 2, ODataOffset = 6\<rparr>"

lemma sized_object_encodable:
  assumes "IsSize (Q_IndexPrefix (OQualifier h))" "OVariation h \<noteq> 0" "0 < RCount (ORange h)" "wf_object h" "OOffset h = offset"
    and "ODataOffset h = offset + 3 + Range_Octets (RSpec (ORange h))"
    and "walkSizePrefixed (Prefix_Octets (Q_IndexPrefix (OQualifier h))) (unat (RCount (ORange h))) (OData h) 0 = Inr (length (OData h))"
  shows "encodable szr offset c h"
  using assms by (simp add: encodable_def objectDataLen_def Let_def)

lemma free_format_qualifier [simp]:
  "FreeFormatQualifier = 0x5B" "Q_IndexPrefix 0x5B = 5" "Q_RangeSpec 0x5B = 11" "\<not> Reserved 0x5B" "IsSize 5"
  "Prefix_Octets 5 = 2" "Prefix_Valid 5" "Range_Octets 11 = 1"
  by (simp_all add: FreeFormatQualifier_def MakeQualifier_def Q_IndexPrefix_def Q_RangeSpec_def Reserved_def IsSize_def
      Prefix_Octets_def Prefix_Valid_def Range_Octets_def)

lemma file_header_encodable: "encodable szr 2 c file_header"
proof (rule sized_object_encodable)
  have "walkSizePrefixed 2 (Suc (Suc 0)) [1, 0, 9, 2, 0, 7, 8] 0 = Inr 7"
    by (simp add: readUintLE_def get16_def Let_def)
  moreover have "Suc (Suc 0) = 2" by simp
  ultimately have "walkSizePrefixed 2 2 [1, 0, 9, 2, 0, 7, 8] 0 = Inr 7" by simp
  then show "walkSizePrefixed (Prefix_Octets (Q_IndexPrefix (OQualifier file_header))) (unat (RCount (ORange file_header)))
      (OData file_header) 0 = Inr (length (OData file_header))"
    by (simp add: file_header_def)
qed (simp_all add: file_header_def wf_object_def wf_range_def counted_def)

lemma parse_file_header: "ParseObjectHeader None [70, 5, 0x5B, 2, 1, 0, 9, 2, 0, 7, 8] 2 True = Inr (file_header, 11)"
proof -
  have "AppendObjectHeader [] file_header = [70, 5, 0x5B, 2, 1, 0, 9, 2, 0, 7, 8]"
    by (simp add: AppendObjectHeader_def appendRange_def file_header_def)
  with Parse_Append_object [OF file_header_encodable [of None True], of "[]"] show ?thesis by simp
qed

theorem FreeFormatObjects_count_witness:
  "\<exists>objs. FreeFormatObjects file_header = Inr objs \<and> length objs = 2"
  using FreeFormatObjects_count [OF parse_file_header]
  by (simp add: file_header_def IsSize_def Q_IndexPrefix_def)

lemma unat_of_nat_16: "k \<le> 0xFFFF \<Longrightarrow> unat (of_nat k :: u16) = k"
  by (simp add: unsigned_of_nat take_bit_nat_eq_self_iff)

lemma walk_one: "length object \<le> 0xFFFF \<Longrightarrow>
    walkSizePrefixed 2 (Suc 0) (put16 (of_nat (length object)) @ object) 0 = Inr (2 + length object)"
  by (simp add: readUintLE_def unat_of_nat_16 Let_def)

lemma free_one: "length object \<le> 0xFFFF \<Longrightarrow>
    free_objects 2 (put16 (of_nat (length object)) @ object) 0 [] = Inr [object]"
  by (subst free_objects.simps, subst free_objects.simps) (simp add: readUintLE_def unat_of_nat_16 Let_def subslice_def)

lemma FirstFreeFormatObject_one:
  assumes "OQualifier h = 0x5B" "OData h = put16 (of_nat (length object)) @ object" "length object \<le> 0xFFFF"
  shows "FirstFreeFormatObject h = Inr object"
  using assms free_one [OF assms(3)] by (simp add: FirstFreeFormatObject_def FreeFormatObjects_def)

text \<open>
  Free format round trip: an object of up to 65535 octets is carried under a header that the
  parser accepts back at any offset and whatever follows, and reading the first free-format
  object of it gives the octets again; a longer object is refused.
\<close>

theorem FreeFormat_roundtrip:
  assumes "variation \<noteq> 0"
  shows "case FreeFormat grp variation object of
    Inl e \<Rightarrow> e = FreeFormatTooLong (length object) \<and> 0xFFFF < length object
  | Inr h \<Rightarrow> length object \<le> 0xFFFF \<and> FirstFreeFormatObject h = Inr object \<and>
      (\<exists>h' n. ParseObjectHeader szr (AppendObjectHeader [] h @ rest) offset c = Inr (h', n) \<and>
        n = length (AppendObjectHeader [] h) \<and> OData h' = OData h \<and> FirstFreeFormatObject h' = Inr object)"
proof (cases "length object \<le> 0xFFFF")
  case False
  then show ?thesis by (simp add: FreeFormat_def)
next
  case True
  let ?h = "\<lparr>OGroup = grp, OVariation = variation, OQualifier = 0x5B,
     ORange = \<lparr>RSpec = RangeVariable, RStart = 0, RStop = 0, RCount = 1\<rparr>,
     OData = put16 (of_nat (length object)) @ object, OOffset = 0, ODataOffset = 0\<rparr>"
  let ?h' = "?h\<lparr>OOffset := offset, ODataOffset := offset + 3 + Range_Octets (RSpec (ORange ?h))\<rparr>"
  have "FreeFormat grp variation object = Inr ?h" using True by (simp add: FreeFormat_def Let_def)
  moreover have "encodable szr offset c ?h'"
    using True assms walk_one [OF True] by (intro sized_object_encodable) (simp_all add: wf_object_def wf_range_def counted_def)
  then have "ParseObjectHeader szr (AppendObjectHeader [] ?h @ rest) offset c = Inr (?h', length (AppendObjectHeader [] ?h))"
    using Parse_Append_object AppendObjectHeader_offsets by metis
  moreover have "FirstFreeFormatObject ?h = Inr object" "FirstFreeFormatObject ?h' = Inr object"
    using True by (intro FirstFreeFormatObject_one; simp)+
  ultimately show ?thesis using True by simp
qed

theorem FreeFormat_roundtrip_witness:
  "FreeFormat 70 4 [1, 2, 3] = Inr \<lparr>OGroup = 70, OVariation = 4, OQualifier = 0x5B,
     ORange = \<lparr>RSpec = RangeVariable, RStart = 0, RStop = 0, RCount = 1\<rparr>,
     OData = [3, 0, 1, 2, 3], OOffset = 0, ODataOffset = 0\<rparr> \<and>
   FirstFreeFormatObject (projr (FreeFormat 70 4 [1, 2, 3])) = Inr [1, 2, 3]"
  using FreeFormat_roundtrip [where variation = 4 and grp = 70 and object = "[1, 2, 3]"] by (simp add: FreeFormat_def put16_def)

end
