(* ===== verification/Go_Float.thy ===== *)
theory Go_Float
  imports Dnp_Prelude "HOL-Library.Log_Nat"
begin

text \<open>
  Go's floating-point types, as the sources use them: IEEE 754 doubles and singles as their bit
  patterns, conversion from and to integers and between the two widths, and comparison with
  integer constants. A finite double is the integer \<open>f64_scaled\<close> times \<open>2\<close> to the power of
  \<open>-1074\<close>. Conversion to a single rounds to nearest, ties to even; conversion of an integer of
  at most 53 bits is exact. The lemmas show that integers in that range and all singles that
  are not NaN survive the way to a double and back.
\<close>

type_synonym f64 = u64
type_synonym f32 = u32

section \<open>Fields\<close>

definition f64_neg :: "f64 \<Rightarrow> bool" where "f64_neg b = (2 ^ 63 \<le> unat b)"
definition f64_exp :: "f64 \<Rightarrow> nat" where "f64_exp b = unat b div 2 ^ 52 mod 2048"
definition f64_frac :: "f64 \<Rightarrow> nat" where "f64_frac b = unat b mod 2 ^ 52"

definition f64_pack :: "bool \<Rightarrow> nat \<Rightarrow> nat \<Rightarrow> f64" where
  "f64_pack s e f = of_nat ((if s then 2 ^ 63 else 0) + e * 2 ^ 52 + f)"

definition f32_neg :: "f32 \<Rightarrow> bool" where "f32_neg b = (2 ^ 31 \<le> unat b)"
definition f32_exp :: "f32 \<Rightarrow> nat" where "f32_exp b = unat b div 2 ^ 23 mod 256"
definition f32_frac :: "f32 \<Rightarrow> nat" where "f32_frac b = unat b mod 2 ^ 23"

text \<open>Exponent and fraction are one number here, so that a carry out of the fraction lands in the exponent.\<close>

definition f32_pack :: "bool \<Rightarrow> nat \<Rightarrow> f32" where
  "f32_pack s m = of_nat ((if s then 2 ^ 31 else 0) + m)"

definition f64_nan :: "f64 \<Rightarrow> bool" where "f64_nan b \<longleftrightarrow> f64_exp b = 2047 \<and> f64_frac b \<noteq> 0"
definition f64_inf :: "f64 \<Rightarrow> bool" where "f64_inf b \<longleftrightarrow> f64_exp b = 2047 \<and> f64_frac b = 0"
definition f32_nan :: "f32 \<Rightarrow> bool" where "f32_nan b \<longleftrightarrow> f32_exp b = 255 \<and> f32_frac b \<noteq> 0"

section \<open>Values\<close>

definition f64_mag :: "f64 \<Rightarrow> nat" where
  "f64_mag b = (if f64_exp b = 0 then f64_frac b else (2 ^ 52 + f64_frac b) * 2 ^ (f64_exp b - 1))"

definition f64_scaled :: "f64 \<Rightarrow> int" where
  "f64_scaled b = (if f64_neg b then - int (f64_mag b) else int (f64_mag b))"

definition f64_gt :: "f64 \<Rightarrow> int \<Rightarrow> bool" where
  "f64_gt b k \<longleftrightarrow> \<not> f64_nan b \<and> (if f64_inf b then \<not> f64_neg b else k * 2 ^ 1074 < f64_scaled b)"

definition f64_lt :: "f64 \<Rightarrow> int \<Rightarrow> bool" where
  "f64_lt b k \<longleftrightarrow> \<not> f64_nan b \<and> (if f64_inf b then f64_neg b else f64_scaled b < k * 2 ^ 1074)"

text \<open>Conversion of a double to an integer drops the fraction.\<close>

definition f64_trunc :: "f64 \<Rightarrow> int" where
  "f64_trunc b = (if f64_neg b then - int (f64_mag b div 2 ^ 1074) else int (f64_mag b div 2 ^ 1074))"

definition f64_of_int :: "int \<Rightarrow> f64" where
  "f64_of_int n =
     (let m = nat \<bar>n\<bar>; l = floorlog 2 m - 1
      in if n = 0 then 0 else f64_pack (n < 0) (l + 1023) (m * 2 ^ (52 - l) - 2 ^ 52))"

definition f64_of_f32 :: "f32 \<Rightarrow> f64" where
  "f64_of_f32 b =
     (let s = f32_neg b; e = f32_exp b; f = f32_frac b; l = floorlog 2 f - 1
      in if e = 255 then f64_pack s 2047 (if f = 0 then 0 else f * 2 ^ 29 mod 2 ^ 51 + 2 ^ 51)
         else if e \<noteq> 0 then f64_pack s (e + 896) (f * 2 ^ 29)
         else if f = 0 then f64_pack s 0 0
         else f64_pack s (l + 874) (f * 2 ^ (52 - l) - 2 ^ 52))"

text \<open>Division by \<open>2 ^ k\<close>, rounded to nearest, ties to even.\<close>

definition round_shift :: "nat \<Rightarrow> nat \<Rightarrow> nat" where
  "round_shift m k =
     (let q = m div 2 ^ k; r = m mod 2 ^ k
      in if 2 * r < 2 ^ k then q else if 2 * r > 2 ^ k then q + 1 else if even q then q else q + 1)"

definition f32_of_f64 :: "f64 \<Rightarrow> f32" where
  "f32_of_f64 b =
     (let s = f64_neg b; e = f64_exp b; f = f64_frac b
      in if e = 2047 then
           f32_pack s (255 * 2 ^ 23 + (if f = 0 then 0 else 2 ^ 22 + f div 2 ^ 29 mod 2 ^ 22))
         else if e \<ge> 897 then f32_pack s (min (255 * 2 ^ 23) ((e - 897) * 2 ^ 23 + round_shift (2 ^ 52 + f) 29))
         else if e = 0 then f32_pack s 0
         else f32_pack s (round_shift (2 ^ 52 + f) (29 + (897 - e))))"

section \<open>Packing and unpacking\<close>

lemma f64_fields_pack:
  assumes "e < 2048" "f < 2 ^ 52"
  shows "f64_neg (f64_pack s e f) = s" "f64_exp (f64_pack s e f) = e" "f64_frac (f64_pack s e f) = f"
proof -
  have lt: "e * 2 ^ 52 + f < 2 ^ 63"
  proof -
    have "e * 2 ^ 52 + f < (e + 1) * 2 ^ 52" using assms(2) by simp
    also have "\<dots> \<le> 2048 * 2 ^ 52" using assms(1) by (intro mult_right_mono) simp_all
    finally show ?thesis by simp
  qed
  then have "(if s then 2 ^ 63 else 0) + e * 2 ^ 52 + f < 2 ^ LENGTH(64)" by simp
  then have u: "unat (f64_pack s e f) = (if s then 2 ^ 63 else 0) + e * 2 ^ 52 + f"
    by (simp add: f64_pack_def unat_of_nat del: of_nat_add of_nat_mult of_nat_power of_nat_numeral)
  show "f64_neg (f64_pack s e f) = s" using lt by (simp add: f64_neg_def u)
  have split: "(if s then 2 ^ 63 else 0) + e * 2 ^ 52 + f = ((if s then 2048 else 0) + e) * 2 ^ 52 + f"
    by (simp add: algebra_simps)
  have "unat (f64_pack s e f) div 2 ^ 52 = (if s then 2048 else 0) + e"
    unfolding u split using assms(2) by (simp add: div_mult2_eq)
  then show "f64_exp (f64_pack s e f) = e" using assms(1) by (auto simp: f64_exp_def)
  show "f64_frac (f64_pack s e f) = f" unfolding f64_frac_def u split by (simp only: mod_mult_self3 mod_less [OF assms(2)])
qed

lemma f32_pack_fields: "f32_pack (f32_neg b) (f32_exp b * 2 ^ 23 + f32_frac b) = b"
proof -
  have b: "unat b < 2 ^ 32" using unsigned_less [of b] by simp
  have "(if f32_neg b then 2 ^ 31 else 0) + (f32_exp b * 2 ^ 23 + f32_frac b) = unat b"
  proof (cases "f32_neg b")
    case True
    define q where "q = unat b div 2 ^ 23"
    have b': "unat b = q * 2 ^ 23 + unat b mod 2 ^ 23" by (simp add: q_def)
    have q: "256 \<le> q" "q < 512" using True b by (simp_all add: q_def f32_neg_def)
    then have "q mod 256 = q - 256" by (simp add: mod_if)
    moreover have "2 ^ 31 + (q - 256) * 2 ^ 23 = q * 2 ^ 23" using q(1) by (simp add: algebra_simps diff_mult_distrib)
    ultimately have "2 ^ 31 + (q mod 256 * 2 ^ 23 + unat b mod 2 ^ 23) = unat b" using b' by (simp only: add.assoc [symmetric])
    with True show ?thesis by (simp add: f32_exp_def f32_frac_def q_def)
  next
    case False
    then have "unat b div 2 ^ 23 mod 256 = unat b div 2 ^ 23" by (simp add: f32_neg_def)
    with False show ?thesis by (simp add: f32_exp_def f32_frac_def)
  qed
  then show ?thesis by (simp add: f32_pack_def del: of_nat_add)
qed

lemma f32_field_bounds: "f32_exp b < 256" "f32_frac b < 2 ^ 23"
  by (simp_all add: f32_exp_def f32_frac_def)

section \<open>Exact conversions\<close>

text \<open>Shifting a number of \<open>l + 1\<close> bits up to 53 bits leaves the leading bit at place 52.\<close>

lemma normalised:
  assumes "0 < m" "m < 2 ^ 53" "l = floorlog 2 m - 1"
  shows "l \<le> 52" "2 ^ 52 \<le> m * 2 ^ (52 - l)" "m * 2 ^ (52 - l) < 2 ^ 53"
proof -
  have b: "2 ^ l \<le> m" "m < 2 ^ floorlog 2 m" using floorlog_bounds [of m 2] assms(1,3) by simp_all
  have "floorlog 2 m \<noteq> 0" using assms(1) by (simp add: floorlog_eq_zero_iff)
  then have s: "floorlog 2 m = Suc l" using assms(3) by simp
  show l: "l \<le> 52"
  proof (rule ccontr)
    assume "\<not> l \<le> 52"
    then have "(2 :: nat) ^ 53 \<le> 2 ^ l" by (intro power_increasing) simp_all
    with b(1) assms(2) show False by simp
  qed
  have "(2 :: nat) ^ 52 = 2 ^ l * 2 ^ (52 - l)" using l by (simp flip: power_add)
  also have "\<dots> \<le> m * 2 ^ (52 - l)" using b(1) by simp
  finally show "2 ^ 52 \<le> m * 2 ^ (52 - l)" .
  have "m * 2 ^ (52 - l) < 2 ^ Suc l * 2 ^ (52 - l)" using b(2) s by simp
  also have "\<dots> = 2 ^ 53" using l by (simp flip: power_add)
  finally show "m * 2 ^ (52 - l) < 2 ^ 53" .
qed

lemma f64_of_int_fields:
  assumes "n \<noteq> 0" "\<bar>n\<bar> < 2 ^ 53"
  shows "f64_neg (f64_of_int n) = (n < 0)" "\<not> f64_nan (f64_of_int n)" "\<not> f64_inf (f64_of_int n)"
    "f64_mag (f64_of_int n) = nat \<bar>n\<bar> * 2 ^ 1074"
proof -
  define m l where "m = nat \<bar>n\<bar>" and "l = floorlog 2 m - 1"
  have m: "0 < m" "m < 2 ^ 53" using assms by (simp_all add: m_def nat_less_iff)
  note b = normalised [OF m l_def]
  have p: "f64_of_int n = f64_pack (n < 0) (l + 1023) (m * 2 ^ (52 - l) - 2 ^ 52)"
    using assms(1) by (simp add: f64_of_int_def m_def l_def Let_def)
  have "m * 2 ^ (52 - l) - 2 ^ 52 < 2 ^ 52" using b by simp
  then have f: "f64_neg (f64_of_int n) = (n < 0)" "f64_exp (f64_of_int n) = l + 1023"
    "f64_frac (f64_of_int n) = m * 2 ^ (52 - l) - 2 ^ 52"
    unfolding p using b(1) by (simp_all add: f64_fields_pack)
  show "f64_neg (f64_of_int n) = (n < 0)" "\<not> f64_nan (f64_of_int n)" "\<not> f64_inf (f64_of_int n)"
    using f b(1) by (simp_all add: f64_nan_def f64_inf_def)
  have "f64_mag (f64_of_int n) = m * 2 ^ (52 - l) * 2 ^ (l + 1022)" using f b(2) by (simp add: f64_mag_def)
  also have "\<dots> = m * 2 ^ 1074" using b(1) by (simp add: mult.assoc flip: power_add)
  finally show "f64_mag (f64_of_int n) = nat \<bar>n\<bar> * 2 ^ 1074" by (simp add: m_def)
qed

lemma f64_of_int_value:
  assumes "\<bar>n\<bar> < 2 ^ 53"
  shows "\<not> f64_nan (f64_of_int n)" "\<not> f64_inf (f64_of_int n)" "f64_scaled (f64_of_int n) = n * 2 ^ 1074" "f64_trunc (f64_of_int n) = n"
proof -
  have zero: "f64_neg 0 = False" "f64_exp 0 = 0" "f64_frac 0 = 0" by (simp_all add: f64_neg_def f64_exp_def f64_frac_def)
  have z: "f64_of_int 0 = 0" by (simp add: f64_of_int_def)
  show "\<not> f64_nan (f64_of_int n)" "\<not> f64_inf (f64_of_int n)" "f64_scaled (f64_of_int n) = n * 2 ^ 1074" "f64_trunc (f64_of_int n) = n"
    using f64_of_int_fields [of n] assms z zero
    by (cases "n = 0"; simp add: f64_nan_def f64_inf_def f64_scaled_def f64_mag_def f64_trunc_def del: power_numeral)+
qed

lemma f64_of_int_compare:
  assumes "\<bar>n\<bar> < 2 ^ 53"
  shows "f64_gt (f64_of_int n) k \<longleftrightarrow> k < n" "f64_lt (f64_of_int n) k \<longleftrightarrow> n < k"
  using f64_of_int_value [OF assms] by (simp_all add: f64_gt_def f64_lt_def del: power_numeral)

lemma round_shift_exact: "round_shift (m * 2 ^ k) k = m"
  by (simp add: round_shift_def)

text \<open>A single that is not NaN is the same after widening and narrowing.\<close>

lemma f32_roundtrip:
  assumes "\<not> f32_nan b"
  shows "f32_of_f64 (f64_of_f32 b) = b"
proof -
  define s e f where "s = f32_neg b" and "e = f32_exp b" and "f = f32_frac b"
  have eb: "e < 256" and fb: "f < 2 ^ 23" using f32_field_bounds [of b] by (simp_all add: e_def f_def)
  have "f32_of_f64 (f64_of_f32 b) = f32_pack s (e * 2 ^ 23 + f)"
  proof -
    consider "e = 255" "f = 0" | "e \<noteq> 255" "e \<noteq> 0" | "e = 0" "f = 0" | "e = 0" "f \<noteq> 0"
      using assms by (auto simp: f32_nan_def e_def f_def)
    then show ?thesis
    proof cases
      case 1
      then have "f64_of_f32 b = f64_pack s 2047 0" by (simp add: f64_of_f32_def Let_def e_def f_def s_def)
      with 1 show ?thesis by (simp add: f32_of_f64_def Let_def f64_fields_pack)
    next
      case 2
      then have p: "f64_of_f32 b = f64_pack s (e + 896) (f * 2 ^ 29)" by (simp add: f64_of_f32_def Let_def e_def f_def s_def)
      have lt: "f * 2 ^ 29 < 2 ^ 52" using fb by simp
      have r: "round_shift (2 ^ 52 + f * 2 ^ 29) 29 = 2 ^ 23 + f"
        using round_shift_exact [of "2 ^ 23 + f" 29] by (simp add: algebra_simps)
      have n: "(e - 1) * 2 ^ 23 + (2 ^ 23 + f) = e * 2 ^ 23 + f" using 2 by (cases e) simp_all
      have "e * 2 ^ 23 + f < (e + 1) * 2 ^ 23" using fb by simp
      also have "\<dots> \<le> 255 * 2 ^ 23" using eb 2 by (intro mult_right_mono) simp_all
      finally have le: "e * 2 ^ 23 + f \<le> 255 * 2 ^ 23" by simp
      have d: "e + 896 < 2048" "e + 896 \<noteq> 2047" "897 \<le> e + 896" "e + 896 - 897 = e - 1" using 2 eb by simp_all
      show ?thesis
        unfolding f32_of_f64_def Let_def p f64_fields_pack [OF d(1) lt] r d(4) n using d(2,3) le by (simp only: if_False if_True min.absorb2)
    next
      case 3
      then have "f64_of_f32 b = f64_pack s 0 0" by (simp add: f64_of_f32_def Let_def e_def f_def s_def)
      with 3 show ?thesis by (simp add: f32_of_f64_def Let_def f64_fields_pack)
    next
      case 4
      define l where "l = floorlog 2 f - 1"
      have f: "0 < f" "f < 2 ^ 53" using 4 fb by simp_all
      note b = normalised [OF f l_def]
      have l: "l \<le> 22"
      proof (rule ccontr)
        assume "\<not> l \<le> 22"
        then have "(2 :: nat) ^ 23 \<le> 2 ^ l" by (intro power_increasing) simp_all
        moreover have "2 ^ l \<le> f" using floorlog_bounds [of f 2] f(1) by (simp add: l_def)
        ultimately show False using fb by simp
      qed
      have p: "f64_of_f32 b = f64_pack s (l + 874) (f * 2 ^ (52 - l) - 2 ^ 52)"
        using 4 by (simp add: f64_of_f32_def Let_def e_def f_def s_def l_def)
      have lt: "f * 2 ^ (52 - l) - 2 ^ 52 < 2 ^ 52" "l + 874 < 2048" using b by simp_all
      have sh: "29 + (897 - (l + 874)) = 52 - l" using l by simp
      have "2 ^ 52 + (f * 2 ^ (52 - l) - 2 ^ 52) = f * 2 ^ (52 - l)" using b(2) by simp
      then have r: "round_shift (2 ^ 52 + (f * 2 ^ (52 - l) - 2 ^ 52)) (29 + (897 - (l + 874))) = f"
        unfolding sh by (simp only: round_shift_exact)
      show ?thesis
        unfolding f32_of_f64_def Let_def p f64_fields_pack [OF lt(2) lt(1)] r using l 4(1) by simp
    qed
  qed
  then show ?thesis using f32_pack_fields [of b] by (simp add: s_def e_def f_def)
qed

end
