(* ===== verification/Dnp_Types.thy ===== *)
theory Dnp_Types
  imports Go_Float
begin

text \<open>
  The vocabulary every part shares (\<^verbatim>\<open>types.go\<close>, \<^verbatim>\<open>flags.go\<close>): event classes, point types,
  quality flags, timestamps and their 48-bit form, the measurements, control codes and command
  statuses. A \<^verbatim>\<open>time.Time\<close> is its distance from the UNIX epoch in nanoseconds; Go's zero time
  is the start of year 1. A measurement is one record over the type of its value, for the seven
  measurement structs, which differ in nothing else.
\<close>

section \<open>Classes and point types\<close>

type_synonym event_class = byte
type_synonym PointType = byte

abbreviation (input) Class0 :: event_class where "Class0 \<equiv> 0x01"
abbreviation (input) Class1 :: event_class where "Class1 \<equiv> 0x02"
abbreviation (input) Class2 :: event_class where "Class2 \<equiv> 0x04"
abbreviation (input) Class3 :: event_class where "Class3 \<equiv> 0x08"
abbreviation (input) ClassNone :: event_class where "ClassNone \<equiv> 0"
abbreviation (input) Class123 :: event_class where "Class123 \<equiv> 0x0E"
abbreviation (input) ClassAll :: event_class where "ClassAll \<equiv> 0x0F"

definition Class_Has :: "event_class \<Rightarrow> event_class \<Rightarrow> bool" where
  "Class_Has c bits \<longleftrightarrow> c AND bits = bits"

abbreviation (input) TypeUnknown :: PointType where "TypeUnknown \<equiv> 0"
abbreviation (input) TypeBinary :: PointType where "TypeBinary \<equiv> 1"
abbreviation (input) TypeDoubleBitBinary :: PointType where "TypeDoubleBitBinary \<equiv> 2"
abbreviation (input) TypeCounter :: PointType where "TypeCounter \<equiv> 3"
abbreviation (input) TypeFrozenCounter :: PointType where "TypeFrozenCounter \<equiv> 4"
abbreviation (input) TypeAnalog :: PointType where "TypeAnalog \<equiv> 5"
abbreviation (input) TypeBinaryOutputStatus :: PointType where "TypeBinaryOutputStatus \<equiv> 6"
abbreviation (input) TypeAnalogOutputStatus :: PointType where "TypeAnalogOutputStatus \<equiv> 7"
abbreviation (input) TypeOctetString :: PointType where "TypeOctetString \<equiv> 8"
abbreviation (input) TypeBinaryCommandEvent :: PointType where "TypeBinaryCommandEvent \<equiv> 9"
abbreviation (input) TypeAnalogCommandEvent :: PointType where "TypeAnalogCommandEvent \<equiv> 10"
abbreviation (input) TypeFrozenAnalog :: PointType where "TypeFrozenAnalog \<equiv> 11"
abbreviation (input) TypeVirtualTerminal :: PointType where "TypeVirtualTerminal \<equiv> 12"
abbreviation (input) TypeSecurityStatistic :: PointType where "TypeSecurityStatistic \<equiv> 13"
abbreviation (input) TypeDataset :: PointType where "TypeDataset \<equiv> 14"

section \<open>Quality flags\<close>

type_synonym Flags = byte

abbreviation (input) Online :: Flags where "Online \<equiv> 0x01"
abbreviation (input) Restart :: Flags where "Restart \<equiv> 0x02"
abbreviation (input) CommLost :: Flags where "CommLost \<equiv> 0x04"
abbreviation (input) RemoteForced :: Flags where "RemoteForced \<equiv> 0x08"
abbreviation (input) LocalForced :: Flags where "LocalForced \<equiv> 0x10"
abbreviation (input) OverRange :: Flags where "OverRange \<equiv> 0x20"
abbreviation (input) StateBit :: Flags where "StateBit \<equiv> 0x80"

definition Flags_Has :: "Flags \<Rightarrow> Flags \<Rightarrow> bool" where
  "Flags_Has f bits \<longleftrightarrow> f AND bits = bits"

definition Flags_HasAny :: "Flags \<Rightarrow> Flags \<Rightarrow> bool" where
  "Flags_HasAny f bits \<longleftrightarrow> f AND bits \<noteq> 0"

definition Flags_Set :: "Flags \<Rightarrow> Flags \<Rightarrow> Flags" where
  "Flags_Set f bits = f OR bits"

definition Flags_Clear :: "Flags \<Rightarrow> Flags \<Rightarrow> Flags" where
  "Flags_Clear f bits = f AND NOT bits"

definition IsGood :: "Flags \<Rightarrow> bool" where
  "IsGood f \<longleftrightarrow> Flags_Has f Online \<and> \<not> Flags_HasAny f (Restart OR CommLost OR RemoteForced OR LocalForced)"

section \<open>Time\<close>

datatype TimestampQuality = TimestampInvalid | TimestampUnsynchronized | TimestampSynchronized

record timestamp =
  TTime :: int
  TQuality :: TimestampQuality

abbreviation (input) zero_time :: int where "zero_time \<equiv> - 62135596800000000000"

definition NoTime :: timestamp where
  "NoTime = \<lparr>TTime = zero_time, TQuality = TimestampInvalid\<rparr>"

definition Time_IsValid :: "timestamp \<Rightarrow> bool" where
  "Time_IsValid t \<longleftrightarrow> TQuality t \<noteq> TimestampInvalid"

abbreviation (input) MaxDNP3Time :: int where "MaxDNP3Time \<equiv> 281474976710655"

definition UnixMilli :: "int \<Rightarrow> int" where
  "UnixMilli t = t div 1000000"

definition TimeToDNP3 :: "int \<Rightarrow> u64" where
  "TimeToDNP3 t =
     (let ms = UnixMilli t
      in if ms < 0 then 0 else if ms > MaxDNP3Time then of_int MaxDNP3Time else of_int ms)"

definition DNP3ToTime :: "u64 \<Rightarrow> int" where
  "DNP3ToTime ms = uint (ms AND of_int MaxDNP3Time) * 1000000"

section \<open>Measurements\<close>

record 'a measurement =
  MValue :: 'a
  MFlags :: Flags
  MTime :: timestamp

type_synonym DoubleBit = byte
type_synonym Binary = "bool measurement"
type_synonym DoubleBitBinary = "DoubleBit measurement"
type_synonym Counter = "u32 measurement"
type_synonym FrozenCounter = "u32 measurement"
type_synonym Analog = "f64 measurement"
type_synonym BinaryOutputStatus = "bool measurement"
type_synonym AnalogOutputStatus = "f64 measurement"

section \<open>Controls\<close>

type_synonym ControlCode = byte
type_synonym CommandStatus = byte

abbreviation (input) ControlPulseOn :: ControlCode where "ControlPulseOn \<equiv> 0x01"
abbreviation (input) ControlLatchOn :: ControlCode where "ControlLatchOn \<equiv> 0x03"
abbreviation (input) ControlClose :: ControlCode where "ControlClose \<equiv> 0x40"
abbreviation (input) ControlTrip :: ControlCode where "ControlTrip \<equiv> 0x80"

definition OpType :: "ControlCode \<Rightarrow> ControlCode" where
  "OpType c = c AND 0x0F"

definition IsTrip :: "ControlCode \<Rightarrow> bool" where
  "IsTrip c \<longleftrightarrow> c AND 0xC0 = ControlTrip"

definition IsClose :: "ControlCode \<Rightarrow> bool" where
  "IsClose c \<longleftrightarrow> c AND 0xC0 = ControlClose"

abbreviation (input) CommandSuccess :: CommandStatus where "CommandSuccess \<equiv> 0"
abbreviation (input) CommandTimeout :: CommandStatus where "CommandTimeout \<equiv> 1"
abbreviation (input) CommandNoSelect :: CommandStatus where "CommandNoSelect \<equiv> 2"
abbreviation (input) CommandNotSupported :: CommandStatus where "CommandNotSupported \<equiv> 4"
abbreviation (input) CommandTooManyOps :: CommandStatus where "CommandTooManyOps \<equiv> 8"

definition Status_OK :: "CommandStatus \<Rightarrow> bool" where
  "Status_OK s \<longleftrightarrow> s = CommandSuccess"

record crob =
  Code :: ControlCode
  CCount :: byte
  OnTime :: u32
  OffTime :: u32
  CStatus :: CommandStatus

end
