(* ===== verification/Obj_Base.thy ===== *)
theory Obj_Base
  imports App_Objects Dnp_Types
begin

text \<open>
  What the object codecs share (\<^verbatim>\<open>objects/objects.go\<close>, \<^verbatim>\<open>objects/convert.go\<close>,
  \<^verbatim>\<open>objects/commands.go\<close>): the table of descriptors with its lookup, the decoding context, the
  48-bit times, the saturating conversions of analog values, and the bit-packed objects of
  \<^verbatim>\<open>objects/packed.go\<close>. The display name of a descriptor is left out. The lemmas show that the
  table agrees with the size table of the framing layer, and that times, saturated values and
  packed ranges survive encoding.
\<close>

section \<open>Descriptors\<close>

type_synonym GroupVar = "byte \<times> byte"

datatype Kind = KindUnknown | KindStatic | KindEvent | KindCommand | KindCommandEvent | KindTime | KindClass
  | KindIndication | KindDeadband | KindString | KindFile | KindAttribute

record descriptor =
  DLevel :: nat
  DKind :: Kind
  DMeasurement :: PointType
  DSizeBits :: int
  DPacked :: bool
  HasFlags :: bool
  HasTime :: bool
  HasRelativeTime :: bool
  ValueBits :: nat
  FloatValue :: bool

definition SizeOctets :: "descriptor \<Rightarrow> int \<times> bool" where
  "SizeOctets d = (if DPacked d \<or> DSizeBits d mod 8 \<noteq> 0 then (0, False) else (DSizeBits d div 8, True))"

abbreviation (input) desc where
  "desc l k m b p f t r w x \<equiv>
     \<lparr>DLevel = l, DKind = k, DMeasurement = m, DSizeBits = b, DPacked = p, HasFlags = f, HasTime = t,
      HasRelativeTime = r, ValueBits = w, FloatValue = x\<rparr>"

definition binary_inputs_objects :: "(GroupVar \<times> descriptor) list" where
  "binary_inputs_objects =
    [((1, 1), desc 1 KindStatic TypeBinary 1 True False False False 0 False),
     ((1, 2), desc 1 KindStatic TypeBinary 8 False True False False 0 False),
     ((2, 1), desc 1 KindEvent TypeBinary 8 False True False False 0 False),
     ((2, 2), desc 1 KindEvent TypeBinary 56 False True True False 0 False),
     ((2, 3), desc 1 KindEvent TypeBinary 24 False True True True 0 False),
     ((3, 1), desc 4 KindStatic TypeDoubleBitBinary 2 True False False False 0 False),
     ((3, 2), desc 4 KindStatic TypeDoubleBitBinary 8 False True False False 0 False),
     ((4, 1), desc 4 KindEvent TypeDoubleBitBinary 8 False True False False 0 False),
     ((4, 2), desc 4 KindEvent TypeDoubleBitBinary 56 False True True False 0 False),
     ((4, 3), desc 4 KindEvent TypeDoubleBitBinary 24 False True True True 0 False)]"

definition binary_outputs_objects :: "(GroupVar \<times> descriptor) list" where
  "binary_outputs_objects =
    [((10, 1), desc 1 KindStatic TypeBinaryOutputStatus 1 True False False False 0 False),
     ((10, 2), desc 1 KindStatic TypeBinaryOutputStatus 8 False True False False 0 False),
     ((11, 1), desc 2 KindEvent TypeBinaryOutputStatus 8 False True False False 0 False),
     ((11, 2), desc 2 KindEvent TypeBinaryOutputStatus 56 False True True False 0 False),
     ((12, 1), desc 1 KindCommand TypeUnknown 88 False False False False 0 False),
     ((12, 2), desc 4 KindCommand TypeUnknown 88 False False False False 0 False),
     ((12, 3), desc 4 KindCommand TypeUnknown 1 True False False False 0 False),
     ((13, 1), desc 4 KindCommandEvent TypeUnknown 8 False False False False 0 False),
     ((13, 2), desc 4 KindCommandEvent TypeUnknown 56 False False True False 0 False)]"

definition counters_objects :: "(GroupVar \<times> descriptor) list" where
  "counters_objects =
    [((20, 1), desc 1 KindStatic TypeCounter 40 False True False False 32 False),
     ((20, 2), desc 1 KindStatic TypeCounter 24 False True False False 16 False),
     ((20, 5), desc 1 KindStatic TypeCounter 32 False False False False 32 False),
     ((20, 6), desc 1 KindStatic TypeCounter 16 False False False False 16 False),
     ((21, 1), desc 2 KindStatic TypeFrozenCounter 40 False True False False 32 False),
     ((21, 2), desc 2 KindStatic TypeFrozenCounter 24 False True False False 16 False),
     ((21, 5), desc 2 KindStatic TypeFrozenCounter 88 False True True False 32 False),
     ((21, 6), desc 2 KindStatic TypeFrozenCounter 72 False True True False 16 False),
     ((21, 9), desc 2 KindStatic TypeFrozenCounter 32 False False False False 32 False),
     ((21, 10), desc 2 KindStatic TypeFrozenCounter 16 False False False False 16 False)]"

definition counter_events_objects :: "(GroupVar \<times> descriptor) list" where
  "counter_events_objects =
    [((22, 1), desc 2 KindEvent TypeCounter 40 False True False False 32 False),
     ((22, 2), desc 2 KindEvent TypeCounter 24 False True False False 16 False),
     ((22, 5), desc 2 KindEvent TypeCounter 88 False True True False 32 False),
     ((22, 6), desc 2 KindEvent TypeCounter 72 False True True False 16 False),
     ((23, 1), desc 2 KindEvent TypeFrozenCounter 40 False True False False 32 False),
     ((23, 2), desc 2 KindEvent TypeFrozenCounter 24 False True False False 16 False),
     ((23, 5), desc 2 KindEvent TypeFrozenCounter 88 False True True False 32 False),
     ((23, 6), desc 2 KindEvent TypeFrozenCounter 72 False True True False 16 False)]"

definition analog_inputs_objects :: "(GroupVar \<times> descriptor) list" where
  "analog_inputs_objects =
    [((30, 1), desc 1 KindStatic TypeAnalog 40 False True False False 32 False),
     ((30, 2), desc 1 KindStatic TypeAnalog 24 False True False False 16 False),
     ((30, 3), desc 1 KindStatic TypeAnalog 32 False False False False 32 False),
     ((30, 4), desc 1 KindStatic TypeAnalog 16 False False False False 16 False),
     ((30, 5), desc 2 KindStatic TypeAnalog 40 False True False False 32 True),
     ((30, 6), desc 4 KindStatic TypeAnalog 72 False True False False 64 True)]"

definition frozen_analogs_objects :: "(GroupVar \<times> descriptor) list" where
  "frozen_analogs_objects =
    [((31, 1), desc 4 KindStatic TypeAnalog 40 False True False False 32 False),
     ((31, 2), desc 4 KindStatic TypeAnalog 24 False True False False 16 False),
     ((31, 3), desc 4 KindStatic TypeAnalog 88 False True True False 32 False),
     ((31, 4), desc 4 KindStatic TypeAnalog 72 False True True False 16 False),
     ((31, 5), desc 4 KindStatic TypeAnalog 32 False False False False 32 False),
     ((31, 6), desc 4 KindStatic TypeAnalog 16 False False False False 16 False),
     ((31, 7), desc 4 KindStatic TypeAnalog 40 False True False False 32 True),
     ((31, 8), desc 4 KindStatic TypeAnalog 72 False True False False 64 True)]"

definition analog_events_objects :: "(GroupVar \<times> descriptor) list" where
  "analog_events_objects =
    [((32, 1), desc 2 KindEvent TypeAnalog 40 False True False False 32 False),
     ((32, 2), desc 2 KindEvent TypeAnalog 24 False True False False 16 False),
     ((32, 3), desc 2 KindEvent TypeAnalog 88 False True True False 32 False),
     ((32, 4), desc 2 KindEvent TypeAnalog 72 False True True False 16 False),
     ((32, 5), desc 2 KindEvent TypeAnalog 40 False True False False 32 True),
     ((32, 6), desc 4 KindEvent TypeAnalog 72 False True False False 64 True),
     ((32, 7), desc 2 KindEvent TypeAnalog 88 False True True False 32 True),
     ((32, 8), desc 4 KindEvent TypeAnalog 120 False True True False 64 True)]"

definition frozen_analog_events_objects :: "(GroupVar \<times> descriptor) list" where
  "frozen_analog_events_objects =
    [((33, 1), desc 4 KindEvent TypeAnalog 40 False True False False 32 False),
     ((33, 2), desc 4 KindEvent TypeAnalog 24 False True False False 16 False),
     ((33, 3), desc 4 KindEvent TypeAnalog 88 False True True False 32 False),
     ((33, 4), desc 4 KindEvent TypeAnalog 72 False True True False 16 False),
     ((33, 5), desc 4 KindEvent TypeAnalog 40 False True False False 32 True),
     ((33, 6), desc 4 KindEvent TypeAnalog 72 False True False False 64 True),
     ((33, 7), desc 4 KindEvent TypeAnalog 88 False True True False 32 True),
     ((33, 8), desc 4 KindEvent TypeAnalog 120 False True True False 64 True)]"

definition deadbands_objects :: "(GroupVar \<times> descriptor) list" where
  "deadbands_objects =
    [((34, 1), desc 4 KindDeadband TypeUnknown 16 False False False False 16 False),
     ((34, 2), desc 4 KindDeadband TypeUnknown 32 False False False False 32 False),
     ((34, 3), desc 4 KindDeadband TypeUnknown 32 False False False False 32 True)]"

definition analog_outputs_objects :: "(GroupVar \<times> descriptor) list" where
  "analog_outputs_objects =
    [((40, 1), desc 2 KindStatic TypeAnalogOutputStatus 40 False True False False 32 False),
     ((40, 2), desc 2 KindStatic TypeAnalogOutputStatus 24 False True False False 16 False),
     ((40, 3), desc 2 KindStatic TypeAnalogOutputStatus 40 False True False False 32 True),
     ((40, 4), desc 4 KindStatic TypeAnalogOutputStatus 72 False True False False 64 True),
     ((41, 1), desc 2 KindCommand TypeUnknown 40 False False False False 32 False),
     ((41, 2), desc 2 KindCommand TypeUnknown 24 False False False False 16 False),
     ((41, 3), desc 2 KindCommand TypeUnknown 40 False False False False 32 True),
     ((41, 4), desc 4 KindCommand TypeUnknown 72 False False False False 64 True)]"

definition analog_output_events_objects :: "(GroupVar \<times> descriptor) list" where
  "analog_output_events_objects =
    [((42, 1), desc 3 KindEvent TypeAnalogOutputStatus 40 False True False False 32 False),
     ((42, 2), desc 3 KindEvent TypeAnalogOutputStatus 24 False True False False 16 False),
     ((42, 3), desc 3 KindEvent TypeAnalogOutputStatus 88 False True True False 32 False),
     ((42, 4), desc 3 KindEvent TypeAnalogOutputStatus 72 False True True False 16 False),
     ((42, 5), desc 3 KindEvent TypeAnalogOutputStatus 40 False True False False 32 True),
     ((42, 6), desc 4 KindEvent TypeAnalogOutputStatus 72 False True False False 64 True),
     ((42, 7), desc 3 KindEvent TypeAnalogOutputStatus 88 False True True False 32 True),
     ((42, 8), desc 4 KindEvent TypeAnalogOutputStatus 120 False True True False 64 True)]"

definition analog_command_events_objects :: "(GroupVar \<times> descriptor) list" where
  "analog_command_events_objects =
    [((43, 1), desc 4 KindCommandEvent TypeUnknown 40 False False False False 32 False),
     ((43, 2), desc 4 KindCommandEvent TypeUnknown 24 False False False False 16 False),
     ((43, 3), desc 4 KindCommandEvent TypeUnknown 88 False False True False 32 False),
     ((43, 4), desc 4 KindCommandEvent TypeUnknown 72 False False True False 16 False),
     ((43, 5), desc 4 KindCommandEvent TypeUnknown 40 False False False False 32 True),
     ((43, 6), desc 4 KindCommandEvent TypeUnknown 72 False False False False 64 True),
     ((43, 7), desc 4 KindCommandEvent TypeUnknown 88 False False True False 32 True),
     ((43, 8), desc 4 KindCommandEvent TypeUnknown 120 False False True False 64 True)]"

definition times_objects :: "(GroupVar \<times> descriptor) list" where
  "times_objects =
    [((50, 1), desc 1 KindTime TypeUnknown 48 False False True False 0 False),
     ((50, 2), desc 4 KindTime TypeUnknown 80 False False True False 0 False),
     ((50, 3), desc 3 KindTime TypeUnknown 48 False False True False 0 False),
     ((50, 4), desc 4 KindTime TypeUnknown 88 False False True False 0 False),
     ((51, 1), desc 2 KindTime TypeUnknown 48 False False True False 0 False),
     ((51, 2), desc 2 KindTime TypeUnknown 48 False False True False 0 False),
     ((52, 1), desc 1 KindTime TypeUnknown 16 False False False False 16 False),
     ((52, 2), desc 1 KindTime TypeUnknown 16 False False False False 16 False)]"

definition others_objects :: "(GroupVar \<times> descriptor) list" where
  "others_objects =
    [((60, 1), desc 1 KindClass TypeUnknown 0 False False False False 0 False),
     ((60, 2), desc 1 KindClass TypeUnknown 0 False False False False 0 False),
     ((60, 3), desc 1 KindClass TypeUnknown 0 False False False False 0 False),
     ((60, 4), desc 1 KindClass TypeUnknown 0 False False False False 0 False),
     ((80, 1), desc 1 KindIndication TypeUnknown 1 True False False False 0 False),
     ((86, 2), desc 4 KindAttribute TypeUnknown 8 False False False False 0 False),
     ((120, 3), desc 4 KindTime TypeUnknown 48 False False False False 0 False),
     ((120, 4), desc 4 KindTime TypeUnknown 16 False False False False 0 False),
     ((121, 1), desc 4 KindStatic TypeUnknown 56 False True False False 32 False),
     ((122, 1), desc 4 KindEvent TypeUnknown 56 False True False False 32 False),
     ((122, 2), desc 4 KindEvent TypeUnknown 104 False True True False 32 False)]"

definition descriptors :: "(GroupVar \<times> descriptor) list" where
  "descriptors =
     binary_inputs_objects @ binary_outputs_objects @ counters_objects @ counter_events_objects @ analog_inputs_objects @
     frozen_analogs_objects @ analog_events_objects @ frozen_analog_events_objects @ deadbands_objects @ analog_outputs_objects @
     analog_output_events_objects @ analog_command_events_objects @ times_objects @ others_objects"

lemmas descriptor_tables = descriptors_def
  binary_inputs_objects_def binary_outputs_objects_def counters_objects_def counter_events_objects_def analog_inputs_objects_def
  frozen_analogs_objects_def analog_events_objects_def frozen_analog_events_objects_def deadbands_objects_def analog_outputs_objects_def
  analog_output_events_objects_def analog_command_events_objects_def times_objects_def others_objects_def

definition Lookup :: "GroupVar \<Rightarrow> descriptor option" where
  "Lookup x = map_of descriptors x"

section \<open>Context\<close>

record decode_context =
  Synchronized :: bool
  CTO :: int
  HasCTO :: bool
  CTOSynchronized :: bool

definition TimeQuality :: "decode_context \<Rightarrow> TimestampQuality" where
  "TimeQuality c = (if Synchronized c then TimestampSynchronized else TimestampUnsynchronized)"

definition RelativeTime :: "decode_context \<Rightarrow> u16 \<Rightarrow> timestamp" where
  "RelativeTime c offsetMillis =
     (if \<not> HasCTO c then NoTime
      else \<lparr>TTime = CTO c + uint offsetMillis * 1000000,
            TQuality = (if CTOSynchronized c then TimestampSynchronized else TimestampUnsynchronized)\<rparr>)"

text \<open>
  \<^verbatim>\<open>time.Time.Sub\<close> saturates at the range of a 64-bit duration and \<^verbatim>\<open>Milliseconds\<close> drops the rest
  of the division.
\<close>

definition duration_between :: "int \<Rightarrow> int \<Rightarrow> int" where
  "duration_between t u = max (- (2 ^ 63)) (min (2 ^ 63 - 1) (t - u))"

definition Milliseconds :: "int \<Rightarrow> int" where
  "Milliseconds d = (if d < 0 then - (- d div 1000000) else d div 1000000)"

definition RelativeOffset :: "decode_context \<Rightarrow> timestamp \<Rightarrow> u16" where
  "RelativeOffset c t =
     (if \<not> HasCTO c \<or> \<not> Time_IsValid t then 0
      else
        let delta = Milliseconds (duration_between (TTime t) (CTO c))
        in if delta < 0 then 0 else if delta > 0xFFFF then 0xFFFF else of_int delta)"

definition WithCTO :: "decode_context \<Rightarrow> int \<Rightarrow> decode_context" where
  "WithCTO c t = c\<lparr>CTO := t, HasCTO := True, CTOSynchronized := Synchronized c\<rparr>"

definition WithGroup51 :: "decode_context \<Rightarrow> int \<Rightarrow> byte \<Rightarrow> decode_context" where
  "WithGroup51 c t variation = (WithCTO c t)\<lparr>CTOSynchronized := (variation = 1)\<rparr>"

record 'a codec =
  Parse :: "byte list \<Rightarrow> decode_context \<Rightarrow> 'a"
  Write :: "byte list \<Rightarrow> 'a \<Rightarrow> decode_context \<Rightarrow> byte list"

section \<open>Conversions\<close>

definition put48 :: "u64 \<Rightarrow> byte list" where
  "put48 ms = [ucast ms, ucast (drop_bit 8 ms), ucast (drop_bit 16 ms), ucast (drop_bit 24 ms),
     ucast (drop_bit 32 ms), ucast (drop_bit 40 ms)]"

definition appendTime48 :: "byte list \<Rightarrow> u64 \<Rightarrow> byte list" where
  "appendTime48 dst ms = dst @ put48 ms"

definition readTime48 :: "byte list \<Rightarrow> u64" where
  "readTime48 buf = ucast (buf ! 0) OR push_bit 8 (ucast (buf ! 1)) OR push_bit 16 (ucast (buf ! 2)) OR
     push_bit 24 (ucast (buf ! 3)) OR push_bit 32 (ucast (buf ! 4)) OR push_bit 40 (ucast (buf ! 5))"

definition put64 :: "u64 \<Rightarrow> byte list" where
  "put64 v = put32 (ucast v) @ put32 (ucast (drop_bit 32 v))"

definition get64 :: "byte list \<Rightarrow> u64" where
  "get64 b = ucast (get32 (take 4 b)) OR push_bit 32 (ucast (get32 (drop 4 b)))"

text \<open>The signed results, as the unsigned words of the same octets.\<close>

definition clampInt16 :: "f64 \<Rightarrow> u16 \<times> bool" where
  "clampInt16 v =
     (if f64_nan v then (0, True)
      else if f64_gt v 32767 then (of_int 32767, True)
      else if f64_lt v (- 32768) then (of_int (- 32768), True)
      else (of_int (f64_trunc v), False))"

definition clampInt32 :: "f64 \<Rightarrow> u32 \<times> bool" where
  "clampInt32 v =
     (if f64_nan v then (0, True)
      else if f64_gt v 2147483647 then (of_int 2147483647, True)
      else if f64_lt v (- 2147483648) then (of_int (- 2147483648), True)
      else (of_int (f64_trunc v), False))"

definition clampUint16 :: "f64 \<Rightarrow> u16 \<times> bool" where
  "clampUint16 v =
     (if f64_nan v then (0, True)
      else if f64_lt v 0 then (0, True)
      else if f64_gt v 65535 then (of_int 65535, True)
      else (of_int (f64_trunc v), False))"

definition clampUint32 :: "f64 \<Rightarrow> u32 \<times> bool" where
  "clampUint32 v =
     (if f64_nan v then (0, True)
      else if f64_lt v 0 then (0, True)
      else if f64_gt v 4294967295 then (of_int 4294967295, True)
      else (of_int (f64_trunc v), False))"

definition ParseTime48 :: "byte list \<Rightarrow> timestamp" where
  "ParseTime48 buf = \<lparr>TTime = DNP3ToTime (readTime48 buf), TQuality = TimestampSynchronized\<rparr>"

definition AppendTime48 :: "byte list \<Rightarrow> timestamp \<Rightarrow> byte list" where
  "AppendTime48 dst t = appendTime48 dst (TimeToDNP3 (TTime t))"

definition ParseTimeDelay :: "byte \<Rightarrow> byte list \<Rightarrow> u32" where
  "ParseTimeDelay variation buf =
     (let v = ucast (get16 (subslice buf 0 2)) in if variation = 1 then v * 1000 else v)"

section \<open>Packed objects\<close>

definition PackedOctets :: "int \<Rightarrow> int \<Rightarrow> int" where
  "PackedOctets count bitsPerObject =
     (if count \<le> 0 \<or> bitsPerObject \<le> 0 then 0 else (count * bitsPerObject + 7) div 8)"

definition bitAt :: "byte list \<Rightarrow> nat \<Rightarrow> bool" where
  "bitAt buf i =
     (let idx = i div 8; shift = i mod 8
      in if length buf \<le> idx then False else buf ! idx AND push_bit shift 1 \<noteq> 0)"

definition ParsePackedBinary :: "byte list \<Rightarrow> nat \<Rightarrow> Binary list \<Rightarrow> Binary list" where
  "ParsePackedBinary buf count out =
     foldl (\<lambda>out i. out @ [\<lparr>MValue = bitAt buf i, MFlags = Online, MTime = NoTime\<rparr>]) out [0..<count]"

definition ParsePackedBinaryOutput :: "byte list \<Rightarrow> nat \<Rightarrow> BinaryOutputStatus list \<Rightarrow> BinaryOutputStatus list" where
  "ParsePackedBinaryOutput buf count out =
     foldl (\<lambda>out i. out @ [\<lparr>MValue = bitAt buf i, MFlags = Online, MTime = NoTime\<rparr>]) out [0..<count]"

definition ParsePackedDoubleBit :: "byte list \<Rightarrow> nat \<Rightarrow> DoubleBitBinary list \<Rightarrow> DoubleBitBinary list" where
  "ParsePackedDoubleBit buf count out =
     foldl (\<lambda>out i.
       let pair = i * 2; idx = pair div 8; shift = pair mod 8;
           v = (if idx < length buf then drop_bit shift (buf ! idx) AND 0x03 else 0)
       in out @ [\<lparr>MValue = v, MFlags = Online, MTime = NoTime\<rparr>]) out [0..<count]"

definition AppendPackedBinary :: "byte list \<Rightarrow> bool list \<Rightarrow> byte list" where
  "AppendPackedBinary dst values =
     (if length values = 0 then dst
      else
        let start = length dst;
            dst = dst @ replicate (nat (PackedOctets (int (length values)) 1)) 0
        in foldl (\<lambda>dst i. if values ! i then dst[start + i div 8 := dst ! (start + i div 8) OR push_bit (i mod 8) 1] else dst)
             dst [0..<length values])"

definition AppendPackedDoubleBit :: "byte list \<Rightarrow> DoubleBit list \<Rightarrow> byte list" where
  "AppendPackedDoubleBit dst values =
     (if length values = 0 then dst
      else
        let start = length dst;
            dst = dst @ replicate (nat (PackedOctets (int (length values)) 2)) 0
        in foldl (\<lambda>dst i.
             let pair = i * 2
             in dst[start + pair div 8 := dst ! (start + pair div 8) OR push_bit (pair mod 8) (values ! i AND 0x03)])
             dst [0..<length values])"

section \<open>The two tables\<close>

lemma tables_equal: "map (\<lambda>((g, v), d). (gv g v, DSizeBits d)) descriptors = generatedSizes"
  by (simp add: descriptor_tables generatedSizes_def)

lemma distinct_descriptors: "distinct (map fst descriptors)"
proof -
  let ?rank = "\<lambda>x :: GroupVar \<times> descriptor. 256 * unat (fst (fst x)) + unat (snd (fst x))"
  have "successively (<) (map ?rank descriptors)" by (simp add: descriptor_tables)
  then have "sorted_wrt (<) (map ?rank descriptors)" by (simp add: successively_conv_sorted_wrt)
  then have "distinct (map ?rank descriptors)" by (simp add: strict_sorted_iff)
  then have "distinct (map (\<lambda>y. 256 * unat (fst y) + unat (snd y)) (map fst descriptors))" by (simp add: comp_def)
  then show ?thesis unfolding distinct_map [of _ "map fst descriptors"] by simp
qed

lemma gv_parts: "ucast (gv g v) = v" "ucast (drop_bit 8 (gv g v)) = g"
  by (rule byte_eqI; simp add: gv_def bit_simps)+

lemma gv_inj: "inj (\<lambda>(g, v). gv g v)"
  by (rule injI) (clarsimp, metis gv_parts)

lemma SizeBits_described:
  assumes "Lookup (g, v) = Some d"
  shows "SizeBits g v = Some (DSizeBits d)" "0 \<le> DSizeBits d" "g \<notin> set lengthIsVariationGroups"
proof -
  have keys: "map fst generatedSizes = map (\<lambda>(g, v). gv g v) (map fst descriptors)"
    unfolding tables_equal [symmetric] by (simp add: comp_def case_prod_beta)
  have dist: "distinct (map fst generatedSizes)"
    unfolding keys using distinct_descriptors inj_on_subset [OF gv_inj subset_UNIV]
    by (simp only: distinct_map [of "\<lambda>(g, v). gv g v"] simp_thms)
  have groups: "list_all (\<lambda>((g, v), d). g \<notin> set lengthIsVariationGroups \<and> 0 \<le> DSizeBits d) descriptors"
    by (simp add: descriptor_tables lengthIsVariationGroups_def)
  have m: "((g, v), d) \<in> set descriptors" using assms by (auto simp: Lookup_def dest: map_of_SomeD)
  then have "(gv g v, DSizeBits d) \<in> set generatedSizes" unfolding tables_equal [symmetric] by force
  then have "map_of generatedSizes (gv g v) = Some (DSizeBits d)" using dist by simp
  moreover show "g \<notin> set lengthIsVariationGroups" "0 \<le> DSizeBits d" using groups m by (auto simp: list_all_iff)
  ultimately show "SizeBits g v = Some (DSizeBits d)" by (simp add: SizeBits_def)
qed

text \<open>
  C32. The object layer and the framing layer cannot disagree about a size: the table of descriptors
  and the generated size table of the framing layer name the same groups and variations with
  the same sizes, each once, and the size the framing layer looks up for a described object is
  the one of its descriptor.
\<close>

theorem tables_agree:
  "map (\<lambda>((g, v), d). (gv g v, DSizeBits d)) descriptors = generatedSizes \<and> distinct (map fst descriptors) \<and>
   (case Lookup (g, v) of Some d \<Rightarrow> SizeBits g v = Some (DSizeBits d) \<and> 0 \<le> DSizeBits d | None \<Rightarrow> map_of generatedSizes (gv g v) = None)"
proof -
  have keys: "map fst generatedSizes = map (\<lambda>(g, v). gv g v) (map fst descriptors)"
    unfolding tables_equal [symmetric] by (simp add: comp_def case_prod_beta)
  have none: "map_of generatedSizes (gv g v) = None" if "Lookup (g, v) = None"
  proof -
    have "(g, v) \<notin> set (map fst descriptors)" using that by (auto simp: Lookup_def map_of_eq_None_iff)
    then have "gv g v \<notin> set (map fst generatedSizes)"
      unfolding keys using inj_image_mem_iff [OF gv_inj, of "(g, v)" "set (map fst descriptors)"] by (simp add: image_image)
    then show ?thesis by (simp add: map_of_eq_None_iff)
  qed
  show ?thesis using tables_equal distinct_descriptors SizeBits_described(1,2) [of g v] none by (simp split: option.splits)
qed

section \<open>Times\<close>

lemma length_put48 [simp, wire_simps]: "length (put48 ms) = 6"
  by (simp add: put48_def)

lemma length_put64 [simp, wire_simps]: "length (put64 v) = 8"
  by (simp add: put64_def)

lemma get64_put64 [simp]: "get64 (put64 v @ xs) = v"
proof -
  have "get64 (put64 v @ xs) = ucast (ucast v :: u32) OR push_bit 32 (ucast (ucast (drop_bit 32 v) :: u32))"
    by (simp add: get64_def put64_def)
  also have "\<dots> = v"
    by (rule bit_word_eqI) (auto simp: bit_simps)
  finally show ?thesis .
qed

lemma get64_put64_Nil [simp]: "get64 (put64 v) = v"
  using get64_put64 [of v "[]"] by simp

lemma readTime48_put48 [simp]: "readTime48 (put48 ms @ xs) = take_bit 48 ms"
proof (rule bit_word_eqI)
  fix n assume "n < LENGTH(64)"
  consider "n < 8" | "8 \<le> n" "n < 16" | "16 \<le> n" "n < 24" | "24 \<le> n" "n < 32" | "32 \<le> n" "n < 40" | "40 \<le> n" "n < 48" | "48 \<le> n"
    by linarith
  then show "bit (readTime48 (put48 ms @ xs)) n = bit (take_bit 48 ms) n"
    by cases (simp_all add: readTime48_def put48_def bit_simps less_diff_conv2)
qed

lemma readTime48_put48_Nil [simp]: "readTime48 (put48 ms) = take_bit 48 ms"
  using readTime48_put48 [of ms "[]"] by simp

text \<open>What 48 bits keep of a time: whole milliseconds since the epoch, within range.\<close>

definition time48 :: "int \<Rightarrow> int" where
  "time48 t = max 0 (min MaxDNP3Time (t div 1000000)) * 1000000"

lemma uint_TimeToDNP3: "uint (TimeToDNP3 t) = max 0 (min MaxDNP3Time (t div 1000000))"
  by (auto simp: TimeToDNP3_def UnixMilli_def Let_def unsigned_of_int take_bit_int_eq_self max_def min_def)

lemma DNP3ToTime_read [simp]: "DNP3ToTime (take_bit 48 (TimeToDNP3 t)) = time48 t"
proof -
  have m: "of_int MaxDNP3Time = (mask 48 :: u64)" by (simp add: mask_eq_exp_minus_1)
  have "uint (take_bit 48 (TimeToDNP3 t) AND of_int MaxDNP3Time) = take_bit 48 (uint (TimeToDNP3 t))"
    unfolding m take_bit_eq_mask [symmetric] by (simp add: unsigned_take_bit_eq)
  also have "\<dots> = uint (TimeToDNP3 t)" unfolding uint_TimeToDNP3 by (intro take_bit_int_eq_self) auto
  finally show ?thesis unfolding DNP3ToTime_def time48_def by (simp only: uint_TimeToDNP3)
qed

lemma time48_exact: "0 \<le> t \<Longrightarrow> t \<le> MaxDNP3Time * 1000000 \<Longrightarrow> t mod 1000000 = 0 \<Longrightarrow> time48 t = t"
  unfolding time48_def by (auto simp: min_def max_def div_mult_mod_eq)

text \<open>What an offset of 16 bits keeps of a time: whole milliseconds since the common time, within range.\<close>

definition time_rel :: "decode_context \<Rightarrow> timestamp \<Rightarrow> timestamp" where
  "time_rel c t =
     (if \<not> HasCTO c then NoTime
      else \<lparr>TTime = CTO c + (if Time_IsValid t then max 0 (min 0xFFFF ((TTime t - CTO c) div 1000000)) * 1000000 else 0),
            TQuality = (if CTOSynchronized c then TimestampSynchronized else TimestampUnsynchronized)\<rparr>)"

lemma uint_RelativeOffset:
  assumes "HasCTO c" "Time_IsValid t"
  shows "uint (RelativeOffset c t) = max 0 (min 0xFFFF ((TTime t - CTO c) div 1000000))"
proof -
  define x where "x = TTime t - CTO c"
  have "uint (RelativeOffset c t) = max 0 (min 0xFFFF (Milliseconds (duration_between (TTime t) (CTO c))))"
    using assms by (auto simp: RelativeOffset_def Let_def unsigned_of_int take_bit_int_eq_self max_def min_def)
  also have "\<dots> = max 0 (min 0xFFFF (x div 1000000))"
  proof -
    consider "x < 0" | "0 \<le> x" "x < 2 ^ 63" | "2 ^ 63 \<le> x" by linarith
    then show ?thesis
    proof cases
      case 1
      then have "x div 1000000 < 0" by simp
      moreover have "Milliseconds (duration_between (TTime t) (CTO c)) \<le> 0"
        using 1 by (auto simp: duration_between_def Milliseconds_def x_def [symmetric] pos_imp_zdiv_nonneg_iff)
      ultimately show ?thesis by simp
    next
      case 2
      then show ?thesis by (simp add: duration_between_def Milliseconds_def x_def [symmetric])
    next
      case 3
      then have "0xFFFF \<le> x div 1000000" by simp
      moreover have "duration_between (TTime t) (CTO c) = 2 ^ 63 - 1" using 3 by (simp add: duration_between_def x_def [symmetric])
      then have "0xFFFF \<le> Milliseconds (duration_between (TTime t) (CTO c))" by (simp add: Milliseconds_def)
      ultimately show ?thesis by simp
    qed
  qed
  finally show ?thesis by (simp add: x_def)
qed

lemma RelativeTime_offset [simp]: "RelativeTime c (RelativeOffset c t) = time_rel c t"
  by (cases "HasCTO c"; cases "Time_IsValid t")
     (simp_all add: RelativeTime_def time_rel_def uint_RelativeOffset, simp add: RelativeOffset_def)

section \<open>Saturation\<close>

text \<open>
  The value an integer variation of \<open>w\<close> bits carries for a double, and whether it is flagged:
  the double without its fraction, or the nearest end of the range, or zero for NaN.
\<close>

definition saturated :: "nat \<Rightarrow> f64 \<Rightarrow> int \<times> bool" where
  "saturated w v =
     (if f64_nan v then (0, True)
      else if f64_gt v (2 ^ (w - 1) - 1) then (2 ^ (w - 1) - 1, True)
      else if f64_lt v (- (2 ^ (w - 1))) then (- (2 ^ (w - 1)), True)
      else (f64_trunc v, False))"

lemma f64_trunc_bounds:
  assumes "\<not> f64_nan v" "\<not> f64_gt v hi" "\<not> f64_lt v lo"
  shows "f64_trunc v \<le> max 0 hi" "min 0 lo \<le> f64_trunc v"
proof -
  have fin: "\<not> f64_inf v" using assms by (auto simp: f64_gt_def f64_lt_def)
  define u m where "u = (2 :: int) ^ 1074" and "m = int (f64_mag v)"
  have u: "0 < u" by (simp add: u_def)
  have b: "f64_scaled v \<le> hi * u" "lo * u \<le> f64_scaled v" using assms fin by (simp_all add: f64_gt_def f64_lt_def u_def del: power_numeral)
  have sc: "f64_scaled v = (if f64_neg v then - m else m)" by (simp add: f64_scaled_def m_def)
  have tr: "f64_trunc v = (if f64_neg v then - (m div u) else m div u)"
    by (simp add: f64_trunc_def m_def u_def zdiv_int del: power_numeral)
  have m: "0 \<le> m" by (simp add: m_def)
  then have d: "0 \<le> m div u" using u by (simp add: pos_imp_zdiv_nonneg_iff)
  have "m div u \<le> hi" if "\<not> f64_neg v" using b(1) sc that u by (simp add: zdiv_mono1 [of m "hi * u" u, simplified])
  moreover have "- (m div u) \<ge> lo" if "f64_neg v"
  proof -
    have "m \<le> (- lo) * u" using b(2) sc that by simp
    then have "m div u \<le> (- lo * u) div u" using u by (intro zdiv_mono1) simp_all
    moreover have "(- lo * u) div u = - lo" using u by (intro nonzero_mult_div_cancel_right) simp
    ultimately show ?thesis by linarith
  qed
  ultimately show "f64_trunc v \<le> max 0 hi" "min 0 lo \<le> f64_trunc v" using d tr by auto
qed

lemma saturated_range:
  assumes "0 < w"
  shows "- (2 ^ (w - 1)) \<le> fst (saturated w v) \<and> fst (saturated w v) < 2 ^ (w - 1)"
proof -
  have p: "(1 :: int) \<le> 2 ^ (w - 1)" by simp
  show ?thesis
    using f64_trunc_bounds [of v "2 ^ (w - 1) - 1" "- (2 ^ (w - 1))"] p
    by (simp add: saturated_def split: if_splits)
qed

lemma clampInt16_saturated: "clampInt16 v = (of_int (fst (saturated 16 v)), snd (saturated 16 v))"
  by (simp add: clampInt16_def saturated_def)

lemma clampInt32_saturated: "clampInt32 v = (of_int (fst (saturated 32 v)), snd (saturated 32 v))"
  by (simp add: clampInt32_def saturated_def)

lemma sint_of_int_range:
  assumes "- (2 ^ (LENGTH('a::len) - 1)) \<le> n" "n < 2 ^ (LENGTH('a) - 1)"
  shows "sint (of_int n :: 'a word) = n"
proof -
  have "signed_take_bit (LENGTH('a) - 1) n = n" using assms by (simp add: signed_take_bit_int_eq_self)
  then show ?thesis by (simp add: sint_sbintrunc')
qed

lemma sint_clampInt16 [simp]: "sint (fst (clampInt16 v)) = fst (saturated 16 v)"
  using saturated_range [of 16 v] by (simp add: clampInt16_saturated sint_of_int_range)

lemma sint_clampInt32 [simp]: "sint (fst (clampInt32 v)) = fst (saturated 32 v)"
  using saturated_range [of 32 v] by (simp add: clampInt32_saturated sint_of_int_range)

text \<open>
  An integer variation never misreports an analog value. A double goes out as the integer it
  is without its fraction when it is within the range of the variation, and is then not
  flagged; outside the range, or for NaN, the value sent is the nearest end of the range (zero
  for NaN) and is flagged over-range. An integer is sent exactly within the range and saturated
  outside it.
\<close>

theorem clamp_correct:
  "(case clampInt16 v of (n, over) \<Rightarrow>
      over = (f64_nan v \<or> f64_gt v 32767 \<or> f64_lt v (- 32768)) \<and>
      sint n = (if f64_nan v then 0 else if f64_gt v 32767 then 32767 else if f64_lt v (- 32768) then - 32768 else f64_trunc v)) \<and>
   (case clampInt32 v of (n, over) \<Rightarrow>
      over = (f64_nan v \<or> f64_gt v 2147483647 \<or> f64_lt v (- 2147483648)) \<and>
      sint n = (if f64_nan v then 0 else if f64_gt v 2147483647 then 2147483647 else if f64_lt v (- 2147483648) then - 2147483648
                else f64_trunc v)) \<and>
   (\<bar>k\<bar> < 2 ^ 53 \<longrightarrow>
      clampInt16 (f64_of_int k) = (of_int (max (- 32768) (min 32767 k)), k < - 32768 \<or> 32767 < k) \<and>
      clampInt32 (f64_of_int k) = (of_int (max (- 2147483648) (min 2147483647 k)), k < - 2147483648 \<or> 2147483647 < k))"
proof (intro conjI allI impI)
  show "case clampInt16 v of (n, over) \<Rightarrow>
      over = (f64_nan v \<or> f64_gt v 32767 \<or> f64_lt v (- 32768)) \<and>
      sint n = (if f64_nan v then 0 else if f64_gt v 32767 then 32767 else if f64_lt v (- 32768) then - 32768 else f64_trunc v)"
    using sint_clampInt16 [of v] by (auto simp: clampInt16_saturated saturated_def)
  show "case clampInt32 v of (n, over) \<Rightarrow>
      over = (f64_nan v \<or> f64_gt v 2147483647 \<or> f64_lt v (- 2147483648)) \<and>
      sint n = (if f64_nan v then 0 else if f64_gt v 2147483647 then 2147483647 else if f64_lt v (- 2147483648) then - 2147483648
                else f64_trunc v)"
    using sint_clampInt32 [of v] by (auto simp: clampInt32_saturated saturated_def)
next
  assume k: "\<bar>k\<bar> < 2 ^ 53"
  note v = f64_of_int_value(1) [OF k] f64_of_int_value(4) [OF k] f64_of_int_compare [OF k]
  show "clampInt16 (f64_of_int k) = (of_int (max (- 32768) (min 32767 k)), k < - 32768 \<or> 32767 < k)"
    using v(1) unfolding clampInt16_def v(2-) by (auto simp: max_def min_def)
  show "clampInt32 (f64_of_int k) = (of_int (max (- 2147483648) (min 2147483647 k)), k < - 2147483648 \<or> 2147483647 < k)"
    using v(1) unfolding clampInt32_def v(2-) by (auto simp: max_def min_def)
qed

theorem clamp_correct_witness: "clampInt16 (f64_of_int 40000) = (32767, True) \<and> clampInt32 (f64_of_int 40000) = (40000, False)"
  using clamp_correct [of 0 40000] by simp

section \<open>Packing\<close>

lemma foldl_snoc_map: "foldl (\<lambda>out i. out @ [f i]) out xs = out @ map f xs"
  by (induction xs arbitrary: out) simp_all

text \<open>
  Objects of \<open>k\<close> bits put one after the other into zeroed octets: the field of the \<open>i\<close>th is at
  bit \<open>i * k\<close> of the range, which \<open>range_bit\<close> reads.
\<close>

definition put_field :: "nat \<Rightarrow> nat \<Rightarrow> (nat \<Rightarrow> byte) \<Rightarrow> byte list \<Rightarrow> nat \<Rightarrow> byte list" where
  "put_field k start val dst i =
     dst[start + i * k div 8 := dst ! (start + i * k div 8) OR push_bit (i * k mod 8) (val i)]"

definition range_bit :: "byte list \<Rightarrow> nat \<Rightarrow> bool" where
  "range_bit buf p = bit (buf ! (p div 8)) (p mod 8)"

lemma length_put_field [simp]: "length (put_field k start val dst i) = length dst"
  by (simp add: put_field_def)

lemma length_fold_put_field [simp]: "length (foldl (put_field k start val) dst xs) = length dst"
  by (induction xs arbitrary: dst) simp_all

lemma fold_put_field_append:
  "foldl (put_field k (length dst) val) (dst @ buf) xs = dst @ foldl (put_field k 0 val) buf xs"
proof (induction xs arbitrary: buf)
  case (Cons i xs)
  have "put_field k (length dst) val (dst @ buf) i = dst @ put_field k 0 val buf i" by (simp add: put_field_def list_update_append)
  then show ?case using Cons.IH by simp
qed simp

lemma same_place1: "i div 8 = p div 8 \<and> i mod 8 = p mod 8 \<longleftrightarrow> i = (p :: nat)"
  by (metis div_mult_mod_eq)

lemma same_place2: "i * 2 div 8 = p div 8 \<and> i * 2 mod 8 \<le> p mod 8 \<and> p mod 8 - i * 2 mod 8 < 2 \<longleftrightarrow> p div 2 = (i :: nat)"
proof -
  have p: "p div 8 = p div 2 div 4" "p mod 8 = 2 * (p div 2 mod 4) + p mod 2"
    using div_mult2_eq [of p 2 4] mod_mult2_eq [of p 2 4] by simp_all
  have i: "i * 2 div 8 = i div 4" "i * 2 mod 8 = 2 * (i mod 4)"
    using mult_mod_right [of 2 i 4] by (simp_all add: mult.commute)
  have near: "2 * x \<le> 2 * y + z \<and> 2 * y + z - 2 * x < 2 \<longleftrightarrow> x = y" if "z < 2" for x y z :: nat
    using that by linarith
  have "i div 4 = p div 2 div 4 \<and> 2 * (i mod 4) \<le> 2 * (p div 2 mod 4) + p mod 2 \<and>
      2 * (p div 2 mod 4) + p mod 2 - 2 * (i mod 4) < 2 \<longleftrightarrow> i div 4 = p div 2 div 4 \<and> i mod 4 = p div 2 mod 4"
    by (subst near) simp_all
  also have "\<dots> \<longleftrightarrow> p div 2 = i" by (metis div_mult_mod_eq)
  finally show ?thesis unfolding p i .
qed

lemma same_place2_offset:
  assumes "p div 2 = (i :: nat)"
  shows "p mod 8 - i * 2 mod 8 = p mod 2"
proof -
  have "p mod 8 = 2 * (p div 2 mod 4) + p mod 2" using mod_mult2_eq [of p 2 4] by simp
  moreover have "i * 2 mod 8 = 2 * (i mod 4)" using mult_mod_right [of 2 i 4] by (simp add: mult.commute)
  ultimately show ?thesis using assms by simp
qed

lemma range_bit_put1:
  assumes "i div 8 < length buf"
  shows "range_bit (put_field 1 0 (\<lambda>i. of_bool (f i)) buf i) p \<longleftrightarrow> range_bit buf p \<or> (p = i \<and> f i)"
proof (cases "p div 8 = i div 8")
  case True
  have "bit (push_bit (i mod 8) (of_bool (f i)) :: byte) (p mod 8) \<longleftrightarrow> i mod 8 = p mod 8 \<and> f i"
    by (auto simp: bit_simps)
  then show ?thesis using assms True same_place1 [of i p] by (auto simp: range_bit_def put_field_def bit_or_iff)
next
  case False
  then show ?thesis by (auto simp: range_bit_def put_field_def)
qed

lemma range_bit_put2:
  assumes "i * 2 div 8 < length buf"
  shows "range_bit (put_field 2 0 (\<lambda>i. f i AND 0x03) buf i) p \<longleftrightarrow> range_bit buf p \<or> (p div 2 = i \<and> bit (f i) (p mod 2))"
proof (cases "p div 8 = i * 2 div 8")
  case True
  have m: "bit (f i AND 0x03) n \<longleftrightarrow> n < 2 \<and> bit (f i) n" for n
    using bit_mask_iff [where 'a = "8 word", of 2 n] by (auto simp: bit_and_iff mask_eq_exp_minus_1)
  have "bit (push_bit (i * 2 mod 8) (f i AND 0x03)) (p mod 8) \<longleftrightarrow>
      i * 2 mod 8 \<le> p mod 8 \<and> p mod 8 - i * 2 mod 8 < 2 \<and> bit (f i) (p mod 8 - i * 2 mod 8)"
    by (auto simp: bit_push_bit_iff m simp del: push_bit_and)
  then have "bit (push_bit (i * 2 mod 8) (f i AND 0x03)) (p mod 8) \<longleftrightarrow> p div 2 = i \<and> bit (f i) (p mod 2)"
    using True same_place2 [of i p] same_place2_offset [of p i] by metis
  then show ?thesis using assms True by (simp add: range_bit_def put_field_def bit_or_iff del: push_bit_and)
next
  case False
  then have "p div 2 \<noteq> i" using same_place2 [of i p] by metis
  then show ?thesis using False by (simp add: range_bit_def put_field_def)
qed

lemma range_bit_zero: "p div 8 < m \<Longrightarrow> \<not> range_bit (replicate m 0) p"
  by (simp add: range_bit_def)

lemma range_bit_fold1:
  assumes "n \<le> 8 * length buf"
  shows "range_bit (foldl (put_field 1 0 (\<lambda>i. of_bool (f i))) buf [0..<n]) p \<longleftrightarrow> range_bit buf p \<or> (p < n \<and> f p)"
  using assms
proof (induction n)
  case (Suc n)
  then have "n div 8 < length (foldl (put_field 1 0 (\<lambda>i. of_bool (f i))) buf [0..<n])" by simp
  from range_bit_put1 [OF this] Suc show ?case by (auto simp: less_Suc_eq)
qed simp

lemma range_bit_fold2:
  assumes "2 * n \<le> 8 * length buf"
  shows "range_bit (foldl (put_field 2 0 (\<lambda>i. f i AND 0x03)) buf [0..<n]) p \<longleftrightarrow> range_bit buf p \<or> (p div 2 < n \<and> bit (f (p div 2)) (p mod 2))"
  using assms
proof (induction n)
  case (Suc n)
  then have "n * 2 div 8 < length (foldl (put_field 2 0 (\<lambda>i. f i AND 0x03)) buf [0..<n])" by simp
  from range_bit_put2 [OF this] Suc show ?case by (auto simp: less_Suc_eq)
qed simp

lemma AppendPackedBinary_fields:
  "AppendPackedBinary dst values =
     dst @ foldl (put_field 1 0 (\<lambda>i. of_bool (values ! i))) (replicate ((length values + 7) div 8) 0) [0..<length values]"
proof -
  have step: "(\<lambda>dst i. if values ! i then dst[start + i div 8 := dst ! (start + i div 8) OR push_bit (i mod 8) 1] else dst) =
      put_field 1 start (\<lambda>i. of_bool (values ! i))" for start
    by (intro ext) (simp add: put_field_def)
  have n: "nat (PackedOctets (int (length values)) 1) = (length values + 7) div 8" if "values \<noteq> []"
    using that by (simp add: PackedOctets_def nat_div_distrib nat_add_distrib)
  show ?thesis
    by (cases "values = []") (simp_all add: AppendPackedBinary_def step n Let_def fold_put_field_append)
qed

lemma AppendPackedDoubleBit_fields:
  "AppendPackedDoubleBit dst values =
     dst @ foldl (put_field 2 0 (\<lambda>i. values ! i AND 0x03)) (replicate ((length values * 2 + 7) div 8) 0) [0..<length values]"
proof -
  have step: "(\<lambda>dst i. let pair = i * 2
        in dst[start + pair div 8 := dst ! (start + pair div 8) OR push_bit (pair mod 8) (values ! i AND 0x03)]) =
      put_field 2 start (\<lambda>i. values ! i AND 0x03)" for start
    by (intro ext) (simp add: put_field_def Let_def)
  have n: "nat (PackedOctets (int (length values)) 2) = (length values * 2 + 7) div 8" if "values \<noteq> []"
    using that by (simp add: PackedOctets_def nat_div_distrib nat_add_distrib nat_mult_distrib)
  show ?thesis
  proof (cases "values = []")
    case False
    then show ?thesis unfolding AppendPackedDoubleBit_def step Let_def [of "length dst"] Let_def [of "dst @ _"] n [OF False]
      by (simp add: fold_put_field_append)
  qed (simp add: AppendPackedDoubleBit_def)
qed

lemma bit_0x03: "bit (0x03 :: byte) n \<longleftrightarrow> n < 2"
  using bit_mask_iff [where 'a = "8 word", of 2 n] by (auto simp: mask_eq_exp_minus_1)

lemma bit_and_0x03: "bit (w AND 0x03) n \<longleftrightarrow> n < 2 \<and> bit (w :: byte) n"
  unfolding bit_and_iff bit_0x03 by blast

lemma and_push_bit_1: "w AND push_bit n 1 \<noteq> 0 \<longleftrightarrow> bit (w :: byte) n"
  using and_exp_eq_0_iff_not_bit [of w n] by (simp add: push_bit_eq_mult)

lemma bitAt_range: "i div 8 < length buf \<Longrightarrow> bitAt (buf @ rest) i = range_bit buf i"
  using and_push_bit_1 [of "buf ! (i div 8)" "i mod 8"] by (simp add: bitAt_def range_bit_def nth_append)

lemma packed_bit:
  assumes "i < length values"
  shows "bitAt ((foldl (put_field 1 0 (\<lambda>i. of_bool (values ! i))) (replicate ((length values + 7) div 8) 0) [0..<length values]) @ rest) i = values ! i"
proof -
  let ?b = "foldl (put_field 1 0 (\<lambda>i. of_bool (values ! i))) (replicate ((length values + 7) div 8) 0) [0..<length values]"
  have "i div 8 < length ?b" using assms by simp
  from bitAt_range [OF this] have "bitAt (?b @ rest) i = range_bit ?b i" by simp
  also have "\<dots> = values ! i"
    using range_bit_fold1 [of "length values" "replicate ((length values + 7) div 8) 0" "\<lambda>i. values ! i" i]
      range_bit_zero [of i "(length values + 7) div 8"] assms by simp
  finally show ?thesis .
qed

lemma packed_pair:
  assumes "i < length pairs"
  shows "drop_bit (i * 2 mod 8) (((foldl (put_field 2 0 (\<lambda>i. pairs ! i AND 0x03)) (replicate ((length pairs * 2 + 7) div 8) 0) [0..<length pairs]) @ rest) ! (i * 2 div 8)) AND 0x03 =
      pairs ! i AND 0x03"
    and "i * 2 div 8 < length ((foldl (put_field 2 0 (\<lambda>i. pairs ! i AND 0x03)) (replicate ((length pairs * 2 + 7) div 8) 0) [0..<length pairs]) @ rest)"
proof -
  let ?d = "foldl (put_field 2 0 (\<lambda>i. pairs ! i AND 0x03)) (replicate ((length pairs * 2 + 7) div 8) 0) [0..<length pairs]"
  have len: "i * 2 div 8 < length ?d" using assms by simp
  then show "i * 2 div 8 < length (?d @ rest)" by simp
  have b: "range_bit ?d (i * 2 + n) = bit (pairs ! i) n" if "n < 2" for n
    using range_bit_fold2 [of "length pairs" "replicate ((length pairs * 2 + 7) div 8) 0" "\<lambda>i. pairs ! i" "i * 2 + n"]
      range_bit_zero [of "i * 2 + n" "(length pairs * 2 + 7) div 8"] assms that by simp
  have place: "(i * 2 + n) div 8 = i * 2 div 8" "(i * 2 + n) mod 8 = i * 2 mod 8 + n" if "n < 2" for n
    using that same_place2 [of i "i * 2 + n"] same_place2_offset [of "i * 2 + n" i] by auto
  have "bit (?d ! (i * 2 div 8)) (i * 2 mod 8 + n) = bit (pairs ! i) n" if "n < 2" for n
    using b [OF that] place [OF that] by (simp add: range_bit_def)
  then show "drop_bit (i * 2 mod 8) ((?d @ rest) ! (i * 2 div 8)) AND 0x03 = pairs ! i AND 0x03"
    using len by (intro bit_word_eqI, unfold bit_and_0x03) (auto simp: bit_drop_bit_eq nth_append)
qed

text \<open>
  Packed objects survive the wire. Appending a range of single-bit values leaves what was there
  before, adds exactly the octets such a range occupies, and the range is read back as those
  values, online and without a time, whatever follows it; and likewise for two-bit values.
\<close>

theorem packed_roundtrip:
  "take (length dst) (AppendPackedBinary dst values) = dst \<and>
   int (length (AppendPackedBinary dst values)) = int (length dst) + PackedOctets (int (length values)) 1 \<and>
   ParsePackedBinary (drop (length dst) (AppendPackedBinary dst values) @ rest) (length values) out =
     out @ map (\<lambda>v. \<lparr>MValue = v, MFlags = Online, MTime = NoTime\<rparr>) values \<and>
   take (length dst) (AppendPackedDoubleBit dst pairs) = dst \<and>
   int (length (AppendPackedDoubleBit dst pairs)) = int (length dst) + PackedOctets (int (length pairs)) 2 \<and>
   ParsePackedDoubleBit (drop (length dst) (AppendPackedDoubleBit dst pairs) @ rest) (length pairs) out' =
     out' @ map (\<lambda>v. \<lparr>MValue = v AND 0x03, MFlags = Online, MTime = NoTime\<rparr>) pairs"
proof -
  let ?b = "foldl (put_field 1 0 (\<lambda>i. of_bool (values ! i))) (replicate ((length values + 7) div 8) 0) [0..<length values]"
  let ?d = "foldl (put_field 2 0 (\<lambda>i. pairs ! i AND 0x03)) (replicate ((length pairs * 2 + 7) div 8) 0) [0..<length pairs]"
  have "ParsePackedBinary (?b @ rest) (length values) out = out @ map (\<lambda>v. \<lparr>MValue = v, MFlags = Online, MTime = NoTime\<rparr>) values"
    unfolding ParsePackedBinary_def foldl_snoc_map by (rule arg_cong2 [where f = append]) (auto intro!: nth_equalityI simp: packed_bit simp del: One_nat_def)
  moreover have "ParsePackedDoubleBit (?d @ rest) (length pairs) out' =
      out' @ map (\<lambda>v. \<lparr>MValue = v AND 0x03, MFlags = Online, MTime = NoTime\<rparr>) pairs"
    unfolding ParsePackedDoubleBit_def Let_def foldl_snoc_map
    by (rule arg_cong2 [where f = append], rule refl, rule nth_equalityI) (use packed_pair in \<open>simp_all del: length_append\<close>)
  ultimately show ?thesis
    by (simp add: AppendPackedBinary_fields AppendPackedDoubleBit_fields PackedOctets_def zdiv_int)
qed

end
