(* ===== verification/Obj_Codecs.thy ===== *)
theory Obj_Codecs
  imports Obj_Base
begin

text \<open>
  The codecs of the measurement objects (\<^verbatim>\<open>objects/zz_generated_codecs.go\<close>): for every group and
  variation its decoder and its encoder, and per measurement type the table that holds them.
  The lemmas show that each codec keeps exactly what the descriptor of its variation says it
  carries, in exactly as many octets.
\<close>

section \<open>Binary\<close>

definition parseG1V2 :: "byte list \<Rightarrow> decode_context \<Rightarrow> Binary" where
  "parseG1V2 buf ctx = \<lparr>MValue = buf ! 0 AND 0x80 \<noteq> 0, MFlags = buf ! 0, MTime = NoTime\<rparr>"

definition writeG1V2 :: "byte list \<Rightarrow> Binary \<Rightarrow> decode_context \<Rightarrow> byte list" where
  "writeG1V2 dst v ctx =
     (let flags = MFlags v AND NOT StateBit; flags = (if MValue v then flags OR StateBit else flags)
      in dst @ [flags])"

definition parseG2V1 :: "byte list \<Rightarrow> decode_context \<Rightarrow> Binary" where
  "parseG2V1 buf ctx = \<lparr>MValue = buf ! 0 AND 0x80 \<noteq> 0, MFlags = buf ! 0, MTime = NoTime\<rparr>"

definition writeG2V1 :: "byte list \<Rightarrow> Binary \<Rightarrow> decode_context \<Rightarrow> byte list" where
  "writeG2V1 dst v ctx =
     (let flags = MFlags v AND NOT StateBit; flags = (if MValue v then flags OR StateBit else flags)
      in dst @ [flags])"

definition parseG2V2 :: "byte list \<Rightarrow> decode_context \<Rightarrow> Binary" where
  "parseG2V2 buf ctx = \<lparr>MValue = buf ! 0 AND 0x80 \<noteq> 0, MFlags = buf ! 0, MTime = \<lparr>TTime = DNP3ToTime (readTime48 (drop 1 buf)), TQuality = TimeQuality ctx\<rparr>\<rparr>"

definition writeG2V2 :: "byte list \<Rightarrow> Binary \<Rightarrow> decode_context \<Rightarrow> byte list" where
  "writeG2V2 dst v ctx =
     (let flags = MFlags v AND NOT StateBit; flags = (if MValue v then flags OR StateBit else flags)
      in dst @ [flags] @ put48 (TimeToDNP3 (TTime (MTime v))))"

definition parseG2V3 :: "byte list \<Rightarrow> decode_context \<Rightarrow> Binary" where
  "parseG2V3 buf ctx = \<lparr>MValue = buf ! 0 AND 0x80 \<noteq> 0, MFlags = buf ! 0, MTime = RelativeTime ctx (get16 (subslice buf 1 3))\<rparr>"

definition writeG2V3 :: "byte list \<Rightarrow> Binary \<Rightarrow> decode_context \<Rightarrow> byte list" where
  "writeG2V3 dst v ctx =
     (let flags = MFlags v AND NOT StateBit; flags = (if MValue v then flags OR StateBit else flags)
      in dst @ [flags] @ put16 (RelativeOffset ctx (MTime v)))"

definition binaryCodecs :: "(GroupVar \<times> Binary codec) list" where
  "binaryCodecs =
    [((1, 2), \<lparr>Parse = parseG1V2, Write = writeG1V2\<rparr>),
     ((2, 1), \<lparr>Parse = parseG2V1, Write = writeG2V1\<rparr>),
     ((2, 2), \<lparr>Parse = parseG2V2, Write = writeG2V2\<rparr>),
     ((2, 3), \<lparr>Parse = parseG2V3, Write = writeG2V3\<rparr>)]"

section \<open>DoubleBitBinary\<close>

definition parseG3V2 :: "byte list \<Rightarrow> decode_context \<Rightarrow> DoubleBitBinary" where
  "parseG3V2 buf ctx = \<lparr>MValue = drop_bit 6 (buf ! 0), MFlags = buf ! 0, MTime = NoTime\<rparr>"

definition writeG3V2 :: "byte list \<Rightarrow> DoubleBitBinary \<Rightarrow> decode_context \<Rightarrow> byte list" where
  "writeG3V2 dst v ctx = dst @ [MFlags v AND 0x3F OR push_bit 6 (MValue v AND 0x03)]"

definition parseG4V1 :: "byte list \<Rightarrow> decode_context \<Rightarrow> DoubleBitBinary" where
  "parseG4V1 buf ctx = \<lparr>MValue = drop_bit 6 (buf ! 0), MFlags = buf ! 0, MTime = NoTime\<rparr>"

definition writeG4V1 :: "byte list \<Rightarrow> DoubleBitBinary \<Rightarrow> decode_context \<Rightarrow> byte list" where
  "writeG4V1 dst v ctx = dst @ [MFlags v AND 0x3F OR push_bit 6 (MValue v AND 0x03)]"

definition parseG4V2 :: "byte list \<Rightarrow> decode_context \<Rightarrow> DoubleBitBinary" where
  "parseG4V2 buf ctx = \<lparr>MValue = drop_bit 6 (buf ! 0), MFlags = buf ! 0, MTime = \<lparr>TTime = DNP3ToTime (readTime48 (drop 1 buf)), TQuality = TimeQuality ctx\<rparr>\<rparr>"

definition writeG4V2 :: "byte list \<Rightarrow> DoubleBitBinary \<Rightarrow> decode_context \<Rightarrow> byte list" where
  "writeG4V2 dst v ctx = dst @ [MFlags v AND 0x3F OR push_bit 6 (MValue v AND 0x03)] @ put48 (TimeToDNP3 (TTime (MTime v)))"

definition parseG4V3 :: "byte list \<Rightarrow> decode_context \<Rightarrow> DoubleBitBinary" where
  "parseG4V3 buf ctx = \<lparr>MValue = drop_bit 6 (buf ! 0), MFlags = buf ! 0, MTime = RelativeTime ctx (get16 (subslice buf 1 3))\<rparr>"

definition writeG4V3 :: "byte list \<Rightarrow> DoubleBitBinary \<Rightarrow> decode_context \<Rightarrow> byte list" where
  "writeG4V3 dst v ctx = dst @ [MFlags v AND 0x3F OR push_bit 6 (MValue v AND 0x03)] @ put16 (RelativeOffset ctx (MTime v))"

definition doublebitCodecs :: "(GroupVar \<times> DoubleBitBinary codec) list" where
  "doublebitCodecs =
    [((3, 2), \<lparr>Parse = parseG3V2, Write = writeG3V2\<rparr>),
     ((4, 1), \<lparr>Parse = parseG4V1, Write = writeG4V1\<rparr>),
     ((4, 2), \<lparr>Parse = parseG4V2, Write = writeG4V2\<rparr>),
     ((4, 3), \<lparr>Parse = parseG4V3, Write = writeG4V3\<rparr>)]"

section \<open>Counter\<close>

definition parseG20V1 :: "byte list \<Rightarrow> decode_context \<Rightarrow> Counter" where
  "parseG20V1 buf ctx = \<lparr>MValue = get32 (subslice buf 1 5), MFlags = buf ! 0, MTime = NoTime\<rparr>"

definition writeG20V1 :: "byte list \<Rightarrow> Counter \<Rightarrow> decode_context \<Rightarrow> byte list" where
  "writeG20V1 dst v ctx = dst @ [MFlags v] @ put32 (MValue v)"

definition parseG20V2 :: "byte list \<Rightarrow> decode_context \<Rightarrow> Counter" where
  "parseG20V2 buf ctx = \<lparr>MValue = ucast (get16 (subslice buf 1 3)), MFlags = buf ! 0, MTime = NoTime\<rparr>"

definition writeG20V2 :: "byte list \<Rightarrow> Counter \<Rightarrow> decode_context \<Rightarrow> byte list" where
  "writeG20V2 dst v ctx = dst @ [MFlags v] @ put16 (ucast (MValue v))"

definition parseG20V5 :: "byte list \<Rightarrow> decode_context \<Rightarrow> Counter" where
  "parseG20V5 buf ctx = \<lparr>MValue = get32 (subslice buf 0 4), MFlags = Online, MTime = NoTime\<rparr>"

definition writeG20V5 :: "byte list \<Rightarrow> Counter \<Rightarrow> decode_context \<Rightarrow> byte list" where
  "writeG20V5 dst v ctx = dst @ put32 (MValue v)"

definition parseG20V6 :: "byte list \<Rightarrow> decode_context \<Rightarrow> Counter" where
  "parseG20V6 buf ctx = \<lparr>MValue = ucast (get16 (subslice buf 0 2)), MFlags = Online, MTime = NoTime\<rparr>"

definition writeG20V6 :: "byte list \<Rightarrow> Counter \<Rightarrow> decode_context \<Rightarrow> byte list" where
  "writeG20V6 dst v ctx = dst @ put16 (ucast (MValue v))"

definition parseG22V1 :: "byte list \<Rightarrow> decode_context \<Rightarrow> Counter" where
  "parseG22V1 buf ctx = \<lparr>MValue = get32 (subslice buf 1 5), MFlags = buf ! 0, MTime = NoTime\<rparr>"

definition writeG22V1 :: "byte list \<Rightarrow> Counter \<Rightarrow> decode_context \<Rightarrow> byte list" where
  "writeG22V1 dst v ctx = dst @ [MFlags v] @ put32 (MValue v)"

definition parseG22V2 :: "byte list \<Rightarrow> decode_context \<Rightarrow> Counter" where
  "parseG22V2 buf ctx = \<lparr>MValue = ucast (get16 (subslice buf 1 3)), MFlags = buf ! 0, MTime = NoTime\<rparr>"

definition writeG22V2 :: "byte list \<Rightarrow> Counter \<Rightarrow> decode_context \<Rightarrow> byte list" where
  "writeG22V2 dst v ctx = dst @ [MFlags v] @ put16 (ucast (MValue v))"

definition parseG22V5 :: "byte list \<Rightarrow> decode_context \<Rightarrow> Counter" where
  "parseG22V5 buf ctx = \<lparr>MValue = get32 (subslice buf 1 5), MFlags = buf ! 0, MTime = \<lparr>TTime = DNP3ToTime (readTime48 (drop 5 buf)), TQuality = TimeQuality ctx\<rparr>\<rparr>"

definition writeG22V5 :: "byte list \<Rightarrow> Counter \<Rightarrow> decode_context \<Rightarrow> byte list" where
  "writeG22V5 dst v ctx = dst @ [MFlags v] @ put32 (MValue v) @ put48 (TimeToDNP3 (TTime (MTime v)))"

definition parseG22V6 :: "byte list \<Rightarrow> decode_context \<Rightarrow> Counter" where
  "parseG22V6 buf ctx = \<lparr>MValue = ucast (get16 (subslice buf 1 3)), MFlags = buf ! 0, MTime = \<lparr>TTime = DNP3ToTime (readTime48 (drop 3 buf)), TQuality = TimeQuality ctx\<rparr>\<rparr>"

definition writeG22V6 :: "byte list \<Rightarrow> Counter \<Rightarrow> decode_context \<Rightarrow> byte list" where
  "writeG22V6 dst v ctx = dst @ [MFlags v] @ put16 (ucast (MValue v)) @ put48 (TimeToDNP3 (TTime (MTime v)))"

definition counterCodecs :: "(GroupVar \<times> Counter codec) list" where
  "counterCodecs =
    [((20, 1), \<lparr>Parse = parseG20V1, Write = writeG20V1\<rparr>),
     ((20, 2), \<lparr>Parse = parseG20V2, Write = writeG20V2\<rparr>),
     ((20, 5), \<lparr>Parse = parseG20V5, Write = writeG20V5\<rparr>),
     ((20, 6), \<lparr>Parse = parseG20V6, Write = writeG20V6\<rparr>),
     ((22, 1), \<lparr>Parse = parseG22V1, Write = writeG22V1\<rparr>),
     ((22, 2), \<lparr>Parse = parseG22V2, Write = writeG22V2\<rparr>),
     ((22, 5), \<lparr>Parse = parseG22V5, Write = writeG22V5\<rparr>),
     ((22, 6), \<lparr>Parse = parseG22V6, Write = writeG22V6\<rparr>)]"

section \<open>FrozenCounter\<close>

definition parseG21V1 :: "byte list \<Rightarrow> decode_context \<Rightarrow> FrozenCounter" where
  "parseG21V1 buf ctx = \<lparr>MValue = get32 (subslice buf 1 5), MFlags = buf ! 0, MTime = NoTime\<rparr>"

definition writeG21V1 :: "byte list \<Rightarrow> FrozenCounter \<Rightarrow> decode_context \<Rightarrow> byte list" where
  "writeG21V1 dst v ctx = dst @ [MFlags v] @ put32 (MValue v)"

definition parseG21V2 :: "byte list \<Rightarrow> decode_context \<Rightarrow> FrozenCounter" where
  "parseG21V2 buf ctx = \<lparr>MValue = ucast (get16 (subslice buf 1 3)), MFlags = buf ! 0, MTime = NoTime\<rparr>"

definition writeG21V2 :: "byte list \<Rightarrow> FrozenCounter \<Rightarrow> decode_context \<Rightarrow> byte list" where
  "writeG21V2 dst v ctx = dst @ [MFlags v] @ put16 (ucast (MValue v))"

definition parseG21V5 :: "byte list \<Rightarrow> decode_context \<Rightarrow> FrozenCounter" where
  "parseG21V5 buf ctx = \<lparr>MValue = get32 (subslice buf 1 5), MFlags = buf ! 0, MTime = \<lparr>TTime = DNP3ToTime (readTime48 (drop 5 buf)), TQuality = TimeQuality ctx\<rparr>\<rparr>"

definition writeG21V5 :: "byte list \<Rightarrow> FrozenCounter \<Rightarrow> decode_context \<Rightarrow> byte list" where
  "writeG21V5 dst v ctx = dst @ [MFlags v] @ put32 (MValue v) @ put48 (TimeToDNP3 (TTime (MTime v)))"

definition parseG21V6 :: "byte list \<Rightarrow> decode_context \<Rightarrow> FrozenCounter" where
  "parseG21V6 buf ctx = \<lparr>MValue = ucast (get16 (subslice buf 1 3)), MFlags = buf ! 0, MTime = \<lparr>TTime = DNP3ToTime (readTime48 (drop 3 buf)), TQuality = TimeQuality ctx\<rparr>\<rparr>"

definition writeG21V6 :: "byte list \<Rightarrow> FrozenCounter \<Rightarrow> decode_context \<Rightarrow> byte list" where
  "writeG21V6 dst v ctx = dst @ [MFlags v] @ put16 (ucast (MValue v)) @ put48 (TimeToDNP3 (TTime (MTime v)))"

definition parseG21V9 :: "byte list \<Rightarrow> decode_context \<Rightarrow> FrozenCounter" where
  "parseG21V9 buf ctx = \<lparr>MValue = get32 (subslice buf 0 4), MFlags = Online, MTime = NoTime\<rparr>"

definition writeG21V9 :: "byte list \<Rightarrow> FrozenCounter \<Rightarrow> decode_context \<Rightarrow> byte list" where
  "writeG21V9 dst v ctx = dst @ put32 (MValue v)"

definition parseG21V10 :: "byte list \<Rightarrow> decode_context \<Rightarrow> FrozenCounter" where
  "parseG21V10 buf ctx = \<lparr>MValue = ucast (get16 (subslice buf 0 2)), MFlags = Online, MTime = NoTime\<rparr>"

definition writeG21V10 :: "byte list \<Rightarrow> FrozenCounter \<Rightarrow> decode_context \<Rightarrow> byte list" where
  "writeG21V10 dst v ctx = dst @ put16 (ucast (MValue v))"

definition parseG23V1 :: "byte list \<Rightarrow> decode_context \<Rightarrow> FrozenCounter" where
  "parseG23V1 buf ctx = \<lparr>MValue = get32 (subslice buf 1 5), MFlags = buf ! 0, MTime = NoTime\<rparr>"

definition writeG23V1 :: "byte list \<Rightarrow> FrozenCounter \<Rightarrow> decode_context \<Rightarrow> byte list" where
  "writeG23V1 dst v ctx = dst @ [MFlags v] @ put32 (MValue v)"

definition parseG23V2 :: "byte list \<Rightarrow> decode_context \<Rightarrow> FrozenCounter" where
  "parseG23V2 buf ctx = \<lparr>MValue = ucast (get16 (subslice buf 1 3)), MFlags = buf ! 0, MTime = NoTime\<rparr>"

definition writeG23V2 :: "byte list \<Rightarrow> FrozenCounter \<Rightarrow> decode_context \<Rightarrow> byte list" where
  "writeG23V2 dst v ctx = dst @ [MFlags v] @ put16 (ucast (MValue v))"

definition parseG23V5 :: "byte list \<Rightarrow> decode_context \<Rightarrow> FrozenCounter" where
  "parseG23V5 buf ctx = \<lparr>MValue = get32 (subslice buf 1 5), MFlags = buf ! 0, MTime = \<lparr>TTime = DNP3ToTime (readTime48 (drop 5 buf)), TQuality = TimeQuality ctx\<rparr>\<rparr>"

definition writeG23V5 :: "byte list \<Rightarrow> FrozenCounter \<Rightarrow> decode_context \<Rightarrow> byte list" where
  "writeG23V5 dst v ctx = dst @ [MFlags v] @ put32 (MValue v) @ put48 (TimeToDNP3 (TTime (MTime v)))"

definition parseG23V6 :: "byte list \<Rightarrow> decode_context \<Rightarrow> FrozenCounter" where
  "parseG23V6 buf ctx = \<lparr>MValue = ucast (get16 (subslice buf 1 3)), MFlags = buf ! 0, MTime = \<lparr>TTime = DNP3ToTime (readTime48 (drop 3 buf)), TQuality = TimeQuality ctx\<rparr>\<rparr>"

definition writeG23V6 :: "byte list \<Rightarrow> FrozenCounter \<Rightarrow> decode_context \<Rightarrow> byte list" where
  "writeG23V6 dst v ctx = dst @ [MFlags v] @ put16 (ucast (MValue v)) @ put48 (TimeToDNP3 (TTime (MTime v)))"

definition frozencounterCodecs :: "(GroupVar \<times> FrozenCounter codec) list" where
  "frozencounterCodecs =
    [((21, 1), \<lparr>Parse = parseG21V1, Write = writeG21V1\<rparr>),
     ((21, 2), \<lparr>Parse = parseG21V2, Write = writeG21V2\<rparr>),
     ((21, 5), \<lparr>Parse = parseG21V5, Write = writeG21V5\<rparr>),
     ((21, 6), \<lparr>Parse = parseG21V6, Write = writeG21V6\<rparr>),
     ((21, 9), \<lparr>Parse = parseG21V9, Write = writeG21V9\<rparr>),
     ((21, 10), \<lparr>Parse = parseG21V10, Write = writeG21V10\<rparr>),
     ((23, 1), \<lparr>Parse = parseG23V1, Write = writeG23V1\<rparr>),
     ((23, 2), \<lparr>Parse = parseG23V2, Write = writeG23V2\<rparr>),
     ((23, 5), \<lparr>Parse = parseG23V5, Write = writeG23V5\<rparr>),
     ((23, 6), \<lparr>Parse = parseG23V6, Write = writeG23V6\<rparr>)]"

section \<open>Analog\<close>

definition parseG30V1 :: "byte list \<Rightarrow> decode_context \<Rightarrow> Analog" where
  "parseG30V1 buf ctx = \<lparr>MValue = f64_of_int (sint (get32 (subslice buf 1 5))), MFlags = buf ! 0, MTime = NoTime\<rparr>"

definition writeG30V1 :: "byte list \<Rightarrow> Analog \<Rightarrow> decode_context \<Rightarrow> byte list" where
  "writeG30V1 dst v ctx =
     (let (n, over) = clampInt32 (MValue v); flags = (if over then MFlags v OR OverRange else MFlags v)
      in dst @ [flags] @ put32 n)"

definition parseG30V2 :: "byte list \<Rightarrow> decode_context \<Rightarrow> Analog" where
  "parseG30V2 buf ctx = \<lparr>MValue = f64_of_int (sint (get16 (subslice buf 1 3))), MFlags = buf ! 0, MTime = NoTime\<rparr>"

definition writeG30V2 :: "byte list \<Rightarrow> Analog \<Rightarrow> decode_context \<Rightarrow> byte list" where
  "writeG30V2 dst v ctx =
     (let (n, over) = clampInt16 (MValue v); flags = (if over then MFlags v OR OverRange else MFlags v)
      in dst @ [flags] @ put16 n)"

definition parseG30V3 :: "byte list \<Rightarrow> decode_context \<Rightarrow> Analog" where
  "parseG30V3 buf ctx = \<lparr>MValue = f64_of_int (sint (get32 (subslice buf 0 4))), MFlags = Online, MTime = NoTime\<rparr>"

definition writeG30V3 :: "byte list \<Rightarrow> Analog \<Rightarrow> decode_context \<Rightarrow> byte list" where
  "writeG30V3 dst v ctx =
     (let (n, over) = clampInt32 (MValue v)
      in dst @ put32 n)"

definition parseG30V4 :: "byte list \<Rightarrow> decode_context \<Rightarrow> Analog" where
  "parseG30V4 buf ctx = \<lparr>MValue = f64_of_int (sint (get16 (subslice buf 0 2))), MFlags = Online, MTime = NoTime\<rparr>"

definition writeG30V4 :: "byte list \<Rightarrow> Analog \<Rightarrow> decode_context \<Rightarrow> byte list" where
  "writeG30V4 dst v ctx =
     (let (n, over) = clampInt16 (MValue v)
      in dst @ put16 n)"

definition parseG30V5 :: "byte list \<Rightarrow> decode_context \<Rightarrow> Analog" where
  "parseG30V5 buf ctx = \<lparr>MValue = f64_of_f32 (get32 (subslice buf 1 5)), MFlags = buf ! 0, MTime = NoTime\<rparr>"

definition writeG30V5 :: "byte list \<Rightarrow> Analog \<Rightarrow> decode_context \<Rightarrow> byte list" where
  "writeG30V5 dst v ctx = dst @ [MFlags v] @ put32 (f32_of_f64 (MValue v))"

definition parseG30V6 :: "byte list \<Rightarrow> decode_context \<Rightarrow> Analog" where
  "parseG30V6 buf ctx = \<lparr>MValue = get64 (subslice buf 1 9), MFlags = buf ! 0, MTime = NoTime\<rparr>"

definition writeG30V6 :: "byte list \<Rightarrow> Analog \<Rightarrow> decode_context \<Rightarrow> byte list" where
  "writeG30V6 dst v ctx = dst @ [MFlags v] @ put64 (MValue v)"

definition parseG31V1 :: "byte list \<Rightarrow> decode_context \<Rightarrow> Analog" where
  "parseG31V1 buf ctx = \<lparr>MValue = f64_of_int (sint (get32 (subslice buf 1 5))), MFlags = buf ! 0, MTime = NoTime\<rparr>"

definition writeG31V1 :: "byte list \<Rightarrow> Analog \<Rightarrow> decode_context \<Rightarrow> byte list" where
  "writeG31V1 dst v ctx =
     (let (n, over) = clampInt32 (MValue v); flags = (if over then MFlags v OR OverRange else MFlags v)
      in dst @ [flags] @ put32 n)"

definition parseG31V2 :: "byte list \<Rightarrow> decode_context \<Rightarrow> Analog" where
  "parseG31V2 buf ctx = \<lparr>MValue = f64_of_int (sint (get16 (subslice buf 1 3))), MFlags = buf ! 0, MTime = NoTime\<rparr>"

definition writeG31V2 :: "byte list \<Rightarrow> Analog \<Rightarrow> decode_context \<Rightarrow> byte list" where
  "writeG31V2 dst v ctx =
     (let (n, over) = clampInt16 (MValue v); flags = (if over then MFlags v OR OverRange else MFlags v)
      in dst @ [flags] @ put16 n)"

definition parseG31V3 :: "byte list \<Rightarrow> decode_context \<Rightarrow> Analog" where
  "parseG31V3 buf ctx = \<lparr>MValue = f64_of_int (sint (get32 (subslice buf 1 5))), MFlags = buf ! 0, MTime = \<lparr>TTime = DNP3ToTime (readTime48 (drop 5 buf)), TQuality = TimeQuality ctx\<rparr>\<rparr>"

definition writeG31V3 :: "byte list \<Rightarrow> Analog \<Rightarrow> decode_context \<Rightarrow> byte list" where
  "writeG31V3 dst v ctx =
     (let (n, over) = clampInt32 (MValue v); flags = (if over then MFlags v OR OverRange else MFlags v)
      in dst @ [flags] @ put32 n @ put48 (TimeToDNP3 (TTime (MTime v))))"

definition parseG31V4 :: "byte list \<Rightarrow> decode_context \<Rightarrow> Analog" where
  "parseG31V4 buf ctx = \<lparr>MValue = f64_of_int (sint (get16 (subslice buf 1 3))), MFlags = buf ! 0, MTime = \<lparr>TTime = DNP3ToTime (readTime48 (drop 3 buf)), TQuality = TimeQuality ctx\<rparr>\<rparr>"

definition writeG31V4 :: "byte list \<Rightarrow> Analog \<Rightarrow> decode_context \<Rightarrow> byte list" where
  "writeG31V4 dst v ctx =
     (let (n, over) = clampInt16 (MValue v); flags = (if over then MFlags v OR OverRange else MFlags v)
      in dst @ [flags] @ put16 n @ put48 (TimeToDNP3 (TTime (MTime v))))"

definition parseG31V5 :: "byte list \<Rightarrow> decode_context \<Rightarrow> Analog" where
  "parseG31V5 buf ctx = \<lparr>MValue = f64_of_int (sint (get32 (subslice buf 0 4))), MFlags = Online, MTime = NoTime\<rparr>"

definition writeG31V5 :: "byte list \<Rightarrow> Analog \<Rightarrow> decode_context \<Rightarrow> byte list" where
  "writeG31V5 dst v ctx =
     (let (n, over) = clampInt32 (MValue v)
      in dst @ put32 n)"

definition parseG31V6 :: "byte list \<Rightarrow> decode_context \<Rightarrow> Analog" where
  "parseG31V6 buf ctx = \<lparr>MValue = f64_of_int (sint (get16 (subslice buf 0 2))), MFlags = Online, MTime = NoTime\<rparr>"

definition writeG31V6 :: "byte list \<Rightarrow> Analog \<Rightarrow> decode_context \<Rightarrow> byte list" where
  "writeG31V6 dst v ctx =
     (let (n, over) = clampInt16 (MValue v)
      in dst @ put16 n)"

definition parseG31V7 :: "byte list \<Rightarrow> decode_context \<Rightarrow> Analog" where
  "parseG31V7 buf ctx = \<lparr>MValue = f64_of_f32 (get32 (subslice buf 1 5)), MFlags = buf ! 0, MTime = NoTime\<rparr>"

definition writeG31V7 :: "byte list \<Rightarrow> Analog \<Rightarrow> decode_context \<Rightarrow> byte list" where
  "writeG31V7 dst v ctx = dst @ [MFlags v] @ put32 (f32_of_f64 (MValue v))"

definition parseG31V8 :: "byte list \<Rightarrow> decode_context \<Rightarrow> Analog" where
  "parseG31V8 buf ctx = \<lparr>MValue = get64 (subslice buf 1 9), MFlags = buf ! 0, MTime = NoTime\<rparr>"

definition writeG31V8 :: "byte list \<Rightarrow> Analog \<Rightarrow> decode_context \<Rightarrow> byte list" where
  "writeG31V8 dst v ctx = dst @ [MFlags v] @ put64 (MValue v)"

definition parseG32V1 :: "byte list \<Rightarrow> decode_context \<Rightarrow> Analog" where
  "parseG32V1 buf ctx = \<lparr>MValue = f64_of_int (sint (get32 (subslice buf 1 5))), MFlags = buf ! 0, MTime = NoTime\<rparr>"

definition writeG32V1 :: "byte list \<Rightarrow> Analog \<Rightarrow> decode_context \<Rightarrow> byte list" where
  "writeG32V1 dst v ctx =
     (let (n, over) = clampInt32 (MValue v); flags = (if over then MFlags v OR OverRange else MFlags v)
      in dst @ [flags] @ put32 n)"

definition parseG32V2 :: "byte list \<Rightarrow> decode_context \<Rightarrow> Analog" where
  "parseG32V2 buf ctx = \<lparr>MValue = f64_of_int (sint (get16 (subslice buf 1 3))), MFlags = buf ! 0, MTime = NoTime\<rparr>"

definition writeG32V2 :: "byte list \<Rightarrow> Analog \<Rightarrow> decode_context \<Rightarrow> byte list" where
  "writeG32V2 dst v ctx =
     (let (n, over) = clampInt16 (MValue v); flags = (if over then MFlags v OR OverRange else MFlags v)
      in dst @ [flags] @ put16 n)"

definition parseG32V3 :: "byte list \<Rightarrow> decode_context \<Rightarrow> Analog" where
  "parseG32V3 buf ctx = \<lparr>MValue = f64_of_int (sint (get32 (subslice buf 1 5))), MFlags = buf ! 0, MTime = \<lparr>TTime = DNP3ToTime (readTime48 (drop 5 buf)), TQuality = TimeQuality ctx\<rparr>\<rparr>"

definition writeG32V3 :: "byte list \<Rightarrow> Analog \<Rightarrow> decode_context \<Rightarrow> byte list" where
  "writeG32V3 dst v ctx =
     (let (n, over) = clampInt32 (MValue v); flags = (if over then MFlags v OR OverRange else MFlags v)
      in dst @ [flags] @ put32 n @ put48 (TimeToDNP3 (TTime (MTime v))))"

definition parseG32V4 :: "byte list \<Rightarrow> decode_context \<Rightarrow> Analog" where
  "parseG32V4 buf ctx = \<lparr>MValue = f64_of_int (sint (get16 (subslice buf 1 3))), MFlags = buf ! 0, MTime = \<lparr>TTime = DNP3ToTime (readTime48 (drop 3 buf)), TQuality = TimeQuality ctx\<rparr>\<rparr>"

definition writeG32V4 :: "byte list \<Rightarrow> Analog \<Rightarrow> decode_context \<Rightarrow> byte list" where
  "writeG32V4 dst v ctx =
     (let (n, over) = clampInt16 (MValue v); flags = (if over then MFlags v OR OverRange else MFlags v)
      in dst @ [flags] @ put16 n @ put48 (TimeToDNP3 (TTime (MTime v))))"

definition parseG32V5 :: "byte list \<Rightarrow> decode_context \<Rightarrow> Analog" where
  "parseG32V5 buf ctx = \<lparr>MValue = f64_of_f32 (get32 (subslice buf 1 5)), MFlags = buf ! 0, MTime = NoTime\<rparr>"

definition writeG32V5 :: "byte list \<Rightarrow> Analog \<Rightarrow> decode_context \<Rightarrow> byte list" where
  "writeG32V5 dst v ctx = dst @ [MFlags v] @ put32 (f32_of_f64 (MValue v))"

definition parseG32V6 :: "byte list \<Rightarrow> decode_context \<Rightarrow> Analog" where
  "parseG32V6 buf ctx = \<lparr>MValue = get64 (subslice buf 1 9), MFlags = buf ! 0, MTime = NoTime\<rparr>"

definition writeG32V6 :: "byte list \<Rightarrow> Analog \<Rightarrow> decode_context \<Rightarrow> byte list" where
  "writeG32V6 dst v ctx = dst @ [MFlags v] @ put64 (MValue v)"

definition parseG32V7 :: "byte list \<Rightarrow> decode_context \<Rightarrow> Analog" where
  "parseG32V7 buf ctx = \<lparr>MValue = f64_of_f32 (get32 (subslice buf 1 5)), MFlags = buf ! 0, MTime = \<lparr>TTime = DNP3ToTime (readTime48 (drop 5 buf)), TQuality = TimeQuality ctx\<rparr>\<rparr>"

definition writeG32V7 :: "byte list \<Rightarrow> Analog \<Rightarrow> decode_context \<Rightarrow> byte list" where
  "writeG32V7 dst v ctx = dst @ [MFlags v] @ put32 (f32_of_f64 (MValue v)) @ put48 (TimeToDNP3 (TTime (MTime v)))"

definition parseG32V8 :: "byte list \<Rightarrow> decode_context \<Rightarrow> Analog" where
  "parseG32V8 buf ctx = \<lparr>MValue = get64 (subslice buf 1 9), MFlags = buf ! 0, MTime = \<lparr>TTime = DNP3ToTime (readTime48 (drop 9 buf)), TQuality = TimeQuality ctx\<rparr>\<rparr>"

definition writeG32V8 :: "byte list \<Rightarrow> Analog \<Rightarrow> decode_context \<Rightarrow> byte list" where
  "writeG32V8 dst v ctx = dst @ [MFlags v] @ put64 (MValue v) @ put48 (TimeToDNP3 (TTime (MTime v)))"

definition parseG33V1 :: "byte list \<Rightarrow> decode_context \<Rightarrow> Analog" where
  "parseG33V1 buf ctx = \<lparr>MValue = f64_of_int (sint (get32 (subslice buf 1 5))), MFlags = buf ! 0, MTime = NoTime\<rparr>"

definition writeG33V1 :: "byte list \<Rightarrow> Analog \<Rightarrow> decode_context \<Rightarrow> byte list" where
  "writeG33V1 dst v ctx =
     (let (n, over) = clampInt32 (MValue v); flags = (if over then MFlags v OR OverRange else MFlags v)
      in dst @ [flags] @ put32 n)"

definition parseG33V2 :: "byte list \<Rightarrow> decode_context \<Rightarrow> Analog" where
  "parseG33V2 buf ctx = \<lparr>MValue = f64_of_int (sint (get16 (subslice buf 1 3))), MFlags = buf ! 0, MTime = NoTime\<rparr>"

definition writeG33V2 :: "byte list \<Rightarrow> Analog \<Rightarrow> decode_context \<Rightarrow> byte list" where
  "writeG33V2 dst v ctx =
     (let (n, over) = clampInt16 (MValue v); flags = (if over then MFlags v OR OverRange else MFlags v)
      in dst @ [flags] @ put16 n)"

definition parseG33V3 :: "byte list \<Rightarrow> decode_context \<Rightarrow> Analog" where
  "parseG33V3 buf ctx = \<lparr>MValue = f64_of_int (sint (get32 (subslice buf 1 5))), MFlags = buf ! 0, MTime = \<lparr>TTime = DNP3ToTime (readTime48 (drop 5 buf)), TQuality = TimeQuality ctx\<rparr>\<rparr>"

definition writeG33V3 :: "byte list \<Rightarrow> Analog \<Rightarrow> decode_context \<Rightarrow> byte list" where
  "writeG33V3 dst v ctx =
     (let (n, over) = clampInt32 (MValue v); flags = (if over then MFlags v OR OverRange else MFlags v)
      in dst @ [flags] @ put32 n @ put48 (TimeToDNP3 (TTime (MTime v))))"

definition parseG33V4 :: "byte list \<Rightarrow> decode_context \<Rightarrow> Analog" where
  "parseG33V4 buf ctx = \<lparr>MValue = f64_of_int (sint (get16 (subslice buf 1 3))), MFlags = buf ! 0, MTime = \<lparr>TTime = DNP3ToTime (readTime48 (drop 3 buf)), TQuality = TimeQuality ctx\<rparr>\<rparr>"

definition writeG33V4 :: "byte list \<Rightarrow> Analog \<Rightarrow> decode_context \<Rightarrow> byte list" where
  "writeG33V4 dst v ctx =
     (let (n, over) = clampInt16 (MValue v); flags = (if over then MFlags v OR OverRange else MFlags v)
      in dst @ [flags] @ put16 n @ put48 (TimeToDNP3 (TTime (MTime v))))"

definition parseG33V5 :: "byte list \<Rightarrow> decode_context \<Rightarrow> Analog" where
  "parseG33V5 buf ctx = \<lparr>MValue = f64_of_f32 (get32 (subslice buf 1 5)), MFlags = buf ! 0, MTime = NoTime\<rparr>"

definition writeG33V5 :: "byte list \<Rightarrow> Analog \<Rightarrow> decode_context \<Rightarrow> byte list" where
  "writeG33V5 dst v ctx = dst @ [MFlags v] @ put32 (f32_of_f64 (MValue v))"

definition parseG33V6 :: "byte list \<Rightarrow> decode_context \<Rightarrow> Analog" where
  "parseG33V6 buf ctx = \<lparr>MValue = get64 (subslice buf 1 9), MFlags = buf ! 0, MTime = NoTime\<rparr>"

definition writeG33V6 :: "byte list \<Rightarrow> Analog \<Rightarrow> decode_context \<Rightarrow> byte list" where
  "writeG33V6 dst v ctx = dst @ [MFlags v] @ put64 (MValue v)"

definition parseG33V7 :: "byte list \<Rightarrow> decode_context \<Rightarrow> Analog" where
  "parseG33V7 buf ctx = \<lparr>MValue = f64_of_f32 (get32 (subslice buf 1 5)), MFlags = buf ! 0, MTime = \<lparr>TTime = DNP3ToTime (readTime48 (drop 5 buf)), TQuality = TimeQuality ctx\<rparr>\<rparr>"

definition writeG33V7 :: "byte list \<Rightarrow> Analog \<Rightarrow> decode_context \<Rightarrow> byte list" where
  "writeG33V7 dst v ctx = dst @ [MFlags v] @ put32 (f32_of_f64 (MValue v)) @ put48 (TimeToDNP3 (TTime (MTime v)))"

definition parseG33V8 :: "byte list \<Rightarrow> decode_context \<Rightarrow> Analog" where
  "parseG33V8 buf ctx = \<lparr>MValue = get64 (subslice buf 1 9), MFlags = buf ! 0, MTime = \<lparr>TTime = DNP3ToTime (readTime48 (drop 9 buf)), TQuality = TimeQuality ctx\<rparr>\<rparr>"

definition writeG33V8 :: "byte list \<Rightarrow> Analog \<Rightarrow> decode_context \<Rightarrow> byte list" where
  "writeG33V8 dst v ctx = dst @ [MFlags v] @ put64 (MValue v) @ put48 (TimeToDNP3 (TTime (MTime v)))"

definition analogCodecs :: "(GroupVar \<times> Analog codec) list" where
  "analogCodecs =
    [((30, 1), \<lparr>Parse = parseG30V1, Write = writeG30V1\<rparr>),
     ((30, 2), \<lparr>Parse = parseG30V2, Write = writeG30V2\<rparr>),
     ((30, 3), \<lparr>Parse = parseG30V3, Write = writeG30V3\<rparr>),
     ((30, 4), \<lparr>Parse = parseG30V4, Write = writeG30V4\<rparr>),
     ((30, 5), \<lparr>Parse = parseG30V5, Write = writeG30V5\<rparr>),
     ((30, 6), \<lparr>Parse = parseG30V6, Write = writeG30V6\<rparr>),
     ((31, 1), \<lparr>Parse = parseG31V1, Write = writeG31V1\<rparr>),
     ((31, 2), \<lparr>Parse = parseG31V2, Write = writeG31V2\<rparr>),
     ((31, 3), \<lparr>Parse = parseG31V3, Write = writeG31V3\<rparr>),
     ((31, 4), \<lparr>Parse = parseG31V4, Write = writeG31V4\<rparr>),
     ((31, 5), \<lparr>Parse = parseG31V5, Write = writeG31V5\<rparr>),
     ((31, 6), \<lparr>Parse = parseG31V6, Write = writeG31V6\<rparr>),
     ((31, 7), \<lparr>Parse = parseG31V7, Write = writeG31V7\<rparr>),
     ((31, 8), \<lparr>Parse = parseG31V8, Write = writeG31V8\<rparr>),
     ((32, 1), \<lparr>Parse = parseG32V1, Write = writeG32V1\<rparr>),
     ((32, 2), \<lparr>Parse = parseG32V2, Write = writeG32V2\<rparr>),
     ((32, 3), \<lparr>Parse = parseG32V3, Write = writeG32V3\<rparr>),
     ((32, 4), \<lparr>Parse = parseG32V4, Write = writeG32V4\<rparr>),
     ((32, 5), \<lparr>Parse = parseG32V5, Write = writeG32V5\<rparr>),
     ((32, 6), \<lparr>Parse = parseG32V6, Write = writeG32V6\<rparr>),
     ((32, 7), \<lparr>Parse = parseG32V7, Write = writeG32V7\<rparr>),
     ((32, 8), \<lparr>Parse = parseG32V8, Write = writeG32V8\<rparr>),
     ((33, 1), \<lparr>Parse = parseG33V1, Write = writeG33V1\<rparr>),
     ((33, 2), \<lparr>Parse = parseG33V2, Write = writeG33V2\<rparr>),
     ((33, 3), \<lparr>Parse = parseG33V3, Write = writeG33V3\<rparr>),
     ((33, 4), \<lparr>Parse = parseG33V4, Write = writeG33V4\<rparr>),
     ((33, 5), \<lparr>Parse = parseG33V5, Write = writeG33V5\<rparr>),
     ((33, 6), \<lparr>Parse = parseG33V6, Write = writeG33V6\<rparr>),
     ((33, 7), \<lparr>Parse = parseG33V7, Write = writeG33V7\<rparr>),
     ((33, 8), \<lparr>Parse = parseG33V8, Write = writeG33V8\<rparr>)]"

section \<open>BinaryOutputStatus\<close>

definition parseG10V2 :: "byte list \<Rightarrow> decode_context \<Rightarrow> BinaryOutputStatus" where
  "parseG10V2 buf ctx = \<lparr>MValue = buf ! 0 AND 0x80 \<noteq> 0, MFlags = buf ! 0, MTime = NoTime\<rparr>"

definition writeG10V2 :: "byte list \<Rightarrow> BinaryOutputStatus \<Rightarrow> decode_context \<Rightarrow> byte list" where
  "writeG10V2 dst v ctx =
     (let flags = MFlags v AND NOT StateBit; flags = (if MValue v then flags OR StateBit else flags)
      in dst @ [flags])"

definition parseG11V1 :: "byte list \<Rightarrow> decode_context \<Rightarrow> BinaryOutputStatus" where
  "parseG11V1 buf ctx = \<lparr>MValue = buf ! 0 AND 0x80 \<noteq> 0, MFlags = buf ! 0, MTime = NoTime\<rparr>"

definition writeG11V1 :: "byte list \<Rightarrow> BinaryOutputStatus \<Rightarrow> decode_context \<Rightarrow> byte list" where
  "writeG11V1 dst v ctx =
     (let flags = MFlags v AND NOT StateBit; flags = (if MValue v then flags OR StateBit else flags)
      in dst @ [flags])"

definition parseG11V2 :: "byte list \<Rightarrow> decode_context \<Rightarrow> BinaryOutputStatus" where
  "parseG11V2 buf ctx = \<lparr>MValue = buf ! 0 AND 0x80 \<noteq> 0, MFlags = buf ! 0, MTime = \<lparr>TTime = DNP3ToTime (readTime48 (drop 1 buf)), TQuality = TimeQuality ctx\<rparr>\<rparr>"

definition writeG11V2 :: "byte list \<Rightarrow> BinaryOutputStatus \<Rightarrow> decode_context \<Rightarrow> byte list" where
  "writeG11V2 dst v ctx =
     (let flags = MFlags v AND NOT StateBit; flags = (if MValue v then flags OR StateBit else flags)
      in dst @ [flags] @ put48 (TimeToDNP3 (TTime (MTime v))))"

definition binaryoutputCodecs :: "(GroupVar \<times> BinaryOutputStatus codec) list" where
  "binaryoutputCodecs =
    [((10, 2), \<lparr>Parse = parseG10V2, Write = writeG10V2\<rparr>),
     ((11, 1), \<lparr>Parse = parseG11V1, Write = writeG11V1\<rparr>),
     ((11, 2), \<lparr>Parse = parseG11V2, Write = writeG11V2\<rparr>)]"

section \<open>AnalogOutputStatus\<close>

definition parseG40V1 :: "byte list \<Rightarrow> decode_context \<Rightarrow> AnalogOutputStatus" where
  "parseG40V1 buf ctx = \<lparr>MValue = f64_of_int (sint (get32 (subslice buf 1 5))), MFlags = buf ! 0, MTime = NoTime\<rparr>"

definition writeG40V1 :: "byte list \<Rightarrow> AnalogOutputStatus \<Rightarrow> decode_context \<Rightarrow> byte list" where
  "writeG40V1 dst v ctx =
     (let (n, over) = clampInt32 (MValue v); flags = (if over then MFlags v OR OverRange else MFlags v)
      in dst @ [flags] @ put32 n)"

definition parseG40V2 :: "byte list \<Rightarrow> decode_context \<Rightarrow> AnalogOutputStatus" where
  "parseG40V2 buf ctx = \<lparr>MValue = f64_of_int (sint (get16 (subslice buf 1 3))), MFlags = buf ! 0, MTime = NoTime\<rparr>"

definition writeG40V2 :: "byte list \<Rightarrow> AnalogOutputStatus \<Rightarrow> decode_context \<Rightarrow> byte list" where
  "writeG40V2 dst v ctx =
     (let (n, over) = clampInt16 (MValue v); flags = (if over then MFlags v OR OverRange else MFlags v)
      in dst @ [flags] @ put16 n)"

definition parseG40V3 :: "byte list \<Rightarrow> decode_context \<Rightarrow> AnalogOutputStatus" where
  "parseG40V3 buf ctx = \<lparr>MValue = f64_of_f32 (get32 (subslice buf 1 5)), MFlags = buf ! 0, MTime = NoTime\<rparr>"

definition writeG40V3 :: "byte list \<Rightarrow> AnalogOutputStatus \<Rightarrow> decode_context \<Rightarrow> byte list" where
  "writeG40V3 dst v ctx = dst @ [MFlags v] @ put32 (f32_of_f64 (MValue v))"

definition parseG40V4 :: "byte list \<Rightarrow> decode_context \<Rightarrow> AnalogOutputStatus" where
  "parseG40V4 buf ctx = \<lparr>MValue = get64 (subslice buf 1 9), MFlags = buf ! 0, MTime = NoTime\<rparr>"

definition writeG40V4 :: "byte list \<Rightarrow> AnalogOutputStatus \<Rightarrow> decode_context \<Rightarrow> byte list" where
  "writeG40V4 dst v ctx = dst @ [MFlags v] @ put64 (MValue v)"

definition parseG42V1 :: "byte list \<Rightarrow> decode_context \<Rightarrow> AnalogOutputStatus" where
  "parseG42V1 buf ctx = \<lparr>MValue = f64_of_int (sint (get32 (subslice buf 1 5))), MFlags = buf ! 0, MTime = NoTime\<rparr>"

definition writeG42V1 :: "byte list \<Rightarrow> AnalogOutputStatus \<Rightarrow> decode_context \<Rightarrow> byte list" where
  "writeG42V1 dst v ctx =
     (let (n, over) = clampInt32 (MValue v); flags = (if over then MFlags v OR OverRange else MFlags v)
      in dst @ [flags] @ put32 n)"

definition parseG42V2 :: "byte list \<Rightarrow> decode_context \<Rightarrow> AnalogOutputStatus" where
  "parseG42V2 buf ctx = \<lparr>MValue = f64_of_int (sint (get16 (subslice buf 1 3))), MFlags = buf ! 0, MTime = NoTime\<rparr>"

definition writeG42V2 :: "byte list \<Rightarrow> AnalogOutputStatus \<Rightarrow> decode_context \<Rightarrow> byte list" where
  "writeG42V2 dst v ctx =
     (let (n, over) = clampInt16 (MValue v); flags = (if over then MFlags v OR OverRange else MFlags v)
      in dst @ [flags] @ put16 n)"

definition parseG42V3 :: "byte list \<Rightarrow> decode_context \<Rightarrow> AnalogOutputStatus" where
  "parseG42V3 buf ctx = \<lparr>MValue = f64_of_int (sint (get32 (subslice buf 1 5))), MFlags = buf ! 0, MTime = \<lparr>TTime = DNP3ToTime (readTime48 (drop 5 buf)), TQuality = TimeQuality ctx\<rparr>\<rparr>"

definition writeG42V3 :: "byte list \<Rightarrow> AnalogOutputStatus \<Rightarrow> decode_context \<Rightarrow> byte list" where
  "writeG42V3 dst v ctx =
     (let (n, over) = clampInt32 (MValue v); flags = (if over then MFlags v OR OverRange else MFlags v)
      in dst @ [flags] @ put32 n @ put48 (TimeToDNP3 (TTime (MTime v))))"

definition parseG42V4 :: "byte list \<Rightarrow> decode_context \<Rightarrow> AnalogOutputStatus" where
  "parseG42V4 buf ctx = \<lparr>MValue = f64_of_int (sint (get16 (subslice buf 1 3))), MFlags = buf ! 0, MTime = \<lparr>TTime = DNP3ToTime (readTime48 (drop 3 buf)), TQuality = TimeQuality ctx\<rparr>\<rparr>"

definition writeG42V4 :: "byte list \<Rightarrow> AnalogOutputStatus \<Rightarrow> decode_context \<Rightarrow> byte list" where
  "writeG42V4 dst v ctx =
     (let (n, over) = clampInt16 (MValue v); flags = (if over then MFlags v OR OverRange else MFlags v)
      in dst @ [flags] @ put16 n @ put48 (TimeToDNP3 (TTime (MTime v))))"

definition parseG42V5 :: "byte list \<Rightarrow> decode_context \<Rightarrow> AnalogOutputStatus" where
  "parseG42V5 buf ctx = \<lparr>MValue = f64_of_f32 (get32 (subslice buf 1 5)), MFlags = buf ! 0, MTime = NoTime\<rparr>"

definition writeG42V5 :: "byte list \<Rightarrow> AnalogOutputStatus \<Rightarrow> decode_context \<Rightarrow> byte list" where
  "writeG42V5 dst v ctx = dst @ [MFlags v] @ put32 (f32_of_f64 (MValue v))"

definition parseG42V6 :: "byte list \<Rightarrow> decode_context \<Rightarrow> AnalogOutputStatus" where
  "parseG42V6 buf ctx = \<lparr>MValue = get64 (subslice buf 1 9), MFlags = buf ! 0, MTime = NoTime\<rparr>"

definition writeG42V6 :: "byte list \<Rightarrow> AnalogOutputStatus \<Rightarrow> decode_context \<Rightarrow> byte list" where
  "writeG42V6 dst v ctx = dst @ [MFlags v] @ put64 (MValue v)"

definition parseG42V7 :: "byte list \<Rightarrow> decode_context \<Rightarrow> AnalogOutputStatus" where
  "parseG42V7 buf ctx = \<lparr>MValue = f64_of_f32 (get32 (subslice buf 1 5)), MFlags = buf ! 0, MTime = \<lparr>TTime = DNP3ToTime (readTime48 (drop 5 buf)), TQuality = TimeQuality ctx\<rparr>\<rparr>"

definition writeG42V7 :: "byte list \<Rightarrow> AnalogOutputStatus \<Rightarrow> decode_context \<Rightarrow> byte list" where
  "writeG42V7 dst v ctx = dst @ [MFlags v] @ put32 (f32_of_f64 (MValue v)) @ put48 (TimeToDNP3 (TTime (MTime v)))"

definition parseG42V8 :: "byte list \<Rightarrow> decode_context \<Rightarrow> AnalogOutputStatus" where
  "parseG42V8 buf ctx = \<lparr>MValue = get64 (subslice buf 1 9), MFlags = buf ! 0, MTime = \<lparr>TTime = DNP3ToTime (readTime48 (drop 9 buf)), TQuality = TimeQuality ctx\<rparr>\<rparr>"

definition writeG42V8 :: "byte list \<Rightarrow> AnalogOutputStatus \<Rightarrow> decode_context \<Rightarrow> byte list" where
  "writeG42V8 dst v ctx = dst @ [MFlags v] @ put64 (MValue v) @ put48 (TimeToDNP3 (TTime (MTime v)))"

definition analogoutputCodecs :: "(GroupVar \<times> AnalogOutputStatus codec) list" where
  "analogoutputCodecs =
    [((40, 1), \<lparr>Parse = parseG40V1, Write = writeG40V1\<rparr>),
     ((40, 2), \<lparr>Parse = parseG40V2, Write = writeG40V2\<rparr>),
     ((40, 3), \<lparr>Parse = parseG40V3, Write = writeG40V3\<rparr>),
     ((40, 4), \<lparr>Parse = parseG40V4, Write = writeG40V4\<rparr>),
     ((42, 1), \<lparr>Parse = parseG42V1, Write = writeG42V1\<rparr>),
     ((42, 2), \<lparr>Parse = parseG42V2, Write = writeG42V2\<rparr>),
     ((42, 3), \<lparr>Parse = parseG42V3, Write = writeG42V3\<rparr>),
     ((42, 4), \<lparr>Parse = parseG42V4, Write = writeG42V4\<rparr>),
     ((42, 5), \<lparr>Parse = parseG42V5, Write = writeG42V5\<rparr>),
     ((42, 6), \<lparr>Parse = parseG42V6, Write = writeG42V6\<rparr>),
     ((42, 7), \<lparr>Parse = parseG42V7, Write = writeG42V7\<rparr>),
     ((42, 8), \<lparr>Parse = parseG42V8, Write = writeG42V8\<rparr>)]"

section \<open>Lookup\<close>

definition BinaryCodec :: "GroupVar \<Rightarrow> Binary codec option" where
  "BinaryCodec x = map_of binaryCodecs x"

definition DoubleBitCodec :: "GroupVar \<Rightarrow> DoubleBitBinary codec option" where
  "DoubleBitCodec x = map_of doublebitCodecs x"

definition CounterCodec :: "GroupVar \<Rightarrow> Counter codec option" where
  "CounterCodec x = map_of counterCodecs x"

definition FrozenCounterCodec :: "GroupVar \<Rightarrow> FrozenCounter codec option" where
  "FrozenCounterCodec x = map_of frozencounterCodecs x"

definition AnalogCodec :: "GroupVar \<Rightarrow> Analog codec option" where
  "AnalogCodec x = map_of analogCodecs x"

definition BinaryOutputCodec :: "GroupVar \<Rightarrow> BinaryOutputStatus codec option" where
  "BinaryOutputCodec x = map_of binaryoutputCodecs x"

definition AnalogOutputCodec :: "GroupVar \<Rightarrow> AnalogOutputStatus codec option" where
  "AnalogOutputCodec x = map_of analogoutputCodecs x"

section \<open>What a variation carries\<close>

text \<open>
  The measurement a decoder gives back, as the descriptor says: the flags, or online for a
  variation without them; the time as an offset, as 48 bits, or not at all; the value by \<open>keep\<close>.
\<close>

definition carried_time :: "descriptor \<Rightarrow> decode_context \<Rightarrow> timestamp \<Rightarrow> timestamp" where
  "carried_time d ctx t =
     (if HasRelativeTime d then time_rel ctx t
      else if HasTime d then \<lparr>TTime = time48 (TTime t), TQuality = TimeQuality ctx\<rparr>
      else NoTime)"

definition carried_flags :: "descriptor \<Rightarrow> Flags \<Rightarrow> Flags" where
  "carried_flags d f = (if HasFlags d then f else Online)"

text \<open>Of a binary value the state bit is part of the flags octet.\<close>

definition carried_binary :: "descriptor \<Rightarrow> decode_context \<Rightarrow> bool measurement \<Rightarrow> bool measurement" where
  "carried_binary d ctx v =
     \<lparr>MValue = MValue v,
      MFlags = carried_flags d (if MValue v then MFlags v OR StateBit else MFlags v AND NOT StateBit),
      MTime = carried_time d ctx (MTime v)\<rparr>"

definition carried_double :: "descriptor \<Rightarrow> decode_context \<Rightarrow> DoubleBitBinary \<Rightarrow> DoubleBitBinary" where
  "carried_double d ctx v =
     \<lparr>MValue = MValue v AND 0x03,
      MFlags = carried_flags d (MFlags v AND 0x3F OR push_bit 6 (MValue v AND 0x03)),
      MTime = carried_time d ctx (MTime v)\<rparr>"

text \<open>A counter of 16 bits wraps.\<close>

definition carried_counter :: "descriptor \<Rightarrow> decode_context \<Rightarrow> u32 measurement \<Rightarrow> u32 measurement" where
  "carried_counter d ctx v =
     \<lparr>MValue = take_bit (ValueBits d) (MValue v), MFlags = carried_flags d (MFlags v), MTime = carried_time d ctx (MTime v)\<rparr>"

text \<open>An analog value is rounded to single precision, kept in double, or saturated and flagged.\<close>

definition carried_analog :: "descriptor \<Rightarrow> decode_context \<Rightarrow> f64 measurement \<Rightarrow> f64 measurement" where
  "carried_analog d ctx v =
     (if FloatValue d then
        \<lparr>MValue = (if ValueBits d = 64 then MValue v else f64_of_f32 (f32_of_f64 (MValue v))),
         MFlags = carried_flags d (MFlags v), MTime = carried_time d ctx (MTime v)\<rparr>
      else
        let (n, over) = saturated (ValueBits d) (MValue v)
        in \<lparr>MValue = f64_of_int n, MFlags = carried_flags d (if over then MFlags v OR OverRange else MFlags v),
            MTime = carried_time d ctx (MTime v)\<rparr>)"

text \<open>
  The contract of a table of codecs: every entry is described, its encoder appends exactly the
  octets of the descriptor, and the decoder reads from them what the variation carries.
\<close>

definition codec_ok ::
    "(descriptor \<Rightarrow> decode_context \<Rightarrow> 'a \<Rightarrow> 'a) \<Rightarrow> GroupVar \<Rightarrow> 'a codec \<Rightarrow> byte list \<Rightarrow> 'a \<Rightarrow> decode_context \<Rightarrow> byte list \<Rightarrow> bool" where
  "codec_ok keep x c dst v ctx rest \<longleftrightarrow>
     (case Lookup x of
        None \<Rightarrow> False
      | Some d \<Rightarrow>
          (\<exists>out. Write c dst v ctx = dst @ out \<and> SizeOctets d = (int (length out), True) \<and>
             Parse c (out @ rest) ctx = keep d ctx v))"

lemma list_all_lookup:
  "list_all (\<lambda>(x, c). P x c) table \<Longrightarrow> map_of table x = Some c \<Longrightarrow> P x c"
  by (auto simp: list_all_iff dest: map_of_SomeD)

lemma codec_ok_described:
  "codec_ok keep x c dst v ctx rest \<longleftrightarrow>
     (\<exists>d. (x, d) \<in> set descriptors \<and>
        (\<exists>out. Write c dst v ctx = dst @ out \<and> SizeOctets d = (int (length out), True) \<and> Parse c (out @ rest) ctx = keep d ctx v))"
proof -
  have "(x, d) \<in> set descriptors \<longleftrightarrow> Lookup x = Some d" for d by (simp add: Lookup_def distinct_descriptors)
  then show ?thesis by (auto simp: codec_ok_def split: option.splits)
qed

text \<open>How the state of a point sits in its flags octet.\<close>

lemma state_flag:
  "(f AND NOT 0x80 OR 0x80) AND 0x80 \<noteq> (0 :: byte)" "f AND NOT 0x80 AND 0x80 = (0 :: byte)" "f AND NOT 0x80 OR 0x80 = f OR (0x80 :: byte)"
proof -
  show 1: "f AND NOT 0x80 OR 0x80 = f OR (0x80 :: byte)" by (rule bit_word_eqI) (auto simp: bit_simps)
  show "f AND NOT 0x80 AND 0x80 = (0 :: byte)" by (rule bit_word_eqI) (auto simp: bit_simps)
  have "(f OR 0x80) AND 0x80 = (0x80 :: byte)" by (rule bit_word_eqI) (auto simp: bit_simps)
  then show "(f AND NOT 0x80 OR 0x80) AND 0x80 \<noteq> (0 :: byte)" unfolding 1 by simp
qed

lemma state_flag_clear: "(f AND - 129) AND 128 = (0 :: byte)"
  by (simp add: and.assoc)

lemma pair_flag: "drop_bit 6 (push_bit 6 w) AND 0x03 = w AND (0x03 :: byte)"
  by (rule bit_word_eqI, unfold bit_and_0x03) (auto simp: bit_simps)

lemma take_bit_32_u32: "take_bit 32 (w :: u32) = w"
  by (rule bit_word_eqI) (auto simp: bit_simps)

lemma sint_saturated: "sint (of_int (fst (saturated 16 x)) :: u16) = fst (saturated 16 x)" "sint (of_int (fst (saturated 32 x)) :: u32) = fst (saturated 32 x)"
  using sint_clampInt16 [of x] sint_clampInt32 [of x] by (simp_all add: clampInt16_saturated clampInt32_saturated)

lemma ucast_16_32 [simp]: "ucast (ucast (w :: u32) :: u16) = take_bit 16 w"
  by (rule bit_word_eqI) (auto simp: bit_simps)

lemmas codec_eval = codec_ok_described descriptor_tables SizeOctets_def carried_time_def carried_flags_def subslice_def Let_def

lemmas binary_defs =
  parseG1V2_def writeG1V2_def parseG2V1_def writeG2V1_def parseG2V2_def writeG2V2_def parseG2V3_def writeG2V3_def

lemma binary_codecs_ok: "list_all (\<lambda>(x, c). codec_ok carried_binary x c dst v ctx rest) binaryCodecs"
  by (simp add: binaryCodecs_def codec_eval binary_defs carried_binary_def state_flag [simplified] state_flag_clear)

lemmas doublebit_defs =
  parseG3V2_def writeG3V2_def parseG4V1_def writeG4V1_def parseG4V2_def writeG4V2_def parseG4V3_def writeG4V3_def

lemma doublebit_codecs_ok: "list_all (\<lambda>(x, c). codec_ok carried_double x c dst v ctx rest) doublebitCodecs"
  by (simp add: doublebitCodecs_def codec_eval doublebit_defs carried_double_def pair_flag)

lemmas counter_defs =
  parseG20V1_def writeG20V1_def parseG20V2_def writeG20V2_def parseG20V5_def writeG20V5_def parseG20V6_def
  writeG20V6_def parseG22V1_def writeG22V1_def parseG22V2_def writeG22V2_def parseG22V5_def writeG22V5_def
  parseG22V6_def writeG22V6_def

lemma counter_codecs_ok: "list_all (\<lambda>(x, c). codec_ok carried_counter x c dst v ctx rest) counterCodecs"
  by (simp add: counterCodecs_def codec_eval counter_defs carried_counter_def take_bit_32_u32)

lemmas frozencounter_defs =
  parseG21V1_def writeG21V1_def parseG21V2_def writeG21V2_def parseG21V5_def writeG21V5_def parseG21V6_def
  writeG21V6_def parseG21V9_def writeG21V9_def parseG21V10_def writeG21V10_def parseG23V1_def writeG23V1_def
  parseG23V2_def writeG23V2_def parseG23V5_def writeG23V5_def parseG23V6_def writeG23V6_def

lemma frozencounter_codecs_ok: "list_all (\<lambda>(x, c). codec_ok carried_counter x c dst v ctx rest) frozencounterCodecs"
  by (simp add: frozencounterCodecs_def codec_eval frozencounter_defs carried_counter_def take_bit_32_u32)

lemmas analog_defs =
  parseG30V1_def writeG30V1_def parseG30V2_def writeG30V2_def parseG30V3_def writeG30V3_def parseG30V4_def
  writeG30V4_def parseG30V5_def writeG30V5_def parseG30V6_def writeG30V6_def parseG31V1_def writeG31V1_def
  parseG31V2_def writeG31V2_def parseG31V3_def writeG31V3_def parseG31V4_def writeG31V4_def parseG31V5_def
  writeG31V5_def parseG31V6_def writeG31V6_def parseG31V7_def writeG31V7_def parseG31V8_def writeG31V8_def
  parseG32V1_def writeG32V1_def parseG32V2_def writeG32V2_def parseG32V3_def writeG32V3_def parseG32V4_def
  writeG32V4_def parseG32V5_def writeG32V5_def parseG32V6_def writeG32V6_def parseG32V7_def writeG32V7_def
  parseG32V8_def writeG32V8_def parseG33V1_def writeG33V1_def parseG33V2_def writeG33V2_def parseG33V3_def
  writeG33V3_def parseG33V4_def writeG33V4_def parseG33V5_def writeG33V5_def parseG33V6_def writeG33V6_def
  parseG33V7_def writeG33V7_def parseG33V8_def writeG33V8_def

lemma analog_codecs_ok: "list_all (\<lambda>(x, c). codec_ok carried_analog x c dst v ctx rest) analogCodecs"
  unfolding analogCodecs_def list.pred_inject prod.case
  by (intro conjI TrueI; simp add: codec_eval analog_defs carried_analog_def clampInt16_saturated clampInt32_saturated
      case_prod_beta sint_saturated)

lemmas binaryoutput_defs =
  parseG10V2_def writeG10V2_def parseG11V1_def writeG11V1_def parseG11V2_def writeG11V2_def

lemma binaryoutput_codecs_ok: "list_all (\<lambda>(x, c). codec_ok carried_binary x c dst v ctx rest) binaryoutputCodecs"
  by (simp add: binaryoutputCodecs_def codec_eval binaryoutput_defs carried_binary_def state_flag [simplified] state_flag_clear)

lemmas analogoutput_defs =
  parseG40V1_def writeG40V1_def parseG40V2_def writeG40V2_def parseG40V3_def writeG40V3_def parseG40V4_def
  writeG40V4_def parseG42V1_def writeG42V1_def parseG42V2_def writeG42V2_def parseG42V3_def writeG42V3_def
  parseG42V4_def writeG42V4_def parseG42V5_def writeG42V5_def parseG42V6_def writeG42V6_def parseG42V7_def
  writeG42V7_def parseG42V8_def writeG42V8_def

lemma analogoutput_codecs_ok: "list_all (\<lambda>(x, c). codec_ok carried_analog x c dst v ctx rest) analogoutputCodecs"
  unfolding analogoutputCodecs_def list.pred_inject prod.case
  by (intro conjI TrueI; simp add: codec_eval analogoutput_defs carried_analog_def clampInt16_saturated clampInt32_saturated
      case_prod_beta sint_saturated)

section \<open>The codecs as described\<close>

text \<open>
  C31. Every measurement codec does what its descriptor says. For each group and variation in the
  table of a measurement type there is a descriptor; the encoder appends exactly the octets the
  descriptor gives; and the decoder, reading them with anything after them, returns the
  measurement as that variation carries it: the flags where it has flags and online where not,
  the time to the millisecond in 48 bits, or relative to the common time of occurrence, or
  none, the counter modulo its width, the analog value saturated and flagged in an integer
  variation, rounded in single precision, unchanged in double.
\<close>

theorem codecs_as_described:
  "(BinaryCodec x = Some c1 \<longrightarrow> codec_ok carried_binary x c1 dst v1 ctx rest) \<and>
   (DoubleBitCodec x = Some c2 \<longrightarrow> codec_ok carried_double x c2 dst v2 ctx rest) \<and>
   (CounterCodec x = Some c3 \<longrightarrow> codec_ok carried_counter x c3 dst v3 ctx rest) \<and>
   (FrozenCounterCodec x = Some c4 \<longrightarrow> codec_ok carried_counter x c4 dst v4 ctx rest) \<and>
   (AnalogCodec x = Some c5 \<longrightarrow> codec_ok carried_analog x c5 dst v5 ctx rest) \<and>
   (BinaryOutputCodec x = Some c6 \<longrightarrow> codec_ok carried_binary x c6 dst v6 ctx rest) \<and>
   (AnalogOutputCodec x = Some c7 \<longrightarrow> codec_ok carried_analog x c7 dst v7 ctx rest)"
  unfolding BinaryCodec_def DoubleBitCodec_def CounterCodec_def FrozenCounterCodec_def AnalogCodec_def
    BinaryOutputCodec_def AnalogOutputCodec_def
  by (intro conjI impI; erule list_all_lookup [rotated])
     (rule binary_codecs_ok doublebit_codecs_ok counter_codecs_ok frozencounter_codecs_ok analog_codecs_ok
        binaryoutput_codecs_ok analogoutput_codecs_ok)+

definition local_time :: decode_context where
  "local_time = \<lparr>Synchronized = True, CTO = 0, HasCTO = False, CTOSynchronized = False\<rparr>"

definition reading :: "int \<Rightarrow> Analog" where
  "reading n = \<lparr>MValue = f64_of_int n, MFlags = Online, MTime = NoTime\<rparr>"

lemma analog_16: "AnalogCodec (30, 2) = Some \<lparr>Parse = parseG30V2, Write = writeG30V2\<rparr>"
  by (simp add: AnalogCodec_def analogCodecs_def)

text \<open>A reading of 40000 in the 16-bit variation comes back as 32767, over range.\<close>

theorem codecs_as_described_witness:
  "parseG30V2 (writeG30V2 [] (reading 40000) local_time) local_time = (reading 32767)\<lparr>MFlags := 0x21\<rparr>"
proof -
  have ok: "codec_ok carried_analog (30, 2) \<lparr>Parse = parseG30V2, Write = writeG30V2\<rparr> [] (reading 40000) local_time []"
    using codecs_as_described analog_16 by metis
  have "saturated 16 (f64_of_int 40000) = (32767, True)"
    using f64_of_int_compare [of 40000] f64_of_int_value(1) [of 40000] by (simp add: saturated_def)
  then show ?thesis using ok
    by (simp add: codec_ok_described descriptor_tables carried_analog_def carried_flags_def carried_time_def reading_def)
qed

text \<open>When a variation can represent a value, and so when nothing is lost.\<close>

definition representable :: "descriptor \<Rightarrow> decode_context \<Rightarrow> f64 measurement \<Rightarrow> bool" where
  "representable d ctx v \<longleftrightarrow>
     carried_flags d (MFlags v) = MFlags v \<and> carried_time d ctx (MTime v) = MTime v \<and>
     (if \<not> FloatValue d then \<exists>n. - (2 ^ (ValueBits d - 1)) \<le> n \<and> n < 2 ^ (ValueBits d - 1) \<and> MValue v = f64_of_int n
      else ValueBits d = 64 \<or> (\<exists>b. \<not> f32_nan b \<and> MValue v = f64_of_f32 b))"

lemma saturated_of_int:
  assumes "0 < w" "w \<le> 32" "- (2 ^ (w - 1)) \<le> n" "n < 2 ^ (w - 1)"
  shows "saturated w (f64_of_int n) = (n, False)"
proof -
  have "(2 :: int) ^ (w - 1) \<le> 2 ^ 31" using assms(2) by (intro power_increasing) simp_all
  then have n: "\<bar>n\<bar> < 2 ^ 53" using assms(3,4) by simp
  show ?thesis using assms f64_of_int_compare [OF n] f64_of_int_value(1,4) [OF n] by (simp add: saturated_def)
qed

lemma integer_widths: "list_all (\<lambda>(x, d). x \<in> fst ` set analogCodecs \<longrightarrow> 0 < ValueBits d \<and> (FloatValue d \<or> ValueBits d \<le> 32)) descriptors"
  by (simp add: descriptor_tables analogCodecs_def)

text \<open>
  Where a variation can represent an analog measurement, it loses nothing: a value that is an
  integer within the range of an integer variation, a single that is not NaN in a
  single-precision one, any bit pattern in a double-precision one, with flags and a time the
  variation carries, is decoded to exactly what was encoded.
\<close>

theorem analog_lossless:
  assumes "AnalogCodec x = Some c" "Lookup x = Some d" "representable d ctx v"
  shows "\<exists>out. Write c dst v ctx = dst @ out \<and> Parse c (out @ rest) ctx = v"
proof -
  have ok: "codec_ok carried_analog x c dst v ctx rest"
    using list_all_lookup [OF analog_codecs_ok] assms(1) by (simp add: AnalogCodec_def)
  have "x \<in> fst ` set analogCodecs" using assms(1) by (force simp: AnalogCodec_def dest: map_of_SomeD)
  moreover have "(x, d) \<in> set descriptors" using assms(2) by (auto simp: Lookup_def dest: map_of_SomeD)
  ultimately have w: "0 < ValueBits d" "FloatValue d \<or> ValueBits d \<le> 32" using integer_widths by (auto simp: list_all_iff)
  have "carried_analog d ctx v = v"
    using assms(3) w saturated_of_int [of "ValueBits d"] f32_roundtrip
    by (cases v) (auto simp: carried_analog_def representable_def split: if_splits)
  with ok assms(2) show ?thesis by (auto simp: codec_ok_def)
qed

theorem analog_lossless_witness: "parseG30V2 (writeG30V2 [] (reading 1234) local_time) local_time = reading 1234"
proof -
  obtain d where d: "Lookup (30, 2) = Some d" "HasFlags d" "\<not> HasTime d" "\<not> HasRelativeTime d" "\<not> FloatValue d" "ValueBits d = 16"
    by (simp add: Lookup_def descriptor_tables)
  then have "representable d local_time (reading 1234)"
    by (auto simp: representable_def reading_def carried_flags_def carried_time_def intro: exI [of _ 1234])
  from analog_lossless [OF analog_16 d(1) this, of "[]" "[]"] show ?thesis by auto
qed

end
