(* ===== verification/Obj_Variable.thy ===== *)
theory Obj_Variable
  imports Obj_Base
begin

text \<open>
  The objects that carry their own length, other than files: device attributes
  (\<^verbatim>\<open>objects/attribute.go\<close>), data set descriptors (\<^verbatim>\<open>objects/dataset.go\<close>), activation results
  (\<^verbatim>\<open>objects/activation.go\<close>) and the authentication objects (\<^verbatim>\<open>objects/authentication.go\<close>). Text is
  the list of its octets. An error is the sentinel it wraps; its message is left out. The lemmas
  show that what is written is read back, and which values the writers refuse.
\<close>

datatype object_error = ErrAttribute | ErrAuthenticationObject | ErrFileObject | ErrMalformed | ErrBadConfig

section \<open>Device attributes\<close>

type_synonym AttributeType = byte

abbreviation (input) AttrVisibleString :: AttributeType where "AttrVisibleString \<equiv> 1"
abbreviation (input) AttrUnsignedInt :: AttributeType where "AttrUnsignedInt \<equiv> 2"
abbreviation (input) AttrSignedInt :: AttributeType where "AttrSignedInt \<equiv> 3"
abbreviation (input) AttrFloat :: AttributeType where "AttrFloat \<equiv> 4"
abbreviation (input) AttrTime :: AttributeType where "AttrTime \<equiv> 7"
abbreviation (input) AttrAttributeList :: AttributeType where "AttrAttributeList \<equiv> 254"
abbreviation (input) AttrExtAttributeList :: AttributeType where "AttrExtAttributeList \<equiv> 255"
abbreviation (input) AttrAll :: byte where "AttrAll \<equiv> 254"
abbreviation (input) AttrList :: byte where "AttrList \<equiv> 255"

record attribute =
  AttrSet :: byte
  AttrVariation :: byte
  AttrType :: AttributeType
  AttrText :: "byte list"
  AttrNumber :: u64
  AttrReal :: f64
  AttrOctets :: "byte list"
  AttrWhen :: int

definition no_attribute :: attribute where
  "no_attribute = \<lparr>AttrSet = 0, AttrVariation = 0, AttrType = 0, AttrText = [], AttrNumber = 0, AttrReal = 0,
     AttrOctets = [], AttrWhen = zero_time\<rparr>"

record attribute_list_item =
  ItemVariation :: byte
  ItemWritable :: bool

text \<open>The loop of \<^verbatim>\<open>Attribute.List\<close>: two octets an entry, an odd one left over.\<close>

fun attribute_items :: "byte list \<Rightarrow> attribute_list_item list" where
  "attribute_items (v # props # rest) =
     \<lparr>ItemVariation = v, ItemWritable = (props AND 0x01 \<noteq> 0)\<rparr> # attribute_items rest"
| "attribute_items _ = []"

definition Attribute_List :: "attribute \<Rightarrow> attribute_list_item list" where
  "Attribute_List a =
     (if AttrType a \<noteq> AttrAttributeList \<and> AttrType a \<noteq> AttrExtAttributeList then [] else attribute_items (AttrOctets a))"

abbreviation (input) AttributeHeaderSize :: nat where "AttributeHeaderSize \<equiv> 2"
abbreviation (input) MaxAttributeValue :: nat where "MaxAttributeValue \<equiv> 255"

definition attributeUint :: "byte list \<Rightarrow> object_error + u64" where
  "attributeUint b =
     (if length b = 1 then Inr (ucast (b ! 0))
      else if length b = 2 then Inr (ucast (get16 b))
      else if length b = 4 then Inr (ucast (get32 b))
      else if length b = 8 then Inr (get64 b)
      else Inl ErrAttribute)"

definition attributeInt :: "byte list \<Rightarrow> object_error + u64" where
  "attributeInt b =
     (if length b = 1 then Inr (scast (b ! 0))
      else if length b = 2 then Inr (scast (get16 b))
      else if length b = 4 then Inr (scast (get32 b))
      else if length b = 8 then Inr (get64 b)
      else Inl ErrAttribute)"

text \<open>The switch on the type in \<^verbatim>\<open>ParseAttribute\<close>; the length of the value is the size it declares.\<close>

definition attribute_value :: "attribute \<Rightarrow> byte list \<Rightarrow> object_error + attribute" where
  "attribute_value a val =
     (if AttrType a = AttrVisibleString then Inr (a\<lparr>AttrText := val\<rparr>)
      else if AttrType a = AttrUnsignedInt then
        (case attributeUint val of Inl e \<Rightarrow> Inl e | Inr n \<Rightarrow> Inr (a\<lparr>AttrNumber := n\<rparr>))
      else if AttrType a = AttrSignedInt then
        (case attributeInt val of Inl e \<Rightarrow> Inl e | Inr n \<Rightarrow> Inr (a\<lparr>AttrNumber := n\<rparr>))
      else if AttrType a = AttrFloat then
        (if length val = 4 then Inr (a\<lparr>AttrReal := f64_of_f32 (get32 val)\<rparr>)
         else if length val = 8 then Inr (a\<lparr>AttrReal := get64 val\<rparr>)
         else Inl ErrAttribute)
      else if AttrType a = AttrTime then
        (if length val \<noteq> 6 then Inl ErrAttribute else Inr (a\<lparr>AttrWhen := TTime (ParseTime48 val)\<rparr>))
      else Inr (a\<lparr>AttrOctets := val\<rparr>))"

definition ParseAttribute :: "byte \<Rightarrow> byte \<Rightarrow> byte list \<Rightarrow> object_error + attribute \<times> nat" where
  "ParseAttribute set_no variation buf =
     (if length buf < AttributeHeaderSize then Inl ErrAttribute
      else
        let a = no_attribute\<lparr>AttrSet := set_no, AttrVariation := variation, AttrType := buf ! 0\<rparr>;
            size = unat (buf ! 1) + (if AttrType a = AttrExtAttributeList then 256 else 0);
            end_at = AttributeHeaderSize + size
        in if end_at > length buf then Inl ErrAttribute
           else
             case attribute_value a (subslice buf AttributeHeaderSize end_at) of
               Inl e \<Rightarrow> Inl e
             | Inr a \<Rightarrow> Inr (a, end_at))"

definition appendNarrowInt :: "byte list \<Rightarrow> u64 \<Rightarrow> bool \<Rightarrow> byte list" where
  "appendNarrowInt dst w is_signed =
     (let v = sint w
      in if is_signed \<and> - 128 \<le> v \<and> v \<le> 127 then dst @ [ucast w]
         else if \<not> is_signed \<and> 0 \<le> v \<and> v \<le> 255 then dst @ [ucast w]
         else if is_signed \<and> - 32768 \<le> v \<and> v \<le> 32767 then dst @ put16 (ucast w)
         else if \<not> is_signed \<and> 0 \<le> v \<and> v \<le> 65535 then dst @ put16 (ucast w)
         else if is_signed \<and> - 2147483648 \<le> v \<and> v \<le> 2147483647 then dst @ put32 (ucast w)
         else if \<not> is_signed \<and> 0 \<le> v \<and> v \<le> 4294967295 then dst @ put32 (ucast w)
         else dst @ put64 w)"

text \<open>The switch on the type in \<^verbatim>\<open>AppendAttribute\<close>, for the types that are not lists.\<close>

definition attribute_octets :: "attribute \<Rightarrow> byte list" where
  "attribute_octets a =
     (if AttrType a = AttrVisibleString then AttrText a
      else if AttrType a = AttrUnsignedInt \<or> AttrType a = AttrSignedInt
        then appendNarrowInt [] (AttrNumber a) (AttrType a = AttrSignedInt)
      else if AttrType a = AttrFloat then put32 (f32_of_f64 (AttrReal a))
      else if AttrType a = AttrTime then appendTime48 [] (TimeToDNP3 (AttrWhen a))
      else AttrOctets a)"

definition AppendAttribute :: "byte list \<Rightarrow> attribute \<Rightarrow> object_error + byte list" where
  "AppendAttribute dst a =
     (if AttrType a = AttrAttributeList \<or> AttrType a = AttrExtAttributeList then
        if length (AttrOctets a) mod 2 \<noteq> 0 then Inl ErrAttribute
        else if length (AttrOctets a) > MaxAttributeValue then
          if length (AttrOctets a) > MaxAttributeValue + 256 then Inl ErrAttribute
          else Inr (dst @ [AttrExtAttributeList, of_nat (length (AttrOctets a) - 256)] @ AttrOctets a)
        else Inr (dst @ [AttrAttributeList, of_nat (length (AttrOctets a))] @ AttrOctets a)
      else
        let val = attribute_octets a
        in if length val > MaxAttributeValue then Inl ErrAttribute
           else Inr (dst @ [AttrType a, of_nat (length val)] @ val))"

definition StringAttribute :: "byte \<Rightarrow> byte list \<Rightarrow> attribute" where
  "StringAttribute variation t = no_attribute\<lparr>AttrVariation := variation, AttrType := AttrVisibleString, AttrText := t\<rparr>"

definition UintAttribute :: "byte \<Rightarrow> u64 \<Rightarrow> attribute" where
  "UintAttribute variation v = no_attribute\<lparr>AttrVariation := variation, AttrType := AttrUnsignedInt, AttrNumber := v\<rparr>"

definition IntAttribute :: "byte \<Rightarrow> u64 \<Rightarrow> attribute" where
  "IntAttribute variation v = no_attribute\<lparr>AttrVariation := variation, AttrType := AttrSignedInt, AttrNumber := v\<rparr>"

definition ListAttribute :: "attribute_list_item list \<Rightarrow> attribute" where
  "ListAttribute items =
     no_attribute\<lparr>AttrVariation := AttrList, AttrType := AttrAttributeList,
       AttrOctets := concat (map (\<lambda>it. [ItemVariation it, if ItemWritable it then 0x01 else 0]) items)\<rparr>"

section \<open>Data set descriptors\<close>

record dataset_element =
  DECode :: byte
  DEDataType :: byte
  DEMaxLength :: byte
  DEAncillary :: "byte list"

function ParseDatasetDescriptor :: "byte list \<Rightarrow> object_error + dataset_element list" where
  "ParseDatasetDescriptor data =
     (if data = [] then Inr []
      else
        let n = unat (data ! 0)
        in if n < 3 \<or> n \<ge> length data then Inl ErrMalformed
           else
             case ParseDatasetDescriptor (drop (n + 1) data) of
               Inl e \<Rightarrow> Inl e
             | Inr out \<Rightarrow>
                 Inr (\<lparr>DECode = data ! 1, DEDataType = data ! 2, DEMaxLength = data ! 3,
                       DEAncillary = subslice data 4 (n + 1)\<rparr> # out))"
  by auto
termination by (relation "measure length") auto

declare ParseDatasetDescriptor.simps [simp del]

fun AppendDatasetDescriptor :: "byte list \<Rightarrow> dataset_element list \<Rightarrow> object_error + byte list" where
  "AppendDatasetDescriptor dst [] = Inr dst"
| "AppendDatasetDescriptor dst (e # es) =
     (if length (DEAncillary e) > 252 then Inl ErrBadConfig
      else AppendDatasetDescriptor
             (dst @ [of_nat (3 + length (DEAncillary e)), DECode e, DEDataType e, DEMaxLength e] @ DEAncillary e) es)"

section \<open>Activation results\<close>

record activation_status =
  ASCode :: byte
  ASText :: "byte list"

record activation_result =
  ARDelay :: int
  ARStatuses :: "activation_status list"

text \<open>A duration divided by a millisecond drops the rest, as \<open>Milliseconds\<close> does.\<close>

fun append_statuses :: "byte list \<Rightarrow> activation_status list \<Rightarrow> object_error + byte list" where
  "append_statuses dst [] = Inr dst"
| "append_statuses dst (s # ss) =
     (if length (ASText s) > 254 then Inl ErrBadConfig
      else append_statuses (dst @ [of_nat (length (ASText s) + 1), ASCode s] @ ASText s) ss)"

definition AppendActivationResult :: "byte list \<Rightarrow> activation_result \<Rightarrow> object_error + byte list" where
  "AppendActivationResult dst v =
     (let ms = Milliseconds (ARDelay v)
      in if ms < 0 \<or> ms > 0xffffffff \<or> length (ARStatuses v) > 255 then Inl ErrBadConfig
         else append_statuses (dst @ put32 (of_int ms) @ [of_nat (length (ARStatuses v))]) (ARStatuses v))"

fun parse_statuses :: "nat \<Rightarrow> byte list \<Rightarrow> object_error + activation_status list \<times> byte list" where
  "parse_statuses 0 data = Inr ([], data)"
| "parse_statuses (Suc n) data =
     (if length data < 2 \<or> data ! 0 = 0 \<or> unat (data ! 0) \<ge> length data then Inl ErrMalformed
      else
        let len = unat (data ! 0)
        in case parse_statuses n (drop (1 + len) data) of
             Inl e \<Rightarrow> Inl e
           | Inr (ss, rest) \<Rightarrow> Inr (\<lparr>ASCode = data ! 1, ASText = subslice data 2 (1 + len)\<rparr> # ss, rest))"

definition ParseActivationResult :: "byte list \<Rightarrow> object_error + activation_result" where
  "ParseActivationResult data =
     (if length data < 5 then Inl ErrMalformed
      else
        case parse_statuses (unat (data ! 4)) (drop 5 data) of
          Inl e \<Rightarrow> Inl e
        | Inr (ss, rest) \<Rightarrow>
            if length rest \<noteq> 0 then Inl ErrMalformed
            else Inr \<lparr>ARDelay = uint (get32 data) * 1000000, ARStatuses = ss\<rparr>)"

section \<open>Authentication objects\<close>

record auth_challenge =
  ACSequence :: u32
  ACUser :: u16
  ACAlgorithm :: byte
  ACReason :: byte
  ACData :: "byte list"

definition AppendAuthChallenge :: "byte list \<Rightarrow> auth_challenge \<Rightarrow> byte list" where
  "AppendAuthChallenge dst v = dst @ put32 (ACSequence v) @ put16 (ACUser v) @ [ACAlgorithm v, ACReason v] @ ACData v"

definition ParseAuthChallenge :: "byte list \<Rightarrow> object_error + auth_challenge" where
  "ParseAuthChallenge data =
     (if length data < 12 then Inl ErrAuthenticationObject
      else Inr \<lparr>ACSequence = get32 data, ACUser = get16 (drop 4 data), ACAlgorithm = data ! 6, ACReason = data ! 7,
                ACData = drop 8 data\<rparr>)"

record auth_reply =
  ARSequence :: u32
  ARUser :: u16
  ARMac :: "byte list"

definition AppendAuthReply :: "byte list \<Rightarrow> auth_reply \<Rightarrow> byte list" where
  "AppendAuthReply dst v = dst @ put32 (ARSequence v) @ put16 (ARUser v) @ ARMac v"

definition ParseAuthReply :: "byte list \<Rightarrow> object_error + auth_reply" where
  "ParseAuthReply data =
     (if length data < 7 then Inl ErrAuthenticationObject
      else Inr \<lparr>ARSequence = get32 data, ARUser = get16 (drop 4 data), ARMac = drop 6 data\<rparr>)"

record auth_key_status =
  KSSequence :: u32
  KSUser :: u16
  KSWrapAlgorithm :: byte
  KSStatus :: byte
  KSAlgorithm :: byte
  KSChallenge :: "byte list"
  KSMac :: "byte list"

definition AppendAuthKeyStatus :: "byte list \<Rightarrow> auth_key_status \<Rightarrow> byte list" where
  "AppendAuthKeyStatus dst v =
     dst @ put32 (KSSequence v) @ put16 (KSUser v) @ [KSWrapAlgorithm v, KSStatus v, KSAlgorithm v] @
     put16 (of_nat (length (KSChallenge v))) @ KSChallenge v @ KSMac v"

definition ParseAuthKeyStatus :: "byte list \<Rightarrow> object_error + auth_key_status" where
  "ParseAuthKeyStatus data =
     (if length data < 11 then Inl ErrAuthenticationObject
      else
        let n = unat (get16 (subslice data 9 11))
        in if n < 4 \<or> n > length data - 11 then Inl ErrAuthenticationObject
           else Inr \<lparr>KSSequence = get32 data, KSUser = get16 (drop 4 data), KSWrapAlgorithm = data ! 6, KSStatus = data ! 7,
                     KSAlgorithm = data ! 8, KSChallenge = subslice data 11 (11 + n), KSMac = drop (11 + n) data\<rparr>)"

record auth_key_change =
  KCSequence :: u32
  KCUser :: u16
  KCWrapped :: "byte list"

definition AppendAuthKeyChange :: "byte list \<Rightarrow> auth_key_change \<Rightarrow> byte list" where
  "AppendAuthKeyChange dst v = dst @ put32 (KCSequence v) @ put16 (KCUser v) @ KCWrapped v"

definition ParseAuthKeyChange :: "byte list \<Rightarrow> object_error + auth_key_change" where
  "ParseAuthKeyChange data =
     (if length data < 30 \<or> (length data - 6) mod 8 \<noteq> 0 then Inl ErrAuthenticationObject
      else Inr \<lparr>KCSequence = get32 data, KCUser = get16 (drop 4 data), KCWrapped = drop 6 data\<rparr>)"

section \<open>Attributes survive encoding\<close>

lemma narrow_signed:
  fixes w :: u64
  assumes "LENGTH('a) \<le> 64" "- (2 ^ (LENGTH('a) - 1)) \<le> sint w" "sint w < 2 ^ (LENGTH('a) - 1)"
  shows "scast (ucast w :: 'a::len word) = w"
proof -
  have "sint (ucast w :: 'a word) = signed_take_bit (LENGTH('a) - 1) (uint w)" by (simp only: signed_ucast_eq One_nat_def)
  also have "\<dots> = signed_take_bit (LENGTH('a) - 1) (sint w)"
    using assms(1) by (simp add: sint_uint signed_take_bit_signed_take_bit)
  also have "\<dots> = sint w" using assms by (intro signed_take_bit_int_eq_self) simp_all
  finally have "sint (ucast w :: 'a word) = sint w" .
  then show ?thesis by (simp add: scast_eq)
qed

lemma narrow_unsigned:
  fixes w :: u64
  assumes "0 \<le> sint w" "sint w < 2 ^ LENGTH('a)" "LENGTH('a) \<le> 64"
  shows "ucast (ucast w :: 'a::len word) = w"
proof -
  have "sint w < 2 ^ 64" using sint_lt [of w] by simp
  then have "uint w = sint w" using assms(1) by (simp add: uint_sint take_bit_int_eq_self)
  then have "take_bit LENGTH('a) (uint w) = uint w" using assms by (simp add: take_bit_int_eq_self)
  then have "bit w n \<Longrightarrow> n < LENGTH('a)" for n
    by (metis bit_take_bit_iff bit_uint_iff bit_imp_le_length)
  then show ?thesis by (intro bit_word_eqI) (auto simp: bit_simps)
qed

lemma narrow_int_read:
  "attributeInt (appendNarrowInt [] w True) = Inr w" "attributeUint (appendNarrowInt [] w False) = Inr w"
  "length (appendNarrowInt [] w b) \<le> 8"
proof -
  note s = narrow_signed [where 'a = 8, of w] narrow_signed [where 'a = 16, of w] narrow_signed [where 'a = 32, of w]
  show "attributeInt (appendNarrowInt [] w True) = Inr w"
    using s unfolding appendNarrowInt_def attributeInt_def Let_def by simp
  note u = narrow_unsigned [where 'a = 8, of w] narrow_unsigned [where 'a = 16, of w] narrow_unsigned [where 'a = 32, of w]
  show "attributeUint (appendNarrowInt [] w False) = Inr w"
    using u unfolding appendNarrowInt_def attributeUint_def Let_def by simp
  show "length (appendNarrowInt [] w b) \<le> 8" by (simp add: appendNarrowInt_def Let_def)
qed

text \<open>What a reader makes of an encoded attribute.\<close>

definition carried_attribute :: "attribute \<Rightarrow> attribute" where
  "carried_attribute a =
     (let t = AttrType a; b = no_attribute\<lparr>AttrSet := AttrSet a, AttrVariation := AttrVariation a, AttrType := t\<rparr>
      in if t = AttrAttributeList \<or> t = AttrExtAttributeList then
           b\<lparr>AttrType := (if length (AttrOctets a) > MaxAttributeValue then AttrExtAttributeList else AttrAttributeList),
             AttrOctets := AttrOctets a\<rparr>
         else if t = AttrVisibleString then b\<lparr>AttrText := AttrText a\<rparr>
         else if t = AttrUnsignedInt \<or> t = AttrSignedInt then b\<lparr>AttrNumber := AttrNumber a\<rparr>
         else if t = AttrFloat then b\<lparr>AttrReal := f64_of_f32 (f32_of_f64 (AttrReal a))\<rparr>
         else if t = AttrTime then b\<lparr>AttrWhen := time48 (AttrWhen a)\<rparr>
         else b\<lparr>AttrOctets := AttrOctets a\<rparr>)"

definition attribute_fits :: "attribute \<Rightarrow> bool" where
  "attribute_fits a \<longleftrightarrow>
     (let t = AttrType a
      in if t = AttrAttributeList \<or> t = AttrExtAttributeList
           then even (length (AttrOctets a)) \<and> length (AttrOctets a) \<le> 511
         else if t = AttrVisibleString then length (AttrText a) \<le> 255
         else if t \<in> {AttrUnsignedInt, AttrSignedInt, AttrFloat, AttrTime} then True
         else length (AttrOctets a) \<le> 255)"


lemma ParseAttribute_value:
  assumes "length val = k + (if t = AttrExtAttributeList then 256 else 0)" "k \<le> 255"
  shows "ParseAttribute set_no v ([t, of_nat k] @ val @ rest) =
    map_sum id (\<lambda>a. (a, length val + 2)) (attribute_value (no_attribute\<lparr>AttrSet := set_no, AttrVariation := v, AttrType := t\<rparr>) val)"
proof -
  have u: "unat (of_nat k :: byte) = k" using assms(2) by (simp add: unat_of_nat)
  have slice: "subslice (t # of_nat k # val @ rest) AttributeHeaderSize (AttributeHeaderSize + length val) = val"
    by (simp add: subslice_def)
  have at: "([t, of_nat k] @ val @ rest) ! 0 = t" "([t, of_nat k] @ val @ rest) ! 1 = of_nat k"
    "\<not> length ([t, of_nat k] @ val @ rest) < AttributeHeaderSize"
    "\<not> AttributeHeaderSize + length val > length ([t, of_nat k] @ val @ rest)" by simp_all
  have ty: "AttrType (no_attribute\<lparr>AttrSet := set_no, AttrVariation := v, AttrType := t\<rparr>) = t" by simp
  show ?thesis
    unfolding ParseAttribute_def Let_def at(1,2) ty u assms(1) [symmetric] if_not_P [OF at(3)] if_not_P [OF at(4)]
    using slice by (simp add: add.commute split: sum.split)
qed

text \<open>
  C37. An attribute is written exactly when its value fits the length octet, and then the reader takes
  exactly the octets written, whatever follows them, and recovers the attribute: text, octets and
  integers of either sign exactly, a real at single precision, a time to the millisecond, a list
  under the type its length calls for.
\<close>

theorem attribute_roundtrip:
  "case AppendAttribute dst a of
     Inl e \<Rightarrow> e = ErrAttribute \<and> \<not> attribute_fits a
   | Inr out \<Rightarrow> attribute_fits a \<and>
       (\<exists>enc. out = dst @ enc \<and>
          ParseAttribute (AttrSet a) (AttrVariation a) (enc @ rest) = Inr (carried_attribute a, length enc))"
proof -
  let ?t = "AttrType a" and ?n = "length (AttrOctets a)"
  let ?b = "\<lambda>t. no_attribute\<lparr>AttrSet := AttrSet a, AttrVariation := AttrVariation a, AttrType := t\<rparr>"
  have read: "\<exists>enc. dst @ [t, of_nat k] @ val = dst @ enc \<and>
      ParseAttribute (AttrSet a) (AttrVariation a) (enc @ rest) = Inr (carried_attribute a, length enc)"
    if "length val = k + (if t = AttrExtAttributeList then 256 else 0)" "k \<le> 255" "attribute_value (?b t) val = Inr (carried_attribute a)" for t k val
    using ParseAttribute_value [OF that(1,2), of "AttrSet a" "AttrVariation a" rest] that(3)
    by (intro exI [of _ "[t, of_nat k] @ val"]) simp
  show ?thesis
  proof (cases "?t = AttrAttributeList \<or> ?t = AttrExtAttributeList")
    case True
    consider "odd ?n" | "even ?n" "?n > 511" | "even ?n" "255 < ?n" "?n \<le> 511" | "even ?n" "?n \<le> 255" by linarith
    then show ?thesis
    proof cases
      case 3
      have "attribute_value (?b AttrExtAttributeList) (AttrOctets a) = Inr (carried_attribute a)"
        using True 3 by (auto simp: attribute_value_def carried_attribute_def Let_def)
      then show ?thesis
        using True 3 read [of "AttrOctets a" "?n - 256" AttrExtAttributeList] by (auto simp: AppendAttribute_def attribute_fits_def)
    next
      case 4
      have "attribute_value (?b AttrAttributeList) (AttrOctets a) = Inr (carried_attribute a)"
        using True 4 by (auto simp: attribute_value_def carried_attribute_def Let_def)
      then show ?thesis
        using True 4 read [of "AttrOctets a" ?n AttrAttributeList] by (auto simp: AppendAttribute_def attribute_fits_def)
    qed (use True in \<open>auto simp: AppendAttribute_def attribute_fits_def odd_iff_mod_2_eq_one even_iff_mod_2_eq_zero\<close>)
  next
    case False
    then have app: "AppendAttribute dst a =
        (if length (attribute_octets a) > 255 then Inl ErrAttribute else Inr (dst @ [?t, of_nat (length (attribute_octets a))] @ attribute_octets a))"
      by (simp add: AppendAttribute_def Let_def)
    have "length (appendNarrowInt [] (AttrNumber a) b) \<le> 255" for b
      using narrow_int_read(3) [of "AttrNumber a" b] by linarith
    then have fits: "attribute_fits a \<longleftrightarrow> length (attribute_octets a) \<le> 255"
      using False by (auto simp: attribute_fits_def attribute_octets_def Let_def appendTime48_def)
    have val: "attribute_value (?b ?t) (attribute_octets a) = Inr (carried_attribute a)"
    proof -
      consider "?t = AttrVisibleString" | "?t = AttrUnsignedInt" | "?t = AttrSignedInt" | "?t = AttrFloat" | "?t = AttrTime"
        | "?t \<notin> {AttrVisibleString, AttrUnsignedInt, AttrSignedInt, AttrFloat, AttrTime}" by blast
      then show ?thesis
        using False readTime48_put48 [of "TimeToDNP3 (AttrWhen a)" "[]"]
        by cases (simp_all add: attribute_value_def attribute_octets_def carried_attribute_def Let_def narrow_int_read
          ParseTime48_def appendTime48_def)
    qed
    have len: "length (attribute_octets a) = length (attribute_octets a) + (if ?t = AttrExtAttributeList then 256 else 0)"
      using False by simp
    show ?thesis
    proof (cases "length (attribute_octets a) \<le> 255")
      case True
      then show ?thesis using app fits read [OF len True val] by simp
    next
      case False
      then show ?thesis using app fits by simp
    qed
  qed
qed

section \<open>Data sets and activation results survive encoding\<close>

lemma dataset_append: "AppendDatasetDescriptor dst es = map_sum id ((@) dst) (AppendDatasetDescriptor [] es)"
proof (induction es arbitrary: dst)
  case (Cons e es)
  let ?x = "[of_nat (3 + length (DEAncillary e)), DECode e, DEDataType e, DEMaxLength e] @ DEAncillary e"
  show ?case
    using Cons.IH [of "dst @ ?x"] Cons.IH [of ?x] by (cases "AppendDatasetDescriptor [] es") simp_all
qed simp

lemma byte_unat_le: "unat (b :: byte) \<le> 255"
proof -
  have "unat b < 2 ^ LENGTH(8)" by (rule unsigned_less)
  moreover have "2 ^ LENGTH(8) = (256 :: nat)" by simp
  ultimately show ?thesis by linarith
qed

lemma past_four:
  "drop (4 + k) (a # b # c # d # xs) = drop k xs" "take (4 + k) (a # b # c # d # xs) = a # b # c # d # take k xs"
  "drop 4 (a # b # c # d # xs) = xs"
  by (simp_all add: eval_nat_numeral)

lemma dataset_parse_step:
  assumes "length anc \<le> 252"
  shows "ParseDatasetDescriptor ([of_nat (3 + length anc), c, t, m] @ anc @ rest) =
    map_sum id ((#) \<lparr>DECode = c, DEDataType = t, DEMaxLength = m, DEAncillary = anc\<rparr>) (ParseDatasetDescriptor rest)"
proof -
  have u: "unat (of_nat (3 + length anc) :: byte) = 3 + length anc" using assms by (simp add: unat_of_nat del: of_nat_add)
  show ?thesis
    by (subst ParseDatasetDescriptor.simps) (simp add: u subslice_def Let_def past_four del: of_nat_add split: sum.split)
qed

text \<open>
  A data set descriptor that is written reads back as it was, and one that is read is written back
  octet for octet: the two directions of one encoding.
\<close>

theorem dataset_roundtrip: "AppendDatasetDescriptor [] es = Inr data \<longleftrightarrow> ParseDatasetDescriptor data = Inr es"
proof
  show "AppendDatasetDescriptor [] es = Inr data \<Longrightarrow> ParseDatasetDescriptor data = Inr es"
  proof (induction es arbitrary: data)
    case Nil
    then show ?case by (simp add: ParseDatasetDescriptor.simps)
  next
    case (Cons e es)
    let ?x = "[of_nat (3 + length (DEAncillary e)), DECode e, DEDataType e, DEMaxLength e] @ DEAncillary e"
    have fits: "length (DEAncillary e) \<le> 252" using Cons.prems by (simp split: if_splits)
    then obtain rest where r: "AppendDatasetDescriptor [] es = Inr rest" "data = ?x @ rest"
      using Cons.prems dataset_append [of ?x es] by (cases "AppendDatasetDescriptor [] es") auto
    show ?case using dataset_parse_step [OF fits, of "DECode e" "DEDataType e" "DEMaxLength e" rest] Cons.IH [OF r(1)]
      by (simp add: r(2))
  qed
  show "ParseDatasetDescriptor data = Inr es \<Longrightarrow> AppendDatasetDescriptor [] es = Inr data"
  proof (induction data arbitrary: es rule: ParseDatasetDescriptor.induct)
    case (1 data)
    show ?case
    proof (cases "data = []")
      case True
      then show ?thesis using "1.prems" by (simp add: ParseDatasetDescriptor.simps)
    next
      case False
      define n where "n = unat (data ! 0)"
      have ok: "3 \<le> n" "n < length data"
        using "1.prems" False by (auto simp: ParseDatasetDescriptor.simps [of data] n_def Let_def split: if_splits)
      then obtain out where o: "ParseDatasetDescriptor (drop (n + 1) data) = Inr out"
        "es = \<lparr>DECode = data ! 1, DEDataType = data ! 2, DEMaxLength = data ! 3, DEAncillary = subslice data 4 (n + 1)\<rparr> # out"
        using "1.prems" False by (subst (asm) ParseDatasetDescriptor.simps) (auto simp: n_def Let_def split: if_splits sum.splits)
      have IH: "AppendDatasetDescriptor [] out = Inr (drop (n + 1) data)"
        using "1.IH" [of n] False ok o(1) by (simp add: n_def)
      have n: "n \<le> 255" unfolding n_def by (rule byte_unat_le)
      have len: "min (Suc n) (length data) - 4 = n - 3" using ok by simp
      have b: "of_nat (3 + (n - 3)) = data ! 0" using ok by (simp add: n_def)
      have split: "[data ! 0, data ! 1, data ! 2, data ! 3] @ subslice data 4 (n + 1) @ drop (n + 1) data = data"
      proof -
        have "[data ! 0, data ! 1, data ! 2, data ! 3] = take 4 data"
          using ok by (intro nth_equalityI) (auto simp: less_Suc_eq numeral_eq_Suc)
        moreover have "4 + (n - 3) = n + 1" using ok by simp
        ultimately show ?thesis using split_slices [of data 4 "n - 3"] by simp
      qed
      show ?thesis
        using IH n split unfolding o(2) by (simp add: dataset_append [of "_ # _"] len b del: of_nat_add)
    qed
  qed
qed

lemma statuses_append: "append_statuses dst ss = map_sum id ((@) dst) (append_statuses [] ss)"
proof (induction ss arbitrary: dst)
  case (Cons s ss)
  let ?x = "[of_nat (length (ASText s) + 1), ASCode s] @ ASText s"
  show ?case using Cons.IH [of "dst @ ?x"] Cons.IH [of ?x] by (cases "append_statuses [] ss") simp_all
qed simp

lemma statuses_parse: "append_statuses [] ss = Inr data \<Longrightarrow> parse_statuses (length ss) (data @ rest) = Inr (ss, rest)"
proof (induction ss arbitrary: data)
  case (Cons s ss)
  let ?x = "[of_nat (length (ASText s) + 1), ASCode s] @ ASText s"
  have fits: "length (ASText s) \<le> 254" using Cons.prems by (simp split: if_splits)
  then obtain more where r: "append_statuses [] ss = Inr more" "data = ?x @ more"
    using Cons.prems statuses_append [of ?x ss] by (cases "append_statuses [] ss") auto
  have u: "unat (of_nat (length (ASText s) + 1) :: byte) = length (ASText s) + 1" using fits by (simp add: unat_of_nat del: of_nat_add of_nat_Suc)
  then have nz: "(of_nat (length (ASText s) + 1) :: byte) \<noteq> 0" by (metis add_is_0 one_neq_zero unsigned_0)
  show ?case
    unfolding r(2) using u nz Cons.IH [OF r(1)]
    by (simp add: Let_def subslice_def del: of_nat_add of_nat_Suc)
qed simp

text \<open>
  An activation result is refused exactly when it does not fit its fields, and one that is written
  reads back with the same statuses, its delay cut to the millisecond.
\<close>

theorem activation_roundtrip:
  "case AppendActivationResult [] v of
     Inl e \<Rightarrow> e = ErrBadConfig \<and>
       (Milliseconds (ARDelay v) < 0 \<or> Milliseconds (ARDelay v) > 0xffffffff \<or> length (ARStatuses v) > 255 \<or>
        (\<exists>s \<in> set (ARStatuses v). length (ASText s) > 254))
   | Inr data \<Rightarrow> ParseActivationResult data = Inr (v\<lparr>ARDelay := Milliseconds (ARDelay v) * 1000000\<rparr>)"
proof (cases "Milliseconds (ARDelay v) < 0 \<or> Milliseconds (ARDelay v) > 0xffffffff \<or> length (ARStatuses v) > 255")
  case True
  then show ?thesis by (auto simp: AppendActivationResult_def Let_def)
next
  case False
  have refuse: "append_statuses dst ss = Inl e \<Longrightarrow> e = ErrBadConfig \<and> (\<exists>s \<in> set ss. length (ASText s) > 254)" for dst ss e
    by (induction ss arbitrary: dst) (auto split: if_splits)
  let ?dst = "put32 (of_int (Milliseconds (ARDelay v))) @ [of_nat (length (ARStatuses v))]"
  have a: "AppendActivationResult [] v = append_statuses ?dst (ARStatuses v)"
    using False by (simp add: AppendActivationResult_def Let_def)
  have n: "unat (of_nat (length (ARStatuses v)) :: byte) = length (ARStatuses v)" using False by (simp add: unat_of_nat)
  have ms: "uint (of_int (Milliseconds (ARDelay v)) :: u32) = Milliseconds (ARDelay v)"
    using False by (simp add: word_of_int_inverse)
  show ?thesis
  proof (cases "append_statuses [] (ARStatuses v)")
    case (Inl e)
    then show ?thesis using a statuses_append [of ?dst "ARStatuses v"] refuse [OF Inl] by simp
  next
    case (Inr data)
    have at4: "(put32 w @ [b] @ data) ! 4 = b" "drop 5 (put32 w @ [b] @ data) = data" for w b
      by (simp_all add: put32_def eval_nat_numeral)
    have "ParseActivationResult (?dst @ data) = Inr (v\<lparr>ARDelay := Milliseconds (ARDelay v) * 1000000\<rparr>)"
      using statuses_parse [OF Inr, of "[]"] at4 n ms by (simp add: ParseActivationResult_def)
    then show ?thesis using a Inr statuses_append [of ?dst "ARStatuses v"] by simp
  qed
qed

section \<open>Authentication objects survive encoding\<close>

lemma user_fields:
  "get32 (put32 q @ put16 u @ xs) = q" "get16 (drop 4 (put32 q @ put16 u @ xs)) = u" "drop 6 (put32 q @ put16 u @ xs) = xs"
  by simp_all

text \<open>
  Each authentication object is read back as it was written, and each reader refuses what is too
  short to be one: a challenge of fewer than four octets, an empty code, a key change that is not
  whole eight-octet blocks.
\<close>

theorem authentication_roundtrip:
  "(ParseAuthChallenge (AppendAuthChallenge [] c) = (if length (ACData c) < 4 then Inl ErrAuthenticationObject else Inr c)) \<and>
   (ParseAuthReply (AppendAuthReply [] r) = (if ARMac r = [] then Inl ErrAuthenticationObject else Inr r)) \<and>
   (length (KSChallenge k) \<le> 0xffff \<longrightarrow>
      ParseAuthKeyStatus (AppendAuthKeyStatus [] k) = (if length (KSChallenge k) < 4 then Inl ErrAuthenticationObject else Inr k)) \<and>
   (ParseAuthKeyChange (AppendAuthKeyChange [] w) =
      (if length (KCWrapped w) < 24 \<or> length (KCWrapped w) mod 8 \<noteq> 0 then Inl ErrAuthenticationObject else Inr w))"
proof (intro conjI impI)
  show "ParseAuthChallenge (AppendAuthChallenge [] c) = (if length (ACData c) < 4 then Inl ErrAuthenticationObject else Inr c)"
    by (simp add: ParseAuthChallenge_def AppendAuthChallenge_def user_fields nth_append)
  show "ParseAuthReply (AppendAuthReply [] r) = (if ARMac r = [] then Inl ErrAuthenticationObject else Inr r)"
    by (cases "ARMac r") (simp_all add: ParseAuthReply_def AppendAuthReply_def user_fields)
  show "ParseAuthKeyChange (AppendAuthKeyChange [] w) =
      (if length (KCWrapped w) < 24 \<or> length (KCWrapped w) mod 8 \<noteq> 0 then Inl ErrAuthenticationObject else Inr w)"
    by (simp add: ParseAuthKeyChange_def AppendAuthKeyChange_def user_fields)
  assume "length (KSChallenge k) \<le> 0xffff"
  then have n: "unat (of_nat (length (KSChallenge k)) :: u16) = length (KSChallenge k)" by (simp add: unat_of_nat)
  define pre where "pre = put32 (KSSequence k) @ put16 (KSUser k) @ [KSWrapAlgorithm k, KSStatus k, KSAlgorithm k] @
    put16 (of_nat (length (KSChallenge k)))"
  have app: "AppendAuthKeyStatus [] k = pre @ KSChallenge k @ KSMac k" by (simp add: AppendAuthKeyStatus_def pre_def)
  have pre: "length pre = 11" "get32 (pre @ xs) = KSSequence k" "get16 (drop 4 (pre @ xs)) = KSUser k"
    "(pre @ xs) ! 6 = KSWrapAlgorithm k" "(pre @ xs) ! 7 = KSStatus k" "(pre @ xs) ! 8 = KSAlgorithm k"
    "get16 (subslice (pre @ xs) 9 11) = of_nat (length (KSChallenge k))" for xs
    by (simp_all add: pre_def nth_append subslice_def)
  show "ParseAuthKeyStatus (AppendAuthKeyStatus [] k) = (if length (KSChallenge k) < 4 then Inl ErrAuthenticationObject else Inr k)"
    using pre n by (simp add: ParseAuthKeyStatus_def app Let_def subslice_plus)
qed

section \<open>Framing of attributes\<close>

definition long_list :: "attribute \<Rightarrow> bool" where
  "long_list a \<longleftrightarrow> (AttrType a = AttrAttributeList \<or> AttrType a = AttrExtAttributeList) \<and> length (AttrOctets a) > MaxAttributeValue"

lemma walk_one_attribute:
  assumes "k \<le> 255" "k \<le> length val"
  shows "walkAttributes 1 ([t, of_nat k] @ val @ rest) 0 = Inr (2 + k)"
proof -
  have "unat (of_nat k :: byte) = k" using assms(1) by (simp add: unat_of_nat)
  then show ?thesis using assms(2) by (simp add: Let_def)
qed

text \<open>
  The framing layer and the attribute codec agree on where an attribute ends, except for one: a
  list of attributes too long for the plain form is written in the extended form, whose length
  octet counts from 256, and the framing layer takes that octet at face value. It ends the object
  256 octets early, and what it hands on is then refused as malformed.
\<close>

theorem long_list_misframed:
  assumes "AppendAttribute [] a = Inr enc"
  shows "walkAttributes 1 (enc @ rest) 0 = Inr (length enc - (if long_list a then 256 else 0)) \<and>
    (long_list a \<longrightarrow> ParseAttribute (AttrSet a) (AttrVariation a) (take (length enc - 256) enc) = Inl ErrAttribute)"
proof (cases "long_list a")
  case True
  let ?n = "length (AttrOctets a)"
  have n: "255 < ?n" "?n \<le> 511" "enc = [AttrExtAttributeList, of_nat (?n - 256)] @ AttrOctets a"
    using True assms by (auto simp: long_list_def AppendAttribute_def split: if_splits)
  moreover have "?n - 256 = k \<Longrightarrow> ?n = k + 256" for k using n(1) by simp
  ultimately have w: "walkAttributes 1 (enc @ rest) 0 = Inr (length enc - 256)"
    using walk_one_attribute [of "?n - 256" "AttrOctets a" AttrExtAttributeList rest] by simp
  have u: "unat (of_nat (?n - 256) :: byte) = ?n - 256" using n(2) by (simp add: unat_of_nat del: of_nat_diff)
  have "2 \<le> length enc - 256" "length enc = ?n + 2" using n by simp_all
  moreover have "ParseAttribute (AttrSet a) (AttrVariation a) (AttrExtAttributeList # of_nat (?n - 256) # xs) = Inl ErrAttribute"
    if "length xs = ?n - 256" for xs
  proof -
    have "?n - 256 < ?n" using n(1) by simp
    then show ?thesis using that u by (simp add: ParseAttribute_def Let_def del: of_nat_diff)
  qed
  moreover have "take (length enc - 256) enc = AttrExtAttributeList # of_nat (?n - 256) # take (?n - 256) (AttrOctets a)"
    using n(1) unfolding n(3) by (simp add: take_Cons' del: of_nat_diff)
  ultimately show ?thesis using True w n(1) by simp
next
  case False
  then obtain t k val where "enc = [t, of_nat k] @ val" "k = length val" "k \<le> 255"
    using assms by (auto simp: long_list_def AppendAttribute_def Let_def split: if_splits)
  then show ?thesis using walk_one_attribute [of k val t rest] False by simp
qed

definition many_attributes :: attribute where
  "many_attributes = no_attribute\<lparr>AttrVariation := AttrList, AttrType := AttrAttributeList, AttrOctets := replicate 300 0\<rparr>"

theorem long_list_misframed_witness:
  "let enc = [AttrExtAttributeList, 44] @ replicate 300 0
   in AppendAttribute [] many_attributes = Inr enc \<and> walkAttributes 1 enc 0 = Inr (length enc - 256) \<and>
      ParseAttribute 0 AttrList (take (length enc - 256) enc) = Inl ErrAttribute"
proof -
  have a: "AppendAttribute [] many_attributes = Inr ([AttrExtAttributeList, 44] @ replicate 300 0)"
    by (simp add: many_attributes_def AppendAttribute_def)
  show ?thesis
    using long_list_misframed [OF a, of "[]"] a by (simp add: many_attributes_def long_list_def no_attribute_def)
qed

end
