(* ===== verification/Obj_File.thy ===== *)
theory Obj_File
  imports Obj_Variable
begin

text \<open>
  The file objects of group 70 (\<^verbatim>\<open>objects/file.go\<close>) and the vocabulary of file transfer
  (\<^verbatim>\<open>file.go\<close>). Names and texts are lists of octets. The lemmas show that every object is read back
  as it was written, wherever the strings in it lie, that a directory is read back entry by
  entry, and that the walk over one always ends.
\<close>

type_synonym FileType = u16
type_synonym FileMode = u16
type_synonym FilePermissions = u16
type_synonym FileStatus = byte

abbreviation (input) FileTypeDirectory :: FileType where "FileTypeDirectory \<equiv> 0"
abbreviation (input) FileTypeSimple :: FileType where "FileTypeSimple \<equiv> 1"
abbreviation (input) FileModeNull :: FileMode where "FileModeNull \<equiv> 0"
abbreviation (input) FileModeRead :: FileMode where "FileModeRead \<equiv> 1"
abbreviation (input) FileModeWrite :: FileMode where "FileModeWrite \<equiv> 2"
abbreviation (input) FileModeAppend :: FileMode where "FileModeAppend \<equiv> 3"

record file_info =
  FIName :: "byte list"
  FIType :: FileType
  FISize :: u32
  FICreated :: int
  FIPermissions :: FilePermissions

abbreviation (input) FileAuthSize :: nat where "FileAuthSize \<equiv> 12"
abbreviation (input) FileCommandSize :: nat where "FileCommandSize \<equiv> 26"
abbreviation (input) FileCommandStatusSize :: nat where "FileCommandStatusSize \<equiv> 13"
abbreviation (input) FileTransportSize :: nat where "FileTransportSize \<equiv> 8"
abbreviation (input) FileTransportStatusSize :: nat where "FileTransportStatusSize \<equiv> 9"
abbreviation (input) FileDescriptorSize :: nat where "FileDescriptorSize \<equiv> 20"
abbreviation (input) fileLastBlock :: u32 where "fileLastBlock \<equiv> 0x80000000"

section \<open>Shared helpers\<close>

definition sliceString :: "byte list \<Rightarrow> u16 \<Rightarrow> u16 \<Rightarrow> nat \<Rightarrow> object_error + byte list" where
  "sliceString buf offset sz fixed =
     (if sz = 0 then Inr []
      else if unat offset < fixed then Inl ErrFileObject
      else
        let end_at = unat offset + unat sz
        in if end_at > length buf then Inl ErrFileObject else Inr (subslice buf (unat offset) end_at))"

definition parseFileTime :: "byte list \<Rightarrow> int" where
  "parseFileTime buf = (let ms = readTime48 buf in if ms = 0 then zero_time else DNP3ToTime ms)"

definition appendFileTime :: "byte list \<Rightarrow> int \<Rightarrow> byte list" where
  "appendFileTime dst t = (if t = zero_time then appendTime48 dst 0 else appendTime48 dst (TimeToDNP3 t))"

section \<open>Authentication\<close>

record file_auth =
  FAUser :: "byte list"
  FAPassword :: "byte list"
  FAKey :: u32

definition ParseFileAuth :: "byte list \<Rightarrow> object_error + file_auth" where
  "ParseFileAuth buf =
     (if length buf < FileAuthSize then Inl ErrFileObject
      else
        case sliceString buf (get16 (subslice buf 0 2)) (get16 (subslice buf 2 4)) FileAuthSize of
          Inl e \<Rightarrow> Inl e
        | Inr user \<Rightarrow>
            case sliceString buf (get16 (subslice buf 4 6)) (get16 (subslice buf 6 8)) FileAuthSize of
              Inl e \<Rightarrow> Inl e
            | Inr password \<Rightarrow> Inr \<lparr>FAUser = user, FAPassword = password, FAKey = get32 (subslice buf 8 12)\<rparr>)"

definition AppendFileAuth :: "byte list \<Rightarrow> file_auth \<Rightarrow> byte list" where
  "AppendFileAuth dst a =
     dst @ put16 (of_nat FileAuthSize) @ put16 (of_nat (length (FAUser a))) @
     put16 (of_nat (FileAuthSize + length (FAUser a))) @ put16 (of_nat (length (FAPassword a))) @
     put32 (FAKey a) @ FAUser a @ FAPassword a"

section \<open>Commands\<close>

record file_command =
  FCName :: "byte list"
  FCCreated :: int
  FCPermissions :: FilePermissions
  FCKey :: u32
  FCSize :: u32
  FCMode :: FileMode
  FCMaxBlockSize :: u16
  FCRequestID :: u16

definition ParseFileCommand :: "byte list \<Rightarrow> object_error + file_command" where
  "ParseFileCommand buf =
     (if length buf < FileCommandSize then Inl ErrFileObject
      else
        case sliceString buf (get16 (subslice buf 0 2)) (get16 (subslice buf 2 4)) FileCommandSize of
          Inl e \<Rightarrow> Inl e
        | Inr name \<Rightarrow>
            Inr \<lparr>FCName = name, FCCreated = parseFileTime (subslice buf 4 10), FCPermissions = get16 (subslice buf 10 12),
                 FCKey = get32 (subslice buf 12 16), FCSize = get32 (subslice buf 16 20), FCMode = get16 (subslice buf 20 22),
                 FCMaxBlockSize = get16 (subslice buf 22 24), FCRequestID = get16 (subslice buf 24 26)\<rparr>)"

definition AppendFileCommand :: "byte list \<Rightarrow> file_command \<Rightarrow> byte list" where
  "AppendFileCommand dst c =
     dst @ put16 (of_nat FileCommandSize) @ put16 (of_nat (length (FCName c))) @ appendFileTime [] (FCCreated c) @
     put16 (FCPermissions c) @ put32 (FCKey c) @ put32 (FCSize c) @ put16 (FCMode c) @ put16 (FCMaxBlockSize c) @
     put16 (FCRequestID c) @ FCName c"

record file_command_status =
  FSHandle :: u32
  FSSize :: u32
  FSMaxBlockSize :: u16
  FSRequestID :: u16
  FSStatus :: FileStatus
  FSText :: "byte list"

definition ParseFileCommandStatus :: "byte list \<Rightarrow> object_error + file_command_status" where
  "ParseFileCommandStatus buf =
     (if length buf < FileCommandStatusSize then Inl ErrFileObject
      else Inr \<lparr>FSHandle = get32 (subslice buf 0 4), FSSize = get32 (subslice buf 4 8), FSMaxBlockSize = get16 (subslice buf 8 10),
                FSRequestID = get16 (subslice buf 10 12), FSStatus = buf ! 12, FSText = drop FileCommandStatusSize buf\<rparr>)"

definition AppendFileCommandStatus :: "byte list \<Rightarrow> file_command_status \<Rightarrow> byte list" where
  "AppendFileCommandStatus dst s =
     dst @ put32 (FSHandle s) @ put32 (FSSize s) @ put16 (FSMaxBlockSize s) @ put16 (FSRequestID s) @ [FSStatus s] @ FSText s"

section \<open>Blocks\<close>

record file_transport =
  FTHandle :: u32
  FTBlock :: u32
  FTLast :: bool
  FTData :: "byte list"

definition ParseFileTransport :: "byte list \<Rightarrow> object_error + file_transport" where
  "ParseFileTransport buf =
     (if length buf < FileTransportSize then Inl ErrFileObject
      else
        let block = get32 (subslice buf 4 8)
        in Inr \<lparr>FTHandle = get32 (subslice buf 0 4), FTBlock = block AND NOT fileLastBlock, FTLast = (block AND fileLastBlock \<noteq> 0),
                FTData = drop FileTransportSize buf\<rparr>)"

definition AppendFileTransport :: "byte list \<Rightarrow> file_transport \<Rightarrow> byte list" where
  "AppendFileTransport dst t =
     (let block = FTBlock t AND NOT fileLastBlock;
          block = (if FTLast t then block OR fileLastBlock else block)
      in dst @ put32 (FTHandle t) @ put32 block @ FTData t)"

record file_transport_status =
  TSHandle :: u32
  TSBlock :: u32
  TSLast :: bool
  TSStatus :: FileStatus
  TSText :: "byte list"

definition ParseFileTransportStatus :: "byte list \<Rightarrow> object_error + file_transport_status" where
  "ParseFileTransportStatus buf =
     (if length buf < FileTransportStatusSize then Inl ErrFileObject
      else
        let block = get32 (subslice buf 4 8)
        in Inr \<lparr>TSHandle = get32 (subslice buf 0 4), TSBlock = block AND NOT fileLastBlock, TSLast = (block AND fileLastBlock \<noteq> 0),
                TSStatus = buf ! 8, TSText = drop FileTransportStatusSize buf\<rparr>)"

definition AppendFileTransportStatus :: "byte list \<Rightarrow> file_transport_status \<Rightarrow> byte list" where
  "AppendFileTransportStatus dst s =
     (let block = TSBlock s AND NOT fileLastBlock;
          block = (if TSLast s then block OR fileLastBlock else block)
      in dst @ put32 (TSHandle s) @ put32 block @ [TSStatus s] @ TSText s)"

section \<open>Descriptors and directories\<close>

record file_descriptor =
  FDName :: "byte list"
  FDType :: FileType
  FDSize :: u32
  FDCreated :: int
  FDPermissions :: FilePermissions
  FDRequestID :: u16

definition parseFileDescriptor :: "byte list \<Rightarrow> object_error + file_descriptor \<times> nat" where
  "parseFileDescriptor buf =
     (if length buf < FileDescriptorSize then Inl ErrFileObject
      else
        let offset = get16 (subslice buf 0 2); sz = get16 (subslice buf 2 4)
        in case sliceString buf offset sz FileDescriptorSize of
             Inl e \<Rightarrow> Inl e
           | Inr name \<Rightarrow>
               Inr (\<lparr>FDName = name, FDType = get16 (subslice buf 4 6), FDSize = get32 (subslice buf 6 10),
                     FDCreated = parseFileTime (subslice buf 10 16), FDPermissions = get16 (subslice buf 16 18),
                     FDRequestID = get16 (subslice buf 18 20)\<rparr>,
                    max (unat offset + unat sz) FileDescriptorSize))"

definition ParseFileDescriptor :: "byte list \<Rightarrow> object_error + file_descriptor" where
  "ParseFileDescriptor buf = (case parseFileDescriptor buf of Inl e \<Rightarrow> Inl e | Inr (d, n) \<Rightarrow> Inr d)"

definition AppendFileDescriptor :: "byte list \<Rightarrow> file_descriptor \<Rightarrow> byte list" where
  "AppendFileDescriptor dst d =
     dst @ put16 (of_nat FileDescriptorSize) @ put16 (of_nat (length (FDName d))) @ put16 (FDType d) @ put32 (FDSize d) @
     appendFileTime [] (FDCreated d) @ put16 (FDPermissions d) @ put16 (FDRequestID d) @ FDName d"

definition FD_Info :: "file_descriptor \<Rightarrow> file_info" where
  "FD_Info d = \<lparr>FIName = FDName d, FIType = FDType d, FISize = FDSize d, FICreated = FDCreated d, FIPermissions = FDPermissions d\<rparr>"

definition DescriptorFor :: "file_info \<Rightarrow> u16 \<Rightarrow> file_descriptor" where
  "DescriptorFor info requestID =
     \<lparr>FDName = FIName info, FDType = FIType info, FDSize = FISize info, FDCreated = FICreated info,
      FDPermissions = FIPermissions info, FDRequestID = requestID\<rparr>"

lemma parseFileDescriptor_step:
  "parseFileDescriptor buf = Inr (d, n) \<Longrightarrow> FileDescriptorSize \<le> n \<and> buf \<noteq> []"
  by (auto simp: parseFileDescriptor_def Let_def split: if_splits sum.splits)

text \<open>A malformed entry ends the walk; the entries before it are kept beside the error.\<close>

function ParseDirectory :: "byte list \<Rightarrow> file_info list \<times> object_error option" where
  "ParseDirectory data =
     (if data = [] then ([], None)
      else
        case parseFileDescriptor data of
          Inl e \<Rightarrow> ([], Some e)
        | Inr (d, n) \<Rightarrow> (case ParseDirectory (drop n data) of (out, e) \<Rightarrow> (FD_Info d # out, e)))"
  by auto
termination by (relation "measure length") (auto dest: parseFileDescriptor_step)

declare ParseDirectory.simps [simp del]

section \<open>File objects survive encoding\<close>

text \<open>What is left of a creation time: milliseconds of the protocol's range, and nothing at its zero.\<close>

definition file_time :: "int \<Rightarrow> int" where
  "file_time t = (if t = zero_time \<or> TimeToDNP3 t = 0 then zero_time else time48 t)"

lemma length_appendFileTime [simp]: "length (appendFileTime [] t) = 6"
  by (simp add: appendFileTime_def appendTime48_def)

lemma TimeToDNP3_48: "take_bit 48 (TimeToDNP3 t) = 0 \<longleftrightarrow> TimeToDNP3 t = 0"
proof -
  have "uint (TimeToDNP3 t) < 2 ^ 48" by (simp add: uint_TimeToDNP3 min_def max_def)
  then have "take_bit 48 (uint (TimeToDNP3 t)) = uint (TimeToDNP3 t)" by (simp add: take_bit_int_eq_self)
  then have "take_bit 48 (TimeToDNP3 t) = TimeToDNP3 t" by (simp add: word_uint_eq_iff unsigned_take_bit_eq)
  then show ?thesis by simp
qed

lemma parseFileTime_append [simp]: "parseFileTime (appendFileTime [] t) = file_time t"
  using readTime48_put48 [of "TimeToDNP3 t" "[]"] readTime48_put48 [of 0 "[]"] TimeToDNP3_48 [of t]
  by (simp add: parseFileTime_def appendFileTime_def appendTime48_def file_time_def Let_def)

lemma unat_length16: "n \<le> 0xffff \<Longrightarrow> unat (of_nat n :: u16) = n"
  by (simp add: unat_of_nat)

lemma sliceString_at:
  assumes "length pre \<le> 0xffff" "length s \<le> 0xffff" "fixed \<le> length pre"
  shows "sliceString (pre @ s @ rest) (of_nat (length pre)) (of_nat (length s)) fixed = Inr s"
proof (cases "s = []")
  case False
  then have "(of_nat (length s) :: u16) \<noteq> 0" using unat_length16 [OF assms(2)] by (metis length_0_conv unsigned_0)
  then show ?thesis using assms by (simp add: sliceString_def Let_def unat_length16 subslice_plus)
qed (simp add: sliceString_def)

lemma last_block:
  "((b AND NOT fileLastBlock) OR fileLastBlock) AND NOT fileLastBlock = b AND NOT fileLastBlock"
  "((b AND NOT fileLastBlock) OR fileLastBlock) AND fileLastBlock \<noteq> 0"
  "(b AND NOT fileLastBlock) AND fileLastBlock = 0"
  "(b AND NOT fileLastBlock) AND NOT fileLastBlock = b AND NOT fileLastBlock"
  by (auto simp: bit_simps intro!: bit_word_eqI) 

lemma file_descriptor_read:
  assumes "length (FDName d) \<le> 0xffff"
  shows "parseFileDescriptor (AppendFileDescriptor [] d @ rest) =
    Inr (d\<lparr>FDCreated := file_time (FDCreated d)\<rparr>, length (AppendFileDescriptor [] d))"
proof -
  define pre where "pre = put16 (of_nat FileDescriptorSize) @ put16 (of_nat (length (FDName d))) @ put16 (FDType d) @ put32 (FDSize d) @
     appendFileTime [] (FDCreated d) @ put16 (FDPermissions d) @ put16 (FDRequestID d)"
  have app: "AppendFileDescriptor [] d = pre @ FDName d" by (simp add: AppendFileDescriptor_def pre_def)
  have pre: "length pre = 20" "get16 (subslice (pre @ xs) 0 2) = 20" "get16 (subslice (pre @ xs) 2 4) = of_nat (length (FDName d))"
    "get16 (subslice (pre @ xs) 4 6) = FDType d" "get32 (subslice (pre @ xs) 6 10) = FDSize d"
    "parseFileTime (subslice (pre @ xs) 10 16) = file_time (FDCreated d)"
    "get16 (subslice (pre @ xs) 16 18) = FDPermissions d" "get16 (subslice (pre @ xs) 18 20) = FDRequestID d" for xs
    by (simp_all add: pre_def subslice_def)
  have s: "sliceString (pre @ FDName d @ rest) 20 (of_nat (length (FDName d))) FileDescriptorSize = Inr (FDName d)"
    using sliceString_at [of pre "FDName d" FileDescriptorSize rest] assms pre(1) by simp
  show ?thesis
    using pre s assms by (simp add: parseFileDescriptor_def app Let_def unat_length16)
qed

lemma last_block_numeral:
  "((b :: u32) AND - 2147483649 OR 2147483648) AND - 2147483649 = b AND - 2147483649"
  "((b :: u32) AND - 2147483649) AND 2147483648 = 0"
  using last_block(1) [of b] last_block(3) [of b] by simp_all

text \<open>
  The file objects are read back as they were written: credentials and names of any length the
  16-bit fields can carry, wherever they lie in the object, times to the millisecond, block
  numbers of 31 bits with their last-block mark, and the texts that run to the end of the object.
\<close>

theorem file_objects_roundtrip:
  assumes "FileAuthSize + length (FAUser a) \<le> 0xffff" "length (FAPassword a) \<le> 0xffff" "length (FCName c) \<le> 0xffff"
  shows "ParseFileAuth (AppendFileAuth [] a) = Inr a"
    "ParseFileCommand (AppendFileCommand [] c) = Inr (c\<lparr>FCCreated := file_time (FCCreated c)\<rparr>)"
    "ParseFileCommandStatus (AppendFileCommandStatus [] s) = Inr s"
    "ParseFileTransport (AppendFileTransport [] t) = Inr (t\<lparr>FTBlock := FTBlock t AND NOT fileLastBlock\<rparr>)"
    "ParseFileTransportStatus (AppendFileTransportStatus [] u) = Inr (u\<lparr>TSBlock := TSBlock u AND NOT fileLastBlock\<rparr>)"
proof -
  show "ParseFileAuth (AppendFileAuth [] a) = Inr a"
  proof -
    define pre where "pre = put16 (of_nat FileAuthSize) @ put16 (of_nat (length (FAUser a))) @
      put16 (of_nat (FileAuthSize + length (FAUser a))) @ put16 (of_nat (length (FAPassword a))) @ put32 (FAKey a)"
    have app: "AppendFileAuth [] a = pre @ FAUser a @ FAPassword a" by (simp add: AppendFileAuth_def pre_def)
    have pre: "length pre = 12" "get16 (subslice (pre @ xs) 0 2) = of_nat (length pre)"
      "get16 (subslice (pre @ xs) 2 4) = of_nat (length (FAUser a))"
      "get16 (subslice (pre @ xs) 4 6) = of_nat (length (pre @ FAUser a))"
      "get16 (subslice (pre @ xs) 6 8) = of_nat (length (FAPassword a))" "get32 (subslice (pre @ xs) 8 12) = FAKey a" for xs
      by (simp_all add: pre_def subslice_def)
    have s: "sliceString (pre @ FAUser a @ FAPassword a) (of_nat (length pre)) (of_nat (length (FAUser a))) FileAuthSize = Inr (FAUser a)"
      "sliceString (pre @ FAUser a @ FAPassword a) (of_nat (length (pre @ FAUser a))) (of_nat (length (FAPassword a))) FileAuthSize
         = Inr (FAPassword a)"
      using sliceString_at [of pre "FAUser a" FileAuthSize "FAPassword a"]
        sliceString_at [of "pre @ FAUser a" "FAPassword a" FileAuthSize "[]"] assms pre(1) by simp_all
    show ?thesis
      unfolding ParseFileAuth_def app pre(2-6) s using pre(1) by simp
  qed
  show "ParseFileCommand (AppendFileCommand [] c) = Inr (c\<lparr>FCCreated := file_time (FCCreated c)\<rparr>)"
  proof -
    define pre where "pre = put16 (of_nat FileCommandSize) @ put16 (of_nat (length (FCName c))) @ appendFileTime [] (FCCreated c) @
     put16 (FCPermissions c) @ put32 (FCKey c) @ put32 (FCSize c) @ put16 (FCMode c) @ put16 (FCMaxBlockSize c) @
     put16 (FCRequestID c)"
    have app: "AppendFileCommand [] c = pre @ FCName c" by (simp add: AppendFileCommand_def pre_def)
    have pre: "length pre = 26" "get16 (subslice (pre @ xs) 0 2) = of_nat (length pre)"
      "get16 (subslice (pre @ xs) 2 4) = of_nat (length (FCName c))"
      "parseFileTime (subslice (pre @ xs) 4 10) = file_time (FCCreated c)"
      "get16 (subslice (pre @ xs) 10 12) = FCPermissions c" "get32 (subslice (pre @ xs) 12 16) = FCKey c"
      "get32 (subslice (pre @ xs) 16 20) = FCSize c" "get16 (subslice (pre @ xs) 20 22) = FCMode c"
      "get16 (subslice (pre @ xs) 22 24) = FCMaxBlockSize c" "get16 (subslice (pre @ xs) 24 26) = FCRequestID c" for xs
      by (simp_all add: pre_def subslice_def)
    have s: "sliceString (pre @ FCName c) (of_nat (length pre)) (of_nat (length (FCName c))) FileCommandSize = Inr (FCName c)"
      using sliceString_at [of pre "FCName c" FileCommandSize "[]"] assms pre(1) by simp
    show ?thesis unfolding ParseFileCommand_def app pre(2-10) s using pre(1) by simp
  qed
  show "ParseFileCommandStatus (AppendFileCommandStatus [] s) = Inr s"
    by (simp add: ParseFileCommandStatus_def AppendFileCommandStatus_def subslice_def nth_append)
  show "ParseFileTransport (AppendFileTransport [] t) = Inr (t\<lparr>FTBlock := FTBlock t AND NOT fileLastBlock\<rparr>)"
    by (simp add: ParseFileTransport_def AppendFileTransport_def subslice_def Let_def last_block last_block_numeral)
  show "ParseFileTransportStatus (AppendFileTransportStatus [] u) = Inr (u\<lparr>TSBlock := TSBlock u AND NOT fileLastBlock\<rparr>)"
    by (simp add: ParseFileTransportStatus_def AppendFileTransportStatus_def subslice_def nth_append Let_def last_block last_block_numeral)
qed

text \<open>
  A directory is read back entry by entry: the descriptors laid end to end, whatever their names,
  give the infos of the files in order, with no error and nothing left over.
\<close>

theorem directory_roundtrip:
  assumes "\<forall>d \<in> set ds. length (FDName d) \<le> 0xffff"
  shows "ParseDirectory (concat (map (AppendFileDescriptor []) ds)) =
    (map (\<lambda>d. FD_Info (d\<lparr>FDCreated := file_time (FDCreated d)\<rparr>)) ds, None)"
  using assms
proof (induction ds)
  case Nil
  then show ?case by (simp add: ParseDirectory.simps)
next
  case (Cons d ds)
  have ne: "AppendFileDescriptor [] d @ xs \<noteq> []" for xs by (simp add: AppendFileDescriptor_def put16_def)
  have r: "parseFileDescriptor (AppendFileDescriptor [] d @ concat (map (AppendFileDescriptor []) ds)) =
     Inr (d\<lparr>FDCreated := file_time (FDCreated d)\<rparr>, length (AppendFileDescriptor [] d))"
    using Cons.prems by (intro file_descriptor_read) simp
  show ?case
    using Cons by (subst ParseDirectory.simps) (simp add: ne r del: append_is_Nil_conv)
qed

theorem directory_roundtrip_witness:
  "let ds = [\<lparr>FDName = [0x61], FDType = FileTypeSimple, FDSize = 5, FDCreated = 7000000, FDPermissions = 0, FDRequestID = 9\<rparr>,
             \<lparr>FDName = [], FDType = FileTypeDirectory, FDSize = 0, FDCreated = zero_time, FDPermissions = 1, FDRequestID = 9\<rparr>]
   in ParseDirectory (concat (map (AppendFileDescriptor []) ds)) =
     ([\<lparr>FIName = [0x61], FIType = FileTypeSimple, FISize = 5, FICreated = 7000000, FIPermissions = 0\<rparr>,
       \<lparr>FIName = [], FIType = FileTypeDirectory, FISize = 0, FICreated = zero_time, FIPermissions = 1\<rparr>], None)"
  unfolding Let_def
  by (subst directory_roundtrip) (simp_all add: FD_Info_def file_time_def TimeToDNP3_def UnixMilli_def time48_def Let_def)

text \<open>
  An entry with no name still moves the walk to where its name would start: with an offset past the
  end of the directory it hides every entry after it, without an error.
\<close>

theorem nameless_entry_hides:
  assumes "FileDescriptorSize \<le> length e" "get16 (subslice e 2 4) = 0" "length (e @ rest) \<le> unat (get16 (subslice e 0 2))"
  shows "\<exists>info. ParseDirectory (e @ rest) = ([info], None) \<and> FIName info = []"
proof -
  have ne: "e @ rest \<noteq> []" using assms(1) by auto
  have s: "subslice (e @ rest) lo hi = subslice e lo hi" if "hi \<le> 20" for lo hi using that assms(1) by simp
  obtain d where d: "parseFileDescriptor (e @ rest) = Inr (d, unat (get16 (subslice e 0 2)))" "FDName d = []"
    using assms by (simp add: parseFileDescriptor_def s sliceString_def Let_def max_def)
  show ?thesis using d ne assms(3) by (subst ParseDirectory.simps) (simp add: ParseDirectory.simps FD_Info_def del: append_is_Nil_conv)
qed

end
