(* ===== verification/Outstation_Events.thy ===== *)
theory Outstation_Events
  imports Dnp_Types
begin

text \<open>
  The outstation's event buffer (\<^verbatim>\<open>outstation/eventbuffer.go\<close>) over the point and class
  vocabulary of \<^verbatim>\<open>types.go\<close> and \<^verbatim>\<open>flags.go\<close>. Every method is a function of the buffer
  under its lock, so that interleavings of callers are sequences of these operations. The
  contract \<open>event_store\<close> says what a buffer of this kind promises about the identities of
  its events; the lemmas show that the buffer keeps it: no event is lost without being
  counted, and only events that were handed out are ever confirmed away.
\<close>

section \<open>The buffer\<close>

text \<open>
  The measurement fields of an event, which the buffer copies and never reads, are one
  field of a type \<open>'v\<close> left open.
\<close>

record 'v event =
  EType :: PointType
  EIndex :: u16
  EClass :: event_class
  EVariation :: byte
  EValue :: 'v
  ESelected :: bool
  ESeq :: u64

record 'v event_buffer =
  EBEvents :: "'v event list"
  EBMax :: nat
  EBOverflow :: bool
  EBDrops :: u64
  EBDropsAtSelect :: u64
  EBNextSeq :: u64

abbreviation (input) DefaultMaxEvents :: nat where "DefaultMaxEvents \<equiv> 1000"

definition NewEventBuffer :: "int \<Rightarrow> 'v event_buffer" where
  "NewEventBuffer maxEvents =
     (let mx = (if maxEvents \<le> 0 then DefaultMaxEvents else nat maxEvents)
      in \<lparr>EBEvents = [], EBMax = mx, EBOverflow = False, EBDrops = 0, EBDropsAtSelect = 0, EBNextSeq = 0\<rparr>)"

definition EB_Add :: "'v event \<Rightarrow> 'v event_buffer \<Rightarrow> 'v event_buffer" where
  "EB_Add e b =
     (let b = (if EBMax b \<le> length (EBEvents b)
               then b\<lparr>EBEvents := tl (EBEvents b), EBOverflow := True, EBDrops := EBDrops b + 1\<rparr>
               else b);
          b = b\<lparr>EBNextSeq := EBNextSeq b + 1\<rparr>
      in b\<lparr>EBEvents := EBEvents b @ [e\<lparr>ESeq := EBNextSeq b\<rparr>]\<rparr>)"

definition EB_Count :: "event_class \<Rightarrow> 'v event_buffer \<Rightarrow> nat" where
  "EB_Count bits b = length (filter (\<lambda>e. EClass e AND bits \<noteq> 0) (EBEvents b))"

definition EB_Total :: "'v event_buffer \<Rightarrow> nat" where
  "EB_Total b = length (EBEvents b)"

definition EB_Classes :: "'v event_buffer \<Rightarrow> event_class" where
  "EB_Classes b = foldl (\<lambda>bits e. if \<not> ESelected e then bits OR EClass e else bits) 0 (EBEvents b)"

definition EB_Overflowed :: "'v event_buffer \<Rightarrow> bool" where
  "EB_Overflowed b = EBOverflow b"

definition EB_ClearOverflow :: "'v event_buffer \<Rightarrow> 'v event_buffer" where
  "EB_ClearOverflow b = b\<lparr>EBOverflow := False\<rparr>"

text \<open>The loop of the selection: \<open>room\<close> is the limit less the events already taken.\<close>

fun select_loop :: "nat \<Rightarrow> ('v event \<Rightarrow> bool) \<Rightarrow> 'v event list \<Rightarrow> 'v event list \<times> 'v event list" where
  "select_loop room match [] = ([], [])"
| "select_loop room match (e # es) =
     (if room = 0 then (e # es, [])
      else if ESelected e \<or> \<not> match e then (case select_loop room match es of (es', out) \<Rightarrow> (e # es', out))
      else
        let e' = e\<lparr>ESelected := True\<rparr>
        in case select_loop (room - 1) match es of (es', out) \<Rightarrow> (e' # es', e' # out))"

definition selectWhere :: "int \<Rightarrow> ('v event \<Rightarrow> bool) \<Rightarrow> 'v event_buffer \<Rightarrow> 'v event_buffer \<times> 'v event list" where
  "selectWhere limit match b =
     (let b = b\<lparr>EBDropsAtSelect := EBDrops b\<rparr>
      in if limit \<le> 0 then (b, [])
         else case select_loop (nat limit) match (EBEvents b) of (es, out) \<Rightarrow> (b\<lparr>EBEvents := es\<rparr>, out))"

definition EB_Select :: "event_class \<Rightarrow> int \<Rightarrow> 'v event_buffer \<Rightarrow> 'v event_buffer \<times> 'v event list" where
  "EB_Select bits limit = selectWhere limit (\<lambda>e. EClass e AND bits \<noteq> 0)"

definition EB_SelectType :: "PointType \<Rightarrow> int \<Rightarrow> 'v event_buffer \<Rightarrow> 'v event_buffer \<times> 'v event list" where
  "EB_SelectType pt limit = selectWhere limit (\<lambda>e. EType e = pt)"

definition SelectedCount :: "'v event_buffer \<Rightarrow> nat" where
  "SelectedCount b = length (filter ESelected (EBEvents b))"

definition EB_Confirm :: "'v event_buffer \<Rightarrow> 'v event_buffer \<times> nat" where
  "EB_Confirm b =
     (let kept = filter (\<lambda>e. \<not> ESelected e) (EBEvents b);
          removed = length (filter ESelected (EBEvents b));
          b = b\<lparr>EBEvents := kept\<rparr>;
          b = (if removed > 0 \<and> EBDrops b = EBDropsAtSelect b then b\<lparr>EBOverflow := False\<rparr> else b)
      in (b, removed))"

definition EB_Unselect :: "'v event_buffer \<Rightarrow> 'v event_buffer \<times> nat" where
  "EB_Unselect b =
     (b\<lparr>EBEvents := map (\<lambda>e. if ESelected e then e\<lparr>ESelected := False\<rparr> else e) (EBEvents b)\<rparr>,
      length (filter ESelected (EBEvents b)))"

definition EB_Release :: "'v event list \<Rightarrow> 'v event_buffer \<Rightarrow> 'v event_buffer \<times> nat" where
  "EB_Release events b =
     (if events = [] then (b, 0)
      else
        let release = ESeq ` set events
        in (b\<lparr>EBEvents := map (\<lambda>e. if ESelected e \<and> ESeq e \<in> release then e\<lparr>ESelected := False\<rparr> else e) (EBEvents b)\<rparr>,
            length (filter (\<lambda>e. ESelected e \<and> ESeq e \<in> release) (EBEvents b))))"

definition EB_Discard :: "'v event list \<Rightarrow> 'v event_buffer \<Rightarrow> 'v event_buffer \<times> nat" where
  "EB_Discard events b =
     (if events = [] then (b, 0)
      else
        let dropped = ESeq ` set events;
            kept = filter (\<lambda>e. \<not> (ESeq e \<in> dropped \<and> ESelected e)) (EBEvents b);
            n = length (filter (\<lambda>e. ESeq e \<in> dropped \<and> ESelected e) (EBEvents b));
            b = b\<lparr>EBEvents := kept\<rparr>;
            b = (if n > 0 then b\<lparr>EBOverflow := True, EBDrops := EBDrops b + of_nat n\<rparr> else b)
        in (b, n))"

definition EB_Reset :: "'v event_buffer \<Rightarrow> 'v event_buffer" where
  "EB_Reset b = b\<lparr>EBEvents := [], EBOverflow := False\<rparr>"

section \<open>What a buffer of events promises\<close>

text \<open>
  The ledger of a history: the identities born in it, handed out, confirmed and lost, given what
  each operation does of these in a state.
\<close>

fun ledger_of :: "('op \<Rightarrow> 's \<Rightarrow> 's \<times> 'e list) \<Rightarrow> ('op \<Rightarrow> 's \<Rightarrow> u64 set) \<Rightarrow> ('op \<Rightarrow> 's \<Rightarrow> u64 set) \<Rightarrow>
    ('op \<Rightarrow> 's \<Rightarrow> u64 set) \<Rightarrow> ('e \<Rightarrow> u64) \<Rightarrow> 'op list \<Rightarrow> 's \<Rightarrow> u64 set \<times> u64 set \<times> u64 set \<times> u64 set" where
  "ledger_of step born conf lost ident [] s = ({}, {}, {}, {})"
| "ledger_of step born conf lost ident (op # ops) s =
     (case ledger_of step born conf lost ident ops (fst (step op s)) of (b, h, c, l) \<Rightarrow>
        (born op s \<union> b, ident ` set (snd (step op s)) \<union> h, conf op s \<union> c, lost op s \<union> l))"

text \<open>
  Events have identities that are never used twice. An operation may bring one into the
  buffer, confirm some away or lose some; what it confirms was handed out before, what it
  loses it counts. \<open>inv n\<close> is the invariant with room for \<open>n\<close> more operations, the identities
  being bounded.
\<close>

locale event_store =
  fixes step :: "'op \<Rightarrow> 's \<Rightarrow> 's \<times> 'e list"
    and legal :: "'op \<Rightarrow> bool"
    and inv :: "nat \<Rightarrow> 's \<Rightarrow> bool"
    and ids sel :: "'s \<Rightarrow> u64 set"
    and born conf lost :: "'op \<Rightarrow> 's \<Rightarrow> u64 set"
    and ident :: "'e \<Rightarrow> u64"
    and newest losses :: "'s \<Rightarrow> u64"
  assumes inv_step: "legal op \<Longrightarrow> inv (Suc n) s \<Longrightarrow> inv n (fst (step op s))"
    and ids_step: "legal op \<Longrightarrow> inv (Suc n) s \<Longrightarrow> ids (fst (step op s)) = (ids s \<union> born op s) - conf op s - lost op s"
    and ids_old: "inv n s \<Longrightarrow> i \<in> ids s \<Longrightarrow> i \<le> newest s"
    and born_new: "legal op \<Longrightarrow> inv (Suc n) s \<Longrightarrow> i \<in> born op s \<Longrightarrow> newest s < i \<and> i \<le> newest (fst (step op s))"
    and newest_mono: "legal op \<Longrightarrow> inv (Suc n) s \<Longrightarrow> newest s \<le> newest (fst (step op s))"
    and conf_sel: "inv n s \<Longrightarrow> conf op s \<subseteq> sel s"
    and lost_ids: "inv n s \<Longrightarrow> lost op s \<subseteq> ids s \<and> lost op s \<inter> conf op s = {} \<and> finite (lost op s)"
    and sel_ids: "inv n s \<Longrightarrow> sel s \<subseteq> ids s"
    and sel_step: "legal op \<Longrightarrow> inv (Suc n) s \<Longrightarrow> sel (fst (step op s)) \<subseteq> sel s \<union> ident ` set (snd (step op s))"
    and losses_step: "legal op \<Longrightarrow> inv (Suc n) s \<Longrightarrow> losses (fst (step op s)) = losses s + of_nat (card (lost op s))"
begin

abbreviation "ledger \<equiv> ledger_of step born conf lost ident"

lemma ledger_new:
  "list_all legal ops \<Longrightarrow> inv (length ops) s \<Longrightarrow> ledger ops s = (b, h, c, l) \<Longrightarrow> i \<in> b \<Longrightarrow> newest s < i"
proof (induction ops arbitrary: s b h c l)
  case (Cons op ops)
  let ?s = "fst (step op s)"
  have op: "legal op" "list_all legal ops" and i: "inv (Suc (length ops)) s" using Cons.prems(1,2) by simp_all
  obtain b' h' c' l' where l: "ledger ops ?s = (b', h', c', l')" by (cases "ledger ops ?s")
  with Cons.prems(3,4) have "i \<in> born op s \<or> i \<in> b'" by auto
  then show ?case
    using born_new [OF op(1) i] Cons.IH [OF op(2) inv_step [OF op(1) i] l] newest_mono [OF op(1) i] le_less_trans by blast
qed simp

lemma ledger_balance:
  "list_all legal ops \<Longrightarrow> inv (length ops) s \<Longrightarrow> ledger ops s = (b, h, c, l) \<Longrightarrow>
   s' = fst (run_ops step ops s) \<Longrightarrow>
   ids s \<union> b = ids s' \<union> c \<union> l \<and> c \<inter> l = {} \<and> ids s' \<inter> (c \<union> l) = {} \<and> c \<subseteq> sel s \<union> h \<and>
   finite l \<and> losses s' = losses s + of_nat (card l)"
proof (induction ops arbitrary: s b h c l)
  case Nil
  then show ?case by auto
next
  case (Cons op ops)
  let ?s = "fst (step op s)"
  have op: "legal op" "list_all legal ops" and i: "inv (Suc (length ops)) s" using Cons.prems(1,2) by simp_all
  obtain b' h' c' l' where led: "ledger ops ?s = (b', h', c', l')" by (cases "ledger ops ?s")
  have s': "s' = fst (run_ops step ops ?s)" using Cons.prems(4) by (auto split: prod.splits)
  note i' = inv_step [OF op(1) i]
  note IH = Cons.IH [OF op(2) i' led s']
  have eqs: "b = born op s \<union> b'" "h = ident ` set (snd (step op s)) \<union> h'" "c = conf op s \<union> c'" "l = lost op s \<union> l'"
    using Cons.prems(3) led by simp_all
  have gone: "conf op s \<union> lost op s \<subseteq> ids s" using conf_sel [OF i] sel_ids [OF i] lost_ids [OF i] by blast
  have fresh: "x \<notin> b'" if "x \<in> ids s" for x
    using ledger_new [OF op(2) i' led, of x] ids_old [OF i that] newest_mono [OF op(1) i] by force
  have old: "x \<notin> ids ?s \<union> b'" if "x \<in> conf op s \<union> lost op s" for x
    using that gone fresh ids_step [OF op(1) i] by blast
  have later: "x \<in> ids ?s \<union> b'" if "x \<in> ids s' \<union> c' \<union> l'" for x using that IH by blast
  have "ids s \<union> b = ids s' \<union> c \<union> l"
    using IH ids_step [OF op(1) i] gone eqs by blast
  moreover have "c \<inter> l = {}" "ids s' \<inter> (c \<union> l) = {}"
    using IH old later lost_ids [OF i, of op] eqs by blast+
  moreover have "c \<subseteq> sel s \<union> h"
    using IH conf_sel [OF i, of op] sel_step [OF op(1) i] eqs by blast
  moreover have "card l = card (lost op s) + card l'"
  proof -
    have "lost op s \<inter> l' = {}" using old later by blast
    then show ?thesis using IH lost_ids [OF i, of op] eqs(4) by (simp add: card_Un_disjoint)
  qed
  ultimately show ?case
    using IH losses_step [OF op(1) i] lost_ids [OF i, of op] eqs by (simp add: add.assoc)
qed

end

section \<open>The buffer keeps the promise\<close>

text \<open>\<open>Reset\<close>, which empties the buffer on a restart, ends a history and is not among the operations.\<close>

datatype 'v eb_op =
    AddOp "'v event" | SelectOp event_class int | SelectTypeOp PointType int | ConfirmOp | UnselectOp
  | ReleaseOp "'v event list" | DiscardOp "'v event list" | ClearOverflowOp

fun eb_step :: "'v eb_op \<Rightarrow> 'v event_buffer \<Rightarrow> 'v event_buffer \<times> 'v event list" where
  "eb_step (AddOp e) b = (EB_Add e b, [])"
| "eb_step (SelectOp bits limit) b = EB_Select bits limit b"
| "eb_step (SelectTypeOp pt limit) b = EB_SelectType pt limit b"
| "eb_step ConfirmOp b = (fst (EB_Confirm b), [])"
| "eb_step UnselectOp b = (fst (EB_Unselect b), [])"
| "eb_step (ReleaseOp es) b = (fst (EB_Release es b), [])"
| "eb_step (DiscardOp es) b = (fst (EB_Discard es b), [])"
| "eb_step ClearOverflowOp b = (EB_ClearOverflow b, [])"

fun eb_legal :: "'v eb_op \<Rightarrow> bool" where
  "eb_legal (AddOp e) = (\<not> ESelected e)"
| "eb_legal _ = True"

definition seqs :: "'v event list \<Rightarrow> u64 list" where
  "seqs es = map ESeq es"

definition eb_ids :: "'v event_buffer \<Rightarrow> u64 set" where
  "eb_ids b = set (seqs (EBEvents b))"

definition eb_sel :: "'v event_buffer \<Rightarrow> u64 set" where
  "eb_sel b = set (seqs (filter ESelected (EBEvents b)))"

definition eb_inv :: "nat \<Rightarrow> 'v event_buffer \<Rightarrow> bool" where
  "eb_inv n b \<longleftrightarrow> 0 < EBMax b \<and> length (EBEvents b) \<le> EBMax b \<and> sorted_wrt (<) (seqs (EBEvents b)) \<and>
     (\<forall>i \<in> eb_ids b. i \<le> EBNextSeq b) \<and> unat (EBNextSeq b) + n < 2 ^ 64"

fun eb_born :: "'v eb_op \<Rightarrow> 'v event_buffer \<Rightarrow> u64 set" where
  "eb_born (AddOp e) b = {EBNextSeq b + 1}"
| "eb_born _ b = {}"

fun eb_conf :: "'v eb_op \<Rightarrow> 'v event_buffer \<Rightarrow> u64 set" where
  "eb_conf ConfirmOp b = eb_sel b"
| "eb_conf _ b = {}"

fun eb_lost :: "'v eb_op \<Rightarrow> 'v event_buffer \<Rightarrow> u64 set" where
  "eb_lost (AddOp e) b = (if EBMax b \<le> length (EBEvents b) then set (take 1 (seqs (EBEvents b))) else {})"
| "eb_lost (DiscardOp es) b = set (seqs (filter (\<lambda>e. ESeq e \<in> ESeq ` set es \<and> ESelected e) (EBEvents b)))"
| "eb_lost _ b = {}"

definition eb_ledger :: "'v eb_op list \<Rightarrow> 'v event_buffer \<Rightarrow> u64 set \<times> u64 set \<times> u64 set \<times> u64 set" where
  "eb_ledger = ledger_of eb_step eb_born eb_conf eb_lost ESeq"

lemmas eb_state_defs = eb_inv_def eb_ids_def eb_sel_def

lemma seqs_simps [simp]: "seqs [] = []" "seqs (e # es) = ESeq e # seqs es" "seqs (xs @ ys) = seqs xs @ seqs ys"
  "length (seqs es) = length es" "tl (seqs es) = seqs (tl es)"
  by (simp_all add: seqs_def map_tl)

lemma seqs_map: "(\<And>e. ESeq (f e) = ESeq e) \<Longrightarrow> seqs (map f es) = seqs es"
  by (simp add: seqs_def)

lemma in_seqs_filter: "i \<in> set (seqs (filter P es)) \<longleftrightarrow> (\<exists>e \<in> set es. P e \<and> ESeq e = i)"
  by (auto simp: seqs_def)

lemma filter_seqs_sorted: "sorted_wrt (<) (seqs es) \<Longrightarrow> sorted_wrt (<) (seqs (filter P es))"
  unfolding seqs_def sorted_wrt_map by (rule sorted_wrt_filter)

lemma seqs_distinct: "sorted_wrt (<) (seqs es) \<Longrightarrow> distinct (seqs es)"
  by (induction es) auto

lemma same_seq: "sorted_wrt (<) (seqs es) \<Longrightarrow> e \<in> set es \<Longrightarrow> e' \<in> set es \<Longrightarrow> ESeq e = ESeq e' \<Longrightarrow> e = e'"
  using seqs_distinct [of es] by (auto simp: seqs_def distinct_map dest: inj_onD)

lemma seqs_filter_not:
  "sorted_wrt (<) (seqs es) \<Longrightarrow> set (seqs (filter (\<lambda>e. \<not> P e) es)) = set (seqs es) - set (seqs (filter P es))"
  using same_seq [of es] by (auto simp: in_seqs_filter) (auto simp: seqs_def)

lemma card_seqs_filter: "sorted_wrt (<) (seqs es) \<Longrightarrow> card (set (seqs (filter P es))) = length (filter P es)"
  by (simp add: distinct_card [OF seqs_distinct [OF filter_seqs_sorted]])

text \<open>The selection takes the oldest matching events, up to the limit, and marks exactly those.\<close>

lemma select_loop_out:
  "snd (select_loop room match es) =
     map (\<lambda>e. e\<lparr>ESelected := True\<rparr>) (take room (filter (\<lambda>e. \<not> ESelected e \<and> match e) es))"
  by (induction room match es rule: select_loop.induct) (auto simp: Let_def take_Cons' split: prod.splits)

lemma select_loop_seqs: "seqs (fst (select_loop room match es)) = seqs es"
  by (induction room match es rule: select_loop.induct) (auto simp: Let_def split: prod.splits)

lemma select_loop_unmarked:
  "map (\<lambda>e. e\<lparr>ESelected := s\<rparr>) (fst (select_loop room match es)) = map (\<lambda>e. e\<lparr>ESelected := s\<rparr>) es"
  by (induction room match es rule: select_loop.induct) (auto simp: Let_def split: prod.splits)

lemma select_loop_sel:
  "set (seqs (filter ESelected (fst (select_loop room match es)))) =
     set (seqs (filter ESelected es)) \<union> set (seqs (snd (select_loop room match es)))"
  by (induction room match es rule: select_loop.induct) (auto simp: Let_def split: prod.splits)

lemma selectWhere_ids [simp]: "eb_ids (fst (selectWhere limit match b)) = eb_ids b"
  using select_loop_seqs [of "nat limit" match "EBEvents b"]
  by (auto simp: selectWhere_def Let_def eb_ids_def split: prod.splits)

lemma selectWhere_sel:
  "eb_sel (fst (selectWhere limit match b)) = eb_sel b \<union> ESeq ` set (snd (selectWhere limit match b))"
  using select_loop_sel [of "nat limit" match "EBEvents b"]
  by (cases "select_loop (nat limit) match (EBEvents b)") (simp add: selectWhere_def Let_def eb_sel_def, simp add: seqs_def)

lemma selectWhere_frame [simp]:
  "seqs (EBEvents (fst (selectWhere limit match b))) = seqs (EBEvents b)"
  "EBMax (fst (selectWhere limit match b)) = EBMax b" "EBNextSeq (fst (selectWhere limit match b)) = EBNextSeq b"
  "EBDrops (fst (selectWhere limit match b)) = EBDrops b" "EBOverflow (fst (selectWhere limit match b)) = EBOverflow b"
  using select_loop_seqs [of "nat limit" match "EBEvents b"]
  by (auto simp: selectWhere_def Let_def split: prod.splits)

lemma selectWhere_length [simp]: "length (EBEvents (fst (selectWhere limit match b))) = length (EBEvents b)"
  using arg_cong [OF selectWhere_frame(1) [of limit match b], of length] by (simp only: seqs_simps)

lemma next_seq:
  assumes "unat (EBNextSeq b) + Suc n < 2 ^ 64"
  shows "unat (EBNextSeq b + 1) = unat (EBNextSeq b) + 1" "EBNextSeq b < EBNextSeq b + 1"
proof -
  show "unat (EBNextSeq b + 1) = unat (EBNextSeq b) + 1"
    using assms by (subst unat_add_lem [THEN iffD1]) simp_all
  then show "EBNextSeq b < EBNextSeq b + 1" by (simp add: word_less_nat_alt)
qed

lemma EB_Add_events:
  "EBEvents (EB_Add e b) = (if EBMax b \<le> length (EBEvents b) then tl (EBEvents b) else EBEvents b) @ [e\<lparr>ESeq := EBNextSeq b + 1\<rparr>]"
  "EBMax (EB_Add e b) = EBMax b" "EBNextSeq (EB_Add e b) = EBNextSeq b + 1"
  "EBDrops (EB_Add e b) = (if EBMax b \<le> length (EBEvents b) then EBDrops b + 1 else EBDrops b)"
  "EBDropsAtSelect (EB_Add e b) = EBDropsAtSelect b"
  "EBOverflow (EB_Add e b) = (EBOverflow b \<or> EBMax b \<le> length (EBEvents b))"
  by (simp_all add: EB_Add_def Let_def)

lemma eb_inv_Add:
  assumes "eb_inv (Suc n) b"
  shows "eb_inv n (EB_Add e b)"
proof -
  let ?es = "if EBMax b \<le> length (EBEvents b) then tl (EBEvents b) else EBEvents b"
  have i: "0 < EBMax b" "length (EBEvents b) \<le> EBMax b" "sorted_wrt (<) (seqs (EBEvents b))"
    "\<forall>i \<in> set (seqs (EBEvents b)). i \<le> EBNextSeq b" "unat (EBNextSeq b) + Suc n < 2 ^ 64"
    using assms by (simp_all add: eb_state_defs)
  note nx = next_seq [OF i(5)]
  have sub: "set (seqs ?es) \<subseteq> set (seqs (EBEvents b))" "sorted_wrt (<) (seqs ?es)" "length ?es < EBMax b"
    using i(1-3) by (cases "EBEvents b"; auto)+
  then have "\<forall>i \<in> set (seqs ?es). i < EBNextSeq b + 1" using i(4) nx(2) by force
  with sub nx i(1,5) show ?thesis
    by (simp only: eb_state_defs EB_Add_events seqs_simps) (auto simp: sorted_wrt_append intro: less_imp_le)
qed

lemma eb_inv_mono: "eb_inv (Suc n) b \<Longrightarrow> eb_inv n b"
  by (simp add: eb_inv_def)

lemma eb_inv_seqs:
  assumes "eb_inv n b" "EBMax b' = EBMax b" "EBNextSeq b' = EBNextSeq b" "seqs (EBEvents b') = seqs (EBEvents b)"
  shows "eb_inv n b'"
proof -
  have "length (EBEvents b') = length (EBEvents b)" using arg_cong [OF assms(4), of length] by (simp only: seqs_simps)
  with assms show ?thesis by (simp add: eb_state_defs)
qed

lemma eb_inv_filter:
  assumes "eb_inv n b" "EBMax b' = EBMax b" "EBNextSeq b' = EBNextSeq b" "EBEvents b' = filter P (EBEvents b)"
  shows "eb_inv n b'"
  using assms filter_seqs_sorted [of "EBEvents b" P] length_filter_le [of P "EBEvents b"]
  by (auto simp: eb_state_defs in_seqs_filter seqs_def simp del: length_filter_le)

lemma EB_Confirm_events:
  "EBEvents (fst (EB_Confirm b)) = filter (\<lambda>e. \<not> ESelected e) (EBEvents b)" "EBMax (fst (EB_Confirm b)) = EBMax b"
  "EBNextSeq (fst (EB_Confirm b)) = EBNextSeq b" "EBDrops (fst (EB_Confirm b)) = EBDrops b"
  "EBDropsAtSelect (fst (EB_Confirm b)) = EBDropsAtSelect b"
  by (simp_all add: EB_Confirm_def Let_def)

lemma EB_Unselect_events:
  "seqs (EBEvents (fst (EB_Unselect b))) = seqs (EBEvents b)" "filter ESelected (EBEvents (fst (EB_Unselect b))) = []"
  by (auto simp: EB_Unselect_def seqs_map filter_empty_conv)

lemma EB_Release_events:
  "seqs (EBEvents (fst (EB_Release es b))) = seqs (EBEvents b)"
  "set (seqs (filter ESelected (EBEvents (fst (EB_Release es b))))) \<subseteq> set (seqs (filter ESelected (EBEvents b)))"
  by (auto simp: EB_Release_def Let_def seqs_map in_seqs_filter split: if_splits)

lemma EB_Discard_events:
  "EBEvents (fst (EB_Discard es b)) = filter (\<lambda>e. \<not> (ESeq e \<in> ESeq ` set es \<and> ESelected e)) (EBEvents b)"
  "EBMax (fst (EB_Discard es b)) = EBMax b" "EBNextSeq (fst (EB_Discard es b)) = EBNextSeq b"
  "EBDrops (fst (EB_Discard es b)) =
     EBDrops b + of_nat (length (filter (\<lambda>e. ESeq e \<in> ESeq ` set es \<and> ESelected e) (EBEvents b)))"
  by (auto simp: EB_Discard_def Let_def filter_id_conv)

lemma eb_step_inv:
  assumes "eb_inv (Suc n) b"
  shows "eb_inv n (fst (eb_step op b))"
proof -
  note i = eb_inv_mono [OF assms]
  show ?thesis
  proof (cases op)
    case (AddOp e)
    then show ?thesis using eb_inv_Add [OF assms] by simp
  next
    case ConfirmOp
    then show ?thesis using EB_Confirm_events [of b] by (simp add: eb_inv_filter [OF i])
  next
    case (DiscardOp es)
    then show ?thesis using EB_Discard_events [of es b] by (simp add: eb_inv_filter [OF i])
  qed (rule eb_inv_seqs [OF i]; simp add: EB_Select_def EB_SelectType_def EB_Unselect_def EB_Release_def EB_ClearOverflow_def
      Let_def seqs_map)+
qed

lemma eb_step_ids:
  assumes "eb_inv (Suc n) b"
  shows "eb_ids (fst (eb_step op b)) = (eb_ids b \<union> eb_born op b) - eb_conf op b - eb_lost op b"
proof -
  have s: "sorted_wrt (<) (seqs (EBEvents b))" and nx: "EBNextSeq b < EBNextSeq b + 1"
    and le: "\<And>i. i \<in> set (seqs (EBEvents b)) \<Longrightarrow> i \<le> EBNextSeq b"
    using assms next_seq [of b n] by (simp_all add: eb_state_defs)
  show ?thesis
  proof (cases op)
    case (AddOp e)
    have "set (seqs (tl (EBEvents b))) = set (seqs (EBEvents b)) - set (take 1 (seqs (EBEvents b)))"
      using s by (cases "EBEvents b") auto
    moreover have "EBNextSeq b + 1 \<notin> set (take 1 (seqs (EBEvents b)))"
      using le nx by (meson in_set_takeD not_le)
    ultimately show ?thesis using AddOp by (auto simp: eb_ids_def EB_Add_events)
  next
    case ConfirmOp
    then show ?thesis using seqs_filter_not [OF s, of ESelected] by (simp add: eb_ids_def eb_sel_def EB_Confirm_events)
  next
    case (DiscardOp es)
    then show ?thesis
      using seqs_filter_not [OF s, of "\<lambda>e. ESeq e \<in> ESeq ` set es \<and> ESelected e"] by (simp add: eb_ids_def EB_Discard_events)
  qed (simp_all add: EB_Select_def EB_SelectType_def,
       simp_all add: eb_ids_def EB_Unselect_events EB_Release_events EB_ClearOverflow_def)
qed

lemma in_set_tlD: "x \<in> set (tl xs) \<Longrightarrow> x \<in> set xs"
  by (cases xs) simp_all

lemma eb_step_sel:
  assumes "eb_legal op"
  shows "eb_sel (fst (eb_step op b)) \<subseteq> eb_sel b \<union> ESeq ` set (snd (eb_step op b))"
proof (cases op)
  case (AddOp e)
  then show ?thesis using assms in_set_tlD [of _ "EBEvents b"] by (auto simp: eb_sel_def EB_Add_events in_seqs_filter) blast
next
  case (ReleaseOp es)
  then show ?thesis using EB_Release_events(2) [of es b] by (simp add: eb_sel_def)
qed (simp_all add: EB_Select_def EB_SelectType_def selectWhere_sel,
     auto simp: eb_sel_def EB_Confirm_events EB_Unselect_events EB_ClearOverflow_def EB_Discard_events in_seqs_filter)

lemma eb_step_drops:
  assumes "eb_inv (Suc n) b"
  shows "EBDrops (fst (eb_step op b)) = EBDrops b + of_nat (card (eb_lost op b))"
proof -
  have s: "sorted_wrt (<) (seqs (EBEvents b))" and pos: "0 < EBMax b" using assms by (simp_all add: eb_state_defs)
  show ?thesis
  proof (cases op)
    case (AddOp e)
    then show ?thesis using pos by (cases "EBEvents b") (simp_all add: EB_Add_events)
  next
    case (DiscardOp es)
    then show ?thesis using card_seqs_filter [OF s] by (simp add: EB_Discard_events)
  qed (simp_all add: EB_Select_def EB_SelectType_def EB_Confirm_events EB_Unselect_def EB_Release_def EB_ClearOverflow_def Let_def)
qed

interpretation eb: event_store eb_step eb_legal eb_inv eb_ids eb_sel eb_born eb_conf eb_lost ESeq EBNextSeq EBDrops
proof unfold_locales
  fix op :: "'a eb_op" and b :: "'a event_buffer" and n i
  show "eb_inv n b \<Longrightarrow> i \<in> eb_ids b \<Longrightarrow> i \<le> EBNextSeq b" by (simp add: eb_inv_def)
  show "eb_inv (Suc n) b \<Longrightarrow> i \<in> eb_born op b \<Longrightarrow> EBNextSeq b < i \<and> i \<le> EBNextSeq (fst (eb_step op b))"
    using next_seq [of b n] by (cases op) (auto simp: eb_inv_def EB_Add_events)
  show "eb_inv (Suc n) b \<Longrightarrow> EBNextSeq b \<le> EBNextSeq (fst (eb_step op b))"
    using next_seq [of b n]
    by (cases op) (auto simp: eb_inv_def EB_Add_events EB_Select_def EB_SelectType_def EB_Confirm_events EB_Unselect_def
        EB_Release_def EB_Discard_events EB_ClearOverflow_def Let_def)
  show "eb_conf op b \<subseteq> eb_sel b" by (cases op) simp_all
  show "eb_sel b \<subseteq> eb_ids b" by (auto simp: eb_sel_def eb_ids_def seqs_def)
  show "eb_lost op b \<subseteq> eb_ids b \<and> eb_lost op b \<inter> eb_conf op b = {} \<and> finite (eb_lost op b)"
    by (cases op) (auto simp: eb_ids_def seqs_def dest: in_set_takeD)
qed (simp_all add: eb_step_inv eb_step_ids eb_step_sel eb_step_drops)

lemma eb_inv_New: "n < 2 ^ 64 \<Longrightarrow> eb_inv n (NewEventBuffer mx)"
  by (simp add: eb_state_defs NewEventBuffer_def Let_def)

lemma eb_balance:
  assumes "list_all eb_legal ops" "eb_inv (length ops) b" "eb_ledger ops b = (queued, offered, confirmed, lost)"
    and "b' = fst (run_ops eb_step ops b)"
  shows "eb_ids b \<union> queued = eb_ids b' \<union> confirmed \<union> lost \<and> confirmed \<inter> lost = {} \<and> eb_ids b' \<inter> (confirmed \<union> lost) = {} \<and>
    confirmed \<subseteq> eb_sel b \<union> offered \<and> finite lost \<and> EBDrops b' = EBDrops b + of_nat (card lost)"
  using eb.ledger_balance [OF assms(1,2), folded eb_ledger_def, OF assms(3,4)] .

lemma eb_run_inv: "list_all eb_legal ops \<Longrightarrow> eb_inv (length ops) b \<Longrightarrow> eb_inv 0 (fst (run_ops eb_step ops b))"
proof (induction ops arbitrary: b)
  case (Cons op ops)
  then have "eb_inv (length ops) (fst (eb_step op b))" by (intro eb_step_inv) simp
  with Cons show ?case by (simp only: fst_run_ops_Cons) simp
qed simp

text \<open>
  C3. Nothing leaves the event buffer unaccounted for. Over any sequence of additions,
  selections, confirmations, releases, discards and requeues on a new buffer, every event
  ever queued is either still in it, was confirmed, or was lost, and never two of these;
  whatever was confirmed had been handed out for a response; and the loss counter is the
  number of events lost. The buffer never holds more than its capacity, oldest first.
\<close>

theorem event_conservation:
  assumes "list_all eb_legal ops" "length ops < 2 ^ 64" "eb_ledger ops (NewEventBuffer mx) = (queued, offered, confirmed, lost)"
    and "b = fst (run_ops eb_step ops (NewEventBuffer mx))"
  shows "queued = eb_ids b \<union> confirmed \<union> lost \<and> confirmed \<inter> lost = {} \<and> eb_ids b \<inter> (confirmed \<union> lost) = {} \<and>
    confirmed \<subseteq> offered \<and> EBDrops b = of_nat (card lost) \<and>
    length (EBEvents b) \<le> EBMax b \<and> sorted_wrt (<) (seqs (EBEvents b))"
proof -
  have "eb_inv (length ops) (NewEventBuffer mx :: 'a event_buffer)" by (rule eb_inv_New [OF assms(2)])
  note balance = eb_balance [OF assms(1) this assms(3,4)] and final = eb_run_inv [OF assms(1) this, folded assms(4)]
  have "eb_ids (NewEventBuffer mx :: 'a event_buffer) = {}" "eb_sel (NewEventBuffer mx :: 'a event_buffer) = {}"
    "EBDrops (NewEventBuffer mx :: 'a event_buffer) = 0"
    by (simp_all add: NewEventBuffer_def Let_def eb_ids_def eb_sel_def)
  with balance final show ?thesis by (simp add: eb_inv_def)
qed

definition sample_event :: "byte \<Rightarrow> nat event" where
  "sample_event c = \<lparr>EType = TypeBinary, EIndex = 7, EClass = c, EVariation = 1, EValue = 0, ESelected = False, ESeq = 0\<rparr>"

definition sample_history :: "nat eb_op list" where
  "sample_history = [AddOp (sample_event 2), AddOp (sample_event 4), SelectOp 4 10, AddOp (sample_event 2), ConfirmOp]"

lemmas eb_eval = EB_Add_def EB_Select_def selectWhere_def EB_Confirm_def NewEventBuffer_def Let_def sample_event_def
  eb_sel_def eb_ids_def

theorem event_conservation_witness:
  "eb_ledger sample_history (NewEventBuffer 2) = ({1, 2, 3}, {2}, {2}, {1}) \<and>
   eb_ids (fst (run_ops eb_step sample_history (NewEventBuffer 2))) = {3} \<and>
   EBDrops (fst (run_ops eb_step sample_history (NewEventBuffer 2))) = 1"
proof -
  have l: "eb_ledger sample_history (NewEventBuffer 2) = ({1, 2, 3}, {2}, {2}, {1})"
    by (simp add: eb_ledger_def sample_history_def eb_eval insert_commute)
  have g: "list_all eb_legal sample_history" "length sample_history < 2 ^ 64"
    by (simp_all add: sample_history_def sample_event_def)
  note c = event_conservation [OF g l refl]
  then have "eb_ids (fst (run_ops eb_step sample_history (NewEventBuffer 2))) = {1, 2, 3} - ({2} \<union> {1})" by blast
  with c l show ?thesis by auto
qed

text \<open>
  A selection hands out the oldest events: of those that match and are not already awaiting
  confirmation, the first ones in queue order up to the limit, marked; nothing else about
  the queue changes and nothing leaves it.
\<close>

theorem EB_Select_oldest:
  "case EB_Select bits limit b of
     (b', out) \<Rightarrow>
       out = map (\<lambda>e. e\<lparr>ESelected := True\<rparr>)
         (take (nat limit) (filter (\<lambda>e. \<not> ESelected e \<and> EClass e AND bits \<noteq> 0) (EBEvents b))) \<and>
       map (\<lambda>e. e\<lparr>ESelected := s\<rparr>) (EBEvents b') = map (\<lambda>e. e\<lparr>ESelected := s\<rparr>) (EBEvents b) \<and>
       eb_sel b' = eb_sel b \<union> ESeq ` set out \<and> EBOverflow b' = EBOverflow b \<and> EBDrops b' = EBDrops b"
proof -
  let ?m = "\<lambda>e. EClass e AND bits \<noteq> 0"
  obtain b' out where s: "EB_Select bits limit b = (b', out)" by fastforce
  obtain es' out' where l: "select_loop (nat limit) ?m (EBEvents b) = (es', out')" by fastforce
  have "eb_sel b' = eb_sel b \<union> ESeq ` set out" "EBOverflow b' = EBOverflow b" "EBDrops b' = EBDrops b"
    using s selectWhere_sel [of limit ?m b] selectWhere_frame [of limit ?m b] by (simp_all add: EB_Select_def)
  moreover have "EBEvents b' = (if limit \<le> 0 then EBEvents b else es')" "out = (if limit \<le> 0 then [] else out')"
    using s l by (auto simp: EB_Select_def selectWhere_def Let_def split: if_splits)
  ultimately show ?thesis
    using s l select_loop_out [of "nat limit" ?m "EBEvents b"] select_loop_unmarked [of s "nat limit" ?m "EBEvents b"]
    by simp
qed

section \<open>The overflow indication\<close>

fun keeps_latch :: "'v eb_op \<Rightarrow> bool" where
  "keeps_latch (SelectOp bits limit) = False"
| "keeps_latch (SelectTypeOp pt limit) = False"
| "keeps_latch ClearOverflowOp = False"
| "keeps_latch _ = True"

definition latched :: "'v event_buffer \<Rightarrow> bool" where
  "latched b \<longleftrightarrow> (EBDrops b \<noteq> EBDropsAtSelect b \<longrightarrow> EBOverflow b)"

lemma eb_step_latched:
  assumes "keeps_latch op" "latched b"
  shows "latched (fst (eb_step op b))" "EBDropsAtSelect (fst (eb_step op b)) = EBDropsAtSelect b"
  using assms
  by (cases op; auto simp: latched_def EB_Add_def EB_Confirm_def EB_Unselect_def EB_Release_def EB_Discard_def Let_def)+

lemma run_latched:
  "list_all keeps_latch ops \<Longrightarrow> latched b \<Longrightarrow>
   latched (fst (run_ops eb_step ops b)) \<and> EBDropsAtSelect (fst (run_ops eb_step ops b)) = EBDropsAtSelect b"
proof (induction ops arbitrary: b)
  case (Cons op ops)
  then have "latched (fst (eb_step op b))" "EBDropsAtSelect (fst (eb_step op b)) = EBDropsAtSelect b"
    by (intro eb_step_latched; simp)+
  with Cons show ?case by (simp only: fst_run_ops_Cons) simp
qed simp

text \<open>
  C28. A loss the master has not been told of keeps the overflow indication up. If events are lost
  after a selection, then until the next selection the buffer reports overflow, whatever is
  confirmed, released, requeued or added in between.
\<close>

theorem overflow_latched:
  assumes "list_all eb_legal ops" "list_all keeps_latch ops" "eb_inv (length ops) b" "b' = fst (EB_Select bits limit b)"
    and "eb_ledger ops b' = (queued, offered, confirmed, lost)" "lost \<noteq> {}" "card lost < 2 ^ 64"
  shows "EB_Overflowed (fst (run_ops eb_step ops b'))"
proof -
  have i: "eb_inv (length ops) b'" using assms(3,4) by (simp add: EB_Select_def eb_inv_seqs)
  have sel: "EBDropsAtSelect b' = EBDrops b'"
    using assms(4) by (auto simp: EB_Select_def selectWhere_def Let_def split: prod.splits)
  then have l: "latched b'" by (simp add: latched_def)
  note bal = eb_balance [OF assms(1) i assms(5) refl]
  have "0 < card lost" using bal assms(6) by (simp add: card_gt_0_iff)
  then have "of_nat (card lost) \<noteq> (0 :: u64)" using assms(7) by (simp add: word_of_nat_eq_0_iff nat_dvd_not_less)
  with run_latched [OF assms(2) l] sel bal show ?thesis by (simp add: latched_def EB_Overflowed_def)
qed

theorem overflow_latched_witness:
  "EB_Overflowed (fst (run_ops eb_step [AddOp (sample_event 2), AddOp (sample_event 2), ConfirmOp]
     (fst (EB_Select 2 10 (fst (run_ops eb_step [AddOp (sample_event 2)] (NewEventBuffer 1)))))))"
proof -
  let ?b = "fst (run_ops eb_step [AddOp (sample_event 2)] (NewEventBuffer 1))"
  let ?ops = "[AddOp (sample_event 2), AddOp (sample_event 2), ConfirmOp]"
  have "eb_inv (length ?ops) ?b" by (simp add: eb_state_defs eb_eval)
  moreover have "eb_ledger ?ops (fst (EB_Select 2 10 ?b)) = ({2, 3}, {}, {}, {1, 2})"
    by (simp add: eb_ledger_def eb_eval insert_commute)
  ultimately show ?thesis using overflow_latched [of ?ops ?b, OF _ _ _ refl] by (simp add: sample_event_def)
qed

end
