(* ===== verification/Outstation_Session.thy ===== *)
theory Outstation_Session
  imports Stack_Fn App_Fragment Outstation_Events
begin

text \<open>
  The outstation session (\<^verbatim>\<open>outstation/session.go\<close>, \<^verbatim>\<open>outstation/unsolicited.go\<close>): how a
  solicited response is paced fragment by fragment through the master's confirmations, how
  requests are recognised as repeats and answered from memory, the internal indications, and
  unsolicited reporting with its own sequence space, retries and hold time. The session runs
  on the stack of \<open>Stack_Fn\<close> and the event buffer of \<open>Outstation_Events\<close>.

  Left open, as arguments: the connection (a writer of the stack), the two clocks (the
  application's and the host's, constant during one call), the encoding of events into
  fragment bodies, and the handlers of the function codes whose work is elsewhere. Log
  output is not modelled. Times are integers in nanoseconds, and \<open>zero_time\<close> is Go's zero time.
\<close>

section \<open>State\<close>

record unsolicited_config =
  UEnabled :: bool
  UHoldTime :: int
  UMaxEvents :: int
  UConfirmTimeout :: int
  UMaxRetries :: int

definition Unsol_applyDefaults :: "unsolicited_config \<Rightarrow> unsolicited_config" where
  "Unsol_applyDefaults c =
     (let c = (if UConfirmTimeout c \<le> 0 then c\<lparr>UConfirmTimeout := 5000000000\<rparr> else c)
      in if UMaxRetries c \<le> 0 then c\<lparr>UMaxRetries := 3\<rparr> else c)"

text \<open>The fields of the configuration the session reads here.\<close>

record session_config =
  SMaxTxFragment :: int
  SConfirmTimeout :: int
  SLinkTimeout :: int
  SSyncInterval :: int
  SHoldover :: int
  SUnsolicited :: unsolicited_config

definition Session_applyDefaults :: "session_config \<Rightarrow> session_config" where
  "Session_applyDefaults c =
     (let c = (if SMaxTxFragment c \<le> 0 then c\<lparr>SMaxTxFragment := int AppMaxFragment\<rparr> else c);
          c = (if SConfirmTimeout c \<le> 0 then c\<lparr>SConfirmTimeout := 5000000000\<rparr> else c);
          c = (if SLinkTimeout c \<le> 0 then c\<lparr>SLinkTimeout := 1000000000\<rparr> else c)
      in c\<lparr>SUnsolicited := Unsol_applyDefaults (SUnsolicited c)\<rparr>)"

record unsolState =
  u_seq :: byte
  nullSent :: bool
  nullConfirmed :: bool
  u_awaiting :: bool
  awaitSeq :: byte
  deadline :: int
  retries :: int
  lastBody :: "byte list"
  retained :: bool
  nextAllowed :: int
  firstEventAt :: int

definition unsol_reset :: unsolState where
  "unsol_reset = \<lparr>u_seq = 0, nullSent = False, nullConfirmed = False, u_awaiting = False, awaitSeq = 0,
     deadline = zero_time, retries = 0, lastBody = [], retained = False, nextAllowed = zero_time, firstEventAt = zero_time\<rparr>"

datatype stat_counter =
    RequestsReceived | ResponsesSent | FragmentsSent | ConfirmsReceived | ConfirmTimeouts | UnknownFunction
  | RepeatedRequests | IncompleteRequests | MalformedRequests | UnsolicitedSent | UnsolicitedTimeouts

record 'v session =
  scfg :: session_config
  sstack :: stack
  events :: "'v event_buffer"
  siin :: IIN
  indications :: u32
  synchronized :: bool
  syncedAt :: int
  unsolClasses :: event_class
  awaitingConfirm :: bool
  confirmSeq :: byte
  confirmDeadline :: int
  pendingBodies :: "byte list list"
  pendingIndex :: nat
  pendingDest :: u16
  pendingSeq :: byte
  pendingHasEvents :: bool
  lastReqValid :: bool
  lastReqSource :: u16
  lastReqSeq :: byte
  lastReqFrag :: "byte list"
  lastRespBodies :: "byte list list"
  lastRespEvents :: bool
  lastRespErrors :: IIN
  unsol :: unsolState
  connected :: bool
  broadcastConfirm :: bool
  deferredRead :: "received option"
  linkDeadline :: int
  stats :: "stat_counter \<Rightarrow> u64"

definition bump :: "stat_counter \<Rightarrow> 'v session \<Rightarrow> 'v session" where
  "bump c s = s\<lparr>stats := (stats s)(c := stats s c + 1)\<rparr>"

definition set_iin :: "IIN \<Rightarrow> 'v session \<Rightarrow> 'v session" where
  "set_iin bits s = s\<lparr>siin := IIN_Set (siin s) bits\<rparr>"

text \<open>What a call is given: the connection, the event encoding, and the two clocks.\<close>

record ('v, 'w, 'e) env =
  conn :: "('w, 'e) writer"
  build :: "bool \<Rightarrow> 'v event list \<Rightarrow> byte list list \<times> 'v event list"
  appNow :: int
  hostNow :: int

section \<open>Indications\<close>

definition clockSet :: "int \<Rightarrow> 'v session \<Rightarrow> 'v session" where
  "clockSet host s = s\<lparr>synchronized := True, syncedAt := host, siin := IIN_Clear (siin s) IINNeedTime\<rparr>"

definition clockDue :: "int \<Rightarrow> 'v session \<Rightarrow> 'v session \<times> bool" where
  "clockDue host s =
     (if \<not> synchronized s then (s, True)
      else
        let interval = SSyncInterval (scfg s)
        in if interval \<le> 0 then (s, False)
           else
             let since = host - syncedAt s;
                 s = (if since \<ge> interval + max (SHoldover (scfg s)) 0 then s\<lparr>synchronized := False\<rparr> else s)
             in (s, since \<ge> interval))"

definition currentIIN :: "int \<Rightarrow> 'v session \<Rightarrow> 'v session \<times> IIN" where
  "currentIIN host s =
     (let iin = siin s OR ucast (indications s);
          classes = EB_Classes (events s);
          iin = (if classes AND Class1 \<noteq> 0 then IIN_Set iin IINClass1Events else iin);
          iin = (if classes AND Class2 \<noteq> 0 then IIN_Set iin IINClass2Events else iin);
          iin = (if classes AND Class3 \<noteq> 0 then IIN_Set iin IINClass3Events else iin);
          iin = (if EB_Overflowed (events s) then IIN_Set iin IINEventBufferOverflow else iin)
      in case clockDue host s of (s, due) \<Rightarrow> (s, if due then IIN_Set iin IINNeedTime else iin))"

section \<open>Solicited responses\<close>

definition finishResponse :: "'v session \<Rightarrow> 'v session" where
  "finishResponse s =
     (let hasEvents = pendingHasEvents s;
          s = s\<lparr>pendingBodies := [], pendingIndex := 0\<rparr>;
          s = (if hasEvents then s\<lparr>events := fst (EB_Confirm (events s))\<rparr> else s);
          s = bump ResponsesSent s
      in s\<lparr>siin := IIN_Clear (siin s) (IINBroadcast OR RequestErrorMask)\<rparr>)"

definition abandonResponse :: "'v session \<Rightarrow> 'v session" where
  "abandonResponse s =
     (if length (pendingBodies s) = 0 then s
      else
        let s = (if pendingHasEvents s then s\<lparr>events := fst (EB_Unselect (events s))\<rparr> else s)
        in s\<lparr>awaitingConfirm := False, pendingBodies := [], pendingIndex := 0\<rparr>)"

definition needConfirm :: "'v session \<Rightarrow> bool" where
  "needConfirm s \<longleftrightarrow> \<not> pendingIndex s = length (pendingBodies s) - 1 \<or> pendingHasEvents s \<or>
     (IIN_Has (siin s) IINBroadcast \<and> broadcastConfirm s)"

definition response_control :: "'v session \<Rightarrow> app_control" where
  "response_control s =
     (let i = pendingIndex s; last = (i = length (pendingBodies s) - 1)
      in \<lparr>AFir = (i = 0), AFin = last, ACon = needConfirm s, AUns = False, ASeq = (pendingSeq s + of_nat i) mod AppSeqModulus\<rparr>)"

definition advanceResponse :: "('v, 'w, 'e) env \<Rightarrow> 'v session \<Rightarrow> 'w \<Rightarrow> 'v session \<times> 'w \<times> 'e stack_error option" where
  "advanceResponse env s w =
     (if length (pendingBodies s) = 0 then (s, w, None)
      else if awaitingConfirm s \<or> Stack_Busy (sstack s) then (s, w, None)
      else if length (pendingBodies s) \<le> pendingIndex s then (finishResponse s, w, None)
      else
        let ctrl = response_control s; need = needConfirm s
        in case currentIIN (hostNow env) s of
             (s, iin) \<Rightarrow>
               let frag = AppendHeader [] \<lparr>AControl = ctrl, AFunc = FuncResponse, AIIN = iin\<rparr> @ pendingBodies s ! pendingIndex s
               in case SendTo (conn env) (sstack s) (pendingDest s) frag w of
                    (st, w, Some e) \<Rightarrow> (s\<lparr>sstack := st\<rparr>, w, Some e)
                  | (st, w, None) \<Rightarrow>
                      let s = bump FragmentsSent (s\<lparr>sstack := st\<rparr>);
                          s = (if Stack_Pending st then s\<lparr>linkDeadline := hostNow env + SLinkTimeout (scfg s)\<rparr> else s);
                          s = s\<lparr>pendingIndex := pendingIndex s + 1\<rparr>
                      in if need
                         then (s\<lparr>awaitingConfirm := True, confirmSeq := ASeq ctrl,
                                 confirmDeadline := hostNow env + SConfirmTimeout (scfg s)\<rparr>, w, None)
                         else (finishResponse s, w, None))"

definition sendFragments ::
    "('v, 'w, 'e) env \<Rightarrow> received \<Rightarrow> app_header \<Rightarrow> byte list list \<Rightarrow> bool \<Rightarrow> 'v session \<Rightarrow> 'w \<Rightarrow>
     'v session \<times> 'w \<times> 'e stack_error option" where
  "sendFragments env r req bodies hasEvents s w =
     (if RBroadcast r then (s, w, None)
      else
        let s = s\<lparr>pendingBodies := bodies, pendingIndex := 0, pendingDest := RSource r,
                  pendingSeq := ASeq (AControl req), pendingHasEvents := hasEvents\<rparr>;
            s = s\<lparr>lastRespBodies := bodies, lastRespEvents := hasEvents, lastRespErrors := siin s AND RequestErrorMask\<rparr>
        in advanceResponse env s w)"

definition respond ::
    "('v, 'w, 'e) env \<Rightarrow> received \<Rightarrow> app_header \<Rightarrow> byte list \<Rightarrow> 'v session \<Rightarrow> 'w \<Rightarrow> 'v session \<times> 'w \<times> 'e stack_error option" where
  "respond env r req body = sendFragments env r req [body] False"

definition onConfirm :: "app_header \<Rightarrow> 'v session \<Rightarrow> 'v session" where
  "onConfirm h s =
     (let s = bump ConfirmsReceived s
      in if \<not> awaitingConfirm s \<or> ASeq (AControl h) \<noteq> confirmSeq s then s
         else
           let s = s\<lparr>awaitingConfirm := False\<rparr>
           in if length (pendingBodies s) \<le> pendingIndex s then finishResponse s else s)"

definition checkConfirmTimeout :: "int \<Rightarrow> 'v session \<Rightarrow> 'v session" where
  "checkConfirmTimeout host s =
     (if \<not> awaitingConfirm s \<or> host < confirmDeadline s then s
      else
        let s = s\<lparr>awaitingConfirm := False, pendingBodies := [], pendingIndex := 0\<rparr>;
            s = s\<lparr>events := fst (EB_Unselect (events s))\<rparr>
        in bump ConfirmTimeouts s)"

definition checkLinkTimeout :: "('v, 'w, 'e) env \<Rightarrow> 'v session \<Rightarrow> 'w \<Rightarrow> 'v session \<times> 'w" where
  "checkLinkTimeout env s w =
     (if \<not> Stack_Pending (sstack s) \<or> hostNow env < linkDeadline s then (s, w)
      else
        case Stack_OnTimeout (conn env) (sstack s) w of
          (st, w, failed, Some e) \<Rightarrow> (s\<lparr>sstack := st\<rparr>, w)
        | (st, w, failed, None) \<Rightarrow> (s\<lparr>sstack := st, linkDeadline := hostNow env + SLinkTimeout (scfg s)\<rparr>, w))"

section \<open>Repeated requests\<close>

definition isRepeatRequest :: "received \<Rightarrow> fragment \<Rightarrow> 'v session \<Rightarrow> bool" where
  "isRepeatRequest r frag s \<longleftrightarrow> lastReqValid s \<and> RSource r = lastReqSource s \<and>
     ASeq (AControl (FHeader frag)) = lastReqSeq s \<and> RFragment r = lastReqFrag s"

definition rememberRequest :: "received \<Rightarrow> fragment \<Rightarrow> 'v session \<Rightarrow> 'v session" where
  "rememberRequest r frag s =
     s\<lparr>lastReqValid := True, lastReqSource := RSource r, lastReqSeq := ASeq (AControl (FHeader frag)),
       lastReqFrag := RFragment r, lastRespBodies := [], lastRespEvents := False, lastRespErrors := 0\<rparr>"

definition replayResponse ::
    "('v, 'w, 'e) env \<Rightarrow> received \<Rightarrow> app_header \<Rightarrow> 'v session \<Rightarrow> 'w \<Rightarrow> 'v session \<times> 'w \<times> 'e stack_error option" where
  "replayResponse env r req s w =
     (if RBroadcast r \<or> length (lastRespBodies s) = 0 then (s, w, None)
      else
        let s = s\<lparr>awaitingConfirm := False, pendingBodies := [], pendingIndex := 0\<rparr>;
            s = set_iin (lastRespErrors s) s
        in sendFragments env r req (lastRespBodies s) (lastRespEvents s) s w)"

section \<open>Unsolicited responses\<close>

definition unsolicitedFragment :: "int \<Rightarrow> byte list \<Rightarrow> 'v session \<Rightarrow> 'v session \<times> byte list" where
  "unsolicitedFragment host body s =
     (case currentIIN host s of (s, iin) \<Rightarrow>
        (s, AppendHeader []
              \<lparr>AControl = \<lparr>AFir = True, AFin = True, ACon = True, AUns = True, ASeq = u_seq (unsol s)\<rparr>,
               AFunc = FuncUnsolicitedResponse, AIIN = iin\<rparr> @ body))"

text \<open>
  The bisection of \<^verbatim>\<open>eventsThatFit\<close>: the answer is between the bounds, and one event is always allowed.
\<close>

function fit_search :: "(nat \<Rightarrow> bool) \<Rightarrow> nat \<Rightarrow> nat \<Rightarrow> nat" where
  "fit_search fits lo hi =
     (if lo < hi then
        let mid = (lo + hi + 1) div 2
        in if fits mid then fit_search fits mid hi else fit_search fits lo (mid - 1)
      else lo)"
  by auto
termination by (relation "measure (\<lambda>(fits, lo, hi). hi - lo)") auto

declare fit_search.simps [simp del]

definition eventsThatFit :: "('v, 'w, 'e) env \<Rightarrow> 'v session \<Rightarrow> 'v event list \<Rightarrow> nat" where
  "eventsThatFit env s evs =
     fit_search (\<lambda>n. length (fst (build env (synchronized s) (take n evs))) = 1) 1 (length evs)"

definition sendUnsolicited ::
    "('v, 'w, 'e) env \<Rightarrow> 'v event list \<Rightarrow> bool \<Rightarrow> 'v session \<Rightarrow> 'w \<Rightarrow> 'v session \<times> 'w \<times> 'e stack_error option" where
  "sendUnsolicited env evs null s w =
     (let fit = eventsThatFit env s evs;
          s = (if null then s else s\<lparr>events := fst (EB_Release (drop fit evs) (events s))\<rparr>);
          evs = (if null then evs else take fit evs)
      in case (if null then ([[]], []) else build env (synchronized s) evs) of
           (bodies, unsent) \<Rightarrow>
             let s = (if null then s else s\<lparr>events := fst (EB_Discard unsent (events s))\<rparr>);
                 body = hd bodies;
                 s = s\<lparr>unsol := (unsol s)\<lparr>u_seq := (u_seq (unsol s) + 1) mod AppSeqModulus\<rparr>\<rparr>
             in case unsolicitedFragment (hostNow env) body s of
                  (s, frag) \<Rightarrow>
                    (case Send (conn env) (sstack s) frag w of
                       (st, w, Some e) \<Rightarrow> (s\<lparr>sstack := st\<rparr>, w, Some e)
                     | (st, w, None) \<Rightarrow>
                         let s = s\<lparr>sstack := st\<rparr>;
                             u = (unsol s)\<lparr>u_awaiting := True, awaitSeq := u_seq (unsol s),
                                    deadline := appNow env + UConfirmTimeout (SUnsolicited (scfg s)),
                                    nullSent := nullSent (unsol s) \<or> null, lastBody := body, retained := True\<rparr>
                         in (bump UnsolicitedSent (s\<lparr>unsol := u\<rparr>), w, None)))"

definition retryUnsolicited :: "('v, 'w, 'e) env \<Rightarrow> 'v session \<Rightarrow> 'w \<Rightarrow> 'v session \<times> 'w \<times> 'e stack_error option" where
  "retryUnsolicited env s w =
     (case unsolicitedFragment (hostNow env) (lastBody (unsol s)) s of
        (s, frag) \<Rightarrow>
          (case Send (conn env) (sstack s) frag w of
             (st, w, Some e) \<Rightarrow> (s\<lparr>sstack := st\<rparr>, w, Some e)
           | (st, w, None) \<Rightarrow>
               let s = s\<lparr>sstack := st\<rparr>;
                   u = (unsol s)\<lparr>u_awaiting := True, awaitSeq := u_seq (unsol s),
                          deadline := appNow env + UConfirmTimeout (SUnsolicited (scfg s))\<rparr>
               in (bump UnsolicitedSent (s\<lparr>unsol := u\<rparr>), w, None)))"

text \<open>Giving up on a response: the events go back to the queue and reporting pauses.\<close>

definition give_up :: "int \<Rightarrow> 'v session \<Rightarrow> 'v session" where
  "give_up now s =
     s\<lparr>events := fst (EB_Unselect (events s)),
       unsol := (unsol s)\<lparr>retries := 0, retained := False, lastBody := [],
                  nextAllowed := now + UConfirmTimeout (SUnsolicited (scfg s))\<rparr>\<rparr>"

definition onUnsolicitedTimeout :: "int \<Rightarrow> 'v session \<Rightarrow> 'v session" where
  "onUnsolicitedTimeout now s =
     (let s = s\<lparr>unsol := (unsol s)\<lparr>u_awaiting := False, retries := retries (unsol s) + 1\<rparr>\<rparr>;
          s = bump UnsolicitedTimeouts s
      in if deferredRead s \<noteq> None \<and> nullConfirmed (unsol s) then give_up now s
         else if retries (unsol s) > UMaxRetries (SUnsolicited (scfg s)) then give_up now s
         else s)"

definition pollUnsolicited :: "('v, 'w, 'e) env \<Rightarrow> 'v session \<Rightarrow> 'w \<Rightarrow> 'v session \<times> 'w \<times> 'e stack_error option" where
  "pollUnsolicited env s w =
     (let now = appNow env; uc = SUnsolicited (scfg s)
      in if \<not> UEnabled uc \<or> \<not> connected s then (s, w, None)
         else if u_awaiting (unsol s) then
           if now < deadline (unsol s) then (s, w, None) else (onUnsolicitedTimeout now s, w, None)
         else if length (pendingBodies s) > 0 then (s, w, None)
         else if retries (unsol s) > 0 \<and> retained (unsol s) then retryUnsolicited env s w
         else if \<not> nullConfirmed (unsol s) then
           if \<not> nullSent (unsol s) \<or> now > nextAllowed (unsol s) then sendUnsolicited env [] True s w
           else (s, w, None)
         else if unsolClasses s = 0 \<or> now < nextAllowed (unsol s) then (s, w, None)
         else
           let pending = int (EB_Count (unsolClasses s) (events s))
           in if pending = 0 then (s, w, None)
              else
                let s = (if UHoldTime uc > 0 \<and> firstEventAt (unsol s) = zero_time
                         then s\<lparr>unsol := (unsol s)\<lparr>firstEventAt := now\<rparr>\<rparr> else s);
                    enough = (UMaxEvents uc > 0 \<and> pending \<ge> UMaxEvents uc)
                in if UHoldTime uc > 0 \<and> \<not> enough \<and> now - firstEventAt (unsol s) < UHoldTime uc then (s, w, None)
                   else
                     let s = s\<lparr>unsol := (unsol s)\<lparr>firstEventAt := zero_time\<rparr>\<rparr>
                     in case EB_Select (unsolClasses s) 64 (events s) of
                          (eb, evs) \<Rightarrow>
                            let s = s\<lparr>events := eb\<rparr>
                            in if length evs = 0 then (s, w, None) else sendUnsolicited env evs False s w)"

definition onUnsolicitedConfirm :: "app_header \<Rightarrow> 'v session \<Rightarrow> 'v session" where
  "onUnsolicitedConfirm h s =
     (if \<not> u_awaiting (unsol s) \<or> ASeq (AControl h) \<noteq> awaitSeq (unsol s) then s
      else
        let s = s\<lparr>unsol := (unsol s)\<lparr>u_awaiting := False, retries := 0, retained := False, lastBody := []\<rparr>\<rparr>
        in if \<not> nullConfirmed (unsol s) then s\<lparr>unsol := (unsol s)\<lparr>nullConfirmed := True\<rparr>\<rparr>
           else s\<lparr>events := fst (EB_Confirm (events s))\<rparr>)"

section \<open>Dispatch\<close>

definition handlesFunc :: "FuncCode \<Rightarrow> bool" where
  "handlesFunc f \<longleftrightarrow> f \<in> {FuncConfirm, FuncRead, FuncWrite, FuncDelayMeasure, FuncAuthRequest, FuncAuthRequestNoAck,
     FuncAuthenticateFile, FuncInitializeData, FuncInitializeAppl, FuncStartAppl, FuncStopAppl, FuncSaveConfig,
     FuncActivateConfig, FuncRecordCurrentTime, FuncOpenFile, FuncCloseFile, FuncDeleteFile, FuncGetFileInfo, FuncAbortFile,
     FuncColdRestart, FuncWarmRestart, FuncEnableUnsolicited, FuncDisableUnsolicited, FuncAssignClass,
     FuncSelect, FuncOperate, FuncDirectOperate, FuncDirectOperateNR, FuncImmedFreeze, FuncImmedFreezeNR,
     FuncFreezeClear, FuncFreezeClearNR, FuncFreezeAtTime, FuncFreezeAtTimeNR}"

fun is_unknown_object :: "app_error \<Rightarrow> bool" where
  "is_unknown_object (ErrUnknownObject g v) = True"
| "is_unknown_object (AtOffset off e) = is_unknown_object e"
| "is_unknown_object _ = False"

definition rejectMalformed ::
    "('v, 'w, 'e) env \<Rightarrow> received \<Rightarrow> app_error \<Rightarrow> 'v session \<Rightarrow> 'w \<Rightarrow> 'v session \<times> 'w \<times> 'e stack_error option" where
  "rejectMalformed env r perr s w =
     (case AParseHeader (RFragment r) of
        Inl e \<Rightarrow> (set_iin IINParameterError s, w, None)
      | Inr (hdr, n) \<Rightarrow>
          if AIsResponse hdr then (set_iin IINParameterError s, w, None)
          else
            let s = (if \<not> handlesFunc (AFunc hdr) then set_iin IINNoFuncCodeSupport (bump UnknownFunction s)
                     else if is_unknown_object perr then set_iin IINObjectUnknown s
                     else set_iin IINParameterError s)
            in if AFunc hdr = FuncConfirm \<or> NoReply (AFunc hdr) \<or> RBroadcast r \<or> \<not> AFir (AControl hdr) \<or> \<not> AFin (AControl hdr)
               then (s, w, None)
               else respond env r hdr [] s w)"

definition deferRead :: "received \<Rightarrow> 'v session \<Rightarrow> 'v session \<times> bool" where
  "deferRead r s =
     (if \<not> u_awaiting (unsol s) \<or> RBroadcast r then (s, False)
      else
        case AParseHeader (RFragment r) of
          Inl e \<Rightarrow> (s, False)
        | Inr (hdr, n) \<Rightarrow>
            if AIsResponse hdr \<or> AFunc hdr = FuncConfirm then (s, False)
            else if AFunc hdr \<noteq> FuncRead then (s\<lparr>deferredRead := None\<rparr>, False)
            else (s\<lparr>deferredRead := Some r\<rparr>, True))"

definition onUnsolicitedControl ::
    "('v, 'w, 'e) env \<Rightarrow> received \<Rightarrow> fragment \<Rightarrow> 'v session \<Rightarrow> 'w \<Rightarrow> 'v session \<times> 'w \<times> 'e stack_error option" where
  "onUnsolicitedControl env r frag s w =
     (let reply = (\<lambda>s. if RBroadcast r then (s, w, None) else respond env r (FHeader frag) [] s w)
      in if \<not> UEnabled (SUnsolicited (scfg s)) then reply (set_iin IINNoFuncCodeSupport s)
         else
           let enable = (AFunc (FHeader frag) = FuncEnableUnsolicited)
           in reply (foldl (\<lambda>s h.
                if OGroup h \<noteq> 60 \<or> OVariation h < 2 \<or> OVariation h > 4 then set_iin IINObjectUnknown s
                else
                  let cls = push_bit (unat (OVariation h - 2)) Class1
                  in if enable then s\<lparr>unsolClasses := unsolClasses s OR cls\<rparr>
                     else s\<lparr>unsolClasses := unsolClasses s AND NOT cls\<rparr>) s (FObjects frag)))"

text \<open>
  Dispatch of one request, for an outstation configured without secure authentication. The
  handlers of the function codes not modelled here are the argument \<open>other\<close>.
\<close>

type_synonym ('v, 'w, 'e) handlers =
  "FuncCode \<Rightarrow> received \<Rightarrow> fragment \<Rightarrow> 'v session \<Rightarrow> 'w \<Rightarrow> 'v session \<times> 'w \<times> 'e stack_error option"

definition dispatch ::
    "('v, 'w, 'e) env \<Rightarrow> ('v, 'w, 'e) handlers \<Rightarrow> received \<Rightarrow> fragment \<Rightarrow> 'v session \<Rightarrow> 'w \<Rightarrow>
     'v session \<times> 'w \<times> 'e stack_error option" where
  "dispatch env other r frag s w =
     (let fc = AFunc (FHeader frag)
      in if fc = FuncConfirm then
           if AUns (AControl (FHeader frag)) then (onUnsolicitedConfirm (FHeader frag) s, w, None)
           else (onConfirm (FHeader frag) s, w, None)
         else if fc = FuncEnableUnsolicited \<or> fc = FuncDisableUnsolicited then onUnsolicitedControl env r frag s w
         else if handlesFunc fc then other fc r frag s w
         else
           let s = set_iin IINNoFuncCodeSupport (bump UnknownFunction s)
           in if RBroadcast r then (s, w, None) else respond env r (FHeader frag) [] s w)"

definition handle ::
    "('v, 'w, 'e) env \<Rightarrow> ('v, 'w, 'e) handlers \<Rightarrow> received \<Rightarrow> 'v session \<Rightarrow> 'w \<Rightarrow> 'v session \<times> 'w \<times> 'e stack_error option" where
  "handle env other r s w =
     (case deferRead r s of
        (s, True) \<Rightarrow> (s, w, None)
      | (s, False) \<Rightarrow>
          let s = fst (clockDue (hostNow env) (bump RequestsReceived s))
          in case ParseFragment None (RFragment r) of
               (frag, Some e) \<Rightarrow> rejectMalformed env r e (bump MalformedRequests s) w
             | (frag, None) \<Rightarrow>
                 let h = FHeader frag; fc = AFunc h; c = AControl h
                 in if \<not> AFir c \<or> \<not> AFin c then (set_iin IINParameterError (bump IncompleteRequests s), w, None)
                    else if fc = FuncConfirm \<and> FObjects frag \<noteq> [] then (bump MalformedRequests s, w, None)
                    else if fc \<noteq> FuncConfirm \<and> (ACon c \<or> AUns c) then (bump MalformedRequests s, w, None)
                    else if \<not> list_all (\<lambda>x. Consistent (OQualifier x)) (FObjects frag) then
                      rejectMalformed env r ErrBadQualifier (bump MalformedRequests s) w
                    else if fc = FuncAuthRequest \<or> fc = FuncAuthRequestNoAck then other fc r frag s w
                    else if fc \<noteq> FuncConfirm \<and> isRepeatRequest r frag s then
                      replayResponse env r h (bump RepeatedRequests s) w
                    else
                      let s = (if fc \<noteq> FuncConfirm then abandonResponse (rememberRequest r frag s) else s);
                          s = (if RBroadcast r
                               then (set_iin IINBroadcast s)\<lparr>broadcastConfirm := (RDest r = BroadcastMandatoryConfirm)\<rparr>
                               else s)
                      in if RequiresObjects fc \<and> FObjects frag = [] then
                           let s = set_iin IINParameterError (bump MalformedRequests s)
                           in if NoReply fc \<or> RBroadcast r then (s, w, None) else respond env r h [] s w
                         else dispatch env other r frag s w)"

definition resumeDeferredRead ::
    "('v, 'w, 'e) env \<Rightarrow> ('v, 'w, 'e) handlers \<Rightarrow> 'v session \<Rightarrow> 'w \<Rightarrow> 'v session \<times> 'w \<times> 'e stack_error option" where
  "resumeDeferredRead env other s w =
     (case deferredRead s of
        None \<Rightarrow> (s, w, None)
      | Some r \<Rightarrow>
          if u_awaiting (unsol s) then (s, w, None)
          else
            case handle env other r (s\<lparr>deferredRead := None\<rparr>) w of
              (s, w, Some e) \<Rightarrow> (s, w, Some e)
            | (s, w, None) \<Rightarrow> advanceResponse env s w)"

end
