(* ===== verification/Outstation_Safety.thy ===== *)
theory Outstation_Safety
  imports Outstation_Session
begin

text \<open>
  What the session keeps: when events may leave the buffer, how unsolicited responses are
  retried and given up, and which requests never reach a handler.
\<close>

section \<open>The operations of a session on its responses\<close>

text \<open>
  Everything that moves the response machinery: the database queues an event, a read selects
  events and drops those that cannot be encoded, a handler answers, a request is remembered,
  repeated or abandons the response in progress, a confirmation arrives, and the ticks.
\<close>

datatype ('v, 'w, 'e) ses_op =
    Enqueue "'v event"
  | SelectFor event_class int
  | DropUnsent "'v event list"
  | Answer "('v, 'w, 'e) env" received app_header "byte list list" bool
  | Repeat "('v, 'w, 'e) env" received app_header
  | Remember received fragment
  | Abandon
  | Advance "('v, 'w, 'e) env"
  | Confirmed app_header
  | UnsolConfirmed app_header
  | ConfirmTick int
  | LinkTick "('v, 'w, 'e) env"
  | PollTick "('v, 'w, 'e) env"

fun ses_step :: "('v, 'w, 'e) ses_op \<Rightarrow> 'v session \<Rightarrow> 'w \<Rightarrow> 'v session \<times> 'w \<times> 'e stack_error option" where
  "ses_step (Enqueue e) s w = (s\<lparr>events := EB_Add e (events s)\<rparr>, w, None)"
| "ses_step (SelectFor bits limit) s w = (s\<lparr>events := fst (EB_Select bits limit (events s))\<rparr>, w, None)"
| "ses_step (DropUnsent evs) s w = (s\<lparr>events := fst (EB_Discard evs (events s))\<rparr>, w, None)"
| "ses_step (Answer env r req bodies hasEvents) s w = sendFragments env r req bodies hasEvents s w"
| "ses_step (Repeat env r req) s w = replayResponse env r req s w"
| "ses_step (Remember r frag) s w = (rememberRequest r frag s, w, None)"
| "ses_step Abandon s w = (abandonResponse s, w, None)"
| "ses_step (Advance env) s w = advanceResponse env s w"
| "ses_step (Confirmed h) s w = (onConfirm h s, w, None)"
| "ses_step (UnsolConfirmed h) s w = (onUnsolicitedConfirm h s, w, None)"
| "ses_step (ConfirmTick host) s w = (checkConfirmTimeout host s, w, None)"
| "ses_step (LinkTick env) s w = (case checkLinkTimeout env s w of (s, w) \<Rightarrow> (s, w, None))"
| "ses_step (PollTick env) s w = pollUnsolicited env s w"

fun ses_legal :: "('v, 'w, 'e) ses_op \<Rightarrow> bool" where
  "ses_legal (Answer env r req bodies hasEvents) = (bodies \<noteq> [])"
| "ses_legal _ = True"

text \<open>A session starts with nothing pending, and goes through any sequence of these operations.\<close>

inductive ses_reach :: "('v, 'w, 'e) ses_op list \<Rightarrow> 'v session \<Rightarrow> 'w \<Rightarrow> bool" where
  start: "pendingBodies s = [] \<Longrightarrow> pendingIndex s = 0 \<Longrightarrow> \<not> awaitingConfirm s \<Longrightarrow> ses_reach [] s w"
| step: "ses_reach ops s w \<Longrightarrow> ses_legal op \<Longrightarrow> ses_step op s w = (s', w', err) \<Longrightarrow> ses_reach (ops @ [op]) s' w'"

text \<open>
  A response all of whose fragments are sent is awaiting a confirmation, and only a response
  in progress does.
\<close>

definition ses_inv :: "'v session \<Rightarrow> bool" where
  "ses_inv s \<longleftrightarrow> pendingIndex s \<le> length (pendingBodies s) \<and>
     (pendingBodies s \<noteq> [] \<and> pendingIndex s = length (pendingBodies s) \<longrightarrow> awaitingConfirm s) \<and>
     (awaitingConfirm s \<longrightarrow> pendingBodies s \<noteq> [])"

lemma bump_sel [simp]:
  "pendingBodies (bump c s) = pendingBodies s" "pendingIndex (bump c s) = pendingIndex s"
  "awaitingConfirm (bump c s) = awaitingConfirm s" "events (bump c s) = events s" "unsol (bump c s) = unsol s"
  "sstack (bump c s) = sstack s" "scfg (bump c s) = scfg s" "confirmSeq (bump c s) = confirmSeq s"
  "pendingHasEvents (bump c s) = pendingHasEvents s" "siin (bump c s) = siin s" "connected (bump c s) = connected s"
  "deferredRead (bump c s) = deferredRead s" "unsolClasses (bump c s) = unsolClasses s"
  "lastRespBodies (bump c s) = lastRespBodies s" "synchronized (bump c s) = synchronized s" "pendingDest (bump c s) = pendingDest s"
  "pendingSeq (bump c s) = pendingSeq s" "broadcastConfirm (bump c s) = broadcastConfirm s"
  by (simp_all add: bump_def)

lemma set_iin_sel [simp]:
  "pendingBodies (set_iin b s) = pendingBodies s" "pendingIndex (set_iin b s) = pendingIndex s"
  "awaitingConfirm (set_iin b s) = awaitingConfirm s" "events (set_iin b s) = events s" "unsol (set_iin b s) = unsol s"
  "lastRespBodies (set_iin b s) = lastRespBodies s" "lastRespEvents (set_iin b s) = lastRespEvents s"
  by (simp_all add: set_iin_def)

text \<open>Assembling the indications only ever touches the synchronization flag.\<close>

lemma clockDue_sync: "\<exists>b. fst (clockDue host s) = s\<lparr>synchronized := b\<rparr>"
proof (cases "fst (clockDue host s) = s")
  case True
  then show ?thesis by (metis session.surjective session.update_convs(6))
next
  case False
  then show ?thesis by (auto simp: clockDue_def Let_def split: if_splits)
qed

lemma currentIIN_sync:
  assumes "currentIIN host s = (s', iin)"
  obtains b where "s' = s\<lparr>synchronized := b\<rparr>"
proof -
  have "s' = fst (clockDue host s)"
    using assms unfolding currentIIN_def Let_def by (cases "clockDue host s") simp
  with clockDue_sync [of host s] show ?thesis using that by blast
qed

lemma finishResponse_sel [simp]:
  "pendingBodies (finishResponse s) = []" "pendingIndex (finishResponse s) = 0"
  "awaitingConfirm (finishResponse s) = awaitingConfirm s" "unsol (finishResponse s) = unsol s"
  "events (finishResponse s) = (if pendingHasEvents s then fst (EB_Confirm (events s)) else events s)"
  by (simp_all add: finishResponse_def Let_def)

text \<open>One round of the pacing: nothing to do, a fragment refused by the stack, or a fragment sent.\<close>

lemma advanceResponse_cases:
  assumes "advanceResponse env s w = (s', w', err)" "ses_inv s"
  obtains (idle) "s' = s" "w' = w" "err = None"
    | (failed) b st e where "s' = s\<lparr>synchronized := b, sstack := st\<rparr>" "err = Some e"
    | (sent) "pendingBodies s \<noteq> []" "pendingIndex s < length (pendingBodies s)" "\<not> awaitingConfirm s" "err = None"
        "needConfirm s" "pendingBodies s' = pendingBodies s" "pendingIndex s' = Suc (pendingIndex s)" "awaitingConfirm s'"
        "events s' = events s" "unsol s' = unsol s"
    | (finished) "pendingBodies s \<noteq> []" "\<not> awaitingConfirm s" "err = None" "\<not> needConfirm s"
        "pendingBodies s' = []" "pendingIndex s' = 0" "\<not> awaitingConfirm s'" "events s' = events s" "unsol s' = unsol s"
proof (cases "pendingBodies s = [] \<or> awaitingConfirm s \<or> Stack_Busy (sstack s)")
  case True
  then have "advanceResponse env s w = (s, w, None)" by (cases "pendingBodies s = []") (simp_all add: advanceResponse_def)
  with assms(1) show thesis by (intro idle) simp_all
next
  case False
  then have ne: "pendingBodies s \<noteq> []" "\<not> awaitingConfirm s" "\<not> Stack_Busy (sstack s)" by simp_all
  with assms(2) have idx: "pendingIndex s < length (pendingBodies s)" by (auto simp: ses_inv_def)
  obtain s1 iin where c: "currentIIN (hostNow env) s = (s1, iin)" by fastforce
  obtain b where s1: "s1 = s\<lparr>synchronized := b\<rparr>" by (rule currentIIN_sync [OF c])
  let ?frag = "AppendHeader [] \<lparr>AControl = response_control s, AFunc = FuncResponse, AIIN = iin\<rparr> @ pendingBodies s ! pendingIndex s"
  obtain st w1 e1 where send: "SendTo (conn env) (sstack s) (pendingDest s) ?frag w = (st, w1, e1)"
    by (cases "SendTo (conn env) (sstack s) (pendingDest s) ?frag w") auto
  note unfolded = assms(1) [unfolded advanceResponse_def]
  show thesis
  proof (cases e1)
    case (Some e)
    then show thesis using unfolded ne idx c send s1 by (intro failed [of st b e]) (simp_all add: Let_def)
  next
    case None
    show thesis
    proof (cases "needConfirm s")
      case True
      show thesis
        by (rule sent) (use unfolded ne idx c send s1 None True in \<open>auto simp: Let_def\<close>)
    next
      case False
      then have "\<not> pendingHasEvents s" by (simp add: needConfirm_def)
      show thesis
        by (rule finished) (use unfolded ne idx c send s1 None False \<open>\<not> pendingHasEvents s\<close> in \<open>auto simp: Let_def split: if_splits\<close>)
    qed
  qed
qed

lemma advanceResponse_keeps:
  assumes "ses_inv s" "advanceResponse env s w = (s', w', err)"
  shows "ses_inv s'" "events s' = events s" "unsol s' = unsol s"
  using assms(1) by (cases rule: advanceResponse_cases [OF assms(2,1)]; simp add: ses_inv_def)+

lemma sendFragments_keeps:
  assumes "bodies \<noteq> []" "ses_inv s" "sendFragments env r req bodies hasEvents s w = (s', w', err)"
  shows "ses_inv s'" "events s' = events s" "unsol s' = unsol s"
proof -
  let ?s = "s\<lparr>pendingBodies := bodies, pendingIndex := 0, pendingDest := RSource r, pendingSeq := ASeq (AControl req),
     pendingHasEvents := hasEvents, lastRespBodies := bodies, lastRespEvents := hasEvents, lastRespErrors := siin s AND RequestErrorMask\<rparr>"
  have "ses_inv ?s" using assms(1) by (simp add: ses_inv_def)
  moreover have "RBroadcast r \<and> s' = s \<or> advanceResponse env ?s w = (s', w', err)"
    using assms(3) by (auto simp: sendFragments_def Let_def split: if_splits)
  ultimately show "ses_inv s'" "events s' = events s" "unsol s' = unsol s"
    using assms(2) advanceResponse_keeps [of ?s env w s' w' err] by auto
qed

section \<open>When events leave the buffer\<close>

definition in_progress :: "'v session \<Rightarrow> byte list list \<times> nat \<times> bool" where
  "in_progress s = (pendingBodies s, pendingIndex s, awaitingConfirm s)"

lemma ses_inv_cong: "in_progress s' = in_progress s \<Longrightarrow> ses_inv s' = ses_inv s"
  by (simp add: in_progress_def ses_inv_def)

lemma unsolicitedFragment_sync:
  assumes "unsolicitedFragment host body s = (s', frag)"
  obtains b where "s' = s\<lparr>synchronized := b\<rparr>"
proof -
  obtain s1 iin where c: "currentIIN host s = (s1, iin)" by fastforce
  then have "s' = s1" using assms by (simp add: unsolicitedFragment_def)
  with currentIIN_sync [OF c] that show thesis by blast
qed

text \<open>The common end of both transmissions: the fragment goes to the stack, and a success is recorded.\<close>

definition transmit_unsolicited ::
    "('v, 'w, 'e) env \<Rightarrow> byte list \<Rightarrow> (unsolState \<Rightarrow> unsolState) \<Rightarrow> 'v session \<Rightarrow> 'w \<Rightarrow> 'v session \<times> 'w \<times> 'e stack_error option" where
  "transmit_unsolicited env body f s w =
     (case unsolicitedFragment (hostNow env) body s of
        (s, frag) \<Rightarrow>
          (case Send (conn env) (sstack s) frag w of
             (st, w, Some e) \<Rightarrow> (s\<lparr>sstack := st\<rparr>, w, Some e)
           | (st, w, None) \<Rightarrow>
               let s = s\<lparr>sstack := st\<rparr>;
                   u = (unsol s)\<lparr>u_awaiting := True, awaitSeq := u_seq (unsol s),
                          deadline := appNow env + UConfirmTimeout (SUnsolicited (scfg s))\<rparr>
               in (bump UnsolicitedSent (s\<lparr>unsol := f u\<rparr>), w, None)))"

lemma retryUnsolicited_transmit:
  "retryUnsolicited env s w = transmit_unsolicited env (lastBody (unsol s)) (\<lambda>u. u) s w"
  by (simp add: retryUnsolicited_def transmit_unsolicited_def)

definition offered_batch :: "('v, 'w, 'e) env \<Rightarrow> 'v event list \<Rightarrow> bool \<Rightarrow> 'v session \<Rightarrow> byte list list \<times> 'v event list" where
  "offered_batch env evs null s =
     (if null then ([[]], []) else build env (synchronized s) (take (eventsThatFit env s evs) evs))"

definition batch_events :: "('v, 'w, 'e) env \<Rightarrow> 'v event list \<Rightarrow> bool \<Rightarrow> 'v session \<Rightarrow> 'v event_buffer" where
  "batch_events env evs null s =
     (if null then events s
      else fst (EB_Discard (snd (offered_batch env evs null s))
             (fst (EB_Release (drop (eventsThatFit env s evs) evs) (events s)))))"

lemma sendUnsolicited_transmit:
  "sendUnsolicited env evs null s w =
     transmit_unsolicited env (hd (fst (offered_batch env evs null s)))
       (\<lambda>u. u\<lparr>nullSent := nullSent u \<or> null, lastBody := hd (fst (offered_batch env evs null s)), retained := True\<rparr>)
       (s\<lparr>events := batch_events env evs null s, unsol := (unsol s)\<lparr>u_seq := (u_seq (unsol s) + 1) mod AppSeqModulus\<rparr>\<rparr>) w"
proof -
  obtain bodies unsent where o: "offered_batch env evs null s = (bodies, unsent)" by fastforce
  show ?thesis
    using o unfolding sendUnsolicited_def transmit_unsolicited_def offered_batch_def batch_events_def Let_def
    by (cases null) (auto split: prod.splits option.splits)
qed

lemma transmit_unsolicited_cases:
  assumes "transmit_unsolicited env body f s w = (s', w', err)"
  shows "\<exists>b st. if err = None
    then s' = bump UnsolicitedSent (s\<lparr>synchronized := b, sstack := st,
      unsol := f ((unsol s)\<lparr>u_awaiting := True, awaitSeq := u_seq (unsol s),
                  deadline := appNow env + UConfirmTimeout (SUnsolicited (scfg s))\<rparr>)\<rparr>)
    else s' = s\<lparr>synchronized := b, sstack := st\<rparr>"
proof -
  obtain s1 frag where u: "unsolicitedFragment (hostNow env) body s = (s1, frag)" by fastforce
  obtain b where s1: "s1 = s\<lparr>synchronized := b\<rparr>" by (rule unsolicitedFragment_sync [OF u])
  obtain st w1 e1 where send: "Send (conn env) (sstack s) frag w = (st, w1, e1)"
    by (cases "Send (conn env) (sstack s) frag w") auto
  show ?thesis
    using assms u s1 send by (intro exI [of _ b] exI [of _ st]) (cases e1; auto simp: transmit_unsolicited_def)
qed

lemma transmit_unsolicited_frame:
  assumes "transmit_unsolicited env body f s w = (s', w', err)"
  shows "in_progress s' = in_progress s" "events s' = events s"
  using transmit_unsolicited_cases [OF assms] by (auto simp: in_progress_def split: if_splits)

lemma sendUnsolicited_progress:
  assumes "sendUnsolicited env evs null s w = (s', w', err)"
  shows "in_progress s' = in_progress s"
  using transmit_unsolicited_frame(1) [OF assms [unfolded sendUnsolicited_transmit]] by (simp add: in_progress_def)

lemma retryUnsolicited_progress:
  assumes "retryUnsolicited env s w = (s', w', err)"
  shows "in_progress s' = in_progress s" "events s' = events s"
  using transmit_unsolicited_frame [OF assms [unfolded retryUnsolicited_transmit]] by simp_all

lemma onUnsolicitedTimeout_progress: "in_progress (onUnsolicitedTimeout now s) = in_progress s"
  by (simp add: onUnsolicitedTimeout_def give_up_def in_progress_def Let_def)

lemma pollUnsolicited_progress:
  assumes "pollUnsolicited env s w = (s', w', err)"
  shows "in_progress s' = in_progress s"
proof -
  have g: "in_progress (s\<lparr>unsol := u\<rparr>) = in_progress s" "in_progress (s\<lparr>unsol := u, events := eb\<rparr>) = in_progress s"
    "in_progress (s\<lparr>events := eb, unsol := u\<rparr>) = in_progress s"
    for u eb by (simp_all add: in_progress_def)
  show ?thesis
    using assms onUnsolicitedTimeout_progress [of "appNow env" s]
    by (auto simp: pollUnsolicited_def Let_def g split: if_splits prod.splits
        dest!: sendUnsolicited_progress retryUnsolicited_progress(1))
qed

lemma replayResponse_keeps:
  assumes "ses_inv s" "replayResponse env r req s w = (s', w', err)"
  shows "ses_inv s'" "events s' = events s"
proof -
  let ?s = "set_iin (lastRespErrors s) (s\<lparr>awaitingConfirm := False, pendingBodies := [], pendingIndex := 0\<rparr>)"
  have c: "s' = s \<or> lastRespBodies s \<noteq> [] \<and> sendFragments env r req (lastRespBodies s) (lastRespEvents s) ?s w = (s', w', err)"
    using assms(2) by (auto simp: replayResponse_def Let_def split: if_splits)
  have "ses_inv ?s" by (simp add: ses_inv_def)
  with c assms(1) sendFragments_keeps [of "lastRespBodies s" ?s env r req "lastRespEvents s" w s' w' err]
  show "ses_inv s'" "events s' = events s" by auto
qed

lemma ses_step_inv:
  assumes "ses_inv s" "ses_legal op" "ses_step op s w = (s', w', err)"
  shows "ses_inv s'"
proof (cases op)
  case (Answer env r req bodies hasEvents)
  then show ?thesis using assms sendFragments_keeps(1) [of bodies s] by simp
next
  case (Repeat env r req)
  then show ?thesis using assms replayResponse_keeps(1) by simp
next
  case (Advance env)
  then show ?thesis using assms advanceResponse_keeps(1) by simp
next
  case (Confirmed h)
  then have "s' = onConfirm h s" using assms(3) by simp
  then show ?thesis using assms(1) by (auto simp: ses_inv_def onConfirm_def Let_def)
next
  case (UnsolConfirmed h)
  then have "s' = onUnsolicitedConfirm h s" using assms(3) by simp
  then have "in_progress s' = in_progress s" by (simp add: onUnsolicitedConfirm_def in_progress_def Let_def)
  with assms(1) ses_inv_cong show ?thesis by blast
next
  case (ConfirmTick host)
  then have "s' = checkConfirmTimeout host s" using assms(3) by simp
  then show ?thesis using assms(1) by (simp add: ses_inv_def checkConfirmTimeout_def Let_def)
next
  case (PollTick env)
  then show ?thesis using assms pollUnsolicited_progress [of env s w s' w' err] ses_inv_cong by (metis ses_step.simps(13))
next
  case (LinkTick env)
  then have "in_progress s' = in_progress s"
    using assms(3) by (auto simp: checkLinkTimeout_def in_progress_def split: if_splits prod.splits option.splits)
  with assms(1) ses_inv_cong show ?thesis by blast
next
  case Abandon
  then have "s' = abandonResponse s" using assms(3) by simp
  then show ?thesis using assms(1) by (auto simp: ses_inv_def abandonResponse_def Let_def)
qed (use assms in \<open>auto simp: ses_inv_def rememberRequest_def\<close>)

lemma ses_reach_inv: "ses_reach ops s w \<Longrightarrow> ses_inv s"
proof (induction rule: ses_reach.induct)
  case (start s w)
  then show ?case by (simp add: ses_inv_def)
next
  case (step ops s w op s' w' err)
  show ?case by (rule ses_step_inv [OF step.IH step.hyps(2,3)])
qed

lemma EB_Confirm_ids: "eb_ids b - eb_ids (fst (EB_Confirm b)) \<subseteq> eb_sel b"
  by (auto simp: eb_ids_def eb_sel_def EB_Confirm_events in_seqs_filter seqs_def)

lemma eb_ids_Unselect [simp]: "eb_ids (fst (EB_Unselect b)) = eb_ids b"
  by (simp add: eb_ids_def EB_Unselect_events)

lemma eb_ids_Select [simp]: "eb_ids (fst (EB_Select bits limit b)) = eb_ids b"
  by (simp add: EB_Select_def)

lemma EB_Discard_ids: "eb_ids b - eb_ids (fst (EB_Discard es b)) \<subseteq> eb_sel b \<inter> ESeq ` set es"
  by (auto simp: eb_ids_def eb_sel_def EB_Discard_events in_seqs_filter seqs_def)

lemma eb_ids_Release [simp]: "eb_ids (fst (EB_Release es b)) = eb_ids b"
  by (simp add: eb_ids_def EB_Release_events)

text \<open>An event that an overflow takes is the oldest, and it is counted.\<close>

lemma EB_Add_ids:
  assumes "i \<in> eb_ids b" "i \<notin> eb_ids (EB_Add e b)"
  shows "EBMax b \<le> length (EBEvents b) \<and> i = ESeq (hd (EBEvents b)) \<and> EBDrops (EB_Add e b) = EBDrops b + 1 \<and> EBOverflow (EB_Add e b)"
  using assms by (cases "EBEvents b") (auto simp: eb_ids_def seqs_def EB_Add_events split: if_splits)

text \<open>What an unsolicited response cannot carry is what its encoder handed back.\<close>

lemma pollUnsolicited_ids:
  assumes "pollUnsolicited env s w = (s', w', err)" "i \<in> eb_ids (events s)" "i \<notin> eb_ids (events s')"
  shows "\<exists>n. i \<in> ESeq ` set (snd (build env (synchronized s) (take n (snd (EB_Select (unsolClasses s) 64 (events s))))))"
proof -
  have ids: "eb_ids (events s') \<noteq> eb_ids (events s)" using assms(2,3) by auto
  have kept: "events (onUnsolicitedTimeout t s) = events s \<or> events (onUnsolicitedTimeout t s) = fst (EB_Unselect (events s))" for t
    by (simp add: onUnsolicitedTimeout_def give_up_def Let_def)
  have sent: "\<exists>n. i \<in> ESeq ` set (snd (build env (synchronized s) (take n evs)))"
    if "sendUnsolicited env evs False s0 w = (s', w', err)" "eb_ids (events s0) = eb_ids (events s)" "synchronized s0 = synchronized s" for s0 evs
  proof -
    let ?n = "eventsThatFit env s0 evs"
    have "events s' = fst (EB_Discard (snd (build env (synchronized s) (take ?n evs))) (fst (EB_Release (drop ?n evs) (events s0))))"
      using transmit_unsolicited_frame(2) [OF that(1) [unfolded sendUnsolicited_transmit]] that(3)
      by (simp add: batch_events_def offered_batch_def)
    then have "i \<in> ESeq ` set (snd (build env (synchronized s) (take ?n evs)))"
      using EB_Discard_ids [of "fst (EB_Release (drop ?n evs) (events s0))" "snd (build env (synchronized s) (take ?n evs))"] assms(2,3) that(2)
      by (simp only: eb_ids_Release) blast
    then show ?thesis by blast
  qed
  have null: "events s' = events s" if "sendUnsolicited env [] True s w = (s', w', err)"
    using transmit_unsolicited_frame(2) [OF that [unfolded sendUnsolicited_transmit]] by (simp add: batch_events_def)
  have retry: "events s' = events s" if "retryUnsolicited env s w = (s', w', err)"
    using retryUnsolicited_progress(2) [OF that] .
  obtain eb evs where sel: "EB_Select (unsolClasses s) 64 (events s) = (eb, evs)" by fastforce
  then have eb: "eb_ids eb = eb_ids (events s)" by (metis eb_ids_Select fst_conv)
  show ?thesis
    using assms(1) ids kept [of "appNow env"] sel eb
    by (auto simp: pollUnsolicited_def Let_def split: if_splits dest: null retry dest!: sent)
qed


section \<open>A response over a working link\<close>

text \<open>What one fragment puts on the line when the link takes user data without confirmation.\<close>

definition line_octets :: "stack \<Rightarrow> u16 \<Rightarrow> byte list \<Rightarrow> byte list" where
  "line_octets st d frag = concat (map (\<lambda>g. wire (segment_frame (st\<lparr>dest := d\<rparr>) g)) (ref_segments (s_seq (seg st)) True frag))"

definition response_fragment :: "int \<Rightarrow> 'v session \<Rightarrow> byte list" where
  "response_fragment host s =
     AppendHeader [] \<lparr>AControl = response_control s, AFunc = FuncResponse, AIIN = snd (currentIIN host s)\<rparr> @
     pendingBodies s ! pendingIndex s"

lemma AppendHeader_not_Nil [simp]: "AppendHeader [] h \<noteq> []"
  using length_AppendHeader [of "[]" h] by (auto simp: AHeader_Size_def simp del: length_AppendHeader split: if_splits)

lemma advanceResponse_tape:
  assumes "conn env = tape" "can_send (sstack s)" "\<not> Stack_Busy (sstack s)"
    and "pendingIndex s < length (pendingBodies s)" "\<not> awaitingConfirm s" "needConfirm s"
  shows "\<exists>s'. advanceResponse env s w = (s', w @ line_octets (sstack s) (pendingDest s) (response_fragment (hostNow env) s), None) \<and>
    can_send (sstack s') \<and> \<not> Stack_Busy (sstack s') \<and> pendingIndex s' = Suc (pendingIndex s) \<and> awaitingConfirm s' \<and>
    confirmSeq s' = ASeq (response_control s) \<and> pendingBodies s' = pendingBodies s \<and> pendingSeq s' = pendingSeq s \<and>
    pendingHasEvents s' = pendingHasEvents s \<and> pendingDest s' = pendingDest s \<and> events s' = events s \<and> unsol s' = unsol s"
proof -
  obtain s1 iin where c: "currentIIN (hostNow env) s = (s1, iin)" by fastforce
  obtain b where s1: "s1 = s\<lparr>synchronized := b\<rparr>" by (rule currentIIN_sync [OF c])
  let ?frag = "response_fragment (hostNow env) s"
  have frag: "AppendHeader [] \<lparr>AControl = response_control s, AFunc = FuncResponse, AIIN = iin\<rparr> @
      pendingBodies s ! pendingIndex s = ?frag" by (simp add: response_fragment_def c)
  have "?frag \<noteq> []" by (simp add: response_fragment_def)
  from tape_SendTo [OF assms(2,3) this, of "pendingDest s" w] obtain st where
    send: "SendTo tape (sstack s) (pendingDest s) ?frag w = (st, w @ line_octets (sstack s) (pendingDest s) ?frag, None)"
      "can_send st" "\<not> Stack_Busy st"
    unfolding line_octets_def by blast
  have ne: "pendingBodies s \<noteq> []" using assms(4) by auto
  show ?thesis
    unfolding advanceResponse_def Let_def using assms ne c s1 send by (simp add: frag bump_def)
qed

text \<open>A master that confirms each fragment it is sent, with the sequence number it carried.\<close>

definition confirm_header :: "byte \<Rightarrow> app_header" where
  "confirm_header q = \<lparr>AControl = \<lparr>AFir = True, AFin = True, ACon = False, AUns = False, ASeq = q\<rparr>, AFunc = FuncConfirm, AIIN = 0\<rparr>"

fun master_confirms :: "('v, 'w, 'e) env \<Rightarrow> nat \<Rightarrow> 'v session \<Rightarrow> 'w \<Rightarrow> 'v session \<times> 'w" where
  "master_confirms env 0 s w = (s, w)"
| "master_confirms env (Suc n) s w =
     (case advanceResponse env (onConfirm (confirm_header (confirmSeq s)) s) w of (s, w, err) \<Rightarrow> master_confirms env n s w)"

text \<open>The \<open>i\<close>th of \<open>k\<close> fragments of a response with events, from some state of the stack and with some indications.\<close>

definition fragment_of :: "u16 \<Rightarrow> byte \<Rightarrow> byte list list \<Rightarrow> nat \<Rightarrow> byte list \<Rightarrow> bool" where
  "fragment_of d q bodies i outs \<longleftrightarrow>
     (\<exists>st iin. outs = line_octets st d (AppendHeader []
        \<lparr>AControl = \<lparr>AFir = (i = 0), AFin = (i = length bodies - 1), ACon = True, AUns = False,
           ASeq = (q + of_nat i) mod AppSeqModulus\<rparr>, AFunc = FuncResponse, AIIN = iin\<rparr> @ bodies ! i))"

lemma fragment_of_response:
  assumes "pendingHasEvents s"
  shows "fragment_of (pendingDest s) (pendingSeq s) (pendingBodies s) (pendingIndex s)
    (line_octets st (pendingDest s) (response_fragment host s))"
  unfolding fragment_of_def using assms
  by (intro exI [of _ st] exI [of _ "snd (currentIIN host s)"]) (simp add: response_fragment_def response_control_def needConfirm_def Let_def)

lemma onConfirm_match:
  assumes "awaitingConfirm s"
  shows "onConfirm (confirm_header (confirmSeq s)) s =
    (let s = (bump ConfirmsReceived s)\<lparr>awaitingConfirm := False\<rparr>
     in if length (pendingBodies s) \<le> pendingIndex s then finishResponse s else s)"
  using assms by (simp add: onConfirm_def confirm_header_def Let_def)

lemma confirm_rounds:
  assumes "conn env = tape" "can_send (sstack s)" "\<not> Stack_Busy (sstack s)" "awaitingConfirm s" "pendingHasEvents s"
    and "pendingIndex s + n = length (pendingBodies s)"
  shows "\<exists>s' outs. master_confirms env (Suc n) s w = (s', w @ concat outs) \<and> length outs = n \<and>
    (\<forall>j < n. fragment_of (pendingDest s) (pendingSeq s) (pendingBodies s) (pendingIndex s + j) (outs ! j)) \<and>
    pendingBodies s' = [] \<and> \<not> awaitingConfirm s' \<and> events s' = fst (EB_Confirm (events s)) \<and> unsol s' = unsol s"
  using assms
proof (induction n arbitrary: s w)
  case 0
  let ?s = "finishResponse ((bump ConfirmsReceived s)\<lparr>awaitingConfirm := False\<rparr>)"
  have "onConfirm (confirm_header (confirmSeq s)) s = ?s" using 0 by (simp add: onConfirm_match Let_def)
  then have "master_confirms env (Suc 0) s w = (?s, w)" by (simp add: advanceResponse_def)
  then show ?case using 0 by simp
next
  case (Suc n)
  let ?s = "(bump ConfirmsReceived s)\<lparr>awaitingConfirm := False\<rparr>"
  have c: "onConfirm (confirm_header (confirmSeq s)) s = ?s" using Suc.prems by (simp add: onConfirm_match Let_def)
  have need: "needConfirm ?s" using Suc.prems by (simp add: needConfirm_def)
  have "\<exists>s'. advanceResponse env ?s w = (s', w @ line_octets (sstack ?s) (pendingDest ?s) (response_fragment (hostNow env) ?s), None) \<and>
    can_send (sstack s') \<and> \<not> Stack_Busy (sstack s') \<and> pendingIndex s' = Suc (pendingIndex ?s) \<and> awaitingConfirm s' \<and>
    confirmSeq s' = ASeq (response_control ?s) \<and> pendingBodies s' = pendingBodies ?s \<and> pendingSeq s' = pendingSeq ?s \<and>
    pendingHasEvents s' = pendingHasEvents ?s \<and> pendingDest s' = pendingDest ?s \<and> events s' = events ?s \<and> unsol s' = unsol ?s"
    by (rule advanceResponse_tape [OF Suc.prems(1) _ _ _ _ need]) (use Suc.prems in simp_all)
  then obtain s1 where a: "advanceResponse env ?s w = (s1, w @ line_octets (sstack ?s) (pendingDest ?s) (response_fragment (hostNow env) ?s), None)"
    and s1: "can_send (sstack s1)" "\<not> Stack_Busy (sstack s1)" "pendingIndex s1 = Suc (pendingIndex s)" "awaitingConfirm s1"
      "pendingBodies s1 = pendingBodies s" "pendingSeq s1 = pendingSeq s" "pendingHasEvents s1"
      "pendingDest s1 = pendingDest s" "events s1 = events s" "unsol s1 = unsol s"
    using Suc.prems by auto
  let ?x = "line_octets (sstack ?s) (pendingDest ?s) (response_fragment (hostNow env) ?s)"
  have x: "fragment_of (pendingDest s) (pendingSeq s) (pendingBodies s) (pendingIndex s) ?x"
    using fragment_of_response [of ?s] Suc.prems by simp
  have "pendingIndex s1 + n = length (pendingBodies s1)" using s1 Suc.prems(6) by simp
  from Suc.IH [OF Suc.prems(1) s1(1,2,4,7) this, of "w @ ?x"] s1 obtain s' outs where
    IH: "master_confirms env (Suc n) s1 (w @ ?x) = (s', (w @ ?x) @ concat outs)" "length outs = n"
      "\<forall>j < n. fragment_of (pendingDest s) (pendingSeq s) (pendingBodies s) (Suc (pendingIndex s) + j) (outs ! j)"
      "pendingBodies s' = []" "\<not> awaitingConfirm s'" "events s' = fst (EB_Confirm (events s))" "unsol s' = unsol s"
    by auto
  have "master_confirms env (Suc (Suc n)) s w = (s', w @ concat (?x # outs))"
    using IH(1) a c by simp
  moreover have "\<forall>j < Suc n. fragment_of (pendingDest s) (pendingSeq s) (pendingBodies s) (pendingIndex s + j) ((?x # outs) ! j)"
    using x IH(3) by (auto simp: nth_Cons split: nat.splits)
  ultimately show ?case using IH(2,4-7) by (intro exI [of _ s'] exI [of _ "?x # outs"]) simp
qed

lemma response_delivered_aux:
  assumes "conn env = tape" "can_send (sstack s)" "\<not> Stack_Busy (sstack s)" "\<not> awaitingConfirm s"
    and "bodies \<noteq> []" "\<not> RBroadcast r"
  shows "\<exists>s1 w1 s2 outs. sendFragments env r req bodies True s w = (s1, w1, None) \<and>
    master_confirms env (length bodies) s1 w1 = (s2, w @ concat outs) \<and> length outs = length bodies \<and>
    (\<forall>i < length bodies. fragment_of (RSource r) (ASeq (AControl req)) bodies i (outs ! i)) \<and>
    events s1 = events s \<and> pendingBodies s2 = [] \<and> \<not> awaitingConfirm s2 \<and>
    events s2 = fst (EB_Confirm (events s))"
proof -
  let ?s = "s\<lparr>pendingBodies := bodies, pendingIndex := 0, pendingDest := RSource r, pendingSeq := ASeq (AControl req),
     pendingHasEvents := True, lastRespBodies := bodies, lastRespEvents := True, lastRespErrors := siin s AND RequestErrorMask\<rparr>"
  let ?x = "line_octets (sstack s) (RSource r) (response_fragment (hostNow env) ?s)"
  obtain n where n: "length bodies = Suc n" using assms(5) by (cases bodies) simp_all
  have need: "needConfirm ?s" by (simp add: needConfirm_def)
  have send: "sendFragments env r req bodies True s w = advanceResponse env ?s w"
    using assms(6) by (simp add: sendFragments_def)
  have "\<exists>s'. advanceResponse env ?s w = (s', w @ line_octets (sstack ?s) (pendingDest ?s) (response_fragment (hostNow env) ?s), None) \<and>
    can_send (sstack s') \<and> \<not> Stack_Busy (sstack s') \<and> pendingIndex s' = Suc (pendingIndex ?s) \<and> awaitingConfirm s' \<and>
    confirmSeq s' = ASeq (response_control ?s) \<and> pendingBodies s' = pendingBodies ?s \<and> pendingSeq s' = pendingSeq ?s \<and>
    pendingHasEvents s' = pendingHasEvents ?s \<and> pendingDest s' = pendingDest ?s \<and> events s' = events ?s \<and> unsol s' = unsol ?s"
    by (rule advanceResponse_tape [OF assms(1) _ _ _ _ need]) (use assms in simp_all)
  then obtain s1 where a: "advanceResponse env ?s w = (s1, w @ ?x, None)"
    and s1: "can_send (sstack s1)" "\<not> Stack_Busy (sstack s1)" "pendingIndex s1 = 1" "awaitingConfirm s1" "pendingHasEvents s1"
      "pendingBodies s1 = bodies" "pendingSeq s1 = ASeq (AControl req)" "pendingDest s1 = RSource r" "events s1 = events s"
    by auto
  have x: "fragment_of (RSource r) (ASeq (AControl req)) bodies 0 ?x"
    using fragment_of_response [of ?s] by simp
  have "pendingIndex s1 + n = length (pendingBodies s1)" using s1 n by simp
  from confirm_rounds [OF assms(1) s1(1,2,4,5) this, of "w @ ?x"] s1 obtain s2 outs where
    r: "master_confirms env (Suc n) s1 (w @ ?x) = (s2, (w @ ?x) @ concat outs)" "length outs = n"
      "\<forall>j < n. fragment_of (RSource r) (ASeq (AControl req)) bodies (1 + j) (outs ! j)"
      "pendingBodies s2 = []" "\<not> awaitingConfirm s2" "events s2 = fst (EB_Confirm (events s))"
    by auto
  have "\<forall>i < length bodies. fragment_of (RSource r) (ASeq (AControl req)) bodies i ((?x # outs) ! i)"
    using x r(3) n by (auto simp: nth_Cons split: nat.splits)
  with send a r s1(9) n show ?thesis
    by (intro exI [of _ s1] exI [of _ "w @ ?x"] exI [of _ s2] exI [of _ "?x # outs"]) simp
qed

text \<open>
  C16. A response carrying events goes out completely, in order, and only then are its events
  dropped. Over a link that takes frames without confirmation, a response of \<open>k\<close> fragment
  bodies to a request of sequence number \<open>q\<close>, each fragment confirmed by the master in turn,
  puts on the line exactly \<open>k\<close> fragments: the \<open>i\<close>th with the \<open>i\<close>th body, sequence number
  \<open>q + i\<close> modulo 16, FIR only on the first, FIN only on the last and a confirmation
  requested on each; after the last confirmation nothing is pending and the selected events,
  and no others, are gone from the buffer.
\<close>

theorem response_delivered:
  assumes "conn env = tape" "can_send (sstack s)" "\<not> Stack_Busy (sstack s)" "\<not> awaitingConfirm s"
    and "bodies \<noteq> []" "\<not> RBroadcast r"
  shows "\<exists>s1 w1 s2 outs. sendFragments env r req bodies True s w = (s1, w1, None) \<and>
    master_confirms env (length bodies) s1 w1 = (s2, w @ concat outs) \<and> length outs = length bodies \<and>
    (\<forall>i < length bodies. fragment_of (RSource r) (ASeq (AControl req)) bodies i (outs ! i)) \<and>
    events s1 = events s \<and> pendingBodies s2 = [] \<and> \<not> awaitingConfirm s2 \<and>
    events s2 = fst (EB_Confirm (events s))"
  by (rule response_delivered_aux [OF assms])

definition sample_env :: "(nat, byte list, unit) env" where
  "sample_env = \<lparr>conn = tape, build = (\<lambda>sync evs. ([[2, 1]], [])), appNow = 10, hostNow = 10\<rparr>"

definition sample_session :: "nat session" where
  "sample_session = \<lparr>scfg = Session_applyDefaults \<lparr>SMaxTxFragment = 0, SConfirmTimeout = 0, SLinkTimeout = 0, SSyncInterval = 0,
       SHoldover = 0, SUnsolicited = \<lparr>UEnabled = True, UHoldTime = 0, UMaxEvents = 0, UConfirmTimeout = 0, UMaxRetries = 0\<rparr>\<rparr>,
     sstack = New outstation_config, events = fst (run_ops eb_step [AddOp (sample_event 2), AddOp (sample_event 4)] (NewEventBuffer 10)),
     siin = IINDeviceRestart, indications = 0, synchronized = False, syncedAt = 0, unsolClasses = 2, awaitingConfirm = False,
     confirmSeq = 0, confirmDeadline = 0, pendingBodies = [], pendingIndex = 0, pendingDest = 0, pendingSeq = 0,
     pendingHasEvents = False, lastReqValid = False, lastReqSource = 0, lastReqSeq = 0, lastReqFrag = [], lastRespBodies = [],
     lastRespEvents = False, lastRespErrors = 0, unsol = unsol_reset, connected = True, broadcastConfirm = False,
     deferredRead = None, linkDeadline = 0, stats = (\<lambda>_. 0)\<rparr>"

definition sample_request :: received where
  "sample_request = \<lparr>RFragment = [0xC3, 1, 60, 2, 6], RSource = 1, RDest = 10, RBroadcast = False\<rparr>"

lemma sample_session_ready:
  "conn sample_env = tape" "can_send (sstack sample_session)" "\<not> Stack_Busy (sstack sample_session)"
  "\<not> awaitingConfirm sample_session" "\<not> RBroadcast sample_request"
  by (simp_all add: sample_env_def sample_session_def sample_request_def can_send_def sample_stack_defs
      Stack_Busy_def Seg_Pending_def Pri_Busy_def Let_def)

theorem response_delivered_witness:
  "\<exists>s1 w1 s2 outs. sendFragments sample_env sample_request (confirm_header 15) [[7], [8, 9]] True sample_session [] = (s1, w1, None) \<and>
    master_confirms sample_env 2 s1 w1 = (s2, concat outs) \<and> length outs = 2 \<and>
    fragment_of 1 15 [[7], [8, 9]] 1 (outs ! 1) \<and> pendingBodies s2 = []"
proof -
  have "[[7], [8, 9]] \<noteq> ([] :: byte list list)" by simp
  from response_delivered [OF sample_session_ready(1-4) this sample_session_ready(5), of "confirm_header 15" "[]"]
  show ?thesis by (simp add: sample_request_def confirm_header_def numeral_2_eq_2) blast
qed

text \<open>The witness of the confirmation rule: a read of one event, answered and confirmed.\<close>

lemma sample_events:
  "eb_ids (events sample_session) = {1, 2}" "eb_sel (fst (EB_Select 2 10 (events sample_session))) = {1}"
  "eb_ids (fst (EB_Confirm (fst (EB_Select 2 10 (events sample_session))))) = {2}"
  by (simp_all add: sample_session_def eb_eval)


section \<open>A lost connection\<close>

text \<open>
  What \<^verbatim>\<open>Run\<close> and \<^verbatim>\<open>serve\<close> do to the session when a connection is replaced by another: the stack
  and the unsolicited state start afresh, as does what is remembered of the last request.
  The event buffer is not touched.
\<close>

definition reconnect :: "'v session \<Rightarrow> 'v session" where
  "reconnect s =
     (let s = s\<lparr>connected := False\<rparr>;
          s = s\<lparr>sstack := Stack_Reset (sstack s)\<rparr>
      in s\<lparr>connected := True, lastReqValid := False, deferredRead := None, unsol := unsol_reset\<rparr>)"

lemma can_send_Reset: "can_send s \<Longrightarrow> can_send (Stack_Reset s)" "\<not> Stack_Busy (Stack_Reset s)"
  by (simp_all add: can_send_def Stack_Reset_def Pri_Reset_def Pri_Busy_def Stack_Busy_def Seg_Pending_def Seg_Clear_def)

lemma selected_not_offered:
  assumes "sorted_wrt (<) (seqs (EBEvents b))" "EB_Select bits limit b = (b', out)" "i \<in> eb_sel b"
  shows "i \<notin> ESeq ` set out \<and> i \<in> eb_sel b'"
proof -
  have out: "out = (if limit \<le> 0 then [] else map (\<lambda>e. e\<lparr>ESelected := True\<rparr>)
      (take (nat limit) (filter (\<lambda>e. \<not> ESelected e \<and> EClass e AND bits \<noteq> 0) (EBEvents b))))"
    using assms(2) select_loop_out [of "nat limit" "\<lambda>e. EClass e AND bits \<noteq> 0" "EBEvents b"]
    by (auto simp: EB_Select_def selectWhere_def Let_def split: prod.splits if_splits)
  obtain e where e: "e \<in> set (EBEvents b)" "ESelected e" "ESeq e = i" using assms(3) by (auto simp: eb_sel_def in_seqs_filter)
  have "ESeq x \<noteq> i" if "x \<in> set out" for x
  proof -
    from that obtain y where "y \<in> set (take (nat limit) (filter (\<lambda>e. \<not> ESelected e \<and> EClass e AND bits \<noteq> 0) (EBEvents b)))"
      and "x = y\<lparr>ESelected := True\<rparr>" by (subst (asm) out) (auto split: if_splits)
    then have "y \<in> set (EBEvents b)" "\<not> ESelected y" "ESeq x = ESeq y" by (simp_all, auto dest: in_set_takeD)
    with e same_seq [OF assms(1) e(1), of y] show ?thesis by metis
  qed
  then show ?thesis
    using assms(2,3) selectWhere_sel [of limit "\<lambda>e. EClass e AND bits \<noteq> 0" b] by (auto simp: EB_Select_def)
qed

text \<open>
  C29. Events of an unsolicited response that was never confirmed can be lost. Let an event be
  selected while nothing is awaiting its confirmation: after a reconnection, which resets
  the unsolicited state and leaves the buffer as it was, or between the timeout of an
  unsolicited response and its retry. Then a read is answered at once and does not report
  the event; and when the response to that read, which carries other events, is confirmed,
  the event is removed from the buffer all the same.
\<close>

theorem unconfirmed_selection_dropped:
  assumes "conn env = tape" "can_send (sstack s)" "eb_inv n (events s)" "i \<in> eb_sel (events s)" "\<not> awaitingConfirm s"
    and "s' = reconnect s \<or> s' = s \<and> \<not> u_awaiting (unsol s) \<and> \<not> Stack_Busy (sstack s)"
    and "EB_Select bits limit (events s') = (b, out)" "\<not> RBroadcast r" "bodies \<noteq> []"
  shows "\<not> snd (deferRead r s') \<and> i \<notin> ESeq ` set out \<and>
    (\<exists>s1 w1. sendFragments env r req bodies True (s'\<lparr>events := b\<rparr>) w = (s1, w1, None) \<and>
       i \<notin> eb_ids (events (fst (master_confirms env (length bodies) s1 w1))))"
proof -
  let ?s = "s'\<lparr>events := b\<rparr>"
  have s: "sorted_wrt (<) (seqs (EBEvents (events s)))" using assms(3) by (simp add: eb_inv_def)
  have ev: "events s' = events s" using assms(6) by (auto simp: reconnect_def Let_def)
  have sel: "i \<notin> ESeq ` set out" "i \<in> eb_sel b" using selected_not_offered [OF s assms(7) [unfolded ev] assms(4)] by simp_all
  have b: "sorted_wrt (<) (seqs (EBEvents b))"
    using s assms(7) by (metis EB_Select_def ev fst_conv selectWhere_frame(1))
  have "eb_ids (fst (EB_Confirm b)) = eb_ids b - eb_sel b"
    using seqs_filter_not [OF b, of ESelected] by (simp add: eb_ids_def eb_sel_def EB_Confirm_events)
  then have gone: "i \<notin> eb_ids (fst (EB_Confirm b))" using sel(2) by simp
  have "\<not> u_awaiting (unsol s')" using assms(6) by (auto simp: reconnect_def unsol_reset_def Let_def)
  then have now: "\<not> snd (deferRead r s')" by (simp add: deferRead_def)
  have "can_send (sstack ?s)" "\<not> Stack_Busy (sstack ?s)" "\<not> awaitingConfirm ?s"
    using can_send_Reset [of "sstack s"] assms(2,5,6) by (auto simp: reconnect_def Let_def)
  from response_delivered_aux [OF assms(1) this assms(9,8), of req w] sel(1) gone now show ?thesis by fastforce
qed

theorem unconfirmed_selection_dropped_witness:
  "\<exists>s1 w1. sendFragments sample_env sample_request (confirm_header 3) [[2, 1]] True
       ((reconnect (sample_session\<lparr>events := fst (EB_Select 2 10 (events sample_session))\<rparr>))
          \<lparr>events := fst (EB_Select 4 10 (fst (EB_Select 2 10 (events sample_session))))\<rparr>) [] = (s1, w1, None) \<and>
     1 \<notin> eb_ids (events (fst (master_confirms sample_env 1 s1 w1)))"
proof -
  let ?s = "sample_session\<lparr>events := fst (EB_Select 2 10 (events sample_session))\<rparr>"
  have "eb_inv 0 (events ?s)" "1 \<in> eb_sel (events ?s)"
    using sample_events(2) by (simp_all add: sample_session_def eb_inv_def eb_eval)
  moreover have "can_send (sstack ?s)" "\<not> awaitingConfirm ?s" using sample_session_ready by simp_all
  moreover have "events (reconnect ?s) = events ?s" by (simp add: reconnect_def Let_def)
  ultimately show ?thesis
    using unconfirmed_selection_dropped [OF sample_session_ready(1), of ?s 0 1 "reconnect ?s" 4 10 "fst (EB_Select 4 10 (events ?s))"
        "snd (EB_Select 4 10 (events ?s))" sample_request "[[2, 1]]" "confirm_header 3" "[]"] sample_session_ready(5)
    by simp
qed

section \<open>Unsolicited responses\<close>

lemma fit_search_bounds:
  "1 \<le> lo \<Longrightarrow> lo \<le> hi \<Longrightarrow> lo \<le> fit_search fits lo hi \<and> fit_search fits lo hi \<le> hi \<and>
     (fit_search fits lo hi = lo \<or> fits (fit_search fits lo hi))"
proof (induction fits lo hi rule: fit_search.induct)
  case (1 fits lo hi)
  let ?mid = "(lo + hi + 1) div 2"
  show ?case
  proof (cases "lo < hi")
    case False
    then show ?thesis using 1(4) by (simp add: fit_search.simps)
  next
    case True
    then have m: "lo < ?mid" "?mid \<le> hi" "lo \<le> ?mid - 1" "?mid - 1 \<le> hi" by linarith+
    show ?thesis
    proof (cases "fits ?mid")
      case yes: True
      then have "fit_search fits lo hi = fit_search fits ?mid hi" using True by (simp add: fit_search.simps [of fits lo hi])
      with 1(1) [OF True refl yes] 1(3) m yes show ?thesis by auto
    next
      case no: False
      then have "fit_search fits lo hi = fit_search fits lo (?mid - 1)" using True by (simp add: fit_search.simps [of fits lo hi])
      with 1(2) [OF True refl no 1(3) m(3)] m(4) show ?thesis by auto
    qed
  qed
qed

lemma fit_search_maximal:
  "1 \<le> lo \<Longrightarrow> lo \<le> hi \<Longrightarrow> (\<And>m n. lo \<le> m \<Longrightarrow> m \<le> n \<Longrightarrow> fits n \<Longrightarrow> fits m) \<Longrightarrow>
     fit_search fits lo hi < n \<Longrightarrow> n \<le> hi \<Longrightarrow> \<not> fits n"
proof (induction fits lo hi rule: fit_search.induct)
  case (1 fits lo hi)
  let ?mid = "(lo + hi + 1) div 2"
  show ?case
  proof (cases "lo < hi")
    case False
    then show ?thesis using 1(4,6,7) by (simp add: fit_search.simps)
  next
    case True
    then have m: "lo < ?mid" "?mid \<le> hi" "lo \<le> ?mid - 1" "?mid - 1 \<le> hi" by linarith+
    show ?thesis
    proof (cases "fits ?mid")
      case yes: True
      then have eq: "fit_search fits lo hi = fit_search fits ?mid hi" using True by (simp add: fit_search.simps [of fits lo hi])
      have mono: "fits a" if "?mid \<le> a" "a \<le> b" "fits b" for a b using 1(5) [of a b] that m by simp
      show ?thesis
        by (rule 1(1) [OF True refl yes _ m(2) mono]) (use 1(3,6,7) m eq in simp_all)
    next
      case no: False
      then have eq: "fit_search fits lo hi = fit_search fits lo (?mid - 1)" using True by (simp add: fit_search.simps [of fits lo hi])
      show ?thesis
      proof (cases "n \<le> ?mid - 1")
        case True': True
        show ?thesis
          by (rule 1(2) [OF True refl no 1(3) m(3) 1(5)]) (use 1(6) eq True' in simp_all)
      next
        case False
        then have "?mid \<le> n" by simp
        then show ?thesis using 1(5) [of ?mid n] no m by auto
      qed
    qed
  qed
qed

text \<open>The first \<open>n\<close> events of a batch are encoded in one fragment.\<close>

definition one_fragment :: "('v, 'w, 'e) env \<Rightarrow> 'v session \<Rightarrow> 'v event list \<Rightarrow> nat \<Rightarrow> bool" where
  "one_fragment env s evs n \<longleftrightarrow> length (fst (build env (synchronized s) (take n evs))) = 1"

text \<open>
  The bisection that sizes an unsolicited response is sound: it takes at least one event and
  never more events than one fragment holds, unless it takes a single one; and where a
  shorter prefix of a batch that fits also fits, it takes as many as possible.
\<close>

theorem eventsThatFit_correct:
  assumes "evs \<noteq> []"
  shows "1 \<le> eventsThatFit env s evs \<and> eventsThatFit env s evs \<le> length evs \<and>
    (eventsThatFit env s evs = 1 \<or> one_fragment env s evs (eventsThatFit env s evs)) \<and>
    ((\<forall>m n. 1 \<le> m \<and> m \<le> n \<and> one_fragment env s evs n \<longrightarrow> one_fragment env s evs m) \<longrightarrow>
     (\<forall>n. eventsThatFit env s evs < n \<and> n \<le> length evs \<longrightarrow> \<not> one_fragment env s evs n))"
proof -
  let ?fits = "one_fragment env s evs"
  have eq: "eventsThatFit env s evs = fit_search ?fits 1 (length evs)" by (simp add: eventsThatFit_def one_fragment_def [abs_def])
  have len: "1 \<le> length evs" using assms(1) by (cases evs) simp_all
  have "\<not> ?fits n" if "\<forall>m n. 1 \<le> m \<and> m \<le> n \<and> ?fits n \<longrightarrow> ?fits m" "fit_search ?fits 1 (length evs) < n" "n \<le> length evs" for n
    by (rule fit_search_maximal [OF order_refl len _ that(2,3)]) (use that(1) in blast)
  with fit_search_bounds [OF order_refl len, of ?fits] show ?thesis unfolding eq by blast
qed

theorem eventsThatFit_correct_witness:
  "eventsThatFit (sample_env\<lparr>build := (\<lambda>sync evs. (replicate ((length evs + 2) div 3) [], []))\<rparr>) sample_session
     (replicate 7 (sample_event 2)) = 3"
proof -
  let ?env = "sample_env\<lparr>build := (\<lambda>sync evs. (replicate ((length evs + 2) div 3) [], []))\<rparr>"
  let ?evs = "replicate 7 (sample_event 2)" and ?n = "eventsThatFit ?env sample_session (replicate 7 (sample_event 2))"
  have fits: "one_fragment ?env sample_session ?evs n \<longleftrightarrow> 1 \<le> n \<and> n \<le> 3" if "n \<le> 7" for n
    using that by (auto simp: one_fragment_def min_def)
  have mono: "one_fragment ?env sample_session ?evs m" if "1 \<le> m" "m \<le> n" "one_fragment ?env sample_session ?evs n" for m n
    using that fits [of m] by (auto simp: one_fragment_def min_def split: if_splits)
  have c: "1 \<le> ?n \<and> ?n \<le> 7 \<and> (?n = 1 \<or> one_fragment ?env sample_session ?evs ?n) \<and>
     (\<forall>n. ?n < n \<and> n \<le> 7 \<longrightarrow> \<not> one_fragment ?env sample_session ?evs n)"
  proof -
    have ne: "?evs \<noteq> []" by simp
    have M: "\<forall>m n. 1 \<le> m \<and> m \<le> n \<and> one_fragment ?env sample_session ?evs n \<longrightarrow> one_fragment ?env sample_session ?evs m"
      using mono by blast
    show ?thesis using eventsThatFit_correct [OF ne, of ?env sample_session] M unfolding length_replicate by blast
  qed
  then have "?n \<le> 3" "\<not> ?n < 3" using fits [of ?n] fits [of 3] by auto
  then show ?thesis by simp
qed

definition unsolicited_of :: "byte \<Rightarrow> byte list \<Rightarrow> byte list \<Rightarrow> bool" where
  "unsolicited_of q body out \<longleftrightarrow>
     (\<exists>st iin. out = line_octets st (RemoteAddr (cfg st)) (AppendHeader []
        \<lparr>AControl = \<lparr>AFir = True, AFin = True, ACon = True, AUns = True, ASeq = q\<rparr>, AFunc = FuncUnsolicitedResponse, AIIN = iin\<rparr> @ body))"

lemma transmit_unsolicited_tape:
  assumes "conn env = tape" "can_send (sstack s)" "\<not> Stack_Busy (sstack s)"
  shows "\<exists>s' out. transmit_unsolicited env body f s w = (s', w @ out, None) \<and> unsolicited_of (u_seq (unsol s)) body out \<and>
    can_send (sstack s') \<and> \<not> Stack_Busy (sstack s') \<and> scfg s' = scfg s \<and> events s' = events s \<and> connected s' = connected s \<and>
    pendingBodies s' = pendingBodies s \<and> deferredRead s' = deferredRead s \<and>
    unsol s' = f ((unsol s)\<lparr>u_awaiting := True, awaitSeq := u_seq (unsol s),
                    deadline := appNow env + UConfirmTimeout (SUnsolicited (scfg s))\<rparr>)"
proof -
  obtain s1 iin where c: "currentIIN (hostNow env) s = (s1, iin)" by fastforce
  obtain b where s1: "s1 = s\<lparr>synchronized := b\<rparr>" by (rule currentIIN_sync [OF c])
  let ?frag = "AppendHeader [] \<lparr>AControl = \<lparr>AFir = True, AFin = True, ACon = True, AUns = True, ASeq = u_seq (unsol s)\<rparr>,
     AFunc = FuncUnsolicitedResponse, AIIN = iin\<rparr> @ body"
  let ?d = "RemoteAddr (cfg (sstack s))"
  have u: "unsolicitedFragment (hostNow env) body s = (s\<lparr>synchronized := b\<rparr>, ?frag)"
    using c s1 by (simp add: unsolicitedFragment_def)
  have "?frag \<noteq> []" by simp
  from tape_SendTo [OF assms(2,3) this, of ?d w] obtain st where
    send: "SendTo tape (sstack s) ?d ?frag w = (st, w @ line_octets (sstack s) ?d ?frag, None)" "can_send st" "\<not> Stack_Busy st"
    unfolding line_octets_def by blast
  have "unsolicited_of (u_seq (unsol s)) body (line_octets (sstack s) ?d ?frag)" unfolding unsolicited_of_def by blast
  with u send assms(1) show ?thesis by (simp add: transmit_unsolicited_def Send_def bump_def)
qed

text \<open>A master that stays silent: each deadline passes, and the next tick comes.\<close>

definition tick :: "('v, 'w, 'e) env \<Rightarrow> 'v session \<times> 'w \<Rightarrow> 'v session \<times> 'w" where
  "tick env sw = (case sw of (s, w) \<Rightarrow>
     case pollUnsolicited (env\<lparr>appNow := deadline (unsol s)\<rparr>) s w of (s, w, err) \<Rightarrow> (s, w))"

fun silence :: "('v, 'w, 'e) env \<Rightarrow> nat \<Rightarrow> 'v session \<times> 'w \<Rightarrow> 'v session \<times> 'w" where
  "silence env 0 sw = tick env sw"
| "silence env (Suc n) sw = silence env n (tick env (tick env sw))"

definition outstanding :: "'v session \<Rightarrow> bool" where
  "outstanding s \<longleftrightarrow> UEnabled (SUnsolicited (scfg s)) \<and> connected s \<and> u_awaiting (unsol s) \<and> retained (unsol s) \<and>
     pendingBodies s = [] \<and> deferredRead s = None \<and> can_send (sstack s) \<and> \<not> Stack_Busy (sstack s)"

lemma tick_timeout:
  assumes "outstanding s"
  shows "tick env (s, w) = (onUnsolicitedTimeout (deadline (unsol s)) s, w)"
  using assms by (simp add: tick_def pollUnsolicited_def outstanding_def)

lemma onUnsolicitedTimeout_again:
  assumes "deferredRead s = None" "retries (unsol s) + 1 \<le> UMaxRetries (SUnsolicited (scfg s))"
  shows "onUnsolicitedTimeout now s =
    bump UnsolicitedTimeouts (s\<lparr>unsol := (unsol s)\<lparr>u_awaiting := False, retries := retries (unsol s) + 1\<rparr>\<rparr>)"
  using assms by (simp add: onUnsolicitedTimeout_def Let_def)

lemma tick_retry:
  assumes "conn env = tape" "outstanding s" "0 \<le> retries (unsol s)" "retries (unsol s) + 1 \<le> UMaxRetries (SUnsolicited (scfg s))"
  shows "\<exists>s' out. tick env (tick env (s, w)) = (s', w @ out) \<and> unsolicited_of (u_seq (unsol s)) (lastBody (unsol s)) out \<and>
    outstanding s' \<and> retries (unsol s') = retries (unsol s) + 1 \<and> u_seq (unsol s') = u_seq (unsol s) \<and>
    lastBody (unsol s') = lastBody (unsol s) \<and> scfg s' = scfg s \<and> events s' = events s"
proof -
  let ?s = "bump UnsolicitedTimeouts (s\<lparr>unsol := (unsol s)\<lparr>u_awaiting := False, retries := retries (unsol s) + 1\<rparr>\<rparr>)"
  let ?env = "env\<lparr>appNow := deadline (unsol ?s)\<rparr>"
  have "deferredRead s = None" using assms(2) by (simp add: outstanding_def)
  then have t: "tick env (s, w) = (?s, w)"
    using tick_timeout [OF assms(2), of env w] onUnsolicitedTimeout_again [OF _ assms(4)] by simp
  have p: "pollUnsolicited ?env ?s w = retryUnsolicited ?env ?s w"
    using assms(2,3) by (simp add: pollUnsolicited_def outstanding_def)
  have c: "conn ?env = tape" "can_send (sstack ?s)" "\<not> Stack_Busy (sstack ?s)"
    using assms(1,2) by (simp_all add: outstanding_def)
  from transmit_unsolicited_tape [OF c, of "lastBody (unsol ?s)" "\<lambda>u. u" w] obtain s' out where
    "retryUnsolicited ?env ?s w = (s', w @ out, None)" "unsolicited_of (u_seq (unsol ?s)) (lastBody (unsol ?s)) out"
    and s': "can_send (sstack s')" "\<not> Stack_Busy (sstack s')" "scfg s' = scfg ?s" "events s' = events ?s"
    "connected s' = connected ?s" "pendingBodies s' = pendingBodies ?s" "deferredRead s' = deferredRead ?s"
    "unsol s' = (unsol ?s)\<lparr>u_awaiting := True, awaitSeq := u_seq (unsol ?s), deadline := appNow ?env + UConfirmTimeout (SUnsolicited (scfg ?s))\<rparr>"
    unfolding retryUnsolicited_transmit by blast
  then have "tick env (tick env (s, w)) = (s', w @ out)" "unsolicited_of (u_seq (unsol s)) (lastBody (unsol s)) out"
    using t p by (simp_all add: tick_def)
  moreover have "outstanding s'" using assms(2) s' by (simp add: outstanding_def)
  ultimately show ?thesis using s' by (intro exI [of _ s'] exI [of _ out]) simp
qed

lemma silence_gives_up:
  assumes "conn env = tape" "outstanding s" "0 \<le> retries (unsol s)" "retries (unsol s) + int n = UMaxRetries (SUnsolicited (scfg s))"
  shows "\<exists>s' outs. silence env n (s, w) = (s', w @ concat outs) \<and> length outs = n \<and>
    (\<forall>out \<in> set outs. unsolicited_of (u_seq (unsol s)) (lastBody (unsol s)) out) \<and>
    \<not> u_awaiting (unsol s') \<and> \<not> retained (unsol s') \<and> retries (unsol s') = 0 \<and> u_seq (unsol s') = u_seq (unsol s) \<and>
    events s' = fst (EB_Unselect (events s))"
  using assms
proof (induction n arbitrary: s w)
  case 0
  then have "tick env (s, w) = (onUnsolicitedTimeout (deadline (unsol s)) s, w)" by (simp add: tick_timeout)
  with 0 show ?case by (simp add: onUnsolicitedTimeout_def give_up_def Let_def outstanding_def)
next
  case (Suc n)
  then obtain s1 out where t: "tick env (tick env (s, w)) = (s1, w @ out)" "unsolicited_of (u_seq (unsol s)) (lastBody (unsol s)) out"
    and s1: "outstanding s1" "retries (unsol s1) = retries (unsol s) + 1" "u_seq (unsol s1) = u_seq (unsol s)"
      "lastBody (unsol s1) = lastBody (unsol s)" "scfg s1 = scfg s" "events s1 = events s"
    using tick_retry [OF Suc.prems(1-3), of w] by auto
  have "0 \<le> retries (unsol s1)" "retries (unsol s1) + int n = UMaxRetries (SUnsolicited (scfg s1))"
    using Suc.prems(3,4) s1 by simp_all
  from Suc.IH [OF Suc.prems(1) s1(1) this, of "w @ out"] s1 obtain s' outs where
    "silence env n (s1, w @ out) = (s', (w @ out) @ concat outs)" "length outs = n"
    "\<forall>out \<in> set outs. unsolicited_of (u_seq (unsol s)) (lastBody (unsol s)) out"
    "\<not> u_awaiting (unsol s') \<and> \<not> retained (unsol s') \<and> retries (unsol s') = 0 \<and> u_seq (unsol s') = u_seq (unsol s) \<and>
     events s' = fst (EB_Unselect (events s))" by auto
  with t show ?case by (intro exI [of _ s'] exI [of _ "out # outs"]) simp
qed

text \<open>
  C30. Retries of an unsolicited response are verbatim and bounded. If the master stays silent, a
  response just sent is retransmitted exactly as many times as configured, every time with
  the same sequence number and the same objects (the indications are fresh); then it is given
  up: nothing is outstanding, every event it held is back in the queue, unselected, and none
  has left the buffer.
\<close>

theorem unsolicited_retries_bounded:
  assumes "conn env = tape" "outstanding s" "retries (unsol s) = 0" "0 < UMaxRetries (SUnsolicited (scfg s))"
  shows "\<exists>s' outs. silence env (nat (UMaxRetries (SUnsolicited (scfg s)))) (s, w) = (s', w @ concat outs) \<and>
    length outs = nat (UMaxRetries (SUnsolicited (scfg s))) \<and>
    (\<forall>out \<in> set outs. unsolicited_of (u_seq (unsol s)) (lastBody (unsol s)) out) \<and>
    \<not> u_awaiting (unsol s') \<and> \<not> retained (unsol s') \<and> eb_sel (events s') = {} \<and> eb_ids (events s') = eb_ids (events s)"
proof -
  have "eb_sel (fst (EB_Unselect (events s))) = {}" by (simp add: eb_sel_def EB_Unselect_events)
  with silence_gives_up [OF assms(1,2), of "nat (UMaxRetries (SUnsolicited (scfg s)))" w] assms(3,4) show ?thesis
    by fastforce
qed

theorem unsolicited_retries_bounded_witness:
  "\<exists>s' outs. silence sample_env 3 (sample_session\<lparr>events := fst (EB_Select 2 10 (events sample_session)),
       unsol := unsol_reset\<lparr>nullConfirmed := True, u_awaiting := True, retained := True, lastBody := [2, 1], u_seq := 4\<rparr>\<rparr>, []) =
       (s', concat outs) \<and> length outs = 3 \<and> (\<forall>out \<in> set outs. unsolicited_of 4 [2, 1] out) \<and>
     eb_sel (events s') = {} \<and> eb_ids (events s') = {1, 2}"
proof -
  let ?s = "sample_session\<lparr>events := fst (EB_Select 2 10 (events sample_session)),
       unsol := unsol_reset\<lparr>nullConfirmed := True, u_awaiting := True, retained := True, lastBody := [2, 1], u_seq := 4\<rparr>\<rparr>"
  have o: "outstanding ?s" using sample_session_ready
    by (simp add: outstanding_def) (simp add: sample_session_def Session_applyDefaults_def Unsol_applyDefaults_def)
  have m: "UMaxRetries (SUnsolicited (scfg ?s)) = 3" "retries (unsol ?s) = 0"
    by (simp_all add: sample_session_def Session_applyDefaults_def Unsol_applyDefaults_def unsol_reset_def)
  show ?thesis
    using unsolicited_retries_bounded [OF sample_session_ready(1) o m(2), of "[]"] m(1) sample_events(1)
    by (simp add: unsol_reset_def) blast
qed

section \<open>Requests that never reach a handler\<close>

definition complete_request :: "received \<Rightarrow> bool" where
  "complete_request r =
     (case ParseFragment None (RFragment r) of
        (frag, Some e) \<Rightarrow> False
      | (frag, None) \<Rightarrow> AFir (AControl (FHeader frag)) \<and> AFin (AControl (FHeader frag)) \<and>
          \<not> ACon (AControl (FHeader frag)) \<and> \<not> AUns (AControl (FHeader frag)) \<and>
          list_all (\<lambda>h. Consistent (OQualifier h)) (FObjects frag) \<and>
          handlesFunc (AFunc (FHeader frag)) \<and> AFunc (FHeader frag) \<noteq> FuncConfirm \<and>
          (RequiresObjects (AFunc (FHeader frag)) \<longrightarrow> FObjects frag \<noteq> []))"

text \<open>
  A repetition of the last request acted on: the same octets from the same station.
  Authentication requests are never taken for repetitions.
\<close>

definition repeats :: "received \<Rightarrow> 'v session \<Rightarrow> bool" where
  "repeats r s \<longleftrightarrow> (let h = FHeader (fst (ParseFragment None (RFragment r)))
     in lastReqValid s \<and> RSource r = lastReqSource s \<and> RFragment r = lastReqFrag s \<and> ASeq (AControl h) = lastReqSeq s \<and>
        AFunc h \<noteq> FuncAuthRequest \<and> AFunc h \<noteq> FuncAuthRequestNoAck)"

lemma handle_deferred: "deferRead r s = (s0, True) \<Longrightarrow> handle env other r s w = (s0, w, None)"
  by (simp add: handle_def)

lemma handle_unparsed:
  "deferRead r s = (s0, False) \<Longrightarrow> ParseFragment None (RFragment r) = (frag, Some e) \<Longrightarrow>
   handle env other r s w =
     rejectMalformed env r e (bump MalformedRequests (fst (clockDue (hostNow env) (bump RequestsReceived s0)))) w"
  by (simp add: handle_def)

text \<open>The order of the checks on a fragment that was parsed.\<close>

lemma handle_parsed:
  assumes "deferRead r s = (s0, False)" "ParseFragment None (RFragment r) = (frag, None)"
    and "s1 = fst (clockDue (hostNow env) (bump RequestsReceived s0))" "h = FHeader frag"
  shows "\<not> AFir (AControl h) \<or> \<not> AFin (AControl h) \<Longrightarrow>
      handle env other r s w = (set_iin IINParameterError (bump IncompleteRequests s1), w, None)"
    and "AFir (AControl h) \<Longrightarrow> AFin (AControl h) \<Longrightarrow> AFunc h = FuncConfirm \<and> FObjects frag \<noteq> [] \<or>
        AFunc h \<noteq> FuncConfirm \<and> (ACon (AControl h) \<or> AUns (AControl h)) \<Longrightarrow>
      handle env other r s w = (bump MalformedRequests s1, w, None)"
    and "AFir (AControl h) \<Longrightarrow> AFin (AControl h) \<Longrightarrow> AFunc h \<noteq> FuncConfirm \<Longrightarrow> \<not> ACon (AControl h) \<Longrightarrow> \<not> AUns (AControl h) \<Longrightarrow>
        \<not> list_all (\<lambda>x. Consistent (OQualifier x)) (FObjects frag) \<Longrightarrow>
      handle env other r s w = rejectMalformed env r ErrBadQualifier (bump MalformedRequests s1) w"
    and "AFir (AControl h) \<Longrightarrow> AFin (AControl h) \<Longrightarrow> AFunc h = FuncConfirm \<Longrightarrow> FObjects frag = [] \<Longrightarrow>
      handle env other r s w = handle env other' r s w"
    and "AFir (AControl h) \<Longrightarrow> AFin (AControl h) \<Longrightarrow> AFunc h \<noteq> FuncConfirm \<Longrightarrow> \<not> ACon (AControl h) \<Longrightarrow> \<not> AUns (AControl h) \<Longrightarrow>
        list_all (\<lambda>x. Consistent (OQualifier x)) (FObjects frag) \<Longrightarrow>
        AFunc h \<noteq> FuncAuthRequest \<Longrightarrow> AFunc h \<noteq> FuncAuthRequestNoAck \<Longrightarrow> isRepeatRequest r frag s1 \<Longrightarrow>
      handle env other r s w = replayResponse env r h (bump RepeatedRequests s1) w"
    and "AFir (AControl h) \<Longrightarrow> AFin (AControl h) \<Longrightarrow> AFunc h \<noteq> FuncConfirm \<Longrightarrow> \<not> ACon (AControl h) \<Longrightarrow> \<not> AUns (AControl h) \<Longrightarrow>
        list_all (\<lambda>x. Consistent (OQualifier x)) (FObjects frag) \<Longrightarrow>
        \<not> handlesFunc (AFunc h) \<or> RequiresObjects (AFunc h) \<and> FObjects frag = [] \<Longrightarrow>
      handle env other r s w = handle env other' r s w"
proof -
  show "AFir (AControl h) \<Longrightarrow> AFin (AControl h) \<Longrightarrow> AFunc h = FuncConfirm \<and> FObjects frag \<noteq> [] \<or>
        AFunc h \<noteq> FuncConfirm \<and> (ACon (AControl h) \<or> AUns (AControl h)) \<Longrightarrow>
      handle env other r s w = (bump MalformedRequests s1, w, None)"
    by (elim disjE conjE) (simp_all add: handle_def assms Let_def)
  show "AFir (AControl h) \<Longrightarrow> AFin (AControl h) \<Longrightarrow> AFunc h \<noteq> FuncConfirm \<Longrightarrow> \<not> ACon (AControl h) \<Longrightarrow> \<not> AUns (AControl h) \<Longrightarrow>
        list_all (\<lambda>x. Consistent (OQualifier x)) (FObjects frag) \<Longrightarrow>
        \<not> handlesFunc (AFunc h) \<or> RequiresObjects (AFunc h) \<and> FObjects frag = [] \<Longrightarrow>
      handle env other r s w = handle env other' r s w"
  proof (elim disjE conjE)
    assume h: "AFir (AControl h)" "AFin (AControl h)" "AFunc h \<noteq> FuncConfirm" "\<not> ACon (AControl h)" "\<not> AUns (AControl h)"
      "list_all (\<lambda>x. Consistent (OQualifier x)) (FObjects frag)"
    show "handle env other r s w = handle env other' r s w" if n: "\<not> handlesFunc (AFunc h)"
    proof -
      have "AFunc h \<noteq> FuncAuthRequest \<and> AFunc h \<noteq> FuncAuthRequestNoAck \<and> AFunc h \<noteq> FuncEnableUnsolicited \<and> AFunc h \<noteq> FuncDisableUnsolicited"
        using n by (auto simp: handlesFunc_def)
      then show ?thesis using h n assms by (simp add: handle_def dispatch_def Let_def)
    qed
    show "handle env other r s w = handle env other' r s w" if n: "RequiresObjects (AFunc h)" "FObjects frag = []"
    proof -
      have "AFunc h \<noteq> FuncAuthRequest \<and> AFunc h \<noteq> FuncAuthRequestNoAck" using n(1) by (auto simp: RequiresObjects_def)
      then show ?thesis using h n assms by (simp add: handle_def Let_def)
    qed
  qed
qed (auto simp: handle_def dispatch_def assms Let_def RequiresObjects_def)

lemma incomplete_unreached:
  assumes "\<not> complete_request r"
  shows "handle env other r s w = handle env other' r s w"
proof -
  obtain s0 d where d: "deferRead r s = (s0, d)" by fastforce
  obtain frag err where p: "ParseFragment None (RFragment r) = (frag, err)" by fastforce
  let ?s = "fst (clockDue (hostNow env) (bump RequestsReceived s0))" and ?h = "FHeader frag"
  show ?thesis
  proof (cases "d \<or> err \<noteq> None")
    case True
    then show ?thesis using d p handle_deferred [of r s s0 env _ w] handle_unparsed [of r s s0 frag _ env _ w] by (cases d) auto
  next
    case False
    then have d: "deferRead r s = (s0, False)" and p: "ParseFragment None (RFragment r) = (frag, None)" using d p by simp_all
    note parsed = handle_parsed [OF d p refl refl, of env]
    consider (partial) "\<not> AFir (AControl ?h) \<or> \<not> AFin (AControl ?h)"
      | (flagged) "AFir (AControl ?h)" "AFin (AControl ?h)"
          "AFunc ?h = FuncConfirm \<and> FObjects frag \<noteq> [] \<or> AFunc ?h \<noteq> FuncConfirm \<and> (ACon (AControl ?h) \<or> AUns (AControl ?h))"
      | (confirm) "AFir (AControl ?h)" "AFin (AControl ?h)" "AFunc ?h = FuncConfirm" "FObjects frag = []"
      | (whole) "AFir (AControl ?h)" "AFin (AControl ?h)" "AFunc ?h \<noteq> FuncConfirm" "\<not> ACon (AControl ?h)" "\<not> AUns (AControl ?h)"
      by blast
    then show ?thesis
    proof cases
      case whole
      show ?thesis
      proof (cases "list_all (\<lambda>x. Consistent (OQualifier x)) (FObjects frag)")
        case True
        then have "\<not> handlesFunc (AFunc ?h) \<or> RequiresObjects (AFunc ?h) \<and> FObjects frag = []"
          using assms whole p by (auto simp: complete_request_def)
        then show ?thesis by (rule parsed(6) [OF whole True])
      qed (simp add: parsed(3) [OF whole])
    qed (simp_all only: parsed(1,2), rule parsed(4))
  qed
qed

text \<open>Whether a read waits for the confirmation of an unsolicited response changes nothing but the read it remembers.\<close>

lemma deferRead_result:
  assumes "deferRead r s = (s0, waits)"
  obtains x where "s0 = s\<lparr>deferredRead := x\<rparr>"
proof -
  have "s0 = s \<or> s0 = s\<lparr>deferredRead := None\<rparr> \<or> s0 = s\<lparr>deferredRead := Some r\<rparr>"
    using assms by (auto simp: deferRead_def split: if_splits sum.splits prod.splits)
  moreover have "s = s\<lparr>deferredRead := deferredRead s\<rparr>" by simp
  ultimately show thesis using that by metis
qed

lemma repeat_replayed:
  assumes "complete_request r" "repeats r s" "deferRead r s = (s0, False)"
  shows "handle env other r s w =
       replayResponse env r (FHeader (fst (ParseFragment None (RFragment r))))
         (bump RepeatedRequests (fst (clockDue (hostNow env) (bump RequestsReceived s0)))) w"
proof -
  obtain frag where p: "ParseFragment None (RFragment r) = (frag, None)"
    using assms(1) by (auto simp: complete_request_def split: prod.splits option.splits)
  obtain x where s0: "s0 = s\<lparr>deferredRead := x\<rparr>" by (rule deferRead_result [OF assms(3)])
  obtain b where "fst (clockDue (hostNow env) (bump RequestsReceived s0)) = (bump RequestsReceived s0)\<lparr>synchronized := b\<rparr>"
    using clockDue_sync by blast
  then have "isRepeatRequest r frag (fst (clockDue (hostNow env) (bump RequestsReceived s0)))"
    using assms(2) p s0 by (simp add: isRepeatRequest_def repeats_def bump_def Let_def)
  moreover have "AFunc (FHeader frag) \<noteq> FuncAuthRequest" "AFunc (FHeader frag) \<noteq> FuncAuthRequestNoAck"
    using assms(2) p by (simp_all add: repeats_def Let_def)
  ultimately show ?thesis
    using handle_parsed(5) [OF assms(3) p refl refl, of env] assms(1) p by (simp add: complete_request_def)
qed

lemma unserved_unreached:
  assumes "\<not> complete_request r \<or> repeats r s"
  shows "handle env other r s w = handle env other' r s w"
proof (cases "complete_request r")
  case True
  obtain s0 waits where d: "deferRead r s = (s0, waits)" by fastforce
  show ?thesis
  proof (cases waits)
    case False
    then show ?thesis using repeat_replayed [OF True, of s s0 env _ w] assms True d by simp
  qed (use d handle_deferred [of r s s0 env _ w] in simp)
qed (rule incomplete_unreached)

text \<open>
  Only a complete, well-formed, new request reaches a handler. For a fragment that does not
  parse, is not both first and last, carries CON or UNS, an inconsistent qualifier, an
  unknown function code or no objects where they are required, and for a repetition of the
  last request acted on (the same octets from the same station), the outcome is the same
  whatever the handlers would have done: nothing is executed. A repetition that need not wait
  is answered with the response remembered from the first time.
\<close>

theorem only_new_requests_execute:
  "(\<not> complete_request r \<or> repeats r s \<longrightarrow> handle env other r s w = handle env other' r s w) \<and>
   (complete_request r \<and> repeats r s \<and> deferRead r s = (s0, False) \<longrightarrow>
     handle env other r s w =
       replayResponse env r (FHeader (fst (ParseFragment None (RFragment r))))
         (bump RepeatedRequests (fst (clockDue (hostNow env) (bump RequestsReceived s0)))) w)"
  using unserved_unreached [of r s env other w other'] repeat_replayed [of r s s0 env other w] by auto

text \<open>A fragment with FIN clear, the first of a series, changes nothing but a counter and an indication.\<close>

theorem only_new_requests_execute_witness:
  "handle sample_env (\<lambda>fc r frag s w. (s, w @ [1], None)) \<lparr>RFragment = [0x83, 4], RSource = 1, RDest = 10, RBroadcast = False\<rparr>
     sample_session [] =
   handle sample_env (\<lambda>fc r frag s w. (s, w, None)) \<lparr>RFragment = [0x83, 4], RSource = 1, RDest = 10, RBroadcast = False\<rparr>
     sample_session []"
proof -
  have "\<not> complete_request \<lparr>RFragment = [0x83, 4], RSource = 1, RDest = 10, RBroadcast = False\<rparr>"
    by (simp add: complete_request_def ParseFragment_def AParseHeader_def AParseControl_def AIsResponse_def FuncIsResponse_def
        parse_objects.simps)
  then show ?thesis
    using only_new_requests_execute [of "\<lparr>RFragment = [0x83, 4], RSource = 1, RDest = 10, RBroadcast = False\<rparr>" sample_session
        sample_env "\<lambda>fc r frag s w. (s, w @ [1], None)" "[]" "\<lambda>fc r frag s w. (s, w, None)"] by simp
qed

end
