(* ===== verification/Obj_Commands.thy ===== *)
theory Obj_Commands
  imports Obj_Base
begin

text \<open>
  The command objects (\<^verbatim>\<open>objects/commands.go\<close>: the control relay output block and the four analog
  output commands) and the command events (\<^verbatim>\<open>objects/commandevent.go\<close>: groups 13 and 43). A signed
  value is the unsigned word of the same octets where the source only copies it. The lemmas show
  that commands and command events are read back as they were written, in the octets the table
  of descriptors gives them.
\<close>

section \<open>Commands\<close>

definition ParseCROB :: "byte list \<Rightarrow> crob" where
  "ParseCROB buf = \<lparr>Code = buf ! 0, CCount = buf ! 1, OnTime = get32 (subslice buf 2 6), OffTime = get32 (subslice buf 6 10),
     CStatus = buf ! 10\<rparr>"

definition AppendCROB :: "byte list \<Rightarrow> crob \<Rightarrow> byte list" where
  "AppendCROB dst c =
     (let dst = dst @ [Code c, CCount c];
          dst = dst @ put32 (OnTime c);
          dst = dst @ put32 (OffTime c)
      in dst @ [CStatus c])"

text \<open>The four analog output structs differ in the type of the value only.\<close>

record 'a analog_command =
  ACValue :: 'a
  ACStatus :: CommandStatus

definition ParseAnalogOutputInt32 :: "byte list \<Rightarrow> u32 analog_command" where
  "ParseAnalogOutputInt32 buf = \<lparr>ACValue = get32 (subslice buf 0 4), ACStatus = buf ! 4\<rparr>"

definition AppendAnalogOutputInt32 :: "byte list \<Rightarrow> u32 analog_command \<Rightarrow> byte list" where
  "AppendAnalogOutputInt32 dst v = (let dst = dst @ put32 (ACValue v) in dst @ [ACStatus v])"

definition ParseAnalogOutputInt16 :: "byte list \<Rightarrow> u16 analog_command" where
  "ParseAnalogOutputInt16 buf = \<lparr>ACValue = get16 (subslice buf 0 2), ACStatus = buf ! 2\<rparr>"

definition AppendAnalogOutputInt16 :: "byte list \<Rightarrow> u16 analog_command \<Rightarrow> byte list" where
  "AppendAnalogOutputInt16 dst v = (let dst = dst @ put16 (ACValue v) in dst @ [ACStatus v])"

definition ParseAnalogOutputFloat32 :: "byte list \<Rightarrow> f32 analog_command" where
  "ParseAnalogOutputFloat32 buf = \<lparr>ACValue = get32 (subslice buf 0 4), ACStatus = buf ! 4\<rparr>"

definition AppendAnalogOutputFloat32 :: "byte list \<Rightarrow> f32 analog_command \<Rightarrow> byte list" where
  "AppendAnalogOutputFloat32 dst v = (let dst = dst @ put32 (ACValue v) in dst @ [ACStatus v])"

definition ParseAnalogOutputFloat64 :: "byte list \<Rightarrow> f64 analog_command" where
  "ParseAnalogOutputFloat64 buf = \<lparr>ACValue = get64 (subslice buf 0 8), ACStatus = buf ! 8\<rparr>"

definition AppendAnalogOutputFloat64 :: "byte list \<Rightarrow> f64 analog_command \<Rightarrow> byte list" where
  "AppendAnalogOutputFloat64 dst v = (let dst = dst @ put64 (ACValue v) in dst @ [ACStatus v])"

section \<open>Command events\<close>

record command_record =
  CEStatus :: CommandStatus
  CEAnalog :: bool
  CEState :: bool
  CEValue :: f64
  CETime :: timestamp

definition CommandEventSize :: "byte \<Rightarrow> byte \<Rightarrow> int \<times> bool" where
  "CommandEventSize grp variation =
     (if grp = 13 then
        if variation = 1 then (1, True) else if variation = 2 then (1 + 6, True) else (0, False)
      else if grp = 43 then
        if variation \<in> {1, 5} then (5, True)
        else if variation = 2 then (3, True)
        else if variation \<in> {3, 7} then (5 + 6, True)
        else if variation = 4 then (3 + 6, True)
        else if variation = 6 then (9, True)
        else if variation = 8 then (9 + 6, True)
        else (0, False)
      else (0, False))"

definition commandEventHasTime :: "byte \<Rightarrow> byte \<Rightarrow> bool" where
  "commandEventHasTime grp variation =
     (if grp = 13 then variation = 2 else variation \<in> {3, 4, 7, 8})"

definition saturate :: "f64 \<Rightarrow> int \<Rightarrow> int \<Rightarrow> int" where
  "saturate v lo hi =
     (if f64_nan v then 0
      else if \<not> f64_lt v hi then hi
      else if \<not> f64_gt v lo then lo
      else f64_trunc v)"

definition AppendCommandEvent :: "byte list \<Rightarrow> byte \<Rightarrow> byte \<Rightarrow> command_record \<Rightarrow> byte list" where
  "AppendCommandEvent dst grp variation e =
     (if \<not> snd (CommandEventSize grp variation) then dst
      else
        let dst =
              (if grp = 13 then
                 let b = CEStatus e AND 0x7F;
                     b = (if CEState e then b OR 0x80 else b)
                 in dst @ [b]
               else
                 let dst = dst @ [CEStatus e]
                 in if variation \<in> {1, 3} then dst @ put32 (of_int (saturate (CEValue e) (- 2147483648) 2147483647))
                    else if variation \<in> {2, 4} then dst @ put16 (of_int (saturate (CEValue e) (- 32768) 32767))
                    else if variation \<in> {5, 7} then dst @ put32 (f32_of_f64 (CEValue e))
                    else if variation \<in> {6, 8} then dst @ put64 (CEValue e)
                    else dst)
        in if commandEventHasTime grp variation then AppendTime48 dst (CETime e) else dst)"

text \<open>Go's zero value of the struct.\<close>

definition zero_command_record :: command_record where
  "zero_command_record = \<lparr>CEStatus = 0, CEAnalog = False, CEState = False, CEValue = 0, CETime = NoTime\<rparr>"

definition ParseCommandEvent :: "byte \<Rightarrow> byte \<Rightarrow> byte list \<Rightarrow> command_record \<times> bool" where
  "ParseCommandEvent grp variation buf =
     (case CommandEventSize grp variation of
        (octs, ok) \<Rightarrow>
          if \<not> ok \<or> int (length buf) < octs then (zero_command_record, False)
          else
            let e = zero_command_record;
                e = (if grp = 13 then e\<lparr>CEStatus := buf ! 0 AND 0x7F, CEState := (buf ! 0 AND 0x80 \<noteq> 0)\<rparr>
                     else
                       let e = e\<lparr>CEAnalog := True, CEStatus := buf ! 0\<rparr>
                       in if variation \<in> {1, 3} then e\<lparr>CEValue := f64_of_int (sint (get32 (drop 1 buf)))\<rparr>
                          else if variation \<in> {2, 4} then e\<lparr>CEValue := f64_of_int (sint (get16 (drop 1 buf)))\<rparr>
                          else if variation \<in> {5, 7} then e\<lparr>CEValue := f64_of_f32 (get32 (drop 1 buf))\<rparr>
                          else if variation \<in> {6, 8} then e\<lparr>CEValue := get64 (drop 1 buf)\<rparr>
                          else e)
            in (if commandEventHasTime grp variation then e\<lparr>CETime := ParseTime48 (drop (nat (octs - 6)) buf)\<rparr> else e, True))"

section \<open>Round trips\<close>

lemma f64_trunc_exact:
  assumes "f64_scaled v = k * 2 ^ 1074"
  shows "f64_trunc v = k"
proof -
  define u where "u = (2 :: nat) ^ 1074"
  have u: "0 < u" by (simp add: u_def)
  have "f64_scaled v = k * int u" using assms by (simp add: u_def del: power_numeral)
  then have "int (f64_mag v) = (if f64_neg v then - k else k) * int u" by (auto simp: f64_scaled_def split: if_splits)
  then have "int (f64_mag v) div int u = (if f64_neg v then - k else k)" using u by simp
  then have "int (f64_mag v div u) = (if f64_neg v then - k else k)" by (simp add: zdiv_int)
  then show ?thesis unfolding f64_trunc_def u_def [symmetric] by auto
qed

lemma saturate_saturated:
  "saturate v (- (2 ^ (w - 1))) (2 ^ (w - 1) - 1) = fst (saturated w v)"
proof -
  have eq: "f64_trunc v = k" if "\<not> f64_nan v" "\<not> f64_lt v k" "\<not> f64_gt v k" for k
  proof -
    have "\<not> f64_inf v" using that by (auto simp: f64_lt_def f64_gt_def)
    then have "f64_scaled v = k * 2 ^ 1074" using that by (simp add: f64_lt_def f64_gt_def del: power_numeral)
    then show ?thesis by (rule f64_trunc_exact)
  qed
  have excl: "\<not> (f64_lt v k \<and> f64_gt v k)" for k by (simp add: f64_lt_def f64_gt_def)
  define lo hi where "lo = - ((2 :: int) ^ (w - 1))" and "hi = (2 :: int) ^ (w - 1) - 1"
  have "(1 :: int) \<le> 2 ^ (w - 1)" by simp
  then have "lo < hi" unfolding lo_def hi_def by linarith
  then have "lo * 2 ^ 1074 < hi * (2 :: int) ^ 1074" by (intro mult_strict_right_mono) simp_all
  then have mono: "f64_lt v hi" if "f64_lt v lo" using that unfolding f64_lt_def by (auto split: if_splits)
  have "saturate v lo hi = (if f64_nan v then 0 else if f64_gt v hi then hi else if f64_lt v lo then lo else f64_trunc v)"
    using eq [of lo] eq [of hi] excl [of lo] excl [of hi] mono unfolding saturate_def
    by (cases "f64_nan v"; cases "f64_lt v hi"; cases "f64_gt v lo"; cases "f64_gt v hi"; cases "f64_lt v lo"; simp)
  then show ?thesis unfolding saturated_def lo_def hi_def by simp
qed

lemma sint_saturate:
  "sint (of_int (saturate x (- 32768) 32767) :: u16) = fst (saturated 16 x)"
  "sint (of_int (saturate x (- 2147483648) 2147483647) :: u32) = fst (saturated 32 x)"
  using saturate_saturated [of x 16] saturate_saturated [of x 32] sint_clampInt16 [of x] sint_clampInt32 [of x]
  by (simp_all add: clampInt16_saturated clampInt32_saturated)

lemma status_flag: "(b AND 0x7F OR 0x80) AND 0x7F = b AND (0x7F :: byte)" "(b AND 0x7F OR 0x80) AND 0x80 \<noteq> (0 :: byte)"
  "(b AND 0x7F) AND 0x80 = (0 :: byte)"
proof -
  show "(b AND 0x7F OR 0x80) AND 0x7F = b AND (0x7F :: byte)" by (rule byte_eqI) (simp_all add: bit_simps)
  have "bit ((b AND 0x7F OR 0x80) AND (0x80 :: byte)) 7" by (simp add: bit_simps)
  then show "(b AND 0x7F OR 0x80) AND 0x80 \<noteq> (0 :: byte)" by auto
  show "(b AND 0x7F) AND 0x80 = (0 :: byte)" by (rule byte_eqI) (simp_all add: bit_simps)
qed

text \<open>What a command event of a variation carries.\<close>

definition carried_command :: "byte \<Rightarrow> descriptor \<Rightarrow> command_record \<Rightarrow> command_record" where
  "carried_command grp d e =
     \<lparr>CEStatus = (if grp = 13 then CEStatus e AND 0x7F else CEStatus e),
      CEAnalog = (grp \<noteq> 13),
      CEState = (grp = 13 \<and> CEState e),
      CEValue = (if grp = 13 then 0
                 else if \<not> FloatValue d then f64_of_int (fst (saturated (ValueBits d) (CEValue e)))
                 else if ValueBits d = 64 then CEValue e
                 else f64_of_f32 (f32_of_f64 (CEValue e))),
      CETime = (if HasTime d then \<lparr>TTime = time48 (TTime (CETime e)), TQuality = TimestampSynchronized\<rparr> else NoTime)\<rparr>"

lemma command_event_sizes:
  "list_all (\<lambda>((g, v), d). DKind d = KindCommandEvent \<longrightarrow> CommandEventSize g v = SizeOctets d \<and> snd (SizeOctets d) \<and>
     commandEventHasTime g v = HasTime d) descriptors"
  by (simp add: descriptor_tables CommandEventSize_def SizeOctets_def commandEventHasTime_def)

lemma command_event_variations:
  assumes "Lookup (g, v) = Some d" "DKind d = KindCommandEvent"
  shows "(g = 13 \<and> v \<in> {1, 2}) \<or>
    (g = 43 \<and> v \<in> {1, 3} \<and> \<not> FloatValue d \<and> ValueBits d = 32) \<or> (g = 43 \<and> v \<in> {2, 4} \<and> \<not> FloatValue d \<and> ValueBits d = 16) \<or>
    (g = 43 \<and> v \<in> {5, 7} \<and> FloatValue d \<and> ValueBits d = 32) \<or> (g = 43 \<and> v \<in> {6, 8} \<and> FloatValue d \<and> ValueBits d = 64)"
proof -
  have "list_all (\<lambda>((g, v), d). DKind d = KindCommandEvent \<longrightarrow>
     (g = 13 \<and> v \<in> {1, 2}) \<or>
     (g = 43 \<and> v \<in> {1, 3} \<and> \<not> FloatValue d \<and> ValueBits d = 32) \<or> (g = 43 \<and> v \<in> {2, 4} \<and> \<not> FloatValue d \<and> ValueBits d = 16) \<or>
     (g = 43 \<and> v \<in> {5, 7} \<and> FloatValue d \<and> ValueBits d = 32) \<or> (g = 43 \<and> v \<in> {6, 8} \<and> FloatValue d \<and> ValueBits d = 64)) descriptors"
    by (simp add: descriptor_tables)
  moreover have "((g, v), d) \<in> set descriptors" using assms(1) by (auto simp: Lookup_def dest: map_of_SomeD)
  ultimately show ?thesis using assms(2) by (auto simp: list_all_iff)
qed

lemma command_event_roundtrip:
  assumes "Lookup (g, v) = Some d" "DKind d = KindCommandEvent"
  shows "\<exists>out. AppendCommandEvent dst g v e = dst @ out \<and> SizeOctets d = (int (length out), True) \<and>
    ParseCommandEvent g v (out @ rest) = (carried_command g d e, True)"
proof -
  have "((g, v), d) \<in> set descriptors" using assms(1) by (auto simp: Lookup_def dest: map_of_SomeD)
  then have s: "SizeOctets d = CommandEventSize g v" "HasTime d = commandEventHasTime g v"
    using command_event_sizes assms(2) by (force simp: list_all_iff)+
  note eval = s AppendCommandEvent_def ParseCommandEvent_def CommandEventSize_def commandEventHasTime_def carried_command_def
    zero_command_record_def AppendTime48_def appendTime48_def ParseTime48_def Let_def
  show ?thesis using command_event_variations [OF assms]
    by (elim disjE conjE insertE emptyE)
       (simp_all add: eval status_flag [simplified] sint_saturate)
qed

text \<open>
  A command object of a group and variation: written in exactly the octets its descriptor gives
  it, after whatever is there, and read back unchanged, whatever follows.
\<close>

definition command_codec :: "GroupVar \<Rightarrow> (byte list \<Rightarrow> 'a \<Rightarrow> byte list) \<Rightarrow> (byte list \<Rightarrow> 'a) \<Rightarrow> 'a \<Rightarrow> bool" where
  "command_codec key put get c \<longleftrightarrow>
     (\<exists>d. Lookup key = Some d \<and> DKind d = KindCommand \<and>
        (\<forall>dst. \<exists>out. put dst c = dst @ out \<and> SizeOctets d = (int (length out), True) \<and> (\<forall>rest. get (out @ rest) = c)))"

lemma command_codecI:
  assumes "Lookup key = Some d" "DKind d = KindCommand" "SizeOctets d = (int (length out), True)"
    and "\<And>dst. put dst c = dst @ out" "\<And>rest. get (out @ rest) = c"
  shows "command_codec key put get c"
  using assms by (auto simp: command_codec_def)

lemma command_descriptors:
  "list_all (\<lambda>(key, n). \<exists>d. Lookup key = Some d \<and> DKind d = KindCommand \<and> SizeOctets d = (n, True))
     [((12, 1), 11), ((41, 1), 5), ((41, 2), 3), ((41, 3), 5), ((41, 4), 9)]"
  by (simp add: Lookup_def descriptor_tables SizeOctets_def)

lemma command_objects:
  "command_codec (12, 1) AppendCROB ParseCROB c" "command_codec (41, 1) AppendAnalogOutputInt32 ParseAnalogOutputInt32 a32"
  "command_codec (41, 2) AppendAnalogOutputInt16 ParseAnalogOutputInt16 a16"
  "command_codec (41, 3) AppendAnalogOutputFloat32 ParseAnalogOutputFloat32 f32"
  "command_codec (41, 4) AppendAnalogOutputFloat64 ParseAnalogOutputFloat64 f64"
proof -
  note eval = Let_def subslice_def nth_append
  obtain d12 d1 d2 d3 d4 where
    d: "Lookup (12, 1) = Some d12" "DKind d12 = KindCommand" "SizeOctets d12 = (11, True)"
      "Lookup (41, 1) = Some d1" "DKind d1 = KindCommand" "SizeOctets d1 = (5, True)"
      "Lookup (41, 2) = Some d2" "DKind d2 = KindCommand" "SizeOctets d2 = (3, True)"
      "Lookup (41, 3) = Some d3" "DKind d3 = KindCommand" "SizeOctets d3 = (5, True)"
      "Lookup (41, 4) = Some d4" "DKind d4 = KindCommand" "SizeOctets d4 = (9, True)"
    using command_descriptors by auto
  show "command_codec (12, 1) AppendCROB ParseCROB c"
    by (rule command_codecI [OF d(1,2), of "[Code c, CCount c] @ put32 (OnTime c) @ put32 (OffTime c) @ [CStatus c]"])
       (simp_all add: d(3) ParseCROB_def AppendCROB_def eval)
  show "command_codec (41, 1) AppendAnalogOutputInt32 ParseAnalogOutputInt32 a32"
    by (rule command_codecI [OF d(4,5), of "put32 (ACValue a32) @ [ACStatus a32]"])
       (simp_all add: d(6) ParseAnalogOutputInt32_def AppendAnalogOutputInt32_def eval)
  show "command_codec (41, 2) AppendAnalogOutputInt16 ParseAnalogOutputInt16 a16"
    by (rule command_codecI [OF d(7,8), of "put16 (ACValue a16) @ [ACStatus a16]"])
       (simp_all add: d(9) ParseAnalogOutputInt16_def AppendAnalogOutputInt16_def eval)
  show "command_codec (41, 3) AppendAnalogOutputFloat32 ParseAnalogOutputFloat32 f32"
    by (rule command_codecI [OF d(10,11), of "put32 (ACValue f32) @ [ACStatus f32]"])
       (simp_all add: d(12) ParseAnalogOutputFloat32_def AppendAnalogOutputFloat32_def eval)
  show "command_codec (41, 4) AppendAnalogOutputFloat64 ParseAnalogOutputFloat64 f64"
    by (rule command_codecI [OF d(13,14), of "put64 (ACValue f64) @ [ACStatus f64]"])
       (simp_all add: d(15) ParseAnalogOutputFloat64_def AppendAnalogOutputFloat64_def eval)
qed

text \<open>
  C33. Commands and command events are written in exactly the octets of their descriptors and read
  back. A control relay output block (group 12 variation 1) and the four analog output commands
  (group 41) are appended as exactly as many octets as their descriptors say and decoded from
  them unchanged, whatever follows. Each variation of a command event is encoded in exactly the
  octets of its descriptor, and decoded to what it carries: status and state in one octet for a
  binary output, the status and the value saturated, rounded or unchanged for an analog output,
  with the time to the millisecond where the variation has one. A variation that does not exist
  is neither written nor read.
\<close>

theorem commands_roundtrip:
  "command_codec (12, 1) AppendCROB ParseCROB c \<and>
   command_codec (41, 1) AppendAnalogOutputInt32 ParseAnalogOutputInt32 a32 \<and>
   command_codec (41, 2) AppendAnalogOutputInt16 ParseAnalogOutputInt16 a16 \<and>
   command_codec (41, 3) AppendAnalogOutputFloat32 ParseAnalogOutputFloat32 f32 \<and>
   command_codec (41, 4) AppendAnalogOutputFloat64 ParseAnalogOutputFloat64 f64 \<and>
   (Lookup (g, v) = Some d \<and> DKind d = KindCommandEvent \<longrightarrow>
      (\<exists>out. AppendCommandEvent dst g v e = dst @ out \<and> SizeOctets d = (int (length out), True) \<and>
         ParseCommandEvent g v (out @ rest) = (carried_command g d e, True))) \<and>
   (\<not> snd (CommandEventSize g v) \<longrightarrow> AppendCommandEvent dst g v e = dst \<and> \<not> snd (ParseCommandEvent g v buf))"
proof (intro conjI impI command_objects)
  show "\<exists>out. AppendCommandEvent dst g v e = dst @ out \<and> SizeOctets d = (int (length out), True) \<and>
      ParseCommandEvent g v (out @ rest) = (carried_command g d e, True)" if "Lookup (g, v) = Some d \<and> DKind d = KindCommandEvent"
    using command_event_roundtrip that by blast
  show "AppendCommandEvent dst g v e = dst" "\<not> snd (ParseCommandEvent g v buf)" if "\<not> snd (CommandEventSize g v)"
    using that by (simp add: AppendCommandEvent_def, cases "CommandEventSize g v", simp add: ParseCommandEvent_def)
qed

definition sample_command :: command_record where
  "sample_command = \<lparr>CEStatus = 0, CEAnalog = True, CEState = False, CEValue = f64_of_int 40000, CETime = NoTime\<rparr>"

theorem commands_roundtrip_witness:
  "ParseCommandEvent 43 2 (AppendCommandEvent [] 43 2 sample_command) = (sample_command\<lparr>CEValue := f64_of_int 32767\<rparr>, True)"
proof -
  obtain d where d: "Lookup (43, 2) = Some d" "DKind d = KindCommandEvent" "\<not> FloatValue d" "ValueBits d = 16" "\<not> HasTime d"
    by (simp add: Lookup_def descriptor_tables)
  have "saturated 16 (f64_of_int 40000) = (32767, True)"
    using f64_of_int_compare [of 40000] f64_of_int_value(1) [of 40000] by (simp add: saturated_def)
  then have "carried_command 43 d sample_command = sample_command\<lparr>CEValue := f64_of_int 32767\<rparr>"
    using d by (simp add: carried_command_def sample_command_def)
  moreover obtain out where "AppendCommandEvent [] 43 2 sample_command = out" "ParseCommandEvent 43 2 (out @ []) = (carried_command 43 d sample_command, True)"
    using commands_roundtrip [of undefined undefined undefined undefined undefined 43 2 d "[]" sample_command "[]"] d(1,2) by auto
  ultimately show ?thesis by simp
qed

end
