(* ===== verification/Outstation_Command.thy ===== *)
theory Outstation_Command
  imports App_Fragment Obj_Commands
begin

text \<open>
  Controls (\<^verbatim>\<open>outstation/command.go\<close>, on the command objects of \<open>Obj_Commands\<close>): SELECT, OPERATE
  and the direct operates, the selection a SELECT leaves behind, the walk over the command
  objects of a request, and the echo that answers it. The device is a parameter: the command handler's four calls act on a state
  \<open>'d\<close> of the plant. The lemmas show that an OPERATE moves nothing without a live matching
  selection, that a SELECT never operates, and that a request stays within its limit of controls.
\<close>

section \<open>Commands\<close>

record analog_output =
  AOValue :: f64
  AOVariation :: byte

definition parseAnalogOutput :: "byte \<Rightarrow> byte list \<Rightarrow> analog_output" where
  "parseAnalogOutput variation raw =
     \<lparr>AOValue =
        (if variation = 1 then f64_of_int (sint (ACValue (ParseAnalogOutputInt32 raw)))
         else if variation = 2 then f64_of_int (sint (ACValue (ParseAnalogOutputInt16 raw)))
         else if variation = 3 then f64_of_f32 (ACValue (ParseAnalogOutputFloat32 raw))
         else if variation = 4 then ACValue (ParseAnalogOutputFloat64 raw)
         else 0),
      AOVariation = variation\<rparr>"

datatype OperateType = OperateDirect | OperateDirectNoAck | OperateSelected

text \<open>What the application provides; \<open>HasOutput\<close> is the optional interface \<open>OutputPoints\<close>.\<close>

record 'd command_handler =
  SelectCROB :: "u16 \<Rightarrow> crob \<Rightarrow> 'd \<Rightarrow> 'd \<times> CommandStatus"
  OperateCROB :: "u16 \<Rightarrow> crob \<Rightarrow> OperateType \<Rightarrow> 'd \<Rightarrow> 'd \<times> CommandStatus"
  SelectAnalog :: "u16 \<Rightarrow> analog_output \<Rightarrow> 'd \<Rightarrow> 'd \<times> CommandStatus"
  OperateAnalog :: "u16 \<Rightarrow> analog_output \<Rightarrow> OperateType \<Rightarrow> 'd \<Rightarrow> 'd \<times> CommandStatus"
  HasOutput :: "(byte \<Rightarrow> u16 \<Rightarrow> bool) option"

definition RejectingCommandHandler :: "'d command_handler" where
  "RejectingCommandHandler =
     \<lparr>SelectCROB = (\<lambda>_ _ d. (d, CommandNotSupported)), OperateCROB = (\<lambda>_ _ _ d. (d, CommandNotSupported)),
      SelectAnalog = (\<lambda>_ _ d. (d, CommandNotSupported)), OperateAnalog = (\<lambda>_ _ _ d. (d, CommandNotSupported)), HasOutput = None\<rparr>"

section \<open>The selection\<close>

record selection =
  sel_active :: bool
  sel_objects :: "byte list"
  sel_seq :: byte
  sel_expires :: int

definition sel_clear :: "selection \<Rightarrow> selection" where
  "sel_clear s = s\<lparr>sel_active := False, sel_objects := []\<rparr>"

definition nextSeq :: "byte \<Rightarrow> byte" where
  "nextSeq s = (s + 1) mod AppSeqModulus"

definition sel_matches :: "selection \<Rightarrow> byte list \<Rightarrow> byte \<Rightarrow> int \<Rightarrow> CommandStatus" where
  "sel_matches s objectsRaw seq now =
     (if \<not> sel_active s then CommandNoSelect
      else if now > sel_expires s then CommandTimeout
      else if seq \<noteq> nextSeq (sel_seq s) then CommandNoSelect
      else if sel_objects s \<noteq> objectsRaw then CommandNoSelect
      else CommandSuccess)"

section \<open>Executing a request\<close>

text \<open>A call of \<^verbatim>\<open>RaiseBinaryCommandEvent\<close> or \<^verbatim>\<open>RaiseAnalogCommandEvent\<close> of the database.\<close>

datatype command_event = BinaryCommand u16 bool CommandStatus | AnalogCommand u16 f64 byte CommandStatus

record 'd command_state =
  c_iin :: IIN
  c_sel :: selection
  c_plant :: 'd
  c_raised :: "command_event list"

record command_config =
  SelectTimeout :: int
  MaxControlsPerRequest :: int
  BinaryOutputs :: nat
  AnalogOutputs :: nat

definition c_set_iin :: "IIN \<Rightarrow> 'd command_state \<Rightarrow> 'd command_state" where
  "c_set_iin bits s = s\<lparr>c_iin := IIN_Set (c_iin s) bits\<rparr>"

definition controlExists :: "'d command_handler \<Rightarrow> command_config \<Rightarrow> byte \<Rightarrow> u16 \<Rightarrow> bool" where
  "controlExists cmds cc grp index =
     (let pt = (if grp = 41 then 7 else 6)
      in case HasOutput cmds of
           Some has \<Rightarrow> has pt index
         | None \<Rightarrow> (let n = (if grp = 41 then AnalogOutputs cc else BinaryOutputs cc) in n = 0 \<or> unat index < n))"

definition runCommand ::
    "'d command_handler \<Rightarrow> byte \<Rightarrow> byte \<Rightarrow> u16 \<Rightarrow> byte list \<Rightarrow> bool \<Rightarrow> OperateType \<Rightarrow> 'd \<Rightarrow> 'd \<times> CommandStatus" where
  "runCommand cmds grp variation index raw selecting opType d =
     (if grp = 12 then
        if variation \<noteq> 1 then (d, CommandNotSupported)
        else if selecting then SelectCROB cmds index (ParseCROB raw) d
        else OperateCROB cmds index (ParseCROB raw) opType d
      else if grp = 41 then
        if selecting then SelectAnalog cmds index (parseAnalogOutput variation raw) d
        else OperateAnalog cmds index (parseAnalogOutput variation raw) opType d
      else (d, CommandNotSupported))"

definition recordCommandEvent :: "byte \<Rightarrow> byte \<Rightarrow> u16 \<Rightarrow> byte list \<Rightarrow> CommandStatus \<Rightarrow> command_event list" where
  "recordCommandEvent grp variation index raw status =
     (if grp = 12 then
        if variation \<noteq> 1 then []
        else
          let c = Code (ParseCROB raw);
              state = (if \<not> IsClose c \<and> \<not> IsTrip c then OpType c = ControlLatchOn \<or> OpType c = ControlPulseOn else IsClose c)
          in [BinaryCommand index state status]
      else if grp = 41 then [AnalogCommand index (AOValue (parseAnalogOutput variation raw)) variation status]
      else [])"

definition readPrefix :: "byte list \<Rightarrow> nat \<Rightarrow> u32" where
  "readPrefix buf width =
     (if width = 1 then ucast (buf ! 0)
      else if width = 2 then ucast (buf ! 0) OR push_bit 8 (ucast (buf ! 1))
      else if width = 4 then
        ucast (buf ! 0) OR push_bit 8 (ucast (buf ! 1)) OR push_bit 16 (ucast (buf ! 2)) OR push_bit 24 (ucast (buf ! 3))
      else 0)"

text \<open>One command object: its status, and what it does to the plant and the record.\<close>

definition execute_one ::
    "'d command_handler \<Rightarrow> command_config \<Rightarrow> object_header \<Rightarrow> bool \<Rightarrow> OperateType \<Rightarrow> CommandStatus \<Rightarrow> int \<Rightarrow> u32 \<Rightarrow> byte list \<Rightarrow>
     'd command_state \<Rightarrow> 'd command_state \<times> CommandStatus" where
  "execute_one cmds cc h selecting opType selectStatus controls wide raw s =
     (let index = ucast wide :: u16
      in if wide > 0xFFFF \<or> \<not> controlExists cmds cc (OGroup h) index then
           (c_set_iin IINParameterError s, CommandNotSupported)
         else if MaxControlsPerRequest cc > 0 \<and> controls > MaxControlsPerRequest cc then (s, CommandTooManyOps)
         else if Status_OK selectStatus then
           (case runCommand cmds (OGroup h) (OVariation h) index raw selecting opType (c_plant s) of
              (d, status) \<Rightarrow>
                let s = s\<lparr>c_plant := d\<rparr>
                in (if selecting then s
                    else s\<lparr>c_raised := c_raised s @ recordCommandEvent (OGroup h) (OVariation h) index raw status\<rparr>, status))
         else (s, selectStatus))"

type_synonym outcome = "u32 \<times> CommandStatus"

text \<open>
  The loop over the objects of one header: at most as many rounds as the count, ending early
  when the data runs short. It gives the number of controls so far, the echo, how many
  objects it holds, and the outcomes.
\<close>

fun command_loop ::
    "'d command_handler \<Rightarrow> command_config \<Rightarrow> object_header \<Rightarrow> nat \<Rightarrow> nat \<Rightarrow> bool \<Rightarrow> OperateType \<Rightarrow> CommandStatus \<Rightarrow>
     nat \<Rightarrow> nat \<Rightarrow> int \<Rightarrow> byte list \<Rightarrow> nat \<Rightarrow> outcome list \<Rightarrow> 'd command_state \<Rightarrow>
     'd command_state \<times> int \<times> byte list \<times> nat \<times> outcome list" where
  "command_loop cmds cc h octs prefixLen selecting opType selectStatus 0 off controls echo echoed outcomes s =
     (s, controls, echo, echoed, outcomes)"
| "command_loop cmds cc h octs prefixLen selecting opType selectStatus (Suc k) off controls echo echoed outcomes s =
     (if off + prefixLen + octs > length (OData h) then (s, controls, echo, echoed, outcomes)
      else
        let wide = readPrefix (drop off (OData h)) prefixLen;
            raw = subslice (OData h) (off + prefixLen) (off + prefixLen + octs);
            off' = off + prefixLen + octs;
            controls = controls + 1
        in case execute_one cmds cc h selecting opType selectStatus controls wide raw s of
             (s, status) \<Rightarrow>
               command_loop cmds cc h octs prefixLen selecting opType selectStatus k off' controls
                 (butlast (echo @ subslice (OData h) off off') @ [status]) (echoed + 1) (outcomes @ [(wide, status)]) s)"

definition execute_header ::
    "'d command_handler \<Rightarrow> command_config \<Rightarrow> bool \<Rightarrow> OperateType \<Rightarrow> CommandStatus \<Rightarrow> object_header \<Rightarrow>
     'd command_state \<times> int \<times> byte list \<times> outcome list \<Rightarrow> 'd command_state \<times> int \<times> byte list \<times> outcome list" where
  "execute_header cmds cc selecting opType selectStatus h acc =
     (case acc of (s, controls, body, outcomes) \<Rightarrow>
        if OGroup h = 12 \<and> OVariation h \<noteq> 1 then (c_set_iin IINObjectUnknown s, controls, body, outcomes)
        else
          case Lookup (OGroup h, OVariation h) of
            None \<Rightarrow> (c_set_iin IINObjectUnknown s, controls, body, outcomes)
          | Some d \<Rightarrow>
              if DKind d \<noteq> KindCommand \<or> \<not> snd (SizeOctets d) \<or> fst (SizeOctets d) = 0
              then (c_set_iin IINObjectUnknown s, controls, body, outcomes)
              else
                let prefixLen = Prefix_Octets (Q_IndexPrefix (OQualifier h))
                in if \<not> IsIndex (Q_IndexPrefix (OQualifier h)) then (c_set_iin IINParameterError s, controls, body, outcomes)
                   else
                     case command_loop cmds cc h (nat (fst (SizeOctets d))) prefixLen selecting opType selectStatus
                            (unat (O_Count h)) 0 controls [] 0 outcomes s of
                       (s, controls, echo, echoed, outcomes) \<Rightarrow>
                         let rng = (ORange h)\<lparr>RCount := of_nat echoed\<rparr>
                         in (s, controls,
                             AppendObjectHeader body
                               \<lparr>OGroup = OGroup h, OVariation = OVariation h, OQualifier = OQualifier h, ORange = rng,
                                OData = echo, OOffset = 0, ODataOffset = 0\<rparr>,
                             outcomes))"

definition executeCommands ::
    "'d command_handler \<Rightarrow> command_config \<Rightarrow> fragment \<Rightarrow> OperateType \<Rightarrow> CommandStatus \<Rightarrow> 'd command_state \<Rightarrow>
     'd command_state \<times> byte list \<times> outcome list" where
  "executeCommands cmds cc frag opType selectStatus s =
     (let selecting = (AFunc (FHeader frag) = FuncSelect)
      in case foldl (\<lambda>acc h. execute_header cmds cc selecting opType selectStatus h acc) (s, 0, [], []) (FObjects frag) of
           (s, controls, body, outcomes) \<Rightarrow> (s, body, outcomes))"

text \<open>The handlers give the body of the response, or nothing when there is none.\<close>

definition onSelect ::
    "'d command_handler \<Rightarrow> command_config \<Rightarrow> bool \<Rightarrow> fragment \<Rightarrow> byte list \<Rightarrow> int \<Rightarrow> 'd command_state \<Rightarrow>
     'd command_state \<times> byte list option" where
  "onSelect cmds cc broadcast frag objectsRaw now s =
     (case executeCommands cmds cc frag OperateDirect CommandSuccess s of
        (s, body, outcomes) \<Rightarrow>
          let s = (if list_all (\<lambda>(i, st). Status_OK st) outcomes
                   then s\<lparr>c_sel := \<lparr>sel_active = True, sel_objects = objectsRaw, sel_seq = ASeq (AControl (FHeader frag)),
                           sel_expires = now + SelectTimeout cc\<rparr>\<rparr>
                   else s\<lparr>c_sel := sel_clear (c_sel s)\<rparr>)
          in (s, if broadcast then None else Some body))"

definition onCommand ::
    "'d command_handler \<Rightarrow> command_config \<Rightarrow> bool \<Rightarrow> fragment \<Rightarrow> int \<Rightarrow> 'd command_state \<Rightarrow> 'd command_state \<times> byte list option" where
  "onCommand cmds cc broadcast frag now s =
     (let fc = AFunc (FHeader frag);
          objectsRaw = drop (AHeader_Size (FHeader frag)) (FRaw frag)
      in if fc = FuncSelect then onSelect cmds cc broadcast frag objectsRaw now s
         else
           let opType = (if fc = FuncOperate then OperateSelected
                         else if fc = FuncDirectOperateNR then OperateDirectNoAck else OperateDirect);
               selectStatus = (if opType = OperateSelected
                               then sel_matches (c_sel s) objectsRaw (ASeq (AControl (FHeader frag))) now else CommandSuccess);
               s = (if opType = OperateSelected then s\<lparr>c_sel := sel_clear (c_sel s)\<rparr> else s)
           in case executeCommands cmds cc frag opType selectStatus s of
                (s, body, outcomes) \<Rightarrow> (s, if NoReply fc \<or> broadcast then None else Some body))"

section \<open>Invariants of the walk\<close>

text \<open>
  A property of the state, the number of controls so far and the outcomes that holds at the
  start, is kept by every command object and does not depend on the internal indications
  holds at the end of every request.
\<close>

definition walk_keeps ::
    "('d command_state \<Rightarrow> int \<Rightarrow> outcome list \<Rightarrow> bool) \<Rightarrow> 'd command_handler \<Rightarrow> command_config \<Rightarrow> bool \<Rightarrow> OperateType \<Rightarrow>
     CommandStatus \<Rightarrow> bool" where
  "walk_keeps P cmds cc selecting opType st \<longleftrightarrow>
     (\<forall>s n outs bits. P s n outs \<longrightarrow> P (c_set_iin bits s) n outs) \<and>
     (\<forall>h s n outs wide raw s' status. P s n outs \<longrightarrow>
        execute_one cmds cc h selecting opType st (n + 1) wide raw s = (s', status) \<longrightarrow> P s' (n + 1) (outs @ [(wide, status)]))"

lemma command_loop_walk:
  assumes "walk_keeps P cmds cc selecting opType st" "P s n outs"
    and "command_loop cmds cc h sz pl selecting opType st k off n echo e outs s = (s', n', echo', e', outs')"
  shows "P s' n' outs'"
  using assms(2,3)
proof (induction k arbitrary: off n echo e outs s)
  case (Suc k)
  let ?wide = "readPrefix (drop off (OData h)) pl"
  let ?raw = "subslice (OData h) (off + pl) (off + pl + sz)"
  obtain s1 st1 where one: "execute_one cmds cc h selecting opType st (n + 1) ?wide ?raw s = (s1, st1)" by fastforce
  show ?case
  proof (cases "off + pl + sz > length (OData h)")
    case False
    have "P s1 (n + 1) (outs @ [(?wide, st1)])" using assms(1) Suc.prems(1) one by (auto simp: walk_keeps_def)
    from Suc.IH [OF this] show ?thesis using Suc.prems(2) False one by (simp add: Let_def)
  qed (use Suc.prems in simp)
qed simp

lemma execute_header_walk:
  assumes "walk_keeps P cmds cc selecting opType st" "P s n outs"
    and "execute_header cmds cc selecting opType st h (s, n, body, outs) = (s', n', body', outs')"
  shows "P s' n' outs'"
proof -
  have iin: "P (c_set_iin bits s) n outs" for bits using assms(1,2) by (auto simp: walk_keeps_def)
  show ?thesis
    using assms(3) iin
    by (auto simp: execute_header_def Let_def split: if_splits option.splits prod.splits
        dest: command_loop_walk [OF assms(1,2)])
qed

lemma foldl_header_walk:
  assumes "walk_keeps P cmds cc selecting opType st"
  shows "P s n outs \<Longrightarrow>
     foldl (\<lambda>acc h. execute_header cmds cc selecting opType st h acc) (s, n, body, outs) hs = (s', n', body', outs') \<Longrightarrow> P s' n' outs'"
proof (induction hs arbitrary: s n body outs)
  case (Cons h hs)
  obtain s1 n1 b1 o1 where one: "execute_header cmds cc selecting opType st h (s, n, body, outs) = (s1, n1, b1, o1)"
    by (metis prod_cases4)
  show ?case
    by (rule Cons.IH [OF execute_header_walk [OF assms Cons.prems(1) one]]) (use Cons.prems(2) one in simp)
qed simp

lemma executeCommands_walk:
  assumes "walk_keeps P cmds cc (AFunc (FHeader frag) = FuncSelect) opType st" "P s 0 []"
    and "executeCommands cmds cc frag opType st s = (s', body, outs)"
  shows "\<exists>n. P s' n outs"
proof -
  obtain n where "foldl (\<lambda>acc h. execute_header cmds cc (AFunc (FHeader frag) = FuncSelect) opType st h acc) (s, 0, [], []) (FObjects frag) =
      (s', n, body, outs)"
    using assms(3) by (auto simp: executeCommands_def Let_def split: prod.splits)
  from foldl_header_walk [OF assms(1,2) this] show ?thesis by blast
qed

lemmas execute_one_cases = execute_one_def Let_def c_set_iin_def

lemma executeCommands_sel:
  "executeCommands cmds cc frag opType st s = (s', body, outs) \<Longrightarrow> c_sel s' = c_sel s"
  by (rule executeCommands_walk [where P = "\<lambda>s' n outs. c_sel s' = c_sel s", THEN exE])
     (auto simp: walk_keeps_def execute_one_cases split: if_splits prod.splits)

lemma executeCommands_refused:
  assumes "\<not> Status_OK st" "executeCommands cmds cc frag opType st s = (s', body, outs)"
  shows "c_plant s' = c_plant s \<and> c_raised s' = c_raised s \<and> list_all (\<lambda>(i, x). \<not> Status_OK x) outs"
  by (rule executeCommands_walk [where P = "\<lambda>s' n outs. c_plant s' = c_plant s \<and> c_raised s' = c_raised s \<and>
         list_all (\<lambda>(i, x). \<not> Status_OK x) outs", OF _ _ assms(2), THEN exE])
     (use assms(1) in \<open>auto simp: walk_keeps_def execute_one_cases Status_OK_def split: if_splits prod.splits\<close>)

lemma executeCommands_selecting:
  assumes "AFunc (FHeader frag) = FuncSelect" "executeCommands cmds cc frag opType st s = (s', body, outs)"
  shows "c_raised s' = c_raised s"
  by (rule executeCommands_walk [where P = "\<lambda>s' n outs. c_raised s' = c_raised s", OF _ _ assms(2), THEN exE])
     (use assms(1) in \<open>auto simp: walk_keeps_def execute_one_cases split: if_splits prod.splits\<close>)

definition ok_count :: "outcome list \<Rightarrow> int" where
  "ok_count outs = int (length (filter (\<lambda>(i, x). Status_OK x) outs))"

lemma ok_count_simps [simp]: "ok_count [] = 0" "ok_count (outs @ [(i, x)]) = ok_count outs + (if Status_OK x then 1 else 0)"
  by (simp_all add: ok_count_def)

lemma execute_one_limit:
  assumes "execute_one cmds cc h selecting opType st n wide raw s = (s', status)" "MaxControlsPerRequest cc > 0" "Status_OK status"
  shows "n \<le> MaxControlsPerRequest cc"
  using assms by (auto simp: execute_one_cases Status_OK_def split: if_splits)

section \<open>Requests in sequence\<close>

text \<open>A control request, whether it was broadcast, and when it arrived.\<close>

type_synonym command_request = "fragment \<times> bool \<times> int"

definition frag_objects :: "fragment \<Rightarrow> byte list" where
  "frag_objects frag = drop (AHeader_Size (FHeader frag)) (FRaw frag)"

definition is_sbo :: "command_request \<Rightarrow> bool" where
  "is_sbo r \<longleftrightarrow> AFunc (FHeader (fst r)) \<in> {FuncSelect, FuncOperate}"

text \<open>One request; what it gives is the state before and the state after.\<close>

definition command_step ::
    "'d command_handler \<Rightarrow> command_config \<Rightarrow> command_request \<Rightarrow> 'd command_state \<Rightarrow> 'd command_state \<times> 'd command_state \<times> 'd command_state" where
  "command_step cmds cc r s =
     (case r of (frag, broadcast, now) \<Rightarrow> let s' = fst (onCommand cmds cc broadcast frag now s) in (s', (s, s')))"

abbreviation commanded :: "'d command_handler \<Rightarrow> command_config \<Rightarrow> command_request list \<Rightarrow> 'd command_state \<Rightarrow> 'd command_state" where
  "commanded cmds cc h s0 \<equiv> fst (run_ops (command_step cmds cc) h s0)"

lemma commanded_snoc:
  "commanded cmds cc (h @ [(frag, b, now)]) s0 = fst (onCommand cmds cc b frag now (commanded cmds cc h s0))"
  by (auto simp: run_ops_append command_step_def Let_def split: prod.splits)

text \<open>The device accepted every command of a SELECT.\<close>

definition select_accepted :: "'d command_handler \<Rightarrow> command_config \<Rightarrow> fragment \<Rightarrow> 'd command_state \<Rightarrow> bool" where
  "select_accepted cmds cc frag s =
     list_all (\<lambda>(i, st). Status_OK st) (snd (snd (executeCommands cmds cc frag OperateDirect CommandSuccess s)))"

text \<open>
  The latest SELECT or OPERATE of a history is a SELECT that was accepted. Requests of other
  function codes, direct operates among them, may have come since.
\<close>

definition latest_select ::
    "'d command_handler \<Rightarrow> command_config \<Rightarrow> 'd command_state \<Rightarrow> command_request list \<Rightarrow> fragment \<Rightarrow> int \<Rightarrow> bool" where
  "latest_select cmds cc s0 h f t \<longleftrightarrow>
     (\<exists>before b since. h = before @ (f, b, t) # since \<and> list_all (\<lambda>r. \<not> is_sbo r) since \<and>
        AFunc (FHeader f) = FuncSelect \<and> select_accepted cmds cc f (commanded cmds cc before s0))"

text \<open>This OPERATE repeats it, next in sequence and in time.\<close>

definition authorised ::
    "'d command_handler \<Rightarrow> command_config \<Rightarrow> 'd command_state \<Rightarrow> command_request list \<Rightarrow> fragment \<Rightarrow> int \<Rightarrow> bool" where
  "authorised cmds cc s0 h frag now \<longleftrightarrow>
     (\<exists>f t. latest_select cmds cc s0 h f t \<and> frag_objects f = frag_objects frag \<and>
        ASeq (AControl (FHeader frag)) = nextSeq (ASeq (AControl (FHeader f))) \<and> now \<le> t + SelectTimeout cc)"

definition sel_inv ::
    "'d command_handler \<Rightarrow> command_config \<Rightarrow> 'd command_state \<Rightarrow> command_request list \<Rightarrow> 'd command_state \<Rightarrow> bool" where
  "sel_inv cmds cc s0 h s \<longleftrightarrow> s = commanded cmds cc h s0 \<and> (sel_active (c_sel s) \<longrightarrow>
     (\<exists>f t. latest_select cmds cc s0 h f t \<and> sel_objects (c_sel s) = frag_objects f \<and>
        sel_seq (c_sel s) = ASeq (AControl (FHeader f)) \<and> sel_expires (c_sel s) = t + SelectTimeout cc))"

definition operate_good ::
    "'d command_handler \<Rightarrow> command_config \<Rightarrow> 'd command_state \<Rightarrow> command_request list \<Rightarrow> 'd command_state \<times> 'd command_state \<Rightarrow> bool" where
  "operate_good cmds cc s0 h o' \<longleftrightarrow>
     (case (last h, o') of ((frag, b, now), (s, s')) \<Rightarrow>
        AFunc (FHeader frag) = FuncOperate \<longrightarrow>
          \<not> sel_active (c_sel s') \<and>
          (authorised cmds cc s0 (butlast h) frag now \<or> c_plant s' = c_plant s \<and> c_raised s' = c_raised s))"

lemma latest_select_snoc:
  assumes "latest_select cmds cc s0 h f t" "\<not> is_sbo r"
  shows "latest_select cmds cc s0 (h @ [r]) f t"
proof -
  obtain before b since where "h = before @ (f, b, t) # since" "list_all (\<lambda>r. \<not> is_sbo r) since"
    "AFunc (FHeader f) = FuncSelect" "select_accepted cmds cc f (commanded cmds cc before s0)"
    using assms(1) unfolding latest_select_def by blast
  then show ?thesis
    unfolding latest_select_def using assms(2) by (intro exI [of _ before] exI [of _ b] exI [of _ "since @ [r]"]) simp
qed

lemma latest_select_new:
  "AFunc (FHeader f) = FuncSelect \<Longrightarrow> select_accepted cmds cc f (commanded cmds cc h s0) \<Longrightarrow>
   latest_select cmds cc s0 (h @ [(f, b, t)]) f t"
  unfolding latest_select_def by (intro exI [of _ h] exI [of _ b] exI [of _ "[]"]) simp

lemma onCommand_sel_inv:
  assumes "sel_inv cmds cc s0 h s"
  shows "sel_inv cmds cc s0 (h @ [(frag, b, now)]) (fst (onCommand cmds cc b frag now s))"
proof -
  have s: "s = commanded cmds cc h s0" using assms by (simp add: sel_inv_def)
  let ?s' = "fst (onCommand cmds cc b frag now s)"
  have "\<exists>f t. latest_select cmds cc s0 (h @ [(frag, b, now)]) f t \<and> sel_objects (c_sel ?s') = frag_objects f \<and>
      sel_seq (c_sel ?s') = ASeq (AControl (FHeader f)) \<and> sel_expires (c_sel ?s') = t + SelectTimeout cc" if active: "sel_active (c_sel ?s')"
  proof (cases "AFunc (FHeader frag) = FuncSelect")
    case True
    obtain s1 body outs where ex: "executeCommands cmds cc frag OperateDirect CommandSuccess s = (s1, body, outs)" by (metis prod_cases3)
    have "select_accepted cmds cc frag s \<and> c_sel ?s' = \<lparr>sel_active = True, sel_objects = frag_objects frag,
        sel_seq = ASeq (AControl (FHeader frag)), sel_expires = now + SelectTimeout cc\<rparr>"
      using active True ex by (auto simp: onCommand_def onSelect_def select_accepted_def frag_objects_def sel_clear_def Let_def split: if_splits)
    then show ?thesis using latest_select_new [OF True, of cmds cc h s0 b now] s by (intro exI [of _ frag] exI [of _ now]) simp
  next
    case False
    have kept: "AFunc (FHeader frag) \<noteq> FuncOperate \<and> c_sel ?s' = c_sel s"
      using active False by (auto simp: onCommand_def sel_clear_def Let_def split: prod.splits if_splits dest!: executeCommands_sel)
    then have "\<not> is_sbo (frag, b, now)" using False by (simp add: is_sbo_def)
    then show ?thesis using kept active assms latest_select_snoc [of cmds cc s0 h _ _ "(frag, b, now)"] unfolding sel_inv_def by metis
  qed
  then show ?thesis using s by (simp add: sel_inv_def commanded_snoc)
qed

lemma onCommand_operate_good:
  assumes "sel_inv cmds cc s0 h s" "AFunc (FHeader frag) = FuncOperate"
  shows "\<not> sel_active (c_sel (fst (onCommand cmds cc b frag now s)))"
    and "authorised cmds cc s0 h frag now \<or>
      c_plant (fst (onCommand cmds cc b frag now s)) = c_plant s \<and> c_raised (fst (onCommand cmds cc b frag now s)) = c_raised s"
proof -
  let ?st = "sel_matches (c_sel s) (frag_objects frag) (ASeq (AControl (FHeader frag))) now"
  let ?s = "s\<lparr>c_sel := sel_clear (c_sel s)\<rparr>"
  obtain s' body outs where ex: "executeCommands cmds cc frag OperateSelected ?st ?s = (s', body, outs)" by (metis prod_cases3)
  have eq: "fst (onCommand cmds cc b frag now s) = s'" using ex assms(2) by (simp add: onCommand_def frag_objects_def Let_def)
  show "\<not> sel_active (c_sel (fst (onCommand cmds cc b frag now s)))"
    using executeCommands_sel [OF ex] eq by (simp add: sel_clear_def)
  show "authorised cmds cc s0 h frag now \<or>
      c_plant (fst (onCommand cmds cc b frag now s)) = c_plant s \<and> c_raised (fst (onCommand cmds cc b frag now s)) = c_raised s"
  proof (cases "Status_OK ?st")
    case True
    then have "sel_active (c_sel s)" "now \<le> sel_expires (c_sel s)" "sel_objects (c_sel s) = frag_objects frag"
      "ASeq (AControl (FHeader frag)) = nextSeq (sel_seq (c_sel s))"
      by (auto simp: sel_matches_def Status_OK_def split: if_splits)
    then show ?thesis using assms(1) unfolding sel_inv_def authorised_def by metis
  next
    case False
    then show ?thesis using executeCommands_refused [OF False ex] eq by simp
  qed
qed

interpretation cmds: history_machine "command_step c cc" "sel_inv c cc s0" "operate_good c cc s0"
  for c :: "'d command_handler" and cc and s0
proof
  fix h and s :: "'d command_state" and r :: command_request
  assume inv: "sel_inv c cc s0 h s"
  obtain frag b now where r: "r = (frag, b, now)" by (rule prod_cases3)
  show "sel_inv c cc s0 (h @ [r]) (fst (command_step c cc r s))"
    using onCommand_sel_inv [OF inv] by (simp add: command_step_def r Let_def)
  show "operate_good c cc s0 (h @ [r]) (snd (command_step c cc r s))"
    using onCommand_operate_good [OF inv, of frag] by (auto simp: operate_good_def command_step_def r Let_def)
qed

section \<open>Nothing operates without its selection\<close>

text \<open>A SELECT and an OPERATE of a latch-on of point 3, and a device that counts its operations.\<close>

definition latch_request :: "FuncCode \<Rightarrow> byte \<Rightarrow> fragment" where
  "latch_request fc seq =
     \<lparr>FHeader = \<lparr>AControl = \<lparr>AFir = True, AFin = True, ACon = False, AUns = False, ASeq = seq\<rparr>, AFunc = fc, AIIN = 0\<rparr>,
      FObjects = [\<lparr>OGroup = 12, OVariation = 1, OQualifier = 0x17,
        ORange = \<lparr>RSpec = 7, RStart = 0, RStop = 0, RCount = 1\<rparr>, OData = [3, 3, 1, 0, 0, 0, 0, 0, 0, 0, 0, 0], OOffset = 0, ODataOffset = 0\<rparr>],
      FRaw = [0xC0 + seq, fc, 12, 1, 0x17, 1, 3, 3, 1, 0, 0, 0, 0, 0, 0, 0, 0, 0]\<rparr>"

definition counting_handler :: "nat command_handler" where
  "counting_handler = \<lparr>SelectCROB = (\<lambda>_ _ d. (d, CommandSuccess)), OperateCROB = (\<lambda>_ _ _ d. (d + 1, CommandSuccess)),
      SelectAnalog = (\<lambda>_ _ d. (d, CommandSuccess)), OperateAnalog = (\<lambda>_ _ _ d. (d + 1, CommandSuccess)), HasOutput = None\<rparr>"

definition idle_commands :: "nat command_state" where
  "idle_commands = \<lparr>c_iin = 0, c_sel = \<lparr>sel_active = False, sel_objects = [], sel_seq = 0, sel_expires = 0\<rparr>, c_plant = 0, c_raised = []\<rparr>"

definition ten_controls :: command_config where
  "ten_controls = \<lparr>SelectTimeout = 10, MaxControlsPerRequest = 10, BinaryOutputs = 4, AnalogOutputs = 0\<rparr>"

text \<open>The two requests to it, five time units apart: the state before and after the OPERATE.\<close>

definition latch_run :: "nat command_state \<times> nat command_state" where
  "latch_run = snd (run_ops (command_step counting_handler ten_controls)
     [(latch_request FuncSelect 1, False, 0), (latch_request FuncOperate 2, False, 5)] idle_commands) ! 1"

lemma latch_run_moves: "c_plant (fst latch_run) = 0 \<and> c_plant (snd latch_run) = 1"
  by code_simp

text \<open>
  C4. Select before operate. In any sequence of control requests to an outstation with no
  selection at the start, an OPERATE leaves no selection, and it changes the plant or raises a
  command event only if the latest SELECT or OPERATE before it was a SELECT of exactly the same
  object octets, every command of which the device accepted, with a sequence number one less
  than this one's modulo 16, no longer ago than the select timeout. Requests that are neither
  SELECT nor OPERATE may have come in between.
\<close>

theorem operate_needs_select:
  assumes "\<not> sel_active (c_sel s0)" "n < length reqs" "reqs ! n = (frag, b, now)" "AFunc (FHeader frag) = FuncOperate"
    and "snd (run_ops (command_step cmds cc) reqs s0) ! n = (s, s')"
  shows "\<not> sel_active (c_sel s') \<and>
    (c_plant s' \<noteq> c_plant s \<or> c_raised s' \<noteq> c_raised s \<longrightarrow> authorised cmds cc s0 (take n reqs) frag now)"
proof -
  have "sel_inv cmds cc s0 [] s0" using assms(1) by (simp add: sel_inv_def)
  from cmds.run_good [OF this assms(2)] assms
  have good: "operate_good cmds cc s0 (take (Suc n) reqs) (s, s')" by simp
  moreover have "take (Suc n) reqs = take n reqs @ [(frag, b, now)]" using assms(2,3) by (simp add: take_Suc_conv_app_nth)
  ultimately show ?thesis
    using assms(4) by (auto simp: operate_good_def)
qed

theorem operate_needs_select_witness:
  "c_plant (snd latch_run) \<noteq> c_plant (fst latch_run) \<and> \<not> sel_active (c_sel (snd latch_run)) \<and>
   authorised counting_handler ten_controls idle_commands [(latch_request FuncSelect 1, False, 0)] (latch_request FuncOperate 2) 5"
  using operate_needs_select [of idle_commands 1 "[(latch_request FuncSelect 1, False, 0), (latch_request FuncOperate 2, False, 5)]"
      "latch_request FuncOperate 2" False 5 counting_handler ten_controls "fst latch_run" "snd latch_run"] latch_run_moves
  by (simp add: idle_commands_def latch_request_def latch_run_def)

text \<open>The device with other operate calls.\<close>

abbreviation (input) reoperated where "reoperated cmds f g \<equiv> cmds\<lparr>OperateCROB := f, OperateAnalog := g\<rparr>"

lemma execute_one_select_only:
  "execute_one (reoperated cmds f g) cc h True opType st n wide raw s = execute_one cmds cc h True opType st n wide raw s"
proof -
  have run: "runCommand (reoperated cmds f g) grp v i raw True opType d = runCommand cmds grp v i raw True opType d" for grp v i d
    by (simp add: runCommand_def)
  have ex: "controlExists (reoperated cmds f g) cc grp i = controlExists cmds cc grp i" for grp i
    by (simp add: controlExists_def)
  show ?thesis unfolding execute_one_def run ex ..
qed

lemma command_loop_select_only:
  "command_loop (reoperated cmds f g) cc h sz pl True opType st k off n echo e outs s =
   command_loop cmds cc h sz pl True opType st k off n echo e outs s"
proof (induction k arbitrary: off n echo e outs s)
  case (Suc k)
  show ?case unfolding command_loop.simps Suc.IH execute_one_select_only ..
qed simp

lemma execute_header_select_only:
  "execute_header (reoperated cmds f g) cc True opType st h acc = execute_header cmds cc True opType st h acc"
  unfolding execute_header_def command_loop_select_only ..

lemma executeCommands_select_only:
  assumes "AFunc (FHeader frag) = FuncSelect"
  shows "executeCommands (reoperated cmds f g) cc frag opType st s = executeCommands cmds cc frag opType st s"
  unfolding executeCommands_def Let_def assms eqTrueI [OF refl] execute_header_select_only ..

text \<open>
  A SELECT never operates: its effect and its answer are the same whatever the device's
  operate calls would do, and it raises no command event.
\<close>

theorem select_never_operates:
  assumes "AFunc (FHeader frag) = FuncSelect"
  shows "onCommand (cmds\<lparr>OperateCROB := f, OperateAnalog := g\<rparr>) cc b frag now s = onCommand cmds cc b frag now s \<and>
    c_raised (fst (onCommand cmds cc b frag now s)) = c_raised s"
  using assms executeCommands_selecting [OF assms]
  by (auto simp: onCommand_def onSelect_def executeCommands_select_only Let_def split: prod.splits)

theorem select_never_operates_witness:
  "onCommand RejectingCommandHandler ten_controls False (latch_request FuncSelect 1) 0 idle_commands =
     onCommand (RejectingCommandHandler\<lparr>OperateCROB := (\<lambda>_ _ _ d. (d + 1, CommandSuccess)), OperateAnalog := (\<lambda>_ _ _ d. (d, CommandSuccess))\<rparr>)
       ten_controls False (latch_request FuncSelect 1) 0 idle_commands"
  by (rule select_never_operates [THEN conjunct1, symmetric]) (simp add: latch_request_def)

text \<open>
  A request never carries out more controls than the configured limit, however many objects
  it names and in however many headers.
\<close>

theorem controls_limited:
  assumes "MaxControlsPerRequest cc > 0" "executeCommands cmds cc frag opType st s = (s', body, outs)"
  shows "ok_count outs \<le> MaxControlsPerRequest cc"
proof (rule executeCommands_walk [where P = "\<lambda>s' n outs. ok_count outs \<le> n \<and> ok_count outs \<le> MaxControlsPerRequest cc",
      OF _ _ assms(2), THEN exE], goal_cases)
  case 1
  show ?case unfolding walk_keeps_def
    by (clarsimp, metis add_mono_thms_linordered_semiring(1) assms(1) execute_one_limit order.trans order_refl)
qed (use assms in auto)

theorem controls_limited_witness:
  "ok_count (snd (snd (executeCommands counting_handler ten_controls (latch_request FuncDirectOperate 1) OperateDirect 0 idle_commands))) \<le> 10"
  using controls_limited [of ten_controls counting_handler "latch_request FuncDirectOperate 1" OperateDirect 0 idle_commands]
  by (simp add: ten_controls_def split: prod.splits) (metis surjective_pairing)

end
