(* ===== verification/Go_Arith.thy ===== *)
theory Go_Arith
  imports Go_Float
begin

text \<open>
  Arithmetic of doubles as the deadbands use it: subtraction with rounding to nearest, negation and
  the order, on the bit patterns of \<open>Go_Float\<close>. The lemmas show that the difference of integers of
  at most 53 bits is exact, so that a counter's movement is measured without error.
\<close>

text \<open>
  A magnitude in units of \<open>2\<close> to the power of \<open>-1074\<close>, rounded to the nearest double: below
  \<open>2 ^ 53\<close> it is its own pattern, above the exponent counts the bits dropped, and what reaches
  the pattern of infinity is infinite.
\<close>

definition f64_round :: "bool \<Rightarrow> nat \<Rightarrow> f64" where
  "f64_round s m =
     (let k = floorlog 2 m - 53; bits = (if m < 2 ^ 53 then m else k * 2 ^ 52 + round_shift m k)
      in f64_pack s 0 (min bits (2047 * 2 ^ 52)))"

definition f64_minus :: "f64 \<Rightarrow> f64" where
  "f64_minus b = b + 2 ^ 63"

text \<open>A difference; the payload of a NaN is not looked at anywhere.\<close>

definition f64_sub :: "f64 \<Rightarrow> f64 \<Rightarrow> f64" where
  "f64_sub a b =
     (if f64_nan a \<or> f64_nan b \<or> (f64_inf a \<and> f64_inf b \<and> f64_neg a = f64_neg b) then f64_pack False 2047 (2 ^ 51)
      else if f64_inf a then a
      else if f64_inf b then f64_minus b
      else
        let d = f64_scaled a - f64_scaled b
        in if d = 0 then f64_pack (f64_neg a \<and> \<not> f64_neg b \<and> f64_mag a = 0) 0 0
           else f64_round (d < 0) (nat \<bar>d\<bar>))"

definition f64_less :: "f64 \<Rightarrow> f64 \<Rightarrow> bool" where
  "f64_less a b \<longleftrightarrow> \<not> f64_nan a \<and> \<not> f64_nan b \<and>
     (if f64_inf a then f64_neg a \<and> \<not> (f64_inf b \<and> f64_neg b)
      else if f64_inf b then \<not> f64_neg b
      else f64_scaled a < f64_scaled b)"

lemma f64_less_irrefl [simp]: "\<not> f64_less a a"
  by (simp add: f64_less_def)

lemma f64_nan_less [simp]: "f64_nan a \<Longrightarrow> \<not> f64_less a b" "f64_nan b \<Longrightarrow> \<not> f64_less a b"
  by (simp_all add: f64_less_def)

text \<open>Small differences of integers are exact: the rounding leaves what fits 53 bits alone.\<close>

lemma f64_zero_fields [simp]: "f64_neg 0 = False" "f64_exp 0 = 0" "f64_frac 0 = 0"
  by (simp_all add: f64_neg_def f64_exp_def f64_frac_def)

lemma f64_round_of_int:
  assumes "n \<noteq> 0" "\<bar>n\<bar> < 2 ^ 53"
  shows "f64_round (n < 0) (nat \<bar>n\<bar> * 2 ^ 1074) = f64_of_int n"
proof -
  define m l where "m = nat \<bar>n\<bar>" and "l = floorlog 2 m - 1"
  have m: "0 < m" "m < 2 ^ 53" using assms by (simp_all add: m_def nat_less_iff)
  note b = normalised [OF m l_def]
  have "floorlog 2 m \<noteq> 0" using m(1) by (simp add: floorlog_eq_zero_iff)
  then have fl: "floorlog 2 m = Suc l" by (simp add: l_def)
  have fl2: "floorlog 2 (m * 2 ^ 1074) = Suc l + 1074" using m(1) fl by (simp del: power_numeral)
  have big: "\<not> m * 2 ^ 1074 < 2 ^ 53"
  proof -
    have "(2 :: nat) ^ 53 \<le> 2 ^ 1074" by (intro power_increasing) simp_all
    also have "\<dots> \<le> m * 2 ^ 1074" using m(1) by simp
    finally show ?thesis by (simp only: not_less)
  qed
  have k: "Suc l + 1074 - 53 = l + 1022" by simp
  have "m * 2 ^ 1074 = (m * 2 ^ (52 - l)) * 2 ^ (l + 1022)"
    using b(1) by (simp add: mult.assoc flip: power_add del: power_numeral)
  then have r: "round_shift (m * 2 ^ 1074) (l + 1022) = m * 2 ^ (52 - l)" by (simp only: round_shift_exact)
  have bits: "(l + 1022) * 2 ^ 52 + m * 2 ^ (52 - l) = (l + 1023) * 2 ^ 52 + (m * 2 ^ (52 - l) - 2 ^ 52)"
    using b(2) by (simp add: algebra_simps)
  have "(l + 1022) * 2 ^ 52 + m * 2 ^ (52 - l) < (l + 1022) * 2 ^ 52 + 2 ^ 53" using b(3) by simp
  also have "\<dots> \<le> 2047 * 2 ^ 52" using b(1) by simp
  finally have le: "min ((l + 1022) * 2 ^ 52 + m * 2 ^ (52 - l)) (2047 * 2 ^ 52) = (l + 1023) * 2 ^ 52 + (m * 2 ^ (52 - l) - 2 ^ 52)"
    using bits by simp
  have "f64_round (n < 0) (m * 2 ^ 1074) = f64_pack (n < 0) 0 ((l + 1023) * 2 ^ 52 + (m * 2 ^ (52 - l) - 2 ^ 52))"
    unfolding f64_round_def Let_def fl2 k r if_not_P [OF big] le ..
  also have "\<dots> = f64_of_int n"
    using assms(1) by (simp add: f64_pack_def f64_of_int_def Let_def m_def l_def)
  finally show ?thesis by (simp add: m_def)
qed

lemma f64_sub_of_int:
  assumes "\<bar>a\<bar> < 2 ^ 53" "\<bar>b\<bar> < 2 ^ 53" "\<bar>a - b\<bar> < 2 ^ 53"
  shows "f64_sub (f64_of_int a) (f64_of_int b) = f64_of_int (a - b)"
proof (cases "a = b")
  case True
  have "f64_neg (f64_of_int b) \<and> \<not> f64_neg (f64_of_int b) \<longleftrightarrow> False" by simp
  with True show ?thesis using f64_of_int_value [OF assms(2)]
    by (simp add: f64_sub_def Let_def f64_of_int_def [of 0] f64_pack_def del: power_numeral)
next
  case False
  have s: "a * 2 ^ 1074 - b * 2 ^ 1074 = (a - b) * 2 ^ 1074" by (simp only: left_diff_distrib)
  have ab: "nat \<bar>(a - b) * 2 ^ 1074\<bar> = nat \<bar>a - b\<bar> * 2 ^ 1074" by (simp add: abs_mult nat_mult_distrib nat_power_eq del: power_numeral)
  have sg: "((a - b) * 2 ^ 1074 < 0) = (a - b < 0)" by (simp add: mult_less_0_iff del: power_numeral)
  show ?thesis using f64_of_int_value [OF assms(1)] f64_of_int_value [OF assms(2)] False f64_round_of_int [OF _ assms(3)]
    unfolding f64_sub_def Let_def by (simp add: s ab sg del: power_numeral)
qed

lemma f64_minus_of_int:
  assumes "n \<noteq> 0" "\<bar>n\<bar> < 2 ^ 53"
  shows "f64_minus (f64_of_int n) = f64_of_int (- n)"
proof -
  have "f64_pack s e f + 2 ^ 63 = f64_pack (\<not> s) e f" for s e f
    by (cases s) (simp_all add: f64_pack_def)
  moreover have "(\<not> n < 0) = (- n < 0)" using assms(1) by auto
  ultimately show ?thesis using assms by (simp add: f64_minus_def f64_of_int_def Let_def)
qed

lemma f64_less_of_int:
  assumes "\<bar>a\<bar> < 2 ^ 53" "\<bar>b\<bar> < 2 ^ 53"
  shows "f64_less (f64_of_int a) (f64_of_int b) \<longleftrightarrow> a < b"
  using f64_of_int_value [OF assms(1)] f64_of_int_value [OF assms(2)] by (simp add: f64_less_def del: power_numeral)

end
