(* ===== verification/Outstation_Database.thy ===== *)
theory Outstation_Database
  imports Go_Arith Obj_Variable Outstation_Events "HOL-Library.AList"
begin

text \<open>
  The outstation's measurements (\<^verbatim>\<open>outstation/database.go\<close>, \<^verbatim>\<open>outstation/extended_database.go\<close> and the
  storing half of \<^verbatim>\<open>outstation/dataset.go\<close>): the points of each type with their configuration, the
  updates that raise events, deadbands measured from the value last reported, freezes, and the
  assignment of classes. Every method is a function of the database under its lock.

  Octet strings are slices into backing arrays, and an event shares the array of the point that
  raised it, so the arrays are an explicit store. How far the runtime over-allocates when an
  append needs a new array is the argument \<open>grow\<close>.
\<close>

section \<open>Points\<close>

record point_config =
  PClass :: event_class
  StaticVariation :: byte
  EventVariation :: byte
  Deadband :: f64
  CommandEventClass :: event_class
  CommandEventVariation :: byte

definition no_config :: point_config where
  "no_config = \<lparr>PClass = ClassNone, StaticVariation = 0, EventVariation = 0, Deadband = 0, CommandEventClass = ClassNone,
     CommandEventVariation = 0\<rparr>"

record database_config =
  NBinary :: int
  NDoubleBitBinary :: int
  NCounter :: int
  NFrozenCounter :: int
  NAnalog :: int
  NFrozenAnalog :: int
  NTimeAndInterval :: int
  NVirtualTerminal :: int
  NBinaryOutputStatus :: int
  NAnalogOutputStatus :: int
  NOctetString :: int
  DefaultClass :: event_class

record 'a point =
  PValue :: 'a
  PCfg :: point_config
  Reported :: f64
  HasEvent :: bool

record time_and_interval =
  TIWhen :: timestamp
  TIInterval :: u32
  TIUnits :: byte

text \<open>A slice of octets: its backing array and its length. Go's nil slice is the empty array at zero.\<close>

record slice =
  SAddr :: nat
  SLen :: nat

type_synonym store = "byte list list"

definition nil_slice :: slice where "nil_slice = \<lparr>SAddr = 0, SLen = 0\<rparr>"

definition slice_octets :: "store \<Rightarrow> slice \<Rightarrow> byte list" where
  "slice_octets m s = take (SLen s) (m ! SAddr s)"

definition slice_alloc :: "(nat \<Rightarrow> nat \<Rightarrow> nat) \<Rightarrow> nat \<Rightarrow> byte list \<Rightarrow> store \<Rightarrow> store \<times> slice" where
  "slice_alloc grow old v m =
     (m @ [v @ replicate (max (length v) (grow old (length v)) - length v) 0], \<lparr>SAddr = length m, SLen = length v\<rparr>)"

text \<open>The expression \<^verbatim>\<open>append(s[:0], v...)\<close>: it writes into the array of \<open>s\<close> whenever \<open>v\<close> fits there.\<close>

definition append_from_start :: "(nat \<Rightarrow> nat \<Rightarrow> nat) \<Rightarrow> slice \<Rightarrow> byte list \<Rightarrow> store \<Rightarrow> store \<times> slice" where
  "append_from_start grow s v m =
     (let arr = m ! SAddr s
      in if length v \<le> length arr then (m[SAddr s := v @ drop (length v) arr], s\<lparr>SLen := length v\<rparr>)
         else slice_alloc grow (length arr) v m)"

text \<open>The expression \<^verbatim>\<open>append(OctetString(nil), v...)\<close>.\<close>

definition append_nil :: "(nat \<Rightarrow> nat \<Rightarrow> nat) \<Rightarrow> byte list \<Rightarrow> store \<Rightarrow> store \<times> slice" where
  "append_nil grow v m = (if v = [] then (m, nil_slice) else slice_alloc grow 0 v m)"

section \<open>Events\<close>

text \<open>The measurement fields of an event.\<close>

record event_value =
  VTime :: timestamp
  VBinary :: Binary
  VDoubleBit :: DoubleBitBinary
  VCounter :: Counter
  VFrozenCounter :: FrozenCounter
  VDataset :: "byte list"
  VSecurityStatistic :: u32
  VFrozenAnalog :: Analog
  VAnalog :: Analog
  VBinaryOutput :: BinaryOutputStatus
  VAnalogOutput :: AnalogOutputStatus
  VOctetString :: slice
  VCommandStatus :: CommandStatus
  VCommandState :: bool
  VCommandValue :: f64

definition zero_of :: "'a \<Rightarrow> 'a measurement" where
  "zero_of v = \<lparr>MValue = v, MFlags = 0, MTime = NoTime\<rparr>"

definition no_value :: event_value where
  "no_value = \<lparr>VTime = NoTime, VBinary = zero_of False, VDoubleBit = zero_of 0, VCounter = zero_of 0, VFrozenCounter = zero_of 0,
     VDataset = [], VSecurityStatistic = 0, VFrozenAnalog = zero_of 0, VAnalog = zero_of 0, VBinaryOutput = zero_of False,
     VAnalogOutput = zero_of 0, VOctetString = nil_slice, VCommandStatus = 0, VCommandState = False, VCommandValue = 0\<rparr>"

type_synonym db_event = "event_value event"

definition Event :: "PointType \<Rightarrow> u16 \<Rightarrow> byte \<Rightarrow> event_value \<Rightarrow> db_event" where
  "Event pt index variation v =
     \<lparr>EType = pt, EIndex = index, EClass = ClassNone, EVariation = variation, EValue = v, ESelected = False, ESeq = 0\<rparr>"

section \<open>The database\<close>

type_synonym dataset_key = "byte \<times> byte \<times> u16"

record database =
  db_binary :: "bool measurement point list"
  db_doubleBit :: "DoubleBit measurement point list"
  db_counter :: "u32 measurement point list"
  db_frozen :: "u32 measurement point list"
  db_analog :: "f64 measurement point list"
  db_frozenAnalog :: "f64 measurement point list"
  db_timeAndInterval :: "time_and_interval list"
  db_terminal :: "slice point list"
  db_binaryOut :: "bool measurement point list"
  db_analogOut :: "f64 measurement point list"
  db_octet :: "slice point list"
  db_datasets :: "(dataset_key \<times> byte list) list"
  db_datasetClasses :: "u16 \<rightharpoonup> event_class"
  db_events :: "event_value event_buffer option"
  db_store :: store

definition defaultStaticVariations :: "PointType \<Rightarrow> byte" where
  "defaultStaticVariations pt =
     (case map_of [(TypeBinary, 2), (TypeDoubleBitBinary, 2), (TypeCounter, 1), (TypeFrozenCounter, 1), (TypeFrozenAnalog, 1),
        (TypeAnalog, 1), (TypeBinaryOutputStatus, 2), (TypeAnalogOutputStatus, 1)] pt of None \<Rightarrow> 0 | Some v \<Rightarrow> v)"

definition defaultEventVariations :: "PointType \<Rightarrow> byte" where
  "defaultEventVariations pt =
     (case map_of [(TypeBinary, 2), (TypeDoubleBitBinary, 2), (TypeCounter, 5), (TypeFrozenCounter, 5), (TypeFrozenAnalog, 3),
        (TypeAnalog, 3), (TypeBinaryOutputStatus, 2), (TypeAnalogOutputStatus, 3)] pt of None \<Rightarrow> 0 | Some v \<Rightarrow> v)"

text \<open>A negative count makes \<^verbatim>\<open>make\<close> panic; the counts of a configuration are not negative.\<close>

definition makePoints :: "'a \<Rightarrow> int \<Rightarrow> PointType \<Rightarrow> event_class \<Rightarrow> 'a point list" where
  "makePoints zero n pt cls =
     replicate (nat n)
       \<lparr>PValue = zero,
        PCfg = no_config\<lparr>PClass := cls, StaticVariation := defaultStaticVariations pt, EventVariation := defaultEventVariations pt\<rparr>,
        Reported = 0, HasEvent = False\<rparr>"

definition NewDatabase :: "database_config \<Rightarrow> event_value event_buffer option \<Rightarrow> database" where
  "NewDatabase cfg evs =
     \<lparr>db_binary = makePoints (zero_of False) (NBinary cfg) TypeBinary (DefaultClass cfg),
      db_doubleBit = makePoints (zero_of 0) (NDoubleBitBinary cfg) TypeDoubleBitBinary (DefaultClass cfg),
      db_counter = makePoints (zero_of 0) (NCounter cfg) TypeCounter (DefaultClass cfg),
      db_frozen = makePoints (zero_of 0) (NFrozenCounter cfg) TypeFrozenCounter (DefaultClass cfg),
      db_analog = makePoints (zero_of 0) (NAnalog cfg) TypeAnalog (DefaultClass cfg),
      db_frozenAnalog = makePoints (zero_of 0) (NFrozenAnalog cfg) TypeFrozenAnalog (DefaultClass cfg),
      db_timeAndInterval = replicate (nat (NTimeAndInterval cfg)) \<lparr>TIWhen = NoTime, TIInterval = 0, TIUnits = 0\<rparr>,
      db_terminal = makePoints nil_slice (NVirtualTerminal cfg) TypeVirtualTerminal (DefaultClass cfg),
      db_binaryOut = makePoints (zero_of False) (NBinaryOutputStatus cfg) TypeBinaryOutputStatus (DefaultClass cfg),
      db_analogOut = makePoints (zero_of 0) (NAnalogOutputStatus cfg) TypeAnalogOutputStatus (DefaultClass cfg),
      db_octet = makePoints nil_slice (NOctetString cfg) TypeOctetString (DefaultClass cfg),
      db_datasets = [], db_datasetClasses = Map.empty, db_events = evs, db_store = [[]]\<rparr>"

definition Counts :: "database \<Rightarrow> database_config" where
  "Counts db =
     \<lparr>NBinary = int (length (db_binary db)), NDoubleBitBinary = int (length (db_doubleBit db)),
      NCounter = int (length (db_counter db)), NFrozenCounter = int (length (db_frozen db)),
      NAnalog = int (length (db_analog db)), NFrozenAnalog = int (length (db_frozenAnalog db)),
      NTimeAndInterval = int (length (db_timeAndInterval db)), NVirtualTerminal = int (length (db_terminal db)),
      NBinaryOutputStatus = int (length (db_binaryOut db)), NAnalogOutputStatus = int (length (db_analogOut db)),
      NOctetString = int (length (db_octet db)), DefaultClass = ClassNone\<rparr>"

section \<open>Configuration\<close>

definition eventGroup :: "PointType \<Rightarrow> byte" where
  "eventGroup pt =
     (case map_of [(TypeBinary, 2), (TypeDoubleBitBinary, 4), (TypeBinaryOutputStatus, 11), (TypeCounter, 22),
        (TypeFrozenCounter, 23), (TypeFrozenAnalog, 33), (TypeDataset, 88), (TypeSecurityStatistic, 122),
        (TypeVirtualTerminal, 113), (TypeAnalog, 32), (TypeAnalogOutputStatus, 42), (TypeOctetString, 111),
        (TypeBinaryCommandEvent, 13), (TypeAnalogCommandEvent, 43)] pt of None \<Rightarrow> 0 | Some g \<Rightarrow> g)"

definition eventVariationEncodable :: "PointType \<Rightarrow> byte \<Rightarrow> bool" where
  "eventVariationEncodable pt v =
     (if v = 0 \<or> pt = TypeOctetString \<or> pt = TypeVirtualTerminal then True
      else
        case Lookup (eventGroup pt, v) of
          None \<Rightarrow> False
        | Some d \<Rightarrow> snd (SizeOctets d) \<and> fst (SizeOctets d) > 0)"

definition setConfig :: "nat \<Rightarrow> point_config \<Rightarrow> 'a point list \<Rightarrow> 'a point list \<times> bool" where
  "setConfig i cfg pts =
     (if length pts \<le> i then (pts, False)
      else
        let old = PCfg (pts ! i);
            cfg = (if StaticVariation cfg = 0 then cfg\<lparr>StaticVariation := StaticVariation old\<rparr> else cfg);
            cfg = (if EventVariation cfg = 0 then cfg\<lparr>EventVariation := EventVariation old\<rparr> else cfg)
        in (pts[i := (pts ! i)\<lparr>PCfg := cfg\<rparr>], True))"

definition Configure :: "PointType \<Rightarrow> u16 \<Rightarrow> point_config \<Rightarrow> database \<Rightarrow> database \<times> bool" where
  "Configure pt index cfg db =
     (if \<not> eventVariationEncodable pt (EventVariation cfg) then (db, False)
      else
        let i = unat index
        in if pt = TypeBinary then (case setConfig i cfg (db_binary db) of (p, ok) \<Rightarrow> (db\<lparr>db_binary := p\<rparr>, ok))
           else if pt = TypeDoubleBitBinary then (case setConfig i cfg (db_doubleBit db) of (p, ok) \<Rightarrow> (db\<lparr>db_doubleBit := p\<rparr>, ok))
           else if pt = TypeCounter then (case setConfig i cfg (db_counter db) of (p, ok) \<Rightarrow> (db\<lparr>db_counter := p\<rparr>, ok))
           else if pt = TypeFrozenCounter then (case setConfig i cfg (db_frozen db) of (p, ok) \<Rightarrow> (db\<lparr>db_frozen := p\<rparr>, ok))
           else if pt = TypeFrozenAnalog then (case setConfig i cfg (db_frozenAnalog db) of (p, ok) \<Rightarrow> (db\<lparr>db_frozenAnalog := p\<rparr>, ok))
           else if pt = TypeVirtualTerminal then (case setConfig i cfg (db_terminal db) of (p, ok) \<Rightarrow> (db\<lparr>db_terminal := p\<rparr>, ok))
           else if pt = TypeAnalog then (case setConfig i cfg (db_analog db) of (p, ok) \<Rightarrow> (db\<lparr>db_analog := p\<rparr>, ok))
           else if pt = TypeBinaryOutputStatus then (case setConfig i cfg (db_binaryOut db) of (p, ok) \<Rightarrow> (db\<lparr>db_binaryOut := p\<rparr>, ok))
           else if pt = TypeAnalogOutputStatus then (case setConfig i cfg (db_analogOut db) of (p, ok) \<Rightarrow> (db\<lparr>db_analogOut := p\<rparr>, ok))
           else if pt = TypeOctetString then (case setConfig i cfg (db_octet db) of (p, ok) \<Rightarrow> (db\<lparr>db_octet := p\<rparr>, ok))
           else (db, False))"

definition assignClass :: "event_class \<Rightarrow> u16 \<Rightarrow> u16 \<Rightarrow> 'a point list \<Rightarrow> 'a point list" where
  "assignClass cls start stop pts =
     foldl (\<lambda>pts i. pts[i := (pts ! i)\<lparr>PCfg := (PCfg (pts ! i))\<lparr>PClass := cls\<rparr>\<rparr>]) pts
       [unat start ..< min (unat stop + 1) (length pts)]"

definition assignClassRange :: "PointType \<Rightarrow> event_class \<Rightarrow> u16 \<Rightarrow> u16 \<Rightarrow> database \<Rightarrow> database" where
  "assignClassRange pt cls start stop db =
     (if pt = TypeDataset then
        db\<lparr>db_datasetClasses :=
             foldl (\<lambda>m (g, v, i). if g = 87 \<and> start \<le> i \<and> i \<le> stop then m(i \<mapsto> cls) else m)
               (db_datasetClasses db) (map fst (db_datasets db))\<rparr>
      else if pt = TypeBinary then db\<lparr>db_binary := assignClass cls start stop (db_binary db)\<rparr>
      else if pt = TypeDoubleBitBinary then db\<lparr>db_doubleBit := assignClass cls start stop (db_doubleBit db)\<rparr>
      else if pt = TypeCounter then db\<lparr>db_counter := assignClass cls start stop (db_counter db)\<rparr>
      else if pt = TypeFrozenCounter then db\<lparr>db_frozen := assignClass cls start stop (db_frozen db)\<rparr>
      else if pt = TypeFrozenAnalog then db\<lparr>db_frozenAnalog := assignClass cls start stop (db_frozenAnalog db)\<rparr>
      else if pt = TypeVirtualTerminal then db\<lparr>db_terminal := assignClass cls start stop (db_terminal db)\<rparr>
      else if pt = TypeAnalog then db\<lparr>db_analog := assignClass cls start stop (db_analog db)\<rparr>
      else if pt = TypeBinaryOutputStatus then db\<lparr>db_binaryOut := assignClass cls start stop (db_binaryOut db)\<rparr>
      else if pt = TypeAnalogOutputStatus then db\<lparr>db_analogOut := assignClass cls start stop (db_analogOut db)\<rparr>
      else if pt = TypeOctetString then db\<lparr>db_octet := assignClass cls start stop (db_octet db)\<rparr>
      else db)"

definition AssignClass :: "PointType \<Rightarrow> event_class \<Rightarrow> database \<Rightarrow> database" where
  "AssignClass pt cls = assignClassRange pt cls 0 0xFFFF"

section \<open>Updates\<close>

definition raise :: "point_config \<Rightarrow> db_event \<Rightarrow> database \<Rightarrow> database" where
  "raise cfg e db =
     (case db_events db of
        None \<Rightarrow> db
      | Some b \<Rightarrow> if PClass cfg = ClassNone then db else db\<lparr>db_events := Some (EB_Add (e\<lparr>EClass := PClass cfg\<rparr>) b)\<rparr>)"

definition changed :: "'a measurement \<Rightarrow> 'a measurement \<Rightarrow> bool" where
  "changed old v \<longleftrightarrow> MValue old \<noteq> MValue v \<or> MFlags old \<noteq> MFlags v"

definition UpdateBinary :: "u16 \<Rightarrow> Binary \<Rightarrow> database \<Rightarrow> database" where
  "UpdateBinary index v db =
     (let i = unat index
      in if length (db_binary db) \<le> i then db
         else
           let p = db_binary db ! i; db = db\<lparr>db_binary := (db_binary db)[i := p\<lparr>PValue := v\<rparr>]\<rparr>
           in if changed (PValue p) v
              then raise (PCfg p) (Event TypeBinary index (EventVariation (PCfg p)) (no_value\<lparr>VBinary := v, VTime := MTime v\<rparr>)) db
              else db)"

definition UpdateDoubleBit :: "u16 \<Rightarrow> DoubleBitBinary \<Rightarrow> database \<Rightarrow> database" where
  "UpdateDoubleBit index v db =
     (let i = unat index
      in if length (db_doubleBit db) \<le> i then db
         else
           let p = db_doubleBit db ! i; db = db\<lparr>db_doubleBit := (db_doubleBit db)[i := p\<lparr>PValue := v\<rparr>]\<rparr>
           in if changed (PValue p) v
              then raise (PCfg p) (Event TypeDoubleBitBinary index (EventVariation (PCfg p)) (no_value\<lparr>VDoubleBit := v, VTime := MTime v\<rparr>)) db
              else db)"

definition UpdateBinaryOutputStatus :: "u16 \<Rightarrow> BinaryOutputStatus \<Rightarrow> database \<Rightarrow> database" where
  "UpdateBinaryOutputStatus index v db =
     (let i = unat index
      in if length (db_binaryOut db) \<le> i then db
         else
           let p = db_binaryOut db ! i; db = db\<lparr>db_binaryOut := (db_binaryOut db)[i := p\<lparr>PValue := v\<rparr>]\<rparr>
           in if changed (PValue p) v
              then raise (PCfg p) (Event TypeBinaryOutputStatus index (EventVariation (PCfg p)) (no_value\<lparr>VBinaryOutput := v, VTime := MTime v\<rparr>)) db
              else db)"

definition shouldReport :: "f64 \<Rightarrow> bool \<Rightarrow> 'a point \<Rightarrow> 'a point \<times> bool" where
  "shouldReport v flagsChanged p =
     (let first = \<not> HasEvent p; p = p\<lparr>HasEvent := True\<rparr>
      in if first \<or> flagsChanged then (p\<lparr>Reported := v\<rparr>, True)
         else
           let nowNaN = f64_nan v; wasNaN = f64_nan (Reported p)
           in if nowNaN \<or> wasNaN then (if nowNaN = wasNaN then (p, False) else (p\<lparr>Reported := v\<rparr>, True))
              else
                let delta = f64_sub v (Reported p);
                    delta = (if f64_less delta 0 then f64_minus delta else delta)
                in if f64_less (Deadband (PCfg p)) delta then (p\<lparr>Reported := v\<rparr>, True) else (p, False))"

definition setCounter :: "u16 \<Rightarrow> Counter \<Rightarrow> database \<Rightarrow> database" where
  "setCounter index v db =
     (let i = unat index
      in if length (db_counter db) \<le> i then db
         else
           let p = db_counter db ! i;
               flagsChanged = (MFlags (PValue p) \<noteq> MFlags v);
               valueChanged = (MValue (PValue p) \<noteq> MValue v);
               p = p\<lparr>PValue := v\<rparr>;
               (p, report) =
                 (if flagsChanged \<or> valueChanged then shouldReport (f64_of_int (uint (MValue v))) flagsChanged p else (p, False));
               db = db\<lparr>db_counter := (db_counter db)[i := p]\<rparr>
           in if report
              then raise (PCfg p) (Event TypeCounter index (EventVariation (PCfg p)) (no_value\<lparr>VCounter := v, VTime := MTime v\<rparr>)) db
              else db)"

definition UpdateCounter :: "u16 \<Rightarrow> Counter \<Rightarrow> database \<Rightarrow> database" where
  "UpdateCounter = setCounter"

definition setFrozen :: "nat \<Rightarrow> FrozenCounter \<Rightarrow> bool \<Rightarrow> database \<Rightarrow> database" where
  "setFrozen i v freeze db =
     (let p = db_frozen db ! i; db = db\<lparr>db_frozen := (db_frozen db)[i := p\<lparr>PValue := v\<rparr>]\<rparr>
      in if changed (PValue p) v \<or> freeze
         then raise (PCfg p) (Event TypeFrozenCounter (of_nat i) (EventVariation (PCfg p)) (no_value\<lparr>VFrozenCounter := v, VTime := MTime v\<rparr>)) db
         else db)"

definition UpdateFrozenCounter :: "u16 \<Rightarrow> FrozenCounter \<Rightarrow> database \<Rightarrow> database" where
  "UpdateFrozenCounter index v db = (if unat index < length (db_frozen db) then setFrozen (unat index) v False db else db)"

definition UpdateAnalog :: "u16 \<Rightarrow> Analog \<Rightarrow> database \<Rightarrow> database" where
  "UpdateAnalog index v db =
     (let i = unat index
      in if length (db_analog db) \<le> i then db
         else
           let p = db_analog db ! i;
               flagsChanged = (MFlags (PValue p) \<noteq> MFlags v);
               (p, report) = shouldReport (MValue v) flagsChanged (p\<lparr>PValue := v\<rparr>);
               db = db\<lparr>db_analog := (db_analog db)[i := p]\<rparr>
           in if report
              then raise (PCfg p) (Event TypeAnalog index (EventVariation (PCfg p)) (no_value\<lparr>VAnalog := v, VTime := MTime v\<rparr>)) db
              else db)"

definition UpdateAnalogOutputStatus :: "u16 \<Rightarrow> AnalogOutputStatus \<Rightarrow> database \<Rightarrow> database" where
  "UpdateAnalogOutputStatus index v db =
     (let i = unat index
      in if length (db_analogOut db) \<le> i then db
         else
           let p = db_analogOut db ! i;
               flagsChanged = (MFlags (PValue p) \<noteq> MFlags v);
               (p, report) = shouldReport (MValue v) flagsChanged (p\<lparr>PValue := v\<rparr>);
               db = db\<lparr>db_analogOut := (db_analogOut db)[i := p]\<rparr>
           in if report
              then raise (PCfg p) (Event TypeAnalogOutputStatus index (EventVariation (PCfg p)) (no_value\<lparr>VAnalogOutput := v, VTime := MTime v\<rparr>)) db
              else db)"

definition setFrozenAnalog :: "u16 \<Rightarrow> Analog \<Rightarrow> bool \<Rightarrow> database \<Rightarrow> database" where
  "setFrozenAnalog index v freeze db =
     (let i = unat index; p = db_frozenAnalog db ! i;
          flagsChanged = (MFlags (PValue p) \<noteq> MFlags v);
          (p, report) = shouldReport (MValue v) flagsChanged (p\<lparr>PValue := v\<rparr>);
          (p, report) = (if freeze \<and> \<not> report then (p\<lparr>Reported := MValue v\<rparr>, True) else (p, report));
          db = db\<lparr>db_frozenAnalog := (db_frozenAnalog db)[i := p]\<rparr>
      in if report
         then raise (PCfg p) (Event TypeFrozenAnalog index (EventVariation (PCfg p)) (no_value\<lparr>VFrozenAnalog := v, VTime := MTime v\<rparr>)) db
         else db)"

definition UpdateFrozenAnalog :: "u16 \<Rightarrow> Analog \<Rightarrow> database \<Rightarrow> database" where
  "UpdateFrozenAnalog index v db = (if unat index < length (db_frozenAnalog db) then setFrozenAnalog index v False db else db)"

definition UpdateTimeAndInterval :: "u16 \<Rightarrow> time_and_interval \<Rightarrow> database \<Rightarrow> database \<times> bool" where
  "UpdateTimeAndInterval index v db =
     (if length (db_timeAndInterval db) \<le> unat index then (db, False)
      else (db\<lparr>db_timeAndInterval := (db_timeAndInterval db)[unat index := v]\<rparr>, True))"

abbreviation (input) MaxOctetStringLen :: nat where "MaxOctetStringLen \<equiv> 255"

definition UpdateOctetString :: "(nat \<Rightarrow> nat \<Rightarrow> nat) \<Rightarrow> u16 \<Rightarrow> byte list \<Rightarrow> database \<Rightarrow> database" where
  "UpdateOctetString grow index v db =
     (let i = unat index
      in if length (db_octet db) \<le> i then db
         else
           let v = (if length v > MaxOctetStringLen then take MaxOctetStringLen v else v);
               p = db_octet db ! i;
               changed = (slice_octets (db_store db) (PValue p) \<noteq> v);
               (m, s) = append_from_start grow (PValue p) v (db_store db);
               db = db\<lparr>db_store := m, db_octet := (db_octet db)[i := p\<lparr>PValue := s\<rparr>]\<rparr>
           in if changed then raise (PCfg p) (Event TypeOctetString index (of_nat (length v)) (no_value\<lparr>VOctetString := s\<rparr>)) db
              else db)"

definition UpdateVirtualTerminal :: "(nat \<Rightarrow> nat \<Rightarrow> nat) \<Rightarrow> u16 \<Rightarrow> byte list \<Rightarrow> database \<Rightarrow> database" where
  "UpdateVirtualTerminal grow index v db =
     (if length (db_terminal db) \<le> unat index \<or> length v = 0 \<or> length v > 255 then db
      else
        let p = db_terminal db ! unat index;
            (m, s) = append_nil grow v (db_store db);
            db = db\<lparr>db_store := m, db_terminal := (db_terminal db)[unat index := p\<lparr>PValue := s\<rparr>]\<rparr>
        in raise (PCfg p) (Event TypeVirtualTerminal index (of_nat (length v)) (no_value\<lparr>VOctetString := s\<rparr>)) db)"

definition datasetVariationKnown :: "byte \<Rightarrow> byte \<Rightarrow> bool" where
  "datasetVariationKnown grp variation =
     (if grp = 85 \<or> grp = 87 \<or> grp = 88 then variation = 1
      else if grp = 86 then variation \<ge> 1 \<and> variation \<le> 3
      else False)"

definition UpdateDataset :: "byte \<Rightarrow> byte \<Rightarrow> u16 \<Rightarrow> byte list \<Rightarrow> event_class \<Rightarrow> database \<Rightarrow> database \<times> object_error option" where
  "UpdateDataset grp variation index data cls db =
     (if \<not> datasetVariationKnown grp variation \<or> grp = 88 \<or> length data = 0 \<or> length data > 0xFFFF then (db, Some ErrBadConfig)
      else if grp = 86 \<and> variation = 2 \<and> length data \<noteq> 1 then (db, Some ErrBadConfig)
      else
        case (if grp = 85 \<or> (grp = 86 \<and> variation = 1) then ParseDatasetDescriptor data else Inr []) of
          Inl e \<Rightarrow> (db, Some e)
        | Inr _ \<Rightarrow>
            let db = db\<lparr>db_datasets := AList.update (grp, variation, index) data (db_datasets db)\<rparr>;
                cls = (case db_datasetClasses db index of Some assigned \<Rightarrow> assigned | None \<Rightarrow> cls)
            in (case db_events db of
                  Some b \<Rightarrow>
                    if grp = 87 \<and> cls AND Class123 \<noteq> 0
                    then (db\<lparr>db_events := Some (EB_Add ((Event TypeDataset index 1 (no_value\<lparr>VDataset := data\<rparr>))\<lparr>EClass := cls AND Class123\<rparr>) b)\<rparr>,
                          None)
                    else (db, None)
                | None \<Rightarrow> (db, None)))"

section \<open>Command events\<close>

definition Now :: "int \<Rightarrow> timestamp" where
  "Now t = \<lparr>TTime = t, TQuality = TimestampSynchronized\<rparr>"

definition Unsynchronized :: "int \<Rightarrow> timestamp" where
  "Unsynchronized t = \<lparr>TTime = t, TQuality = TimestampUnsynchronized\<rparr>"

definition RaiseBinaryCommandEvent :: "u16 \<Rightarrow> bool \<Rightarrow> CommandStatus \<Rightarrow> int \<Rightarrow> database \<Rightarrow> database" where
  "RaiseBinaryCommandEvent index state status ts db =
     (if length (db_binaryOut db) \<le> unat index then db
      else
        let cfg = PCfg (db_binaryOut db ! unat index)
        in case db_events db of
             None \<Rightarrow> db
           | Some b \<Rightarrow>
               if CommandEventClass cfg = ClassNone then db
               else
                 let variation = CommandEventVariation cfg;
                     variation = (if variation \<noteq> 1 \<and> variation \<noteq> 2 then 2 else variation)
                 in db\<lparr>db_events := Some (EB_Add
                      ((Event TypeBinaryCommandEvent index variation
                          (no_value\<lparr>VTime := Now ts, VCommandStatus := status, VCommandState := state\<rparr>))
                        \<lparr>EClass := CommandEventClass cfg\<rparr>) b)\<rparr>)"

definition RaiseAnalogCommandEvent :: "u16 \<Rightarrow> f64 \<Rightarrow> byte \<Rightarrow> CommandStatus \<Rightarrow> int \<Rightarrow> database \<Rightarrow> database" where
  "RaiseAnalogCommandEvent index v commandVariation status ts db =
     (if length (db_analogOut db) \<le> unat index then db
      else
        let cfg = PCfg (db_analogOut db ! unat index)
        in case db_events db of
             None \<Rightarrow> db
           | Some b \<Rightarrow>
               if CommandEventClass cfg = ClassNone then db
               else
                 let variation = CommandEventVariation cfg;
                     variation =
                       (if variation < 1 \<or> variation > 8 then
                          (if commandVariation = 2 then 4 else if commandVariation = 3 then 7 else if commandVariation = 4 then 8 else 3)
                        else variation)
                 in db\<lparr>db_events := Some (EB_Add
                      ((Event TypeAnalogCommandEvent index variation
                          (no_value\<lparr>VTime := Now ts, VCommandStatus := status, VCommandValue := v\<rparr>))
                        \<lparr>EClass := CommandEventClass cfg\<rparr>) b)\<rparr>)"

section \<open>Freezes\<close>

text \<open>One round of the loop of \<^verbatim>\<open>freezeRange\<close>, and of \<^verbatim>\<open>freezeAnalogsRange\<close>.\<close>

definition freeze_counter :: "timestamp \<Rightarrow> bool \<Rightarrow> nat \<Rightarrow> database \<Rightarrow> database" where
  "freeze_counter ts clear i db =
     (let c = PValue (db_counter db ! i);
          db = setFrozen i \<lparr>MValue = MValue c, MFlags = MFlags c, MTime = ts\<rparr> True db
      in if clear then setCounter (of_nat i) \<lparr>MValue = 0, MFlags = MFlags c, MTime = ts\<rparr> db else db)"

definition freezeRange :: "u16 \<Rightarrow> u16 \<Rightarrow> timestamp \<Rightarrow> bool \<Rightarrow> database \<Rightarrow> database" where
  "freezeRange start stop ts clear db =
     (let n = min (length (db_counter db)) (length (db_frozen db))
      in fold (freeze_counter ts clear) [unat start ..< min (unat stop + 1) n] db)"

definition freezeCountersRange :: "u16 \<Rightarrow> u16 \<Rightarrow> timestamp \<Rightarrow> database \<Rightarrow> database" where
  "freezeCountersRange start stop ts = freezeRange start stop ts False"

definition freezeClearCountersRange :: "u16 \<Rightarrow> u16 \<Rightarrow> timestamp \<Rightarrow> database \<Rightarrow> database" where
  "freezeClearCountersRange start stop ts = freezeRange start stop ts True"

definition FreezeCounters :: "int \<Rightarrow> database \<Rightarrow> database" where
  "FreezeCounters now = freezeCountersRange 0 0xFFFF (Unsynchronized now)"

definition freeze_analog :: "timestamp \<Rightarrow> bool \<Rightarrow> nat \<Rightarrow> database \<Rightarrow> database" where
  "freeze_analog ts clear i db =
     (let v = (PValue (db_analog db ! i))\<lparr>MTime := ts\<rparr>;
          db = setFrozenAnalog (of_nat i) v True db
      in if clear then
           let p = db_analog db ! i; v = v\<lparr>MValue := 0\<rparr>;
               (p, report) = shouldReport 0 False (p\<lparr>PValue := v\<rparr>);
               db = db\<lparr>db_analog := (db_analog db)[i := p]\<rparr>
           in if report
              then raise (PCfg p) (Event TypeAnalog (of_nat i) (EventVariation (PCfg p)) (no_value\<lparr>VAnalog := v, VTime := ts\<rparr>)) db
              else db
         else db)"

definition freezeAnalogsRange :: "u16 \<Rightarrow> u16 \<Rightarrow> timestamp \<Rightarrow> bool \<Rightarrow> database \<Rightarrow> database" where
  "freezeAnalogsRange start stop ts clear db =
     fold (freeze_analog ts clear)
       [unat start ..< min (unat stop + 1) (min (length (db_analog db)) (length (db_frozenAnalog db)))] db"

definition FreezeAnalogs :: "int \<Rightarrow> database \<Rightarrow> database" where
  "FreezeAnalogs now = freezeAnalogsRange 0 0xFFFF (Unsynchronized now) False"

section \<open>Reads\<close>

definition db_get :: "'a \<Rightarrow> 'a point list \<Rightarrow> u16 \<Rightarrow> 'a \<times> point_config \<times> bool" where
  "db_get zero pts index =
     (let i = unat index
      in if length pts \<le> i then (zero, no_config, False) else (PValue (pts ! i), PCfg (pts ! i), True))"

definition DB_Binary :: "database \<Rightarrow> u16 \<Rightarrow> Binary \<times> point_config \<times> bool" where
  "DB_Binary db = db_get (zero_of False) (db_binary db)"

definition DB_DoubleBit :: "database \<Rightarrow> u16 \<Rightarrow> DoubleBitBinary \<times> point_config \<times> bool" where
  "DB_DoubleBit db = db_get (zero_of 0) (db_doubleBit db)"

definition DB_Counter :: "database \<Rightarrow> u16 \<Rightarrow> Counter \<times> point_config \<times> bool" where
  "DB_Counter db = db_get (zero_of 0) (db_counter db)"

definition DB_FrozenCounter :: "database \<Rightarrow> u16 \<Rightarrow> FrozenCounter \<times> point_config \<times> bool" where
  "DB_FrozenCounter db = db_get (zero_of 0) (db_frozen db)"

definition DB_Analog :: "database \<Rightarrow> u16 \<Rightarrow> Analog \<times> point_config \<times> bool" where
  "DB_Analog db = db_get (zero_of 0) (db_analog db)"

definition DB_FrozenAnalog :: "database \<Rightarrow> u16 \<Rightarrow> Analog \<times> point_config \<times> bool" where
  "DB_FrozenAnalog db = db_get (zero_of 0) (db_frozenAnalog db)"

definition DB_BinaryOutputStatus :: "database \<Rightarrow> u16 \<Rightarrow> BinaryOutputStatus \<times> point_config \<times> bool" where
  "DB_BinaryOutputStatus db = db_get (zero_of False) (db_binaryOut db)"

definition DB_AnalogOutputStatus :: "database \<Rightarrow> u16 \<Rightarrow> AnalogOutputStatus \<times> point_config \<times> bool" where
  "DB_AnalogOutputStatus db = db_get (zero_of 0) (db_analogOut db)"

text \<open>An octet string is read as the octets its slice has now.\<close>

definition DB_OctetString :: "database \<Rightarrow> u16 \<Rightarrow> byte list \<times> point_config \<times> bool" where
  "DB_OctetString db index =
     (case db_get nil_slice (db_octet db) index of (s, cfg, ok) \<Rightarrow> (slice_octets (db_store db) s, cfg, ok))"

definition DB_TimeAndInterval :: "database \<Rightarrow> u16 \<Rightarrow> time_and_interval option" where
  "DB_TimeAndInterval db index =
     (if length (db_timeAndInterval db) \<le> unat index then None else Some (db_timeAndInterval db ! unat index))"

definition staticGroupVar :: "PointType \<Rightarrow> byte \<Rightarrow> GroupVar" where
  "staticGroupVar pt variation =
     (case map_of [(TypeBinary, 1), (TypeDoubleBitBinary, 3), (TypeCounter, 20), (TypeFrozenCounter, 21), (TypeFrozenAnalog, 31),
        (TypeVirtualTerminal, 112), (TypeAnalog, 30), (TypeBinaryOutputStatus, 10), (TypeAnalogOutputStatus, 40),
        (TypeOctetString, 110)] pt of None \<Rightarrow> 0 | Some g \<Rightarrow> g, variation)"

section \<open>Histories of updates\<close>

datatype db_op =
    OpBinary u16 Binary
  | OpDoubleBit u16 DoubleBitBinary
  | OpBinaryOut u16 BinaryOutputStatus
  | OpCounter u16 Counter
  | OpFrozen u16 FrozenCounter
  | OpAnalog u16 Analog
  | OpAnalogOut u16 AnalogOutputStatus
  | OpFrozenAnalog u16 Analog
  | OpInterval u16 time_and_interval
  | OpOctets u16 "byte list"
  | OpTerminal u16 "byte list"
  | OpDataset byte byte u16 "byte list" event_class
  | OpFreeze u16 u16 timestamp bool
  | OpFreezeAnalogs u16 u16 timestamp bool
  | OpBinaryCommand u16 bool CommandStatus int
  | OpAnalogCommand u16 f64 byte CommandStatus int

fun db_step :: "(nat \<Rightarrow> nat \<Rightarrow> nat) \<Rightarrow> db_op \<Rightarrow> database \<Rightarrow> database" where
  "db_step grow (OpBinary i v) db = UpdateBinary i v db"
| "db_step grow (OpDoubleBit i v) db = UpdateDoubleBit i v db"
| "db_step grow (OpBinaryOut i v) db = UpdateBinaryOutputStatus i v db"
| "db_step grow (OpCounter i v) db = UpdateCounter i v db"
| "db_step grow (OpFrozen i v) db = UpdateFrozenCounter i v db"
| "db_step grow (OpAnalog i v) db = UpdateAnalog i v db"
| "db_step grow (OpAnalogOut i v) db = UpdateAnalogOutputStatus i v db"
| "db_step grow (OpFrozenAnalog i v) db = UpdateFrozenAnalog i v db"
| "db_step grow (OpInterval i v) db = fst (UpdateTimeAndInterval i v db)"
| "db_step grow (OpOctets i v) db = UpdateOctetString grow i v db"
| "db_step grow (OpTerminal i v) db = UpdateVirtualTerminal grow i v db"
| "db_step grow (OpDataset g v i d c) db = fst (UpdateDataset g v i d c db)"
| "db_step grow (OpFreeze start stop ts clear) db = freezeRange start stop ts clear db"
| "db_step grow (OpFreezeAnalogs start stop ts clear) db = freezeAnalogsRange start stop ts clear db"
| "db_step grow (OpBinaryCommand i st status now) db = RaiseBinaryCommandEvent i st status now db"
| "db_step grow (OpAnalogCommand i v cv status now) db = RaiseAnalogCommandEvent i v cv status now db"

abbreviation db_run :: "(nat \<Rightarrow> nat \<Rightarrow> nat) \<Rightarrow> db_op list \<Rightarrow> database \<Rightarrow> database" where
  "db_run grow ops \<equiv> fold (db_step grow) ops"

text \<open>
  An operation is a series of small moves: a move that leaves the points of every kind alone but
  may queue an event, or one that stores a value and may queue an event about it. An
  invariant kept by the moves is kept by every operation.
\<close>

lemma raise_sel [simp]:
  "db_binary (raise c e db) = db_binary db" "db_doubleBit (raise c e db) = db_doubleBit db" "db_counter (raise c e db) = db_counter db"
  "db_frozen (raise c e db) = db_frozen db" "db_analog (raise c e db) = db_analog db"
  "db_frozenAnalog (raise c e db) = db_frozenAnalog db" "db_timeAndInterval (raise c e db) = db_timeAndInterval db"
  "db_terminal (raise c e db) = db_terminal db" "db_binaryOut (raise c e db) = db_binaryOut db"
  "db_analogOut (raise c e db) = db_analogOut db" "db_octet (raise c e db) = db_octet db" "db_store (raise c e db) = db_store db"
  by (simp_all add: raise_def split: option.split)

lemma fold_keeps: "(\<And>i db. i \<in> set xs \<Longrightarrow> P db \<Longrightarrow> P (f i db)) \<Longrightarrow> P db \<Longrightarrow> P (fold f xs db)"
  by (induction xs arbitrary: db) simp_all

section \<open>Deadbands\<close>

definition f64_abs_diff :: "f64 \<Rightarrow> f64 \<Rightarrow> f64" where
  "f64_abs_diff v r = (let d = f64_sub v r in if f64_less d 0 then f64_minus d else d)"

definition in_band :: "f64 \<Rightarrow> f64 \<Rightarrow> f64 \<Rightarrow> bool" where
  "in_band d v r \<longleftrightarrow> v = r \<or> (f64_nan v \<and> f64_nan r) \<or> (\<not> f64_nan v \<and> \<not> f64_nan r \<and> \<not> f64_less d (f64_abs_diff v r))"

definition matches_point :: "PointType \<Rightarrow> u16 \<Rightarrow> db_event \<Rightarrow> bool" where
  "matches_point pt i e \<longleftrightarrow> EType e = pt \<and> EIndex e = i"

definition point_events :: "PointType \<Rightarrow> u16 \<Rightarrow> database \<Rightarrow> db_event list" where
  "point_events pt i db =
     (case db_events db of None \<Rightarrow> [] | Some b \<Rightarrow> filter (matches_point pt i) (EBEvents b))"

text \<open>Whether an event may be missing from the buffer: it has overflowed, or there is none.\<close>

definition events_lost :: "database \<Rightarrow> bool" where
  "events_lost db = (case db_events db of None \<Rightarrow> True | Some b \<Rightarrow> EBOverflow b)"

text \<open>
  The points of a kind are tracked when each one still has the value it was made with, or is
  within its deadband of the value last reported; and when a point with a class has reported a
  value, an event is queued for it, unless the buffer overflowed, and the last one queued
  carries that value.
\<close>

definition tracked_point :: "('a \<Rightarrow> f64) \<Rightarrow> (event_value \<Rightarrow> f64) \<Rightarrow> bool \<Rightarrow> db_event list \<Rightarrow> 'a point \<Rightarrow> bool" where
  "tracked_point num told lost es p \<longleftrightarrow>
     (if HasEvent p then in_band (Deadband (PCfg p)) (num (PValue p)) (Reported p) else num (PValue p) = 0) \<and>
     (PClass (PCfg p) \<noteq> ClassNone \<longrightarrow>
        (HasEvent p \<longrightarrow> es \<noteq> [] \<or> lost) \<and> (es \<noteq> [] \<longrightarrow> HasEvent p \<and> told (EValue (last es)) = Reported p))"

definition tracked :: "(database \<Rightarrow> 'a point list) \<Rightarrow> ('a \<Rightarrow> f64) \<Rightarrow> (event_value \<Rightarrow> f64) \<Rightarrow> PointType \<Rightarrow> database \<Rightarrow> bool" where
  "tracked pts num told pt db \<longleftrightarrow>
     (\<forall>i < length (pts db). i < 65536 \<longrightarrow> tracked_point num told (events_lost db) (point_events pt (of_nat i) db) (pts db ! i))"

lemma shouldReport_value [simp]:
  "PValue (fst (shouldReport v f p)) = PValue p" "PCfg (fst (shouldReport v f p)) = PCfg p" "HasEvent (fst (shouldReport v f p))"
  by (simp_all add: shouldReport_def Let_def)

lemma shouldReport_in_band: "in_band (Deadband (PCfg p)) v (Reported (fst (shouldReport v f p)))"
  by (auto simp: shouldReport_def in_band_def f64_abs_diff_def Let_def)

lemma shouldReport_report:
  "snd (shouldReport v f p) \<Longrightarrow> Reported (fst (shouldReport v f p)) = v"
  "\<not> snd (shouldReport v f p) \<Longrightarrow> HasEvent p \<and> Reported (fst (shouldReport v f p)) = Reported p"
  by (auto simp: shouldReport_def Let_def split: if_splits)

text \<open>What queueing an event does to the events of one point: it may push out the oldest.\<close>

lemma matches_point_update [simp]: "matches_point pt i (e\<lparr>EClass := c, ESeq := q\<rparr>) = matches_point pt i e"
  by (simp add: matches_point_def)

lemma filter_tl: "filter P (tl xs) = filter P xs \<or> filter P (tl xs) = tl (filter P xs)"
  by (cases xs) auto

lemma tracked_point_suffix:
  assumes "tracked_point num told lost es p" "es' = es \<or> es' = tl es \<and> lost'" "lost \<longrightarrow> lost'"
  shows "tracked_point num told lost' es' p"
proof -
  have "es' \<noteq> [] \<Longrightarrow> es \<noteq> [] \<and> last es' = last es" using assms(2) by (cases es) (auto split: if_splits)
  then show ?thesis using assms by (auto simp: tracked_point_def)
qed

lemma EBEvents_Add:
  "\<exists>q. EBEvents (EB_Add e b) = (if EBMax b \<le> length (EBEvents b) then tl (EBEvents b) else EBEvents b) @ [e\<lparr>ESeq := q\<rparr>]"
  by (auto simp: EB_Add_def Let_def)

lemma events_lost_raise: "events_lost db \<Longrightarrow> events_lost (raise c e db)"
  by (cases "db_events db") (simp_all add: events_lost_def raise_def EB_Add_events)

lemma point_events_raise_other:
  assumes "\<not> matches_point pt i e"
  shows "point_events pt i (raise c e db) = point_events pt i db \<or>
    point_events pt i (raise c e db) = tl (point_events pt i db) \<and> events_lost (raise c e db)"
proof (cases "db_events db")
  case (Some b)
  obtain q where q: "EBEvents (EB_Add (e\<lparr>EClass := PClass c\<rparr>) b) =
      (if EBMax b \<le> length (EBEvents b) then tl (EBEvents b) else EBEvents b) @ [e\<lparr>EClass := PClass c, ESeq := q\<rparr>]"
    using EBEvents_Add by blast
  show ?thesis
    using Some q assms filter_tl [of "matches_point pt i" "EBEvents b"] by (simp add: point_events_def raise_def events_lost_def EB_Add_events)
qed (simp add: point_events_def raise_def)

lemma point_events_raise_last:
  assumes "matches_point pt i e" "PClass c \<noteq> ClassNone"
  shows "if point_events pt i (raise c e db) = [] then events_lost (raise c e db)
    else EValue (last (point_events pt i (raise c e db))) = EValue e"
proof (cases "db_events db")
  case (Some b)
  obtain q where q: "EBEvents (EB_Add (e\<lparr>EClass := PClass c\<rparr>) b) =
      (if EBMax b \<le> length (EBEvents b) then tl (EBEvents b) else EBEvents b) @ [e\<lparr>EClass := PClass c, ESeq := q\<rparr>]"
    using EBEvents_Add by blast
  show ?thesis
    using Some q assms by (simp add: point_events_def raise_def)
qed (use assms in \<open>simp add: point_events_def raise_def events_lost_def\<close>)

lemma u16_of_nat_eq:
  assumes "i < 65536" "k < 65536"
  shows "(of_nat i :: u16) = of_nat k \<longleftrightarrow> i = k"
proof -
  have "unat (of_nat i :: u16) = i" "unat (of_nat k :: u16) = k" using assms by (simp_all add: unat_of_nat)
  then show ?thesis by metis
qed

text \<open>The two kinds of move.\<close>

lemma tracked_quiet:
  assumes "tracked pts num told pt db" "pts db' = pts db"
    "\<And>i. point_events pt i db' = point_events pt i db \<or> point_events pt i db' = tl (point_events pt i db) \<and> events_lost db'"
    "events_lost db \<longrightarrow> events_lost db'"
  shows "tracked pts num told pt db'"
  using assms(1,2) tracked_point_suffix [OF _ assms(3,4)] unfolding tracked_def by metis

lemma tracked_touch:
  assumes "tracked pts num told pt db" "pts db' = (pts db)[k := p']" "k < 65536"
    and other: "\<And>i. i \<noteq> of_nat k \<Longrightarrow> point_events pt i db' = point_events pt i db \<or>
      point_events pt i db' = tl (point_events pt i db) \<and> events_lost db'"
    and lost: "events_lost db \<longrightarrow> events_lost db'"
    and same: "k < length (pts db) \<Longrightarrow> tracked_point num told (events_lost db) (point_events pt (of_nat k) db) (pts db ! k) \<Longrightarrow>
      tracked_point num told (events_lost db') (point_events pt (of_nat k) db') p'"
  shows "tracked pts num told pt db'"
  unfolding tracked_def
proof (intro allI impI)
  fix i assume i: "i < length (pts db')" "i < 65536"
  have t: "tracked_point num told (events_lost db) (point_events pt (of_nat i) db) (pts db ! i)" using assms(1,2) i by (simp add: tracked_def)
  show "tracked_point num told (events_lost db') (point_events pt (of_nat i) db') (pts db' ! i)"
  proof (cases "i = k")
    case True
    then show ?thesis using same t i assms(2) by simp
  next
    case False
    then have "(of_nat i :: u16) \<noteq> of_nat k" using i(2) assms(3) by (simp add: u16_of_nat_eq)
    then show ?thesis using tracked_point_suffix [OF t other lost] False assms(2) by simp
  qed
qed

definition quiet_for :: "PointType \<Rightarrow> database \<Rightarrow> database \<Rightarrow> bool" where
  "quiet_for pt db db' \<longleftrightarrow> (events_lost db \<longrightarrow> events_lost db') \<and>
     (\<forall>i. point_events pt i db' = point_events pt i db \<or> point_events pt i db' = tl (point_events pt i db) \<and> events_lost db')"

lemma quiet_same: "db_events db' = db_events db \<Longrightarrow> quiet_for pt db db'"
  by (simp add: quiet_for_def point_events_def events_lost_def)

lemma quiet_raise: "EType e \<noteq> pt \<Longrightarrow> db_events db0 = db_events db \<Longrightarrow> quiet_for pt db (raise c e db0)"
  using point_events_raise_other [of pt _ e c db0] events_lost_raise [of db0 c e]
  by (auto simp: quiet_for_def matches_point_def point_events_def [of pt _ db] point_events_def [of pt _ db0] events_lost_def [of db] events_lost_def [of db0])

lemma tracked_quiet_for: "tracked pts num told pt db \<Longrightarrow> pts db' = pts db \<Longrightarrow> quiet_for pt db db' \<Longrightarrow> tracked pts num told pt db'"
  using tracked_quiet unfolding quiet_for_def by blast

text \<open>A value stored with its event: the point it leaves is in band of what it reports.\<close>

lemma tracked_report:
  assumes t: "tracked pts num told pt db"
    and pts: "\<And>c e d. pts (raise c e d) = pts d" "pts db0 = (pts db)[k := p']" "db_events db0 = db_events db"
    and k: "k < 65536" "matches_point pt (of_nat k) e"
    and p: "k < length (pts db) \<Longrightarrow> PCfg p' = PCfg (pts db ! k)" "HasEvent p' \<Longrightarrow> in_band (Deadband (PCfg p')) (num (PValue p')) (Reported p')"
      "\<not> HasEvent p' \<Longrightarrow> k < length (pts db) \<Longrightarrow> num (PValue p') = num (PValue (pts db ! k))"
    and yes: "report \<Longrightarrow> HasEvent p' \<and> told (EValue e) = Reported p'"
    and no: "\<not> report \<Longrightarrow> k < length (pts db) \<Longrightarrow> HasEvent p' = HasEvent (pts db ! k) \<and> Reported p' = Reported (pts db ! k)"
  shows "tracked pts num told pt (if report then raise (PCfg p') e db0 else db0)"
proof (rule tracked_touch [OF t])
  let ?db = "if report then raise (PCfg p') e db0 else db0"
  show "pts ?db = (pts db)[k := p']" using pts by simp
  show "k < 65536" by (rule k)
  have events: "point_events pt i db0 = point_events pt i db" "events_lost db0 = events_lost db" for i
    using pts(3) by (simp_all add: point_events_def events_lost_def)
  show lost: "events_lost db \<longrightarrow> events_lost ?db" using events(2) events_lost_raise by simp
  show "point_events pt i ?db = point_events pt i db \<or> point_events pt i ?db = tl (point_events pt i db) \<and> events_lost ?db" if "i \<noteq> of_nat k" for i
  proof -
    have "\<not> matches_point pt i e" using that k(2) by (auto simp: matches_point_def)
    then show ?thesis using point_events_raise_other [of pt i e "PCfg p'" db0] events by simp
  qed
  show "tracked_point num told (events_lost ?db) (point_events pt (of_nat k) ?db) p'"
    if len: "k < length (pts db)" and old: "tracked_point num told (events_lost db) (point_events pt (of_nat k) db) (pts db ! k)"
  proof (cases report)
    case True
    then show ?thesis
      using point_events_raise_last [OF k(2), of "PCfg p'" db0] p(2) yes by (auto simp: tracked_point_def split: if_splits)
  next
    case False
    then show ?thesis using old no [OF False len] p len events by (auto simp: tracked_point_def split: if_splits)
  qed
qed

abbreviation (input) analogs_tracked :: "database \<Rightarrow> bool" where
  "analogs_tracked \<equiv> tracked db_analog MValue (\<lambda>v. MValue (VAnalog v)) TypeAnalog"

abbreviation (input) analog_outputs_tracked :: "database \<Rightarrow> bool" where
  "analog_outputs_tracked \<equiv> tracked db_analogOut MValue (\<lambda>v. MValue (VAnalogOutput v)) TypeAnalogOutputStatus"

abbreviation (input) frozen_analogs_tracked :: "database \<Rightarrow> bool" where
  "frozen_analogs_tracked \<equiv> tracked db_frozenAnalog MValue (\<lambda>v. MValue (VFrozenAnalog v)) TypeFrozenAnalog"

abbreviation (input) counters_tracked :: "database \<Rightarrow> bool" where
  "counters_tracked \<equiv> tracked db_counter (\<lambda>m. f64_of_int (uint (MValue m))) (\<lambda>v. f64_of_int (uint (MValue (VCounter v)))) TypeCounter"

definition all_tracked :: "database \<Rightarrow> bool" where
  "all_tracked db \<longleftrightarrow> analogs_tracked db \<and> analog_outputs_tracked db \<and> frozen_analogs_tracked db \<and> counters_tracked db"

lemma all_tracked_quiet:
  assumes "all_tracked db" "db_analog db' = db_analog db" "db_analogOut db' = db_analogOut db"
    "db_frozenAnalog db' = db_frozenAnalog db" "db_counter db' = db_counter db"
    "\<And>pt. pt \<in> {TypeAnalog, TypeAnalogOutputStatus, TypeFrozenAnalog, TypeCounter} \<Longrightarrow> quiet_for pt db db'"
  shows "all_tracked db'"
  using assms unfolding all_tracked_def by (auto intro: tracked_quiet_for)

lemma Event_sel [simp]: "EType (Event pt i v x) = pt" "EIndex (Event pt i v x) = i" "EValue (Event pt i v x) = x"
  by (simp_all add: Event_def)

lemma u16_of_unat [simp]: "of_nat (unat (i :: u16)) = i" "unat (i :: u16) < 65536"
proof -
  have "unat i < 2 ^ LENGTH(16)" by (rule unsigned_less)
  moreover have "2 ^ LENGTH(16) = (65536 :: nat)" by simp
  ultimately show "unat i < 65536" by linarith
qed simp

lemma queue_as_raise:
  assumes "db_events db = Some b" "c \<noteq> ClassNone"
  shows "db\<lparr>db_events := Some (EB_Add (e\<lparr>EClass := c\<rparr>) b)\<rparr> = raise (no_config\<lparr>PClass := c\<rparr>) e db"
  using assms by (simp add: raise_def)

lemma tracked_binary: "all_tracked db \<Longrightarrow> all_tracked (UpdateBinary i v db)"
  by (erule all_tracked_quiet) (auto simp: UpdateBinary_def Let_def intro: quiet_same quiet_raise)

lemma tracked_double: "all_tracked db \<Longrightarrow> all_tracked (UpdateDoubleBit i v db)"
  by (erule all_tracked_quiet) (auto simp: UpdateDoubleBit_def Let_def intro: quiet_same quiet_raise)

lemma tracked_binary_out: "all_tracked db \<Longrightarrow> all_tracked (UpdateBinaryOutputStatus i v db)"
  by (erule all_tracked_quiet) (auto simp: UpdateBinaryOutputStatus_def Let_def intro: quiet_same quiet_raise)

lemma tracked_frozen: "all_tracked db \<Longrightarrow> all_tracked (setFrozen i v f db)"
  by (erule all_tracked_quiet) (auto simp: setFrozen_def Let_def intro: quiet_same quiet_raise)

lemma tracked_interval: "all_tracked db \<Longrightarrow> all_tracked (fst (UpdateTimeAndInterval i v db))"
  by (erule all_tracked_quiet) (auto simp: UpdateTimeAndInterval_def intro: quiet_same)

lemma tracked_octets: "all_tracked db \<Longrightarrow> all_tracked (UpdateOctetString grow i v db)"
  by (erule all_tracked_quiet) (auto simp: UpdateOctetString_def Let_def split_def intro: quiet_same quiet_raise)

lemma tracked_terminal: "all_tracked db \<Longrightarrow> all_tracked (UpdateVirtualTerminal grow i v db)"
  by (erule all_tracked_quiet) (auto simp: UpdateVirtualTerminal_def Let_def split_def intro: quiet_same quiet_raise)

lemma UpdateDataset_moves:
  "fst (UpdateDataset g v i d c db) = db \<or>
   (let db0 = db\<lparr>db_datasets := AList.update (g, v, i) d (db_datasets db)\<rparr>
    in fst (UpdateDataset g v i d c db) = db0 \<or>
       (\<exists>cfg. fst (UpdateDataset g v i d c db) = raise cfg (Event TypeDataset i 1 (no_value\<lparr>VDataset := d\<rparr>)) db0))"
proof (cases "\<not> datasetVariationKnown g v \<or> g = 88 \<or> length d = 0 \<or> length d > 0xFFFF \<or> (g = 86 \<and> v = 2 \<and> length d \<noteq> 1)")
  case True
  then show ?thesis by (auto simp: UpdateDataset_def)
next
  case False
  define db0 where "db0 = db\<lparr>db_datasets := AList.update (g, v, i) d (db_datasets db)\<rparr>"
  define cls where "cls = (case db_datasetClasses db i of Some assigned \<Rightarrow> assigned | None \<Rightarrow> c)"
  have raised: "db0\<lparr>db_events := Some (EB_Add ((Event TypeDataset i 1 (no_value\<lparr>VDataset := d\<rparr>))\<lparr>EClass := cls AND Class123\<rparr>) b)\<rparr> =
      raise (no_config\<lparr>PClass := cls AND Class123\<rparr>) (Event TypeDataset i 1 (no_value\<lparr>VDataset := d\<rparr>)) db0"
    if "db_events db = Some b" "cls AND Class123 \<noteq> 0" for b
  proof (rule queue_as_raise)
    show "db_events db0 = Some b" using that(1) by (simp add: db0_def)
  qed (rule that(2))
  show ?thesis
  proof (cases "if g = 85 \<or> (g = 86 \<and> v = 1) then ParseDatasetDescriptor d else Inr []")
    case (Inl e)
    then show ?thesis using False by (simp add: UpdateDataset_def)
  next
    case (Inr es)
    have ok: "\<not> (\<not> datasetVariationKnown g v \<or> g = 88 \<or> length d = 0 \<or> length d > 0xFFFF)" "\<not> (g = 86 \<and> v = 2 \<and> length d \<noteq> 1)"
      using False by blast+
    have "fst (UpdateDataset g v i d c db) =
        (case db_events db of
           Some b \<Rightarrow> if g = 87 \<and> cls AND Class123 \<noteq> 0
             then db0\<lparr>db_events := Some (EB_Add ((Event TypeDataset i 1 (no_value\<lparr>VDataset := d\<rparr>))\<lparr>EClass := cls AND Class123\<rparr>) b)\<rparr> else db0
         | None \<Rightarrow> db0)"
      unfolding UpdateDataset_def Inr if_not_P [OF ok(1)] if_not_P [OF ok(2)] Let_def sum.case db0_def cls_def
      by (cases "db_events db"; cases "db_datasetClasses db i") simp_all
    then show ?thesis using raised unfolding Let_def db0_def [symmetric] by (cases "db_events db") auto
  qed
qed

lemma tracked_dataset:
  assumes "all_tracked db"
  shows "all_tracked (fst (UpdateDataset g v i d c db))"
proof -
  define db0 where "db0 = db\<lparr>db_datasets := AList.update (g, v, i) d (db_datasets db)\<rparr>"
  have sel: "db_analog db0 = db_analog db" "db_analogOut db0 = db_analogOut db" "db_frozenAnalog db0 = db_frozenAnalog db"
    "db_counter db0 = db_counter db" "db_events db0 = db_events db" by (simp_all add: db0_def)
  have "all_tracked db0" using assms sel by (elim all_tracked_quiet) (auto intro: quiet_same)
  moreover have "all_tracked (raise cfg (Event TypeDataset i 1 x) db0)" for cfg x
    using assms sel by (elim all_tracked_quiet) (auto intro: quiet_raise)
  ultimately show ?thesis using UpdateDataset_moves [of g v i d c db] assms unfolding Let_def db0_def [symmetric] by metis
qed

lemma tracked_binary_command: "all_tracked db \<Longrightarrow> all_tracked (RaiseBinaryCommandEvent i st s now db)"
  by (erule all_tracked_quiet)
    (auto simp: RaiseBinaryCommandEvent_def Let_def queue_as_raise split: option.split intro: quiet_same quiet_raise)

lemma tracked_analog_command: "all_tracked db \<Longrightarrow> all_tracked (RaiseAnalogCommandEvent i v cv s now db)"
  by (erule all_tracked_quiet)
    (auto simp: RaiseAnalogCommandEvent_def Let_def queue_as_raise split: option.split intro: quiet_same quiet_raise)

lemma matches_Event [simp]: "matches_point pt k (Event pt' i v x) \<longleftrightarrow> pt' = pt \<and> i = k"
  by (simp add: matches_point_def)

lemma tracked_aside:
  assumes "tracked pts num told pt db" "\<And>c e d. pts (raise c e d) = pts d" "pts db0 = pts db" "db_events db0 = db_events db" "EType e \<noteq> pt"
  shows "tracked pts num told pt (if r then raise c e db0 else db0)"
  using assms by (auto intro: tracked_quiet_for quiet_same quiet_raise)

lemma tracked_analog: assumes "all_tracked db" shows "all_tracked (UpdateAnalog i v db)"
proof (cases "length (db_analog db) \<le> unat i")
  case True
  then show ?thesis using assms by (simp add: UpdateAnalog_def)
next
  case False
  let ?p = "db_analog db ! unat i"
  let ?r = "shouldReport (MValue v) (MFlags (PValue ?p) \<noteq> MFlags v) (?p\<lparr>PValue := v\<rparr>)"
  let ?db0 = "db\<lparr>db_analog := (db_analog db)[unat i := fst ?r]\<rparr>"
  let ?e = "Event TypeAnalog i (EventVariation (PCfg (fst ?r))) (no_value\<lparr>VAnalog := v, VTime := MTime v\<rparr>)"
  have u: "UpdateAnalog i v db = (if snd ?r then raise (PCfg (fst ?r)) ?e ?db0 else ?db0)"
    using False by (simp add: UpdateAnalog_def Let_def split_def)
  have "analogs_tracked (UpdateAnalog i v db)"
    unfolding u
  proof (rule tracked_report)
    show "analogs_tracked db" using assms by (simp add: all_tracked_def)
    show "in_band (Deadband (PCfg (fst ?r))) (MValue (PValue (fst ?r))) (Reported (fst ?r))"
      using shouldReport_in_band [of "?p\<lparr>PValue := v\<rparr>"] by simp
  qed (use shouldReport_report [of "MValue v" "MFlags (PValue ?p) \<noteq> MFlags v" "?p\<lparr>PValue := v\<rparr>"] in auto)
  moreover have "analog_outputs_tracked (UpdateAnalog i v db)" "frozen_analogs_tracked (UpdateAnalog i v db)" "counters_tracked (UpdateAnalog i v db)"
    unfolding u by (rule tracked_aside [where db = db]; use assms in \<open>simp add: all_tracked_def\<close>)+
  ultimately show ?thesis by (simp add: all_tracked_def)
qed

lemma tracked_analog_out: assumes "all_tracked db" shows "all_tracked (UpdateAnalogOutputStatus i v db)"
proof (cases "length (db_analogOut db) \<le> unat i")
  case True
  then show ?thesis using assms by (simp add: UpdateAnalogOutputStatus_def)
next
  case False
  let ?p = "db_analogOut db ! unat i"
  let ?r = "shouldReport (MValue v) (MFlags (PValue ?p) \<noteq> MFlags v) (?p\<lparr>PValue := v\<rparr>)"
  let ?db0 = "db\<lparr>db_analogOut := (db_analogOut db)[unat i := fst ?r]\<rparr>"
  let ?e = "Event TypeAnalogOutputStatus i (EventVariation (PCfg (fst ?r))) (no_value\<lparr>VAnalogOutput := v, VTime := MTime v\<rparr>)"
  have u: "UpdateAnalogOutputStatus i v db = (if snd ?r then raise (PCfg (fst ?r)) ?e ?db0 else ?db0)"
    using False by (simp add: UpdateAnalogOutputStatus_def Let_def split_def)
  have "analog_outputs_tracked (UpdateAnalogOutputStatus i v db)"
    unfolding u
  proof (rule tracked_report)
    show "analog_outputs_tracked db" using assms by (simp add: all_tracked_def)
    show "in_band (Deadband (PCfg (fst ?r))) (MValue (PValue (fst ?r))) (Reported (fst ?r))"
      using shouldReport_in_band [of "?p\<lparr>PValue := v\<rparr>"] by simp
  qed (use shouldReport_report [of "MValue v" "MFlags (PValue ?p) \<noteq> MFlags v" "?p\<lparr>PValue := v\<rparr>"] in auto)
  moreover have "analogs_tracked (UpdateAnalogOutputStatus i v db)" "frozen_analogs_tracked (UpdateAnalogOutputStatus i v db)" "counters_tracked (UpdateAnalogOutputStatus i v db)"
    unfolding u by (rule tracked_aside [where db = db]; use assms in \<open>simp add: all_tracked_def\<close>)+
  ultimately show ?thesis by (simp add: all_tracked_def)
qed

lemma tracked_frozen_analog: assumes "all_tracked db" shows "all_tracked (setFrozenAnalog i v freeze db)"
proof -
  let ?p = "db_frozenAnalog db ! unat i"
  let ?r = "shouldReport (MValue v) (MFlags (PValue ?p) \<noteq> MFlags v) (?p\<lparr>PValue := v\<rparr>)"
  let ?q = "if freeze \<and> \<not> snd ?r then (fst ?r)\<lparr>Reported := MValue v\<rparr> else fst ?r"
  let ?db0 = "db\<lparr>db_frozenAnalog := (db_frozenAnalog db)[unat i := ?q]\<rparr>"
  let ?e = "Event TypeFrozenAnalog i (EventVariation (PCfg ?q)) (no_value\<lparr>VFrozenAnalog := v, VTime := MTime v\<rparr>)"
  have u: "setFrozenAnalog i v freeze db = (if freeze \<or> snd ?r then raise (PCfg ?q) ?e ?db0 else ?db0)"
    by (auto simp: setFrozenAnalog_def Let_def split_def)
  note report = shouldReport_report [of "MValue v" "MFlags (PValue ?p) \<noteq> MFlags v" "?p\<lparr>PValue := v\<rparr>"]
  have "frozen_analogs_tracked (setFrozenAnalog i v freeze db)"
    unfolding u
  proof (rule tracked_report)
    show "frozen_analogs_tracked db" using assms by (simp add: all_tracked_def)
    show "in_band (Deadband (PCfg ?q)) (MValue (PValue ?q)) (Reported ?q)"
      using shouldReport_in_band [of "?p\<lparr>PValue := v\<rparr>"] by (simp add: in_band_def)
  qed (use report in auto)
  moreover have "analogs_tracked (setFrozenAnalog i v freeze db)" "analog_outputs_tracked (setFrozenAnalog i v freeze db)"
      "counters_tracked (setFrozenAnalog i v freeze db)"
    unfolding u by (rule tracked_aside [where db = db]; use assms in \<open>simp add: all_tracked_def\<close>)+
  ultimately show ?thesis by (simp add: all_tracked_def)
qed

lemma tracked_counter: assumes "all_tracked db" shows "all_tracked (setCounter i v db)"
proof (cases "length (db_counter db) \<le> unat i")
  case True
  then show ?thesis using assms by (simp add: setCounter_def)
next
  case False
  let ?p = "db_counter db ! unat i"
  let ?ch = "MFlags (PValue ?p) \<noteq> MFlags v \<or> MValue (PValue ?p) \<noteq> MValue v"
  let ?r = "if ?ch then shouldReport (f64_of_int (uint (MValue v))) (MFlags (PValue ?p) \<noteq> MFlags v) (?p\<lparr>PValue := v\<rparr>)
    else (?p\<lparr>PValue := v\<rparr>, False)"
  let ?db0 = "db\<lparr>db_counter := (db_counter db)[unat i := fst ?r]\<rparr>"
  let ?e = "Event TypeCounter i (EventVariation (PCfg (fst ?r))) (no_value\<lparr>VCounter := v, VTime := MTime v\<rparr>)"
  have u: "setCounter i v db = (if snd ?r then raise (PCfg (fst ?r)) ?e ?db0 else ?db0)"
    using False by (simp add: setCounter_def Let_def split_def)
  note report = shouldReport_report [of "f64_of_int (uint (MValue v))" "MFlags (PValue ?p) \<noteq> MFlags v" "?p\<lparr>PValue := v\<rparr>"]
  have old: "tracked_point (\<lambda>m. f64_of_int (uint (MValue m))) (\<lambda>v. f64_of_int (uint (MValue (VCounter v)))) (events_lost db) (point_events TypeCounter i db) ?p"
    using assms False u16_of_unat(2) [of i] unfolding all_tracked_def tracked_def by (metis not_le u16_of_unat(1))
  have "counters_tracked (setCounter i v db)"
    unfolding u
  proof (rule tracked_report)
    show "counters_tracked db" using assms by (simp add: all_tracked_def)
    show "in_band (Deadband (PCfg (fst ?r))) (f64_of_int (uint (MValue (PValue (fst ?r))))) (Reported (fst ?r))" if "HasEvent (fst ?r)"
      using shouldReport_in_band [of "?p\<lparr>PValue := v\<rparr>"] old that by (auto simp: tracked_point_def split: if_splits)
  qed (use report in \<open>auto split: if_splits\<close>)
  moreover have "analogs_tracked (setCounter i v db)" "analog_outputs_tracked (setCounter i v db)" "frozen_analogs_tracked (setCounter i v db)"
    unfolding u by (rule tracked_aside [where db = db]; use assms in \<open>simp add: all_tracked_def\<close>)+
  ultimately show ?thesis by (simp add: all_tracked_def)
qed

lemma tracked_clear_analog:
  assumes "all_tracked db" "i < 65536" "MFlags v = MFlags (PValue (db_analog db ! i))" "MValue v = 0"
  shows "all_tracked (let (p, report) = shouldReport 0 False ((db_analog db ! i)\<lparr>PValue := v\<rparr>);
      db = db\<lparr>db_analog := (db_analog db)[i := p]\<rparr>
    in if report then raise (PCfg p) (Event TypeAnalog (of_nat i) (EventVariation (PCfg p)) (no_value\<lparr>VAnalog := v, VTime := ts\<rparr>)) db else db)"
    (is "all_tracked ?db'")
proof -
  let ?p = "db_analog db ! i"
  let ?r = "shouldReport 0 False (?p\<lparr>PValue := v\<rparr>)"
  let ?db0 = "db\<lparr>db_analog := (db_analog db)[i := fst ?r]\<rparr>"
  let ?e = "Event TypeAnalog (of_nat i) (EventVariation (PCfg (fst ?r))) (no_value\<lparr>VAnalog := v, VTime := ts\<rparr>)"
  have u: "?db' = (if snd ?r then raise (PCfg (fst ?r)) ?e ?db0 else ?db0)" by (simp add: Let_def split_def)
  have "analogs_tracked ?db'"
    unfolding u
  proof (rule tracked_report)
    show "analogs_tracked db" using assms by (simp add: all_tracked_def)
    show "in_band (Deadband (PCfg (fst ?r))) (MValue (PValue (fst ?r))) (Reported (fst ?r))"
      using shouldReport_in_band [of "?p\<lparr>PValue := v\<rparr>" 0 False] assms(4) by simp
  qed (use assms shouldReport_report [of 0 False "?p\<lparr>PValue := v\<rparr>"] in auto)
  moreover have "analog_outputs_tracked ?db'" "frozen_analogs_tracked ?db'" "counters_tracked ?db'"
    unfolding u by (rule tracked_aside [where db = db]; use assms in \<open>simp add: all_tracked_def\<close>)+
  ultimately show ?thesis by (simp only: all_tracked_def)
qed

lemma tracked_freeze_analog: assumes "all_tracked db" "i < 65536" shows "all_tracked (freeze_analog ts clear i db)"
proof -
  let ?v = "(PValue (db_analog db ! i))\<lparr>MTime := ts\<rparr>"
  let ?db = "setFrozenAnalog (of_nat i) ?v True db"
  have f: "all_tracked ?db" using assms by (intro tracked_frozen_analog)
  have same: "db_analog ?db = db_analog db" by (simp add: setFrozenAnalog_def Let_def split_def)
  show ?thesis
    using f tracked_clear_analog [OF f assms(2), of "?v\<lparr>MValue := 0\<rparr>" ts] by (simp add: freeze_analog_def Let_def same)
qed

lemma db_step_tracked: "all_tracked db \<Longrightarrow> all_tracked (db_step grow op db)"
proof (cases op)
  case (OpFreeze start stop ts clear)
  assume "all_tracked db"
  moreover have "all_tracked (freeze_counter ts clear i d)" if "all_tracked d" for i d
    using that by (simp add: freeze_counter_def Let_def tracked_counter tracked_frozen)
  ultimately show ?thesis using OpFreeze by (simp add: freezeRange_def Let_def fold_keeps [where P = all_tracked])
next
  case (OpFreezeAnalogs start stop ts clear)
  assume t: "all_tracked db"
  have "i < 65536" if "i \<in> set [unat start ..< min (unat stop + 1) (min (length (db_analog db)) (length (db_frozenAnalog db)))]" for i
  proof -
    have "i \<le> unat stop" using that by auto
    then show ?thesis using u16_of_unat(2) [of stop] by linarith
  qed
  then show ?thesis unfolding OpFreezeAnalogs db_step.simps freezeAnalogsRange_def
    using t tracked_freeze_analog by (intro fold_keeps [where P = all_tracked]) blast+
qed (simp_all add: tracked_binary tracked_double tracked_binary_out tracked_counter tracked_analog tracked_analog_out tracked_interval
  tracked_octets tracked_terminal tracked_dataset tracked_binary_command tracked_analog_command UpdateCounter_def
  UpdateFrozenCounter_def UpdateFrozenAnalog_def tracked_frozen tracked_frozen_analog)

text \<open>A database on which no update has been made: nothing reported, no events.\<close>

definition db_fresh :: "database \<Rightarrow> bool" where
  "db_fresh db \<longleftrightarrow> (case db_events db of None \<Rightarrow> True | Some b \<Rightarrow> EBEvents b = []) \<and>
     list_all (\<lambda>p. \<not> HasEvent p \<and> MValue (PValue p) = 0) (db_analog db) \<and> list_all (\<lambda>p. \<not> HasEvent p \<and> MValue (PValue p) = 0) (db_analogOut db) \<and>
     list_all (\<lambda>p. \<not> HasEvent p \<and> MValue (PValue p) = 0) (db_frozenAnalog db) \<and> list_all (\<lambda>p. \<not> HasEvent p \<and> MValue (PValue p) = 0) (db_counter db)"

lemma fresh_tracked: "db_fresh db \<Longrightarrow> all_tracked db"
  by (auto simp: db_fresh_def all_tracked_def tracked_def tracked_point_def point_events_def list_all_length f64_of_int_def split: option.splits)

lemma setConfig_HasEvent:
  "list_all (\<lambda>p. \<not> HasEvent p \<and> P (PValue p)) pts \<Longrightarrow> list_all (\<lambda>p. \<not> HasEvent p \<and> P (PValue p)) (fst (setConfig i cfg pts))"
  by (auto simp: setConfig_def Let_def list_all_length nth_list_update)

lemma fresh_NewDatabase: "(case evs of None \<Rightarrow> True | Some b \<Rightarrow> EBEvents b = []) \<Longrightarrow> db_fresh (NewDatabase cfg evs)"
  by (simp add: db_fresh_def NewDatabase_def makePoints_def list_all_length zero_of_def)

lemma fresh_Configure: "db_fresh db \<Longrightarrow> db_fresh (fst (Configure pt i cfg db))"
  unfolding db_fresh_def Configure_def Let_def
  by (simp add: split_def setConfig_HasEvent [of "\<lambda>v. MValue v = 0"])

lemma fresh_configured: "db_fresh db \<Longrightarrow> db_fresh (fold (\<lambda>(pt, i, cfg) db. fst (Configure pt i cfg db)) cfgs db)"
  by (rule fold_keeps [where P = db_fresh]) (auto intro: fresh_Configure)

text \<open>
  C12. No measurement drifts away unreported. Configure a new database as you like and then make
  any sequence of updates, freezes and command events, without configuring it again and with no
  response taking events away. Then every analog input, analog output, frozen analog and counter
  with an index of 16 bits has reported nothing and still has the value zero it was made with,
  or differs from the value last reported by no more than its deadband (or both are NaN). If
  the point has a class and has reported a value, then an event about it is queued, the last
  one queued carries exactly that value, and only an overflow of the buffer can have taken it
  away. So a slow ramp is reported as it crosses the deadband, however small its steps, and a
  reading that becomes NaN or recovers is news.
\<close>

theorem reported_within_deadband:
  "all_tracked (db_run grow ops
     (fold (\<lambda>(pt, i, cfg) db. fst (Configure pt i cfg db)) cfgs (NewDatabase dbcfg (Some (NewEventBuffer n)))))"
proof -
  have "db_fresh (fold (\<lambda>(pt, i, cfg) db. fst (Configure pt i cfg db)) cfgs (NewDatabase dbcfg (Some (NewEventBuffer n))))"
    by (intro fresh_configured fresh_NewDatabase) (simp add: NewEventBuffer_def Let_def)
  then show ?thesis by (rule fold_keeps [where P = all_tracked, rotated, OF fresh_tracked]) (rule db_step_tracked)
qed

section \<open>Octet strings share their arrays\<close>

text \<open>The octets an event will be reported with, when it is encoded now.\<close>

definition event_octets :: "database \<Rightarrow> db_event \<Rightarrow> byte list" where
  "event_octets db e = slice_octets (db_store db) (VOctetString (EValue e))"

definition queued :: "database \<Rightarrow> db_event list" where
  "queued db = (case db_events db of None \<Rightarrow> [] | Some b \<Rightarrow> EBEvents b)"

lemma queued_raise:
  assumes "db_events db = Some b" "PClass c \<noteq> ClassNone"
  shows "\<exists>q. last (queued (raise c e db)) = e\<lparr>EClass := PClass c, ESeq := q\<rparr>"
proof -
  obtain q where "EBEvents (EB_Add (e\<lparr>EClass := PClass c\<rparr>) b) =
      (if EBMax b \<le> length (EBEvents b) then tl (EBEvents b) else EBEvents b) @ [e\<lparr>EClass := PClass c, ESeq := q\<rparr>]"
    using EBEvents_Add by blast
  then show ?thesis using assms by (auto simp: queued_def raise_def)
qed

lemma slice_octets_append: "SAddr s < length m \<Longrightarrow> slice_octets (m @ xs) s = slice_octets m s"
  by (simp add: slice_octets_def nth_append)

text \<open>What an update of an octet string leaves: the point has the new octets, and the event it raised shares their array.\<close>

lemma UpdateOctetString_result:
  fixes grow i v db
  defines "p \<equiv> db_octet db ! unat i" and "db' \<equiv> UpdateOctetString grow i v db"
  assumes "unat i < length (db_octet db)" "length v \<le> 255" "SAddr (PValue p) < length (db_store db)"
  shows "PCfg (db_octet db' ! unat i) = PCfg p" "length (db_octet db') = length (db_octet db)"
    "SLen (PValue (db_octet db' ! unat i)) = length v"
    "SAddr (PValue (db_octet db' ! unat i)) < length (db_store db')"
    "slice_octets (db_store db') (PValue (db_octet db' ! unat i)) = v"
    "db_events db = Some b \<Longrightarrow> PClass (PCfg p) \<noteq> ClassNone \<Longrightarrow> slice_octets (db_store db) (PValue p) \<noteq> v \<Longrightarrow>
       VOctetString (EValue (last (queued db'))) = PValue (db_octet db' ! unat i) \<and> (\<exists>b'. db_events db' = Some b')"
proof -
  obtain m s where ms: "append_from_start grow (PValue p) v (db_store db) = (m, s)" by fastforce
  let ?db0 = "db\<lparr>db_store := m, db_octet := (db_octet db)[unat i := p\<lparr>PValue := s\<rparr>]\<rparr>"
  let ?e = "Event TypeOctetString i (of_nat (length v)) (no_value\<lparr>VOctetString := s\<rparr>)"
  have u: "db' = (if slice_octets (db_store db) (PValue p) \<noteq> v then raise (PCfg p) ?e ?db0 else ?db0)"
    using assms(3,4) ms unfolding db'_def p_def by (simp add: UpdateOctetString_def Let_def p_def)
  have s: "SLen s = length v" "SAddr s < length m" "slice_octets m s = v"
    using ms assms(5) by (auto simp: append_from_start_def slice_alloc_def slice_octets_def Let_def nth_append split: if_splits)
  have at: "db_octet db' ! unat i = p\<lparr>PValue := s\<rparr>" "db_store db' = m" using u assms(3) by simp_all
  show "PCfg (db_octet db' ! unat i) = PCfg p" "length (db_octet db') = length (db_octet db)"
    "SLen (PValue (db_octet db' ! unat i)) = length v"
    "SAddr (PValue (db_octet db' ! unat i)) < length (db_store db')"
    "slice_octets (db_store db') (PValue (db_octet db' ! unat i)) = v"
    using at s u by simp_all
  assume e: "db_events db = Some b" "PClass (PCfg p) \<noteq> ClassNone" "slice_octets (db_store db) (PValue p) \<noteq> v"
  then obtain q where "last (queued db') = ?e\<lparr>EClass := PClass (PCfg p), ESeq := q\<rparr>"
    using queued_raise [of ?db0 b "PCfg p" ?e] u by auto
  then show "VOctetString (EValue (last (queued db'))) = PValue (db_octet db' ! unat i) \<and> (\<exists>b'. db_events db' = Some b')"
    using at e u by (simp add: raise_def)
qed

text \<open>
  C36. An unconfirmed octet string event does not keep its octets. When a point is set to \<open>v\<close> and
  then, before the master has confirmed the event, to a \<open>w\<close> that is no longer, the second
  update writes into the array the queued event still points to: the event is then reported with
  \<open>w\<close> followed by the rest of \<open>v\<close>, a value the point never had.
\<close>

theorem octet_event_overwritten:
  assumes "unat i < length (db_octet db)" "SAddr (PValue (db_octet db ! unat i)) < length (db_store db)"
    and "db_events db = Some b" "PClass (PCfg (db_octet db ! unat i)) \<noteq> ClassNone"
    and "fst (DB_OctetString db i) \<noteq> v" "length v \<le> 255" "length w \<le> length v"
  shows "let db1 = UpdateOctetString grow i v db; e = last (queued db1); db2 = UpdateOctetString grow i w db1
    in event_octets db1 e = v \<and> event_octets db2 e = w @ drop (length w) v"
proof -
  define db1 where "db1 = UpdateOctetString grow i v db"
  define e where "e = last (queued db1)"
  define s where "s = PValue (db_octet db1 ! unat i)"
  have old: "slice_octets (db_store db) (PValue (db_octet db ! unat i)) \<noteq> v"
    using assms(1,5) by (simp add: DB_OctetString_def db_get_def Let_def)
  note r = UpdateOctetString_result [OF assms(1,6,2), where grow = grow, folded db1_def]
  have e: "VOctetString (EValue e) = s" using r(6) [OF assms(3,4) old] by (simp add: e_def s_def)
  have s: "slice_octets (db_store db1) s = v" "SLen s = length v" "SAddr s < length (db_store db1)"
    using r by (simp_all add: s_def)
  have fits: "length w \<le> length (db_store db1 ! SAddr s)" using s(1) assms(7) by (auto simp: slice_octets_def)
  have len: "unat i < length (db_octet db1)" "length w \<le> 255" using r(2) assms by simp_all
  have "db_store (UpdateOctetString grow i w db1) = (db_store db1)[SAddr s := w @ drop (length w) (db_store db1 ! SAddr s)]"
    using len fits by (simp add: UpdateOctetString_def append_from_start_def Let_def s_def)
  then have "event_octets (UpdateOctetString grow i w db1) e = take (length v) (w @ drop (length w) (db_store db1 ! SAddr s))"
    using s e by (simp add: event_octets_def slice_octets_def)
  also have "\<dots> = w @ drop (length w) (take (length v) (db_store db1 ! SAddr s))" using assms(7) by (simp add: drop_take)
  also have "\<dots> = w @ drop (length w) v" using s(1,2) by (simp add: slice_octets_def)
  finally show ?thesis unfolding Let_def db1_def [symmetric] e_def [symmetric] using s(1) e by (simp add: event_octets_def)
qed

definition one_string :: database where
  "one_string = NewDatabase \<lparr>NBinary = 0, NDoubleBitBinary = 0, NCounter = 0, NFrozenCounter = 0, NAnalog = 0, NFrozenAnalog = 0,
     NTimeAndInterval = 0, NVirtualTerminal = 0, NBinaryOutputStatus = 0, NAnalogOutputStatus = 0, NOctetString = 1,
     DefaultClass = Class1\<rparr> (Some (NewEventBuffer 10))"

theorem octet_event_overwritten_witness:
  "let db1 = UpdateOctetString (\<lambda>_ n. n) 0 [0x41, 0x42, 0x43] one_string; e = last (queued db1);
       db2 = UpdateOctetString (\<lambda>_ n. n) 0 [0x58, 0x59] db1
   in event_octets db1 e = [0x41, 0x42, 0x43] \<and> event_octets db2 e = [0x58, 0x59, 0x43]"
  using octet_event_overwritten [of 0 one_string "NewEventBuffer 10" "[0x41, 0x42, 0x43]" "[0x58, 0x59]" "\<lambda>_ n. n"]
  by (simp add: one_string_def NewDatabase_def makePoints_def nil_slice_def DB_OctetString_def db_get_def slice_octets_def no_config_def)

text \<open>Terminal input is copied: whatever is already queued keeps its octets.\<close>

theorem terminal_events_keep:
  assumes "SAddr (VOctetString (EValue e)) < length (db_store db)"
  shows "event_octets (UpdateVirtualTerminal grow i v db) e = event_octets db e"
  using assms slice_octets_append
  by (simp add: UpdateVirtualTerminal_def event_octets_def append_nil_def slice_alloc_def Let_def)

section \<open>Freezes take a snapshot\<close>

definition frozen_of :: "timestamp \<Rightarrow> Counter \<Rightarrow> FrozenCounter" where
  "frozen_of ts c = \<lparr>MValue = MValue c, MFlags = MFlags c, MTime = ts\<rparr>"

lemma setCounter_sel:
  "db_frozen (setCounter i v db) = db_frozen db" "length (db_counter (setCounter i v db)) = length (db_counter db)"
  "j \<noteq> unat i \<Longrightarrow> db_counter (setCounter i v db) ! j = db_counter db ! j"
  "unat i < length (db_counter db) \<Longrightarrow> PValue (db_counter (setCounter i v db) ! unat i) = v"
  by (simp_all add: setCounter_def Let_def split_def)

lemma setFrozen_sel:
  "db_counter (setFrozen i v f db) = db_counter db" "length (db_frozen (setFrozen i v f db)) = length (db_frozen db)"
  "j \<noteq> i \<Longrightarrow> db_frozen (setFrozen i v f db) ! j = db_frozen db ! j"
  "i < length (db_frozen db) \<Longrightarrow> db_frozen (setFrozen i v f db) ! i = (db_frozen db ! i)\<lparr>PValue := v\<rparr>"
  by (simp_all add: setFrozen_def Let_def)

lemma freeze_counter_sel:
  assumes "i < length (db_counter db)" "i < length (db_frozen db)" "i < 65536"
  shows "length (db_frozen (freeze_counter ts clear i db)) = length (db_frozen db)"
    "length (db_counter (freeze_counter ts clear i db)) = length (db_counter db)"
    "j \<noteq> i \<Longrightarrow> db_frozen (freeze_counter ts clear i db) ! j = db_frozen db ! j"
    "j \<noteq> i \<Longrightarrow> db_counter (freeze_counter ts clear i db) ! j = db_counter db ! j"
    "db_frozen (freeze_counter ts clear i db) ! i = (db_frozen db ! i)\<lparr>PValue := frozen_of ts (PValue (db_counter db ! i))\<rparr>"
    "PValue (db_counter (freeze_counter ts clear i db) ! i) =
       (if clear then (PValue (db_counter db ! i))\<lparr>MValue := 0, MTime := ts\<rparr> else PValue (db_counter db ! i))"
proof -
  have u: "unat (of_nat i :: u16) = i" using assms(3) by (simp add: unat_of_nat)
  show "length (db_frozen (freeze_counter ts clear i db)) = length (db_frozen db)"
    "length (db_counter (freeze_counter ts clear i db)) = length (db_counter db)"
    "j \<noteq> i \<Longrightarrow> db_frozen (freeze_counter ts clear i db) ! j = db_frozen db ! j"
    "j \<noteq> i \<Longrightarrow> db_counter (freeze_counter ts clear i db) ! j = db_counter db ! j"
    "db_frozen (freeze_counter ts clear i db) ! i = (db_frozen db ! i)\<lparr>PValue := frozen_of ts (PValue (db_counter db ! i))\<rparr>"
    using assms by (simp_all add: freeze_counter_def Let_def setCounter_sel setFrozen_sel u frozen_of_def)
  show "PValue (db_counter (freeze_counter ts clear i db) ! i) =
      (if clear then (PValue (db_counter db ! i))\<lparr>MValue := 0, MTime := ts\<rparr> else PValue (db_counter db ! i))"
    using assms setCounter_sel(4) [of "of_nat i" "setFrozen i _ True db"]
    by (simp add: freeze_counter_def Let_def setFrozen_sel u)
qed

lemma freeze_fold:
  assumes "distinct xs" "\<forall>i \<in> set xs. i < length (db_counter db) \<and> i < length (db_frozen db) \<and> i < 65536"
  shows "length (db_frozen (fold (freeze_counter ts clear) xs db)) = length (db_frozen db) \<and>
    length (db_counter (fold (freeze_counter ts clear) xs db)) = length (db_counter db) \<and>
    PValue (db_frozen (fold (freeze_counter ts clear) xs db) ! j) =
      (if j \<in> set xs then frozen_of ts (PValue (db_counter db ! j)) else PValue (db_frozen db ! j)) \<and>
    PValue (db_counter (fold (freeze_counter ts clear) xs db) ! j) =
      (if j \<in> set xs \<and> clear then (PValue (db_counter db ! j))\<lparr>MValue := 0, MTime := ts\<rparr> else PValue (db_counter db ! j))"
  using assms
proof (induction xs arbitrary: db)
  case (Cons i xs)
  have i: "i < length (db_counter db)" "i < length (db_frozen db)" "i < 65536" "i \<notin> set xs" using Cons.prems by simp_all
  note f = freeze_counter_sel [OF i(1-3), where ts = ts and clear = clear]
  have "distinct xs" "\<forall>k \<in> set xs. k < length (db_counter (freeze_counter ts clear i db)) \<and>
      k < length (db_frozen (freeze_counter ts clear i db)) \<and> k < 65536"
    using Cons.prems f(1,2) by simp_all
  note IH = Cons.IH [OF this]
  show ?case
  proof (cases "j = i")
    case True
    show ?thesis using i(4) by (simp add: True IH [unfolded True] f)
  next
    case False
    show ?thesis using False by (simp add: IH f(1,2) freeze_counter_sel(3,4) [OF i(1-3) False])
  qed
qed simp

definition freeze_event :: "timestamp \<Rightarrow> database \<Rightarrow> nat \<Rightarrow> db_event list" where
  "freeze_event ts db i =
     (let p = db_frozen db ! i
      in if PClass (PCfg p) = ClassNone then []
         else [(Event TypeFrozenCounter (of_nat i) (EventVariation (PCfg p))
                  (no_value\<lparr>VFrozenCounter := frozen_of ts (PValue (db_counter db ! i)), VTime := ts\<rparr>))\<lparr>EClass := PClass (PCfg p)\<rparr>])"

definition add_all :: "db_event list \<Rightarrow> event_value event_buffer option \<Rightarrow> event_value event_buffer option" where
  "add_all es = map_option (\<lambda>b. foldl (\<lambda>b e. EB_Add e b) b es)"

lemma add_all_append: "add_all (xs @ ys) b = add_all ys (add_all xs b)"
  by (cases b) (simp_all add: add_all_def)

lemma freeze_counter_events:
  assumes "i < length (db_counter db)" "i < length (db_frozen db)" "i < 65536"
  shows "db_events (freeze_counter ts False i db) = add_all (freeze_event ts db i) (db_events db)"
  using assms by (cases "db_events db") (simp_all add: freeze_counter_def setFrozen_def raise_def freeze_event_def add_all_def frozen_of_def Let_def)

lemma freeze_fold_events:
  assumes "distinct xs" "\<forall>i \<in> set xs. i < length (db_counter db) \<and> i < length (db_frozen db) \<and> i < 65536"
  shows "db_events (fold (freeze_counter ts False) xs db) = add_all (concat (map (freeze_event ts db) xs)) (db_events db)"
  using assms
proof (induction xs arbitrary: db)
  case Nil
  then show ?case by (simp add: add_all_def option.map_ident)
next
  case (Cons i xs)
  have i: "i < length (db_counter db)" "i < length (db_frozen db)" "i < 65536" "i \<notin> set xs" using Cons.prems by simp_all
  note f = freeze_counter_sel [OF i(1-3), where ts = ts and clear = False]
  have "freeze_event ts (freeze_counter ts False i db) k = freeze_event ts db k" if "k \<in> set xs" for k
  proof -
    have "k \<noteq> i" using that i(4) by auto
    then show ?thesis using f(3,4) [of k] by (simp add: freeze_event_def Let_def)
  qed
  then have "map (freeze_event ts (freeze_counter ts False i db)) xs = map (freeze_event ts db) xs" by simp
  moreover have "db_events (fold (freeze_counter ts False) xs (freeze_counter ts False i db)) =
      add_all (concat (map (freeze_event ts (freeze_counter ts False i db)) xs)) (db_events (freeze_counter ts False i db))"
    using Cons.prems f(1,2) by (intro Cons.IH) simp_all
  ultimately show ?case
    using freeze_counter_events [OF i(1-3), of ts] by (simp only: fold_Cons comp_def list.map concat.simps add_all_append)
qed

text \<open>
  C34. A freeze is an exact snapshot. Every counter in the range that has a frozen counterpart is
  copied to it, value and flags as they are and the time the freeze was taken; with FREEZE_CLEAR
  the counter then restarts from zero; nothing outside the range changes. A plain freeze queues
  exactly one event per frozen point that has a class, in index order, whether or not the value
  moved.
\<close>

theorem freeze_is_snapshot:
  fixes start stop :: u16 and db :: database
  defines "named \<equiv> \<lambda>i. unat start \<le> i \<and> i \<le> unat stop \<and> i < length (db_counter db) \<and> i < length (db_frozen db)"
  shows "map PValue (db_frozen (freezeRange start stop ts clear db)) =
      map (\<lambda>i. if named i then frozen_of ts (PValue (db_counter db ! i)) else PValue (db_frozen db ! i)) [0..<length (db_frozen db)] \<and>
    map PValue (db_counter (freezeRange start stop ts clear db)) =
      map (\<lambda>i. if named i \<and> clear then (PValue (db_counter db ! i))\<lparr>MValue := 0, MTime := ts\<rparr> else PValue (db_counter db ! i))
        [0..<length (db_counter db)] \<and>
    db_events (freezeCountersRange start stop ts db) =
      add_all (concat (map (freeze_event ts db) (filter named [0..<length (db_frozen db)]))) (db_events db)"
proof -
  define xs where "xs = [unat start ..< min (unat stop + 1) (min (length (db_counter db)) (length (db_frozen db)))]"
  have ok: "distinct xs" "\<forall>i \<in> set xs. i < length (db_counter db) \<and> i < length (db_frozen db) \<and> i < 65536"
  proof -
    have "i < 65536" if "i < unat stop + 1" for i using that u16_of_unat(2) [of stop] by linarith
    then show "\<forall>i \<in> set xs. i < length (db_counter db) \<and> i < length (db_frozen db) \<and> i < 65536" by (simp add: xs_def)
  qed (simp add: xs_def)
  have "set xs = {i. named i}" by (auto simp: named_def xs_def)
  then have mem: "i \<in> set xs \<longleftrightarrow> named i" for i by blast
  have "filter named [0..<length (db_frozen db)] = xs"
    by (rule sorted_distinct_set_unique) (auto simp: named_def xs_def sorted_wrt_filter intro: sorted_filter)
  then have ev: "db_events (freezeCountersRange start stop ts db) =
      add_all (concat (map (freeze_event ts db) (filter named [0..<length (db_frozen db)]))) (db_events db)"
    using freeze_fold_events [OF ok, of ts] by (simp add: freezeRange_def freezeCountersRange_def Let_def xs_def)
  note fold = freeze_fold [OF ok, of ts, unfolded mem]
  show ?thesis
  proof (intro conjI ev)
    show "map PValue (db_frozen (freezeRange start stop ts clear db)) =
        map (\<lambda>i. if named i then frozen_of ts (PValue (db_counter db ! i)) else PValue (db_frozen db ! i)) [0..<length (db_frozen db)]"
      unfolding freezeRange_def Let_def xs_def [symmetric] by (rule nth_equalityI) (simp_all add: fold)
    show "map PValue (db_counter (freezeRange start stop ts clear db)) =
        map (\<lambda>i. if named i \<and> clear then (PValue (db_counter db ! i))\<lparr>MValue := 0, MTime := ts\<rparr> else PValue (db_counter db ! i))
          [0..<length (db_counter db)]"
      unfolding freezeRange_def Let_def xs_def [symmetric] by (rule nth_equalityI) (simp_all add: fold)
  qed
qed

section \<open>Every event can be reported\<close>

definition variation_ok :: "PointType \<Rightarrow> byte \<Rightarrow> bool" where
  "variation_ok pt v \<longleftrightarrow> v \<noteq> 0 \<and> eventVariationEncodable pt v"

definition config_ok :: "PointType \<Rightarrow> 'a point \<Rightarrow> bool" where
  "config_ok pt p \<longleftrightarrow> variation_ok pt (EventVariation (PCfg p))"

text \<open>An event with an encoding; only an octet string may have been cut to nothing.\<close>

definition event_ok :: "db_event \<Rightarrow> bool" where
  "event_ok e \<longleftrightarrow> EType e = TypeOctetString \<or> EType e = TypeDataset \<or> variation_ok (EType e) (EVariation e)"

definition encodable_inv :: "database \<Rightarrow> bool" where
  "encodable_inv db \<longleftrightarrow>
     list_all (config_ok TypeBinary) (db_binary db) \<and> list_all (config_ok TypeDoubleBitBinary) (db_doubleBit db) \<and>
     list_all (config_ok TypeCounter) (db_counter db) \<and> list_all (config_ok TypeFrozenCounter) (db_frozen db) \<and>
     list_all (config_ok TypeAnalog) (db_analog db) \<and> list_all (config_ok TypeFrozenAnalog) (db_frozenAnalog db) \<and>
     list_all (config_ok TypeBinaryOutputStatus) (db_binaryOut db) \<and> list_all (config_ok TypeAnalogOutputStatus) (db_analogOut db) \<and>
     list_all event_ok (queued db)"

lemma described_variation:
  assumes "v \<noteq> 0" "list_ex (\<lambda>((g, w), d). g = eventGroup pt \<and> w = v \<and> snd (SizeOctets d) \<and> fst (SizeOctets d) > 0) descriptors"
  shows "variation_ok pt v"
proof -
  obtain d where d: "((eventGroup pt, v), d) \<in> set descriptors" "snd (SizeOctets d)" "fst (SizeOctets d) > 0"
    using assms(2) by (auto simp: list_ex_iff)
  then have "Lookup (eventGroup pt, v) = Some d" using distinct_descriptors by (simp add: Lookup_def)
  then show ?thesis using assms(1) d by (simp add: variation_ok_def eventVariationEncodable_def)
qed

lemma standard_variations:
  "variation_ok TypeBinary 2" "variation_ok TypeDoubleBitBinary 2" "variation_ok TypeCounter 5" "variation_ok TypeFrozenCounter 5"
  "variation_ok TypeFrozenAnalog 3" "variation_ok TypeAnalog 3" "variation_ok TypeBinaryOutputStatus 2" "variation_ok TypeAnalogOutputStatus 3"
  by (rule described_variation; simp add: eventGroup_def descriptor_tables SizeOctets_def)+

lemma command_variations:
  "variation_ok TypeBinaryCommandEvent 1" "variation_ok TypeBinaryCommandEvent 2"
  "variation_ok TypeAnalogCommandEvent 1" "variation_ok TypeAnalogCommandEvent 2" "variation_ok TypeAnalogCommandEvent 3"
  "variation_ok TypeAnalogCommandEvent 4" "variation_ok TypeAnalogCommandEvent 5" "variation_ok TypeAnalogCommandEvent 6"
  "variation_ok TypeAnalogCommandEvent 7" "variation_ok TypeAnalogCommandEvent 8"
  by (rule described_variation; simp add: eventGroup_def descriptor_tables SizeOctets_def)+

lemma small_byte: "1 \<le> (v :: byte) \<Longrightarrow> v \<le> 8 \<Longrightarrow> v \<in> {1, 2, 3, 4, 5, 6, 7, 8}"
proof -
  assume "1 \<le> v" "v \<le> 8"
  then have "unat v \<in> {1, 2, 3, 4, 5, 6, 7, 8}" by (auto simp: word_le_nat_alt)
  then have "of_nat (unat v) \<in> (of_nat ` {1, 2, 3, 4, 5, 6, 7, 8} :: byte set)" by (rule imageI)
  then show ?thesis by simp
qed

lemma encodable_raise:
  assumes "encodable_inv db0" "event_ok e"
  shows "encodable_inv (raise c e db0)"
proof -
  have "set (queued (raise c e db0)) \<subseteq> set (queued db0) \<union> {x. \<exists>q. x = e\<lparr>EClass := PClass c, ESeq := q\<rparr>}"
  proof (cases "db_events db0")
    case (Some b)
    obtain q where "EBEvents (EB_Add (e\<lparr>EClass := PClass c\<rparr>) b) =
        (if EBMax b \<le> length (EBEvents b) then tl (EBEvents b) else EBEvents b) @ [e\<lparr>EClass := PClass c, ESeq := q\<rparr>]"
      using EBEvents_Add by blast
    moreover have "set (tl (EBEvents b)) \<subseteq> set (EBEvents b)" by (cases "EBEvents b") auto
    ultimately show ?thesis using Some by (auto simp: queued_def raise_def split: if_splits)
  qed (simp add: queued_def raise_def)
  moreover have "event_ok (e\<lparr>EClass := PClass c, ESeq := q\<rparr>)" for q using assms(2) by (simp add: event_ok_def)
  ultimately have "list_all event_ok (queued (raise c e db0))" using assms(1) by (auto simp: encodable_inv_def list_all_iff)
  then show ?thesis using assms(1) by (simp add: encodable_inv_def)
qed

lemma list_all_put: "list_all P xs \<Longrightarrow> (i < length xs \<Longrightarrow> P y) \<Longrightarrow> list_all P (xs[i := y])"
  by (cases "i < length xs") (auto simp: list_all_length nth_list_update)

lemma list_all_at: "list_all P xs \<Longrightarrow> i < length xs \<Longrightarrow> P (xs ! i)"
  by (simp add: list_all_length)

lemma encodable_store:
  assumes "encodable_inv db"
  shows "i < length (db_binary db) \<Longrightarrow> PCfg p0 = PCfg (db_binary db ! i) \<Longrightarrow> encodable_inv (db\<lparr>db_binary := (db_binary db)[i := p0]\<rparr>)"
    "i < length (db_doubleBit db) \<Longrightarrow> PCfg p1 = PCfg (db_doubleBit db ! i) \<Longrightarrow> encodable_inv (db\<lparr>db_doubleBit := (db_doubleBit db)[i := p1]\<rparr>)"
    "i < length (db_counter db) \<Longrightarrow> PCfg p2 = PCfg (db_counter db ! i) \<Longrightarrow> encodable_inv (db\<lparr>db_counter := (db_counter db)[i := p2]\<rparr>)"
    "i < length (db_frozen db) \<Longrightarrow> PCfg p3 = PCfg (db_frozen db ! i) \<Longrightarrow> encodable_inv (db\<lparr>db_frozen := (db_frozen db)[i := p3]\<rparr>)"
    "i < length (db_analog db) \<Longrightarrow> PCfg p4 = PCfg (db_analog db ! i) \<Longrightarrow> encodable_inv (db\<lparr>db_analog := (db_analog db)[i := p4]\<rparr>)"
    "i < length (db_frozenAnalog db) \<Longrightarrow> PCfg p5 = PCfg (db_frozenAnalog db ! i) \<Longrightarrow> encodable_inv (db\<lparr>db_frozenAnalog := (db_frozenAnalog db)[i := p5]\<rparr>)"
    "i < length (db_binaryOut db) \<Longrightarrow> PCfg p6 = PCfg (db_binaryOut db ! i) \<Longrightarrow> encodable_inv (db\<lparr>db_binaryOut := (db_binaryOut db)[i := p6]\<rparr>)"
    "i < length (db_analogOut db) \<Longrightarrow> PCfg p7 = PCfg (db_analogOut db ! i) \<Longrightarrow> encodable_inv (db\<lparr>db_analogOut := (db_analogOut db)[i := p7]\<rparr>)"
  using assms by (auto simp: encodable_inv_def queued_def config_ok_def intro!: list_all_put dest: list_all_at)

lemma encodable_event:
  assumes "encodable_inv db"
  shows "i < length (db_binary db) \<Longrightarrow> event_ok (Event TypeBinary k (EventVariation (PCfg (db_binary db ! i))) x)"
    "i < length (db_doubleBit db) \<Longrightarrow> event_ok (Event TypeDoubleBitBinary k (EventVariation (PCfg (db_doubleBit db ! i))) x)"
    "i < length (db_counter db) \<Longrightarrow> event_ok (Event TypeCounter k (EventVariation (PCfg (db_counter db ! i))) x)"
    "i < length (db_frozen db) \<Longrightarrow> event_ok (Event TypeFrozenCounter k (EventVariation (PCfg (db_frozen db ! i))) x)"
    "i < length (db_analog db) \<Longrightarrow> event_ok (Event TypeAnalog k (EventVariation (PCfg (db_analog db ! i))) x)"
    "i < length (db_frozenAnalog db) \<Longrightarrow> event_ok (Event TypeFrozenAnalog k (EventVariation (PCfg (db_frozenAnalog db ! i))) x)"
    "i < length (db_binaryOut db) \<Longrightarrow> event_ok (Event TypeBinaryOutputStatus k (EventVariation (PCfg (db_binaryOut db ! i))) x)"
    "i < length (db_analogOut db) \<Longrightarrow> event_ok (Event TypeAnalogOutputStatus k (EventVariation (PCfg (db_analogOut db ! i))) x)"
  using assms by (auto simp: encodable_inv_def event_ok_def Event_def config_ok_def dest: list_all_at)

lemma encodable_other:
  assumes "encodable_inv db"
  shows "encodable_inv (db\<lparr>db_timeAndInterval := a\<rparr>)" "encodable_inv (db\<lparr>db_store := m, db_octet := b\<rparr>)"
    "encodable_inv (db\<lparr>db_store := m, db_terminal := c\<rparr>)" "encodable_inv (db\<lparr>db_datasets := d\<rparr>)"
  using assms by (simp_all add: encodable_inv_def queued_def)

lemmas encodable_rules = encodable_raise encodable_store encodable_event

lemma encodable_updates:
  assumes "encodable_inv db"
  shows "encodable_inv (UpdateBinary i v1 db)" "encodable_inv (UpdateDoubleBit i v2 db)" "encodable_inv (UpdateBinaryOutputStatus i v3 db)"
    "k < length (db_frozen db) \<Longrightarrow> encodable_inv (setFrozen k v4 f db)"
  using assms by (auto simp: UpdateBinary_def UpdateDoubleBit_def UpdateBinaryOutputStatus_def setFrozen_def Let_def not_le intro!: encodable_rules)

lemma encodable_reported:
  assumes "encodable_inv db"
  shows "encodable_inv (UpdateAnalog i v db)" "encodable_inv (UpdateAnalogOutputStatus i v db)"
    "unat i < length (db_frozenAnalog db) \<Longrightarrow> encodable_inv (setFrozenAnalog i v f db)" "encodable_inv (setCounter i c db)"
  using assms by (auto simp: UpdateAnalog_def UpdateAnalogOutputStatus_def setFrozenAnalog_def setCounter_def Let_def split_def not_le intro!: encodable_rules)

lemma encodable_strings:
  assumes "encodable_inv db"
  shows "encodable_inv (UpdateOctetString grow i v db)" "encodable_inv (UpdateVirtualTerminal grow i v db)"
proof -
  have "event_ok (Event TypeOctetString i n x)" for n x by (simp add: event_ok_def)
  then show "encodable_inv (UpdateOctetString grow i v db)"
    using assms by (auto simp: UpdateOctetString_def Let_def split_def intro!: encodable_raise encodable_other)
  have "event_ok (Event TypeVirtualTerminal i (of_nat (length v)) x)" if "length v \<noteq> 0" "length v \<le> 255" for x
  proof -
    have "unat (of_nat (length v) :: byte) = length v" using that(2) by (simp add: unat_of_nat)
    then have "(of_nat (length v) :: byte) \<noteq> 0" using that(1) by (metis unsigned_0)
    then show ?thesis by (simp add: event_ok_def variation_ok_def eventVariationEncodable_def Event_def)
  qed
  then show "encodable_inv (UpdateVirtualTerminal grow i v db)"
    using assms by (auto simp: UpdateVirtualTerminal_def Let_def split_def not_le not_less intro!: encodable_raise encodable_other)
qed

lemma encodable_commands:
  assumes "encodable_inv db"
  shows "encodable_inv (RaiseBinaryCommandEvent i st status now db)" "encodable_inv (RaiseAnalogCommandEvent i x cv status now db)"
proof -
  have b: "event_ok (Event TypeBinaryCommandEvent i n v)" if "n = 1 \<or> n = 2" for n v
    using that command_variations by (auto simp: event_ok_def Event_def)
  then show "encodable_inv (RaiseBinaryCommandEvent i st status now db)"
    using assms by (auto simp: RaiseBinaryCommandEvent_def Let_def queue_as_raise split: option.split intro!: encodable_raise)
  have "event_ok (Event TypeAnalogCommandEvent i n v)" if "n \<noteq> 0" "n \<le> 8" for n v
  proof -
    have "1 \<le> n" using that(1) by (simp flip: linorder_not_less)
    then show ?thesis using small_byte [OF _ that(2)] command_variations by (auto simp: event_ok_def Event_def)
  qed
  then show "encodable_inv (RaiseAnalogCommandEvent i x cv status now db)"
    using assms by (auto simp: RaiseAnalogCommandEvent_def Let_def queue_as_raise not_less split: option.split intro!: encodable_raise)
qed

lemma encodable_dataset:
  assumes "encodable_inv db"
  shows "encodable_inv (fst (UpdateDataset g v i d c db))"
proof -
  have "event_ok (Event TypeDataset i 1 x)" for x by (simp add: event_ok_def)
  then show ?thesis
    using UpdateDataset_moves [of g v i d c db] assms encodable_other(4) [OF assms] encodable_raise unfolding Let_def by metis
qed

lemma encodable_freeze:
  assumes "encodable_inv db" "i < length (db_frozen db)"
  shows "encodable_inv (freeze_counter ts clear i db)"
  using assms by (simp add: freeze_counter_def Let_def encodable_updates encodable_reported)

lemma encodable_freeze_analog:
  assumes "encodable_inv db" "i < length (db_frozenAnalog db)" "i < length (db_analog db)" "i < 65536"
  shows "encodable_inv (freeze_analog ts clear i db)"
proof -
  have u: "unat (of_nat i :: u16) = i" using assms(4) by (simp add: unat_of_nat)
  let ?db = "setFrozenAnalog (of_nat i) ((PValue (db_analog db ! i))\<lparr>MTime := ts\<rparr>) True db"
  have e: "encodable_inv ?db" using assms u by (intro encodable_reported) simp_all
  have same: "db_analog ?db = db_analog db" by (simp add: setFrozenAnalog_def Let_def split_def)
  show ?thesis
    using e assms(3) encodable_store(5) [OF e] encodable_event(5) [OF e]
    by (auto simp: freeze_analog_def Let_def split_def same intro!: encodable_raise)
qed

lemma lengths_freeze: "length (db_frozen (freeze_counter ts clear i db)) = length (db_frozen db)"
  by (simp add: freeze_counter_def Let_def setFrozen_sel setCounter_sel)

lemma lengths_freeze_analog:
  "length (db_frozenAnalog (freeze_analog ts clear i db)) = length (db_frozenAnalog db)"
  "length (db_analog (freeze_analog ts clear i db)) = length (db_analog db)"
  by (simp_all add: freeze_analog_def setFrozenAnalog_def Let_def split_def)

lemma encodable_step: assumes "encodable_inv db" shows "encodable_inv (db_step grow op db)"
proof (cases op)
  case (OpFreeze start stop ts clear)
  have "encodable_inv (fold (freeze_counter ts clear) xs db) \<and> length (db_frozen (fold (freeze_counter ts clear) xs db)) = n"
    if "\<forall>i \<in> set xs. i < n" "n = length (db_frozen db)" for xs n
    by (rule fold_keeps [where P = "\<lambda>db. encodable_inv db \<and> length (db_frozen db) = n"])
      (use that assms in \<open>auto simp: encodable_freeze lengths_freeze\<close>)
  then show ?thesis by (simp add: OpFreeze freezeRange_def Let_def)
next
  case (OpFreezeAnalogs start stop ts clear)
  have "encodable_inv (fold (freeze_analog ts clear) xs db) \<and> length (db_frozenAnalog (fold (freeze_analog ts clear) xs db)) = n \<and>
      length (db_analog (fold (freeze_analog ts clear) xs db)) = m"
    if "\<forall>i \<in> set xs. i < n \<and> i < m \<and> i < 65536" "n = length (db_frozenAnalog db)" "m = length (db_analog db)" for xs n m
    by (rule fold_keeps [where P = "\<lambda>db. encodable_inv db \<and> length (db_frozenAnalog db) = n \<and> length (db_analog db) = m"])
      (use that assms in \<open>auto simp: encodable_freeze_analog lengths_freeze_analog\<close>)
  moreover have "i < 65536" if "i < unat stop + 1" for i using that u16_of_unat(2) [of stop] by linarith
  ultimately show ?thesis by (simp add: OpFreezeAnalogs freezeAnalogsRange_def)
qed (use assms in \<open>simp_all add: encodable_updates encodable_reported encodable_strings encodable_commands encodable_dataset
  UpdateCounter_def UpdateFrozenCounter_def UpdateFrozenAnalog_def UpdateTimeAndInterval_def encodable_other\<close>)

lemma setConfig_ok:
  assumes "list_all (config_ok pt) pts" "eventVariationEncodable pt (EventVariation cfg)"
  shows "list_all (config_ok pt) (fst (setConfig i cfg pts))"
proof (cases "length pts \<le> i")
  case False
  then have "config_ok pt (pts ! i)" using assms(1) by (simp add: list_all_length)
  then show ?thesis using assms False
    by (auto simp: setConfig_def Let_def config_ok_def variation_ok_def intro!: list_all_put)
qed (use assms in \<open>simp add: setConfig_def\<close>)

lemma encodable_Configure: "encodable_inv db \<Longrightarrow> encodable_inv (fst (Configure pt i cfg db))"
  unfolding Configure_def Let_def by (auto simp: split_def encodable_inv_def queued_def setConfig_ok)

lemma assignClass_ok: "list_all (config_ok pt) pts \<Longrightarrow> list_all (config_ok pt) (assignClass cls start stop pts)"
proof -
  have "list_all (config_ok pt) pts \<Longrightarrow> list_all (config_ok pt)
      (foldl (\<lambda>pts i. pts[i := (pts ! i)\<lparr>PCfg := (PCfg (pts ! i))\<lparr>PClass := cls\<rparr>\<rparr>]) pts xs)" for xs
  proof (induction xs arbitrary: pts)
    case (Cons i xs)
    have "list_all (config_ok pt) (pts[i := (pts ! i)\<lparr>PCfg := (PCfg (pts ! i))\<lparr>PClass := cls\<rparr>\<rparr>])"
      using list_all_at [OF Cons.prems] by (intro list_all_put [OF Cons.prems]) (simp add: config_ok_def)
    then show ?case using Cons.IH by simp
  qed simp
  then show "list_all (config_ok pt) pts \<Longrightarrow> list_all (config_ok pt) (assignClass cls start stop pts)" by (simp add: assignClass_def)
qed

lemma encodable_assign: "encodable_inv db \<Longrightarrow> encodable_inv (assignClassRange pt cls start stop db)"
  unfolding assignClassRange_def by (simp add: encodable_inv_def queued_def assignClass_ok)

lemma encodable_new: "encodable_inv (NewDatabase cfg (Some (NewEventBuffer n)))"
  using standard_variations
  by (simp add: encodable_inv_def NewDatabase_def makePoints_def queued_def NewEventBuffer_def config_ok_def list_all_length
    defaultEventVariations_def Let_def)

text \<open>The life of a database: updates, and what the application or a master may reconfigure.\<close>

datatype db_life = Act db_op | Config PointType u16 point_config | Assign PointType event_class u16 u16

fun db_live :: "(nat \<Rightarrow> nat \<Rightarrow> nat) \<Rightarrow> db_life \<Rightarrow> database \<Rightarrow> database" where
  "db_live grow (Act op) db = db_step grow op db"
| "db_live grow (Config pt i cfg) db = fst (Configure pt i cfg db)"
| "db_live grow (Assign pt cls start stop) db = assignClassRange pt cls start stop db"

text \<open>
  C35. The outstation queues no event it cannot report. Whatever updates, configurations and class
  assignments a database has seen, the variation of every queued event has an encoding of a
  positive fixed size in the table of objects, an octet string or data set apart, which bring
  their own length.
\<close>

theorem queued_events_encodable:
  "list_all (\<lambda>e. EType e = TypeOctetString \<or> EType e = TypeDataset \<or> (EVariation e \<noteq> 0 \<and> eventVariationEncodable (EType e) (EVariation e)))
     (queued (fold (db_live grow) ops (NewDatabase cfg (Some (NewEventBuffer n)))))"
proof -
  have "encodable_inv (db_live grow op db)" if "encodable_inv db" for op db
    using that by (cases op) (simp_all add: encodable_step encodable_Configure encodable_assign)
  then have "encodable_inv (fold (db_live grow) ops (NewDatabase cfg (Some (NewEventBuffer n))))"
    by (simp add: fold_keeps [where P = encodable_inv] encodable_new)
  then show ?thesis by (simp add: encodable_inv_def event_ok_def [abs_def] variation_ok_def)
qed

text \<open>
  A string set to nothing is queued in variation zero, which has no encoding: the change can
  never be reported.
\<close>

theorem emptied_string_unreportable:
  assumes "unat i < length (db_octet db)" "db_events db = Some b" "PClass (PCfg (db_octet db ! unat i)) \<noteq> ClassNone"
    "fst (DB_OctetString db i) \<noteq> []"
  shows "let e = last (queued (UpdateOctetString grow i [] db))
    in EType e = TypeOctetString \<and> EIndex e = i \<and> EVariation e = 0"
proof -
  obtain m s where ms: "append_from_start grow (PValue (db_octet db ! unat i)) [] (db_store db) = (m, s)" by fastforce
  have ne: "slice_octets (db_store db) (PValue (db_octet db ! unat i)) \<noteq> []"
    using assms(1,4) by (simp add: DB_OctetString_def db_get_def Let_def)
  let ?db0 = "db\<lparr>db_store := m, db_octet := (db_octet db)[unat i := (db_octet db ! unat i)\<lparr>PValue := s\<rparr>]\<rparr>"
  have u: "UpdateOctetString grow i [] db =
      raise (PCfg (db_octet db ! unat i)) (Event TypeOctetString i 0 (no_value\<lparr>VOctetString := s\<rparr>)) ?db0"
    using assms(1) ms ne by (simp add: UpdateOctetString_def Let_def)
  have "db_events ?db0 = Some b" using assms(2) by simp
  then show ?thesis
    using queued_raise [of ?db0 b "PCfg (db_octet db ! unat i)" "Event TypeOctetString i 0 (no_value\<lparr>VOctetString := s\<rparr>)"] assms(3)
    unfolding u by (auto simp: Let_def Event_def)
qed

lemma one_string_named:
  "unat (0 :: u16) < length (db_octet (UpdateOctetString (\<lambda>_ n. n) 0 [0x41] one_string))"
  "\<exists>b. db_events (UpdateOctetString (\<lambda>_ n. n) 0 [0x41] one_string) = Some b"
  "PClass (PCfg (db_octet (UpdateOctetString (\<lambda>_ n. n) 0 [0x41] one_string) ! unat (0 :: u16))) \<noteq> ClassNone"
  "fst (DB_OctetString (UpdateOctetString (\<lambda>_ n. n) 0 [0x41] one_string) 0) \<noteq> []"
  by (simp_all add: one_string_def NewDatabase_def makePoints_def UpdateOctetString_def append_from_start_def slice_alloc_def
    nil_slice_def DB_OctetString_def db_get_def slice_octets_def raise_def no_config_def)

theorem emptied_string_unreportable_witness:
  "let e = last (queued (UpdateOctetString (\<lambda>_ n. n) 0 [] (UpdateOctetString (\<lambda>_ n. n) 0 [0x41] one_string)))
   in EType e = TypeOctetString \<and> EIndex e = 0 \<and> EVariation e = 0"
proof -
  obtain b where "db_events (UpdateOctetString (\<lambda>_ n. n) 0 [0x41] one_string) = Some b" using one_string_named(2) by blast
  from emptied_string_unreportable [OF one_string_named(1) this one_string_named(3,4)] show ?thesis .
qed

end
