(* ===== verification/Outstation_Response.thy ===== *)
theory Outstation_Response
  imports Outstation_Database Obj_Codecs Obj_Commands Outstation_Command
begin

text \<open>
  How the outstation turns points and events into the fragments of a response
  (\<^verbatim>\<open>outstation/response.go\<close>): the response builder, the static ranges with their runs of equal
  variation, packed bits and octet strings, and the events with their index prefixes and common
  times of occurrence. Loops over indexes are recursions on natural numbers, as the source runs
  them on \<^verbatim>\<open>int\<close>. What is proved of them is in \<open>Outstation_Static\<close> and \<open>Outstation_Report\<close>.
\<close>

section \<open>The builder\<close>

record response_builder =
  rb_max :: int
  rb_fragments :: "byte list list"
  rb_cur :: "byte list"
  rb_ctx :: decode_context

definition newResponseBuilder :: "int \<Rightarrow> decode_context \<Rightarrow> response_builder" where
  "newResponseBuilder maxFragment ctx =
     \<lparr>rb_max = (if maxFragment \<le> 0 then int AppMaxFragment else maxFragment), rb_fragments = [], rb_cur = [], rb_ctx = ctx\<rparr>"

definition rb_room :: "response_builder \<Rightarrow> int" where
  "rb_room b = rb_max b - int ResponseHeaderSize - int (length (rb_cur b))"

definition rb_flush :: "response_builder \<Rightarrow> response_builder" where
  "rb_flush b =
     (if length (rb_cur b) > 0 then b\<lparr>rb_fragments := rb_fragments b @ [rb_cur b], rb_cur := []\<rparr> else b)"

definition rb_add :: "object_header \<Rightarrow> response_builder \<Rightarrow> response_builder" where
  "rb_add h b =
     (let b = (if int (O_Size h) > rb_room b \<and> length (rb_cur b) > 0 then rb_flush b else b)
      in b\<lparr>rb_cur := AppendObjectHeader (rb_cur b) h\<rparr>)"

definition rb_done :: "response_builder \<Rightarrow> byte list list" where
  "rb_done b = (let b = rb_flush b in if length (rb_fragments b) = 0 then [[]] else rb_fragments b)"

section \<open>Static data\<close>

definition staticTypes :: "PointType list" where
  "staticTypes = [TypeBinary, TypeDoubleBitBinary, TypeBinaryOutputStatus, TypeCounter, TypeFrozenCounter, TypeAnalog,
     TypeFrozenAnalog, TypeAnalogOutputStatus, TypeOctetString]"

definition typeCount :: "database_config \<Rightarrow> PointType \<Rightarrow> int" where
  "typeCount c pt =
     (if pt = TypeBinary then NBinary c
      else if pt = TypeDoubleBitBinary then NDoubleBitBinary c
      else if pt = TypeCounter then NCounter c
      else if pt = TypeFrozenCounter then NFrozenCounter c
      else if pt = TypeFrozenAnalog then NFrozenAnalog c
      else if pt = TypeAnalog then NAnalog c
      else if pt = TypeBinaryOutputStatus then NBinaryOutputStatus c
      else if pt = TypeAnalogOutputStatus then NAnalogOutputStatus c
      else if pt = TypeOctetString then NOctetString c
      else 0)"

definition staticPoint :: "database \<Rightarrow> PointType \<Rightarrow> u16 \<Rightarrow> byte \<times> Flags \<times> bool" where
  "staticPoint db pt index =
     (if pt = TypeBinary then
        (case DB_Binary db index of (v, cfg, ok) \<Rightarrow> (StaticVariation cfg, Flags_Clear (MFlags v) StateBit, ok))
      else if pt = TypeDoubleBitBinary then
        (case DB_DoubleBit db index of (v, cfg, ok) \<Rightarrow> (StaticVariation cfg, MFlags v AND 0x3F, ok))
      else if pt = TypeCounter then (case DB_Counter db index of (v, cfg, ok) \<Rightarrow> (StaticVariation cfg, MFlags v, ok))
      else if pt = TypeFrozenCounter then (case DB_FrozenCounter db index of (v, cfg, ok) \<Rightarrow> (StaticVariation cfg, MFlags v, ok))
      else if pt = TypeFrozenAnalog then (case DB_FrozenAnalog db index of (v, cfg, ok) \<Rightarrow> (StaticVariation cfg, MFlags v, ok))
      else if pt = TypeAnalog then (case DB_Analog db index of (v, cfg, ok) \<Rightarrow> (StaticVariation cfg, MFlags v, ok))
      else if pt = TypeBinaryOutputStatus then
        (case DB_BinaryOutputStatus db index of (v, cfg, ok) \<Rightarrow> (StaticVariation cfg, Flags_Clear (MFlags v) StateBit, ok))
      else if pt = TypeAnalogOutputStatus then
        (case DB_AnalogOutputStatus db index of (v, cfg, ok) \<Rightarrow> (StaticVariation cfg, MFlags v, ok))
      else (0, 0, False))"

definition withFlags :: "PointType \<Rightarrow> byte \<rightharpoonup> byte" where
  "withFlags pt =
     (if pt = TypeBinary \<or> pt = TypeDoubleBitBinary \<or> pt = TypeBinaryOutputStatus then [1 \<mapsto> 2]
      else if pt = TypeCounter then [5 \<mapsto> 1, 6 \<mapsto> 2]
      else if pt = TypeFrozenCounter then [9 \<mapsto> 1, 10 \<mapsto> 2]
      else if pt = TypeAnalog then [3 \<mapsto> 1, 4 \<mapsto> 2]
      else if pt = TypeFrozenAnalog then [5 \<mapsto> 1, 6 \<mapsto> 2]
      else Map.empty)"

definition reportVariation :: "database \<Rightarrow> PointType \<Rightarrow> byte \<Rightarrow> u16 \<Rightarrow> byte option" where
  "reportVariation db pt requested index =
     (case staticPoint db pt index of (v, flags, ok) \<Rightarrow>
        if \<not> ok then None
        else
          let v = (if requested \<noteq> 0 then requested else v)
          in case withFlags pt v of
               Some flagged \<Rightarrow> if flags \<noteq> Online then Some flagged else Some v
             | None \<Rightarrow> Some v)"

definition packedBits :: "GroupVar \<Rightarrow> int" where
  "packedBits x = (if x = (1, 1) \<or> x = (10, 1) then 1 else if x = (3, 1) then 2 else 0)"

definition rangeObjectHeader :: "GroupVar \<Rightarrow> u16 \<Rightarrow> u16 \<Rightarrow> byte list \<Rightarrow> object_header" where
  "rangeObjectHeader x start stop data =
     (let spec = (if stop \<le> 0xFF then RangeStartStop8 else RangeStartStop16)
      in \<lparr>OGroup = fst x, OVariation = snd x, OQualifier = MakeQualifier PrefixNone spec,
          ORange = \<lparr>RSpec = spec, RStart = ucast start, RStop = ucast stop, RCount = ucast (stop - start) + 1\<rparr>,
          OData = data, OOffset = 0, ODataOffset = 0\<rparr>)"

definition encode_with :: "'a codec option \<Rightarrow> byte list \<Rightarrow> 'a \<Rightarrow> decode_context \<Rightarrow> byte list" where
  "encode_with c dst v ctx = (case c of Some c \<Rightarrow> Write c dst v ctx | None \<Rightarrow> dst)"

definition encodeStatic :: "database \<Rightarrow> byte list \<Rightarrow> PointType \<Rightarrow> GroupVar \<Rightarrow> u16 \<Rightarrow> decode_context \<Rightarrow> byte list" where
  "encodeStatic db dst pt x index ctx =
     (if pt = TypeBinary then encode_with (BinaryCodec x) dst (fst (DB_Binary db index)) ctx
      else if pt = TypeDoubleBitBinary then encode_with (DoubleBitCodec x) dst (fst (DB_DoubleBit db index)) ctx
      else if pt = TypeCounter then encode_with (CounterCodec x) dst (fst (DB_Counter db index)) ctx
      else if pt = TypeFrozenCounter then encode_with (FrozenCounterCodec x) dst (fst (DB_FrozenCounter db index)) ctx
      else if pt = TypeFrozenAnalog then encode_with (AnalogCodec x) dst (fst (DB_FrozenAnalog db index)) ctx
      else if pt = TypeAnalog then encode_with (AnalogCodec x) dst (fst (DB_Analog db index)) ctx
      else if pt = TypeBinaryOutputStatus then encode_with (BinaryOutputCodec x) dst (fst (DB_BinaryOutputStatus db index)) ctx
      else if pt = TypeAnalogOutputStatus then encode_with (AnalogOutputCodec x) dst (fst (DB_AnalogOutputStatus db index)) ctx
      else dst)"

text \<open>Header and worst-case range field, subtracted before counting how many objects fit.\<close>

abbreviation (input) headerOverhead :: int where "headerOverhead \<equiv> int ObjectHeaderSize + 4"

text \<open>The run of octets for the points from an index up to but excluding another.\<close>

definition static_octets :: "database \<Rightarrow> PointType \<Rightarrow> GroupVar \<Rightarrow> decode_context \<Rightarrow> nat \<Rightarrow> nat \<Rightarrow> byte list" where
  "static_octets db pt x ctx lo hi = foldl (\<lambda>data i. encodeStatic db data pt x (of_nat i) ctx) [] [lo..<hi]"

text \<open>
  The loop of \<^verbatim>\<open>buildStaticRun\<close> for objects of \<open>sz\<close> octets, which is not zero there; the test here
  makes the function total.
\<close>

function static_run :: "database \<Rightarrow> PointType \<Rightarrow> GroupVar \<Rightarrow> nat \<Rightarrow> nat \<Rightarrow> nat \<Rightarrow> response_builder \<Rightarrow> response_builder" where
  "static_run db pt x sz idx stop b =
     (if \<not> idx \<le> stop \<or> sz = 0 then b
      else
        let b = (if rb_room b - headerOverhead < int sz then rb_flush b else b);
            avail = rb_room b - headerOverhead
        in if avail < int sz then b
           else
             let runLen = min (nat avail div sz) (stop - idx + 1);
                 data = static_octets db pt x (rb_ctx b) idx (idx + runLen)
             in static_run db pt x sz (idx + runLen) stop (rb_add (rangeObjectHeader x (of_nat idx) (of_nat (idx + runLen - 1)) data) b))"
  by auto
termination
proof (relation "measure (\<lambda>(db, pt, x, sz, idx, stop, b). stop + 1 - idx)", goal_cases)
  case (2 db pt x sz idx stop b b' avail runLen data)
  then have "sz \<le> nat avail" "sz > 0" "idx \<le> stop" by simp_all
  moreover from this have "0 < nat avail div sz" by (simp add: div_greater_zero_iff)
  ultimately have "0 < runLen" "idx \<le> stop" using 2(5) by simp_all
  then show ?case by simp
qed simp

declare static_run.simps [simp del]

definition packed_octets :: "database \<Rightarrow> PointType \<Rightarrow> nat \<Rightarrow> nat \<Rightarrow> byte list" where
  "packed_octets db pt lo hi =
     (if pt = TypeDoubleBitBinary
      then AppendPackedDoubleBit [] (map (\<lambda>i. MValue (fst (DB_DoubleBit db (of_nat i)))) [lo..<hi])
      else AppendPackedBinary []
             (map (\<lambda>i. if pt = TypeBinaryOutputStatus then MValue (fst (DB_BinaryOutputStatus db (of_nat i)))
                       else MValue (fst (DB_Binary db (of_nat i)))) [lo..<hi]))"

text \<open>
  A capacity below one is all the source looks at when room is short, so that the rounding of the
  division does not matter there. The bits are one or two.
\<close>

definition packed_capacity :: "response_builder \<Rightarrow> int \<Rightarrow> int" where
  "packed_capacity b bits = (rb_room b - headerOverhead) * 8 div bits"

function packed_run :: "database \<Rightarrow> PointType \<Rightarrow> GroupVar \<Rightarrow> int \<Rightarrow> nat \<Rightarrow> nat \<Rightarrow> response_builder \<Rightarrow> response_builder" where
  "packed_run db pt x bits idx stop b =
     (if \<not> idx \<le> stop then b
      else
        let b = (if packed_capacity b bits < 1 then rb_flush b else b);
            capacity = packed_capacity b bits
        in if capacity < 1 then b
           else
             let nxt = min (idx + nat capacity) (stop + 1)
             in packed_run db pt x bits nxt stop
                  (rb_add (rangeObjectHeader x (of_nat idx) (of_nat (nxt - 1)) (packed_octets db pt idx nxt)) b))"
  by auto
termination by (relation "measure (\<lambda>(db, pt, x, bits, idx, stop, b). stop + 1 - idx)") auto

declare packed_run.simps [simp del]

definition buildStaticRun :: "database \<Rightarrow> PointType \<Rightarrow> byte \<Rightarrow> u16 \<Rightarrow> u16 \<Rightarrow> response_builder \<Rightarrow> response_builder" where
  "buildStaticRun db pt variation start stop b =
     (let x = staticGroupVar pt variation; bits = packedBits x
      in if bits > 0 then packed_run db pt x bits (unat start) (unat stop) b
         else
           case Lookup x of
             None \<Rightarrow> b
           | Some d \<Rightarrow>
               (case SizeOctets d of (sz, ok) \<Rightarrow>
                  if \<not> ok \<or> sz = 0 then b else static_run db pt x (nat sz) (unat start) (unat stop) b))"

text \<open>The search for the end of a run: the last index up to \<open>stop\<close> before the key changes.\<close>

function run_end :: "(nat \<Rightarrow> 'k option) \<Rightarrow> 'k \<Rightarrow> nat \<Rightarrow> nat \<Rightarrow> nat" where
  "run_end key v fin stop = (if fin < stop \<and> key (fin + 1) = Some v then run_end key v (fin + 1) stop else fin)"
  by auto
termination by (relation "measure (\<lambda>(key, v, fin, stop). stop - fin)") auto

declare run_end.simps [simp del]

lemma run_end_ge: "fin \<le> run_end key v fin stop"
  by (induction key v fin stop rule: run_end.induct) (subst run_end.simps, auto)

function static_range :: "database \<Rightarrow> PointType \<Rightarrow> byte \<Rightarrow> nat \<Rightarrow> nat \<Rightarrow> response_builder \<Rightarrow> response_builder" where
  "static_range db pt variation idx stop b =
     (if \<not> idx \<le> stop then b
      else
        case reportVariation db pt variation (of_nat idx) of
          None \<Rightarrow> b
        | Some v \<Rightarrow>
            let fin = run_end (\<lambda>i. reportVariation db pt variation (of_nat i)) v idx stop
            in static_range db pt variation (fin + 1) stop (buildStaticRun db pt v (of_nat idx) (of_nat fin) b))"
  by auto
termination
proof (relation "measure (\<lambda>(db, pt, variation, idx, stop, b). stop + 1 - idx)", goal_cases)
  case (2 db pt variation idx stop b v fin)
  then have "idx \<le> fin" by (simp add: run_end_ge)
  then show ?case using 2(1) by simp
qed simp

declare static_range.simps [simp del]

definition appendOctetString :: "byte list \<Rightarrow> byte list \<Rightarrow> nat \<Rightarrow> byte list" where
  "appendOctetString dst v len =
     (let v = (if length v > len then take len v else v)
      in dst @ v @ replicate (len - length v) 0)"

text \<open>The key of a run of octet strings: the length they are reported with, at least one.\<close>

definition string_length :: "database \<Rightarrow> nat \<Rightarrow> nat option" where
  "string_length db i =
     (case DB_OctetString db (of_nat i) of (v, cfg, ok) \<Rightarrow> if ok then Some (max (length v) 1) else None)"

definition string_octets :: "database \<Rightarrow> nat \<Rightarrow> nat \<Rightarrow> nat \<Rightarrow> byte list" where
  "string_octets db len lo hi =
     foldl (\<lambda>data i. appendOctetString data (fst (DB_OctetString db (of_nat i))) len) [] [lo..<hi]"

text \<open>
  The loop over one run of strings of equal length; the flag says that a string did not fit an
  empty fragment, which ends the whole range.
\<close>

function string_run :: "database \<Rightarrow> nat \<Rightarrow> nat \<Rightarrow> nat \<Rightarrow> response_builder \<Rightarrow> response_builder \<times> bool" where
  "string_run db len idx fin b =
     (if \<not> idx \<le> fin \<or> len = 0 then (b, True)
      else
        let b = (if rb_room b - headerOverhead < int len then rb_flush b else b);
            avail = rb_room b - headerOverhead
        in if avail < int len then (b, False)
           else
             let nxt = min (idx + nat avail div len) (fin + 1)
             in string_run db len nxt fin
                  (rb_add (rangeObjectHeader (110, of_nat len) (of_nat idx) (of_nat (nxt - 1)) (string_octets db len idx nxt)) b))"
  by auto
termination
proof (relation "measure (\<lambda>(db, len, idx, fin, b). fin + 1 - idx)", goal_cases)
  case (2 db len idx fin b b' avail nxt)
  then have "len \<le> nat avail" "len > 0" "idx \<le> fin" by simp_all
  moreover from this have "0 < nat avail div len" by (simp add: div_greater_zero_iff)
  ultimately have "idx < nxt" "idx \<le> fin" using 2(5) by simp_all
  then show ?case by auto
qed simp

declare string_run.simps [simp del]

function string_range :: "database \<Rightarrow> nat \<Rightarrow> nat \<Rightarrow> response_builder \<Rightarrow> response_builder" where
  "string_range db idx stop b =
     (if \<not> idx \<le> stop then b
      else
        case string_length db idx of
          None \<Rightarrow> b
        | Some len \<Rightarrow>
            let fin = run_end (string_length db) len idx stop
            in case string_run db len idx fin b of
                 (b, ok) \<Rightarrow> if ok then string_range db (fin + 1) stop b else b)"
  by auto
termination
proof (relation "measure (\<lambda>(db, idx, stop, b). stop + 1 - idx)", goal_cases)
  case (2 db idx stop b len fin)
  then have "idx \<le> fin" by (simp add: run_end_ge)
  then show ?case using 2(1) by simp
qed simp

declare string_range.simps [simp del]

definition buildOctetStrings :: "database \<Rightarrow> u16 \<Rightarrow> u16 \<Rightarrow> response_builder \<Rightarrow> response_builder" where
  "buildOctetStrings db start stop b = (if start > stop then b else string_range db (unat start) (unat stop) b)"

definition buildStaticRange :: "database \<Rightarrow> PointType \<Rightarrow> byte \<Rightarrow> u16 \<Rightarrow> u16 \<Rightarrow> response_builder \<Rightarrow> response_builder" where
  "buildStaticRange db pt variation start stop b =
     (let limit = typeCount (Counts db) pt
      in if limit = 0 then b
         else if pt = TypeOctetString then buildOctetStrings db start (min stop (of_int (limit - 1))) b
         else
           let stop = (if uint stop \<ge> limit then of_int (limit - 1) else stop)
           in if start > stop then b else static_range db pt variation (unat start) (unat stop) b)"

section \<open>Points a request names\<close>

text \<open>
  The runs of consecutive indexes \<^verbatim>\<open>forEachPointRun\<close> passes to its callback, in order, or nothing
  when the header names points in no form the outstation understands. The octets left after the
  last whole prefix are ignored, as the loop ends there.
\<close>

function prefixed_indexes :: "nat \<Rightarrow> byte list \<Rightarrow> u32 list" where
  "prefixed_indexes width data =
     (if width = 0 \<or> length data < width then [] else readPrefix data width # prefixed_indexes width (drop width data))"
  by auto
termination by (relation "measure (\<lambda>(width, data). length data)") auto

declare prefixed_indexes.simps [simp del]

fun merge_runs :: "(u32 \<times> u32) option \<Rightarrow> u32 list \<Rightarrow> (u16 \<times> u16) list" where
  "merge_runs None [] = []"
| "merge_runs (Some (first, lst)) [] = [(ucast first, ucast lst)]"
| "merge_runs None (idx # rest) = (if idx > 0xFFFF then merge_runs None rest else merge_runs (Some (idx, idx)) rest)"
| "merge_runs (Some (first, lst)) (idx # rest) =
     (if idx > 0xFFFF then merge_runs (Some (first, lst)) rest
      else if idx = lst + 1 then merge_runs (Some (first, idx)) rest
      else (ucast first, ucast lst) # merge_runs (Some (idx, idx)) rest)"

definition forEachPointRun :: "object_header \<Rightarrow> (u16 \<times> u16) list option" where
  "forEachPointRun h =
     (let spec = RSpec (ORange h)
      in if spec = RangeAllObjects then Some [(0, 0xFFFF)]
         else if IsStartStop spec then
           Some (if RStart (ORange h) \<le> 0xFFFF then [(ucast (RStart (ORange h)), ucast (min (RStop (ORange h)) 0xFFFF))] else [])
         else if IsCount spec \<and> IsIndex (Q_IndexPrefix (OQualifier h)) then
           Some (merge_runs None (prefixed_indexes (Prefix_Octets (Q_IndexPrefix (OQualifier h))) (OData h)))
         else None)"

definition namesBeyond :: "object_header \<Rightarrow> int \<Rightarrow> bool" where
  "namesBeyond h n =
     (let spec = RSpec (ORange h)
      in if IsStartStop spec then RStop (ORange h) \<ge> of_int n \<or> RStart (ORange h) > RStop (ORange h)
         else if IsCount spec \<and> IsIndex (Q_IndexPrefix (OQualifier h)) then
           list_ex (\<lambda>i. i \<ge> of_int n) (prefixed_indexes (Prefix_Octets (Q_IndexPrefix (OQualifier h))) (OData h))
         else False)"

definition checkStaticRead :: "database \<Rightarrow> PointType \<Rightarrow> object_header \<Rightarrow> IIN \<Rightarrow> IIN" where
  "checkStaticRead db pt h iin =
     (let n = typeCount (Counts db) pt
      in if n = 0 then IIN_Set iin IINObjectUnknown
         else if namesBeyond h n then IIN_Set iin IINParameterError
         else iin)"

section \<open>Events\<close>

definition eventTypeForGroup :: "byte \<Rightarrow> PointType option" where
  "eventTypeForGroup grp =
     map_of [(2, TypeBinary), (4, TypeDoubleBitBinary), (11, TypeBinaryOutputStatus), (13, TypeBinaryCommandEvent),
       (22, TypeCounter), (23, TypeFrozenCounter), (33, TypeFrozenAnalog), (88, TypeDataset), (122, TypeSecurityStatistic),
       (113, TypeVirtualTerminal), (32, TypeAnalog), (42, TypeAnalogOutputStatus), (43, TypeAnalogCommandEvent),
       (111, TypeOctetString)] grp"

definition ctoHeader :: "bool \<Rightarrow> int \<Rightarrow> object_header" where
  "ctoHeader synced base =
     \<lparr>OGroup = 51, OVariation = (if synced then 1 else 2), OQualifier = MakeQualifier PrefixNone RangeCount8,
      ORange = \<lparr>RSpec = RangeCount8, RStart = 0, RStop = 0, RCount = 1\<rparr>,
      OData = AppendTime48 [] \<lparr>TTime = base, TQuality = TimestampInvalid\<rparr>, OOffset = 0, ODataOffset = 0\<rparr>"

text \<open>\<^verbatim>\<open>Truncate\<close> of a time to the millisecond rounds down, also before the epoch.\<close>

definition eventBase :: "int \<Rightarrow> db_event \<Rightarrow> int" where
  "eventBase now e =
     (if \<not> Time_IsValid (VTime (EValue e)) then now div 1000000 * 1000000 else TTime (VTime (EValue e)) div 1000000 * 1000000)"

fun within_window :: "int \<Rightarrow> nat \<Rightarrow> db_event list \<Rightarrow> nat" where
  "within_window base n [] = n"
| "within_window base n (e # es) =
     (if \<not> Time_IsValid (VTime (EValue e)) then within_window base (n + 1) es
      else
        let d = Milliseconds (duration_between (TTime (VTime (EValue e))) base)
        in if d < 0 \<or> d > 0xFFFF then max n 1 else within_window base (n + 1) es)"

definition eventsWithinWindow :: "db_event list \<Rightarrow> int \<Rightarrow> nat" where
  "eventsWithinWindow es base = within_window base 0 es"

definition encodeEvent :: "store \<Rightarrow> byte list \<Rightarrow> GroupVar \<Rightarrow> db_event \<Rightarrow> decode_context \<Rightarrow> byte list" where
  "encodeEvent m dst x e ctx =
     (let v = EValue e; pt = EType e
      in if pt = TypeBinary then encode_with (BinaryCodec x) dst (VBinary v) ctx
         else if pt = TypeDoubleBitBinary then encode_with (DoubleBitCodec x) dst (VDoubleBit v) ctx
         else if pt = TypeCounter then encode_with (CounterCodec x) dst (VCounter v) ctx
         else if pt = TypeFrozenCounter then encode_with (FrozenCounterCodec x) dst (VFrozenCounter v) ctx
         else if pt = TypeFrozenAnalog then encode_with (AnalogCodec x) dst (VFrozenAnalog v) ctx
         else if pt = TypeAnalog then encode_with (AnalogCodec x) dst (VAnalog v) ctx
         else if pt = TypeBinaryOutputStatus then encode_with (BinaryOutputCodec x) dst (VBinaryOutput v) ctx
         else if pt = TypeAnalogOutputStatus then encode_with (AnalogOutputCodec x) dst (VAnalogOutput v) ctx
         else if pt = TypeSecurityStatistic then
           (let dst = dst @ [Online, 0, 0] @ put32 (VSecurityStatistic v)
            in if snd x = 2 then AppendTime48 dst (VTime v) else dst)
         else if pt = TypeOctetString \<or> pt = TypeVirtualTerminal then
           appendOctetString dst (slice_octets m (VOctetString v)) (unat (snd x))
         else if pt = TypeBinaryCommandEvent \<or> pt = TypeAnalogCommandEvent then
           AppendCommandEvent dst (fst x) (snd x)
             \<lparr>CEStatus = VCommandStatus v, CEAnalog = (pt = TypeAnalogCommandEvent), CEState = VCommandState v,
              CEValue = VCommandValue v, CETime = VTime v\<rparr>
         else dst)"

definition event_object :: "store \<Rightarrow> GroupVar \<Rightarrow> nat \<Rightarrow> decode_context \<Rightarrow> byte list \<Rightarrow> db_event \<Rightarrow> byte list" where
  "event_object m x prefixLen ctx data e =
     (let data = (if prefixLen = 1 then data @ [ucast (EIndex e)] else data @ put16 (EIndex e))
      in encodeEvent m data x e ctx)"

lemma within_window_pos: "es \<noteq> [] \<or> 0 < n \<Longrightarrow> 0 < within_window base n es"
  by (induction base n es rule: within_window.induct) (auto simp: Let_def)

text \<open>
  The loop over one run of events sharing an encoding of \<open>sz\<close> octets, not zero there; it gives the
  events that do not fit an empty fragment.
\<close>

definition event_count :: "int \<Rightarrow> int \<Rightarrow> nat \<Rightarrow> nat \<Rightarrow> nat" where
  "event_count avail perObject left maxCount = min (nat avail div nat perObject) (min left maxCount)"

function event_run ::
    "store \<Rightarrow> bool \<Rightarrow> int \<Rightarrow> GroupVar \<Rightarrow> nat \<Rightarrow> bool \<Rightarrow> bool \<Rightarrow> db_event list \<Rightarrow> response_builder \<Rightarrow>
     response_builder \<times> db_event list" where
  "event_run m synced now x sz rel wide es b =
     (if es = [] \<or> sz = 0 then (b, [])
      else
        let prefix = (if wide then PrefixIndex2 else PrefixIndex1);
            spec = (if wide then RangeCount16 else RangeCount8);
            maxCount = (if wide then 0xFFFF else 0xFF);
            perObject = int (Prefix_Octets prefix) + int sz;
            ctoSize = (if rel then int (O_Size (ctoHeader synced zero_time)) else 0);
            overhead = ctoSize + int (ObjectHeaderSize + Range_Octets spec);
            b = (if rb_room b - overhead < perObject then rb_flush b else b);
            avail = rb_room b - overhead
        in if avail < perObject then (b, es)
           else
             let runLen = event_count avail perObject (length es) maxCount;
                 base = eventBase now (es ! 0);
                 runLen = (if rel then min runLen (eventsWithinWindow (take runLen es) base) else runLen);
                 ctx = (if rel then WithCTO (rb_ctx b) base else rb_ctx b);
                 b = (if rel then rb_add (ctoHeader synced base) b else b);
                 data = foldl (event_object m x (Prefix_Octets prefix) ctx) [] (take runLen es)
             in event_run m synced now x sz rel wide (drop runLen es)
                  (rb_add \<lparr>OGroup = fst x, OVariation = snd x, OQualifier = MakeQualifier prefix spec,
                           ORange = \<lparr>RSpec = spec, RStart = 0, RStop = 0, RCount = of_nat runLen\<rparr>, OData = data,
                           OOffset = 0, ODataOffset = 0\<rparr> b))"
  by auto

termination
proof (relation "measure (\<lambda>(m, synced, now, x, sz, rel, wide, es, b). length es)", goal_cases)
  case (2 m synced now x sz rel wide es b prefix spec maxCount perObject ctoSize overhead b' avail runLen base runLen' ctx b'' data)
  then have "0 < perObject" "perObject \<le> avail" "es \<noteq> []" by (simp_all only: de_Morgan_disj not_less) simp_all
  then have "0 < nat avail div nat perObject" by (simp add: div_greater_zero_iff)
  then have r: "0 < runLen" using 2(11) \<open>es \<noteq> []\<close> by (simp add: event_count_def 2(4))
  then have "0 < eventsWithinWindow (take runLen es) base"
    using \<open>es \<noteq> []\<close> unfolding eventsWithinWindow_def by (intro within_window_pos) simp
  then have "0 < runLen'" using 2(13) r by (simp split: if_splits)
  then show ?case using \<open>es \<noteq> []\<close> by simp
qed simp

declare event_run.simps [simp del]

text \<open>The size and relativity of the encoding of an event, zero when it has none.\<close>

definition event_encoding :: "db_event \<Rightarrow> nat \<times> bool" where
  "event_encoding e =
     (if EType e = TypeOctetString \<or> EType e = TypeVirtualTerminal then (unat (EVariation e), False)
      else
        case Lookup (eventGroup (EType e), EVariation e) of
          Some d \<Rightarrow> (nat (fst (SizeOctets d)), HasRelativeTime d)
        | None \<Rightarrow> (0, False))"

function build_events ::
    "store \<Rightarrow> bool \<Rightarrow> int \<Rightarrow> db_event list \<Rightarrow> response_builder \<Rightarrow> response_builder \<times> db_event list" where
  "build_events m synced now es b =
     (case es of
        [] \<Rightarrow> (b, [])
      | e # rest \<Rightarrow>
          if EType e = TypeDataset then
            (case FreeFormat 88 1 (VDataset (EValue e)) of
               Inr h \<Rightarrow>
                 if int (O_Size h) + int ResponseHeaderSize \<le> rb_max b then build_events m synced now rest (rb_add h b)
                 else (case build_events m synced now rest b of (b, unsent) \<Rightarrow> (b, e # unsent))
             | Inl _ \<Rightarrow> (case build_events m synced now rest b of (b, unsent) \<Rightarrow> (b, e # unsent)))
          else
            let x = (eventGroup (EType e), EVariation e); (sz, rel) = event_encoding e
            in if sz = 0 then (case build_events m synced now rest b of (b, unsent) \<Rightarrow> (b, e # unsent))
               else
                 let run = takeWhile (\<lambda>e. (eventGroup (EType e), EVariation e) = x) es;
                     wide = list_ex (\<lambda>e. EIndex e > 0xFF) run
                 in case event_run m synced now x sz rel wide run b of
                      (b, u) \<Rightarrow> (case build_events m synced now (drop (length run) es) b of (b, unsent) \<Rightarrow> (b, u @ unsent)))"
  by pat_completeness auto
termination
proof (relation "measure (\<lambda>(m, synced, now, es, b). length es)", goal_cases)
  case (6 m synced now es b e rest x p sz rel run)
  then have "0 < length run" by simp
  then show ?case using 6(1) by simp
qed simp_all

declare build_events.simps [simp del]

definition buildEvents :: "database \<Rightarrow> bool \<Rightarrow> int \<Rightarrow> db_event list \<Rightarrow> response_builder \<Rightarrow> response_builder \<times> db_event list" where
  "buildEvents db = build_events (db_store db)"

end
