(* ===== verification/Outstation_Static.thy ===== *)
theory Outstation_Static
  imports Outstation_Response
begin

text \<open>
  What the response builder holds, and what the answer to a read of static points carries: the
  headers a builder accepts are never split and never exceed a fragment, every described object
  has its encoder, and a range of points is reported once each and in order, in fragments that a
  master parses back.
\<close>

section \<open>What the builder holds\<close>

text \<open>
  A builder holds a list of lists of headers when its fragments, the current one last, are their
  encodings: no header is ever split.
\<close>

definition rb_holds :: "object_header list list \<Rightarrow> response_builder \<Rightarrow> bool" where
  "rb_holds hss b \<longleftrightarrow> hss \<noteq> [] \<and> rb_fragments b @ [rb_cur b] = map encode_objects hss"

text \<open>All its fragments keep within the limit, with room for the response header.\<close>

definition rb_fits :: "response_builder \<Rightarrow> bool" where
  "rb_fits b \<longleftrightarrow> (\<forall>f \<in> set (rb_fragments b @ [rb_cur b]). f = [] \<or> int (length f) + int ResponseHeaderSize \<le> rb_max b)"

lemma AppendObjectHeader_nonempty: "AppendObjectHeader dst h \<noteq> []"
  using length_AppendObjectHeader [of dst h] by (cases "AppendObjectHeader dst h") auto

lemma rb_flush_sel [simp]:
  "rb_max (rb_flush b) = rb_max b" "rb_ctx (rb_flush b) = rb_ctx b" "rb_cur (rb_flush b) = []"
  "rb_room (rb_flush b) = rb_max b - int ResponseHeaderSize"
  by (simp_all add: rb_flush_def rb_room_def)

lemma rb_add_sel [simp]: "rb_max (rb_add h b) = rb_max b" "rb_ctx (rb_add h b) = rb_ctx b"
  by (simp_all add: rb_add_def Let_def)

lemma rb_flush_holds: "rb_holds hss b \<Longrightarrow> \<exists>hss'. rb_holds hss' (rb_flush b) \<and> concat hss' = concat hss"
proof (cases "rb_cur b = []")
  case False
  assume "rb_holds hss b"
  then have "rb_holds (hss @ [[]]) (rb_flush b)" using False by (simp add: rb_holds_def rb_flush_def)
  then show ?thesis by (intro exI [of _ "hss @ [[]]"]) simp
qed (auto simp: rb_flush_def)

lemma rb_flush_fits [intro, simp]: "rb_fits b \<Longrightarrow> rb_fits (rb_flush b)"
  by (auto simp: rb_fits_def rb_flush_def)

lemma rb_holds_snoc:
  assumes "rb_holds hss b"
  shows "rb_holds (butlast hss @ [last hss @ [h]]) (b\<lparr>rb_cur := AppendObjectHeader (rb_cur b) h\<rparr>)"
    "concat (butlast hss @ [last hss @ [h]]) = concat hss @ [h]"
proof -
  have ne: "hss \<noteq> []" using assms by (simp add: rb_holds_def)
  then obtain xs x where s: "hss = xs @ [x]" by (metis rev_exhaust)
  then show "rb_holds (butlast hss @ [last hss @ [h]]) (b\<lparr>rb_cur := AppendObjectHeader (rb_cur b) h\<rparr>)"
    "concat (butlast hss @ [last hss @ [h]]) = concat hss @ [h]"
    using assms by (simp_all add: rb_holds_def AppendObjectHeader_append [of "encode_objects _"])
qed

lemma rb_add_holds:
  assumes "rb_holds hss b"
  shows "\<exists>hss'. rb_holds hss' (rb_add h b) \<and> concat hss' = concat hss @ [h]"
proof (cases "int (O_Size h) > rb_room b \<and> length (rb_cur b) > 0")
  case True
  obtain hss' where f: "rb_holds hss' (rb_flush b)" "concat hss' = concat hss" using rb_flush_holds [OF assms] by blast
  have "rb_add h b = (rb_flush b)\<lparr>rb_cur := AppendObjectHeader (rb_cur (rb_flush b)) h\<rparr>"
    by (simp only: rb_add_def Let_def if_P [OF True])
  then show ?thesis using rb_holds_snoc [OF f(1), of h] f(2) by metis
next
  case False
  then have "rb_add h b = b\<lparr>rb_cur := AppendObjectHeader (rb_cur b) h\<rparr>" by (simp only: rb_add_def Let_def if_False)
  then show ?thesis using rb_holds_snoc [OF assms, of h] by metis
qed

lemma rb_add_fits:
  assumes "rb_fits b" "wf_object h" "int (O_Size h) + int ResponseHeaderSize \<le> rb_max b"
  shows "rb_fits (rb_add h b)"
proof (cases "int (O_Size h) > rb_room b \<and> length (rb_cur b) > 0")
  case True
  have "rb_fits (rb_flush b)" using assms(1) by simp
  then show ?thesis using True assms(2,3) wf_object_size [of h] by (simp add: rb_add_def rb_fits_def Let_def)
next
  case False
  then have "int (length (rb_cur b)) + int (O_Size h) + int ResponseHeaderSize \<le> rb_max b" using assms(3) by (auto simp: rb_room_def)
  moreover have "length (AppendObjectHeader (rb_cur b) h) = length (rb_cur b) + O_Size h"
    using wf_object_size [OF assms(2)] AppendObjectHeader_append [of "rb_cur b" h] by simp
  moreover have "rb_add h b = b\<lparr>rb_cur := AppendObjectHeader (rb_cur b) h\<rparr>"
    using False by (simp only: rb_add_def Let_def if_False)
  ultimately show ?thesis using assms(1) by (simp add: rb_fits_def)
qed

text \<open>A header that fits what is left of the fragment joins it: nothing comes between it and what is there.\<close>

lemma rb_add_joins: "int (O_Size h) \<le> rb_room b \<Longrightarrow> rb_add h b = b\<lparr>rb_cur := AppendObjectHeader (rb_cur b) h\<rparr>"
  by (simp add: rb_add_def Let_def)

lemma rb_new: "rb_holds [[]] (newResponseBuilder n ctx)" "rb_fits (newResponseBuilder n ctx)"
  by (simp_all add: rb_holds_def rb_fits_def newResponseBuilder_def)

lemma rb_done_fits:
  assumes "rb_fits b" "f \<in> set (rb_done b)"
  shows "f = [] \<or> int (length f) + int ResponseHeaderSize \<le> rb_max b"
  using assms by (auto simp: rb_fits_def rb_done_def rb_flush_def Let_def split: if_splits)

lemma encode_objects_concat: "concat (map encode_objects hss) = encode_objects (concat hss)"
  by (induction hss) simp_all

lemma rb_done_holds:
  assumes "rb_holds hss b"
  shows "concat (rb_done b) = encode_objects (concat hss)"
proof -
  have "concat (rb_fragments b @ [rb_cur b]) = encode_objects (concat hss)"
    using assms unfolding rb_holds_def by (simp only: encode_objects_concat)
  then show ?thesis by (auto simp: rb_done_def rb_flush_def Let_def)
qed

text \<open>
  What a master can read back: every header is one its parser accepts in a response, the
  fragments keep within the limit, and every header whose objects carry times relative to a
  common time of occurrence comes directly after one, in the same fragment. Operations on the
  builder extend it by a list of headers.
\<close>

definition relative_object :: "GroupVar \<Rightarrow> bool" where
  "relative_object x = (case Lookup x of Some d \<Rightarrow> HasRelativeTime d | None \<Rightarrow> False)"

definition relative_header :: "object_header \<Rightarrow> bool" where
  "relative_header h = relative_object (OGroup h, OVariation h)"

fun timed :: "bool \<Rightarrow> object_header list \<Rightarrow> bool" where
  "timed cto [] = True"
| "timed cto (h # hs) = ((relative_header h \<longrightarrow> cto) \<and> timed (OGroup h = 51) hs)"

definition rb_carries :: "object_header list list \<Rightarrow> response_builder \<Rightarrow> bool" where
  "rb_carries hss b \<longleftrightarrow> rb_holds hss b \<and> rb_fits b \<and> list_all (list_all (sendable SizeBits FuncResponse)) hss \<and>
     list_all (timed False) hss"

definition rb_extends :: "response_builder \<Rightarrow> object_header list \<Rightarrow> response_builder \<Rightarrow> bool" where
  "rb_extends b hs b' \<longleftrightarrow> rb_max b' = rb_max b \<and> rb_ctx b' = rb_ctx b \<and>
     (\<forall>hss. rb_carries hss b \<longrightarrow> (\<exists>hss'. rb_carries hss' b' \<and> concat hss' = concat hss @ hs))"

lemma rb_extends_refl [simp, intro]: "rb_extends b [] b"
  by (auto simp: rb_extends_def)

lemma rb_extends_trans: "rb_extends b hs b' \<Longrightarrow> rb_extends b' hs' b'' \<Longrightarrow> rb_extends b (hs @ hs') b''"
  unfolding rb_extends_def by (metis append_assoc)

lemma concat_list_all: "list_all (list_all P) hss \<longleftrightarrow> list_all P (concat hss)"
  by (induction hss) simp_all

lemma timed_append: "timed cto (hs @ hs') \<longleftrightarrow> timed cto hs \<and> timed (if hs = [] then cto else OGroup (last hs) = 51) hs'"
  by (induction cto hs rule: timed.induct) auto

text \<open>Headers that fit what is left of the fragment join it, in one piece.\<close>

lemma rb_carries_join:
  assumes "rb_carries (xs @ [x]) b" "sendable SizeBits FuncResponse h" "int (O_Size h) \<le> rb_room b"
    and "relative_header h \<Longrightarrow> x \<noteq> [] \<and> OGroup (last x) = 51"
  shows "rb_carries (xs @ [x @ [h]]) (rb_add h b)"
proof -
  have h: "rb_holds (xs @ [x]) b" "rb_fits b" "list_all (timed False) (xs @ [x])"
    "list_all (list_all (sendable SizeBits FuncResponse)) (xs @ [x])"
    using assms(1) by (simp_all only: rb_carries_def)
  have "rb_holds (xs @ [x @ [h]]) (rb_add h b)" using rb_holds_snoc(1) [OF h(1), of h] rb_add_joins [OF assms(3)] by simp
  moreover have "rb_fits (rb_add h b)"
    using h(2) assms(2,3) by (intro rb_add_fits) (simp_all add: sendable_def rb_room_def)
  ultimately show ?thesis using h(3,4) assms(2,4) by (simp add: rb_carries_def timed_append)
qed

lemma rb_carries_last: "rb_carries hss b \<Longrightarrow> \<exists>xs x. hss = xs @ [x]"
  by (metis rb_carries_def rb_holds_def rev_exhaust)

lemma rb_extends_flush [simp, intro]: "rb_extends b [] (rb_flush b)"
proof -
  have "\<exists>hss'. rb_carries hss' (rb_flush b) \<and> concat hss' = concat hss" if c: "rb_carries hss b" for hss
  proof (cases "rb_cur b = []")
    case False
    then have "rb_carries (hss @ [[]]) (rb_flush b)"
      using c rb_flush_fits [of b] by (simp add: rb_carries_def rb_holds_def rb_flush_def)
    then show ?thesis by (intro exI [of _ "hss @ [[]]"]) simp
  qed (use c in \<open>auto simp: rb_flush_def\<close>)
  then show ?thesis by (simp add: rb_extends_def)
qed

lemma rb_add_flushed: "int (O_Size h) > rb_room b \<Longrightarrow> int (O_Size h) + int ResponseHeaderSize \<le> rb_max b \<Longrightarrow> rb_add h b = rb_add h (rb_flush b)"
  by (simp add: rb_add_def rb_flush_def rb_room_def Let_def)

lemma rb_extends_join:
  assumes "sendable SizeBits FuncResponse h" "int (O_Size h) \<le> rb_room b" "\<not> relative_header h"
  shows "rb_extends b [h] (rb_add h b)"
  unfolding rb_extends_def
proof (intro conjI allI impI)
  fix hss assume c: "rb_carries hss b"
  obtain xs x where s: "hss = xs @ [x]" using rb_carries_last [OF c] by blast
  show "\<exists>hss'. rb_carries hss' (rb_add h b) \<and> concat hss' = concat hss @ [h]"
    using rb_carries_join [OF c [unfolded s] assms(1,2)] assms(3) s by (intro exI [of _ "xs @ [x @ [h]]"]) simp
qed simp_all

lemma rb_extends_add:
  assumes "sendable SizeBits FuncResponse h" "int (O_Size h) + int ResponseHeaderSize \<le> rb_max b" "\<not> relative_header h"
  shows "rb_extends b [h] (rb_add h b)"
proof (cases "int (O_Size h) \<le> rb_room b")
  case True
  then show ?thesis using assms by (intro rb_extends_join)
next
  case False
  have "rb_extends (rb_flush b) [h] (rb_add h (rb_flush b))" using assms by (intro rb_extends_join) simp_all
  from rb_extends_trans [OF rb_extends_flush this] show ?thesis using rb_add_flushed [of b h] False assms(2) by simp
qed

text \<open>A common time of occurrence and the objects relative to it.\<close>

lemma rb_extends_pair:
  assumes "sendable SizeBits FuncResponse c" "sendable SizeBits FuncResponse h" "OGroup c = 51" "\<not> relative_header c"
    and "int (O_Size c) + int (O_Size h) \<le> rb_room b"
  shows "rb_extends b [c, h] (rb_add h (rb_add c b))"
  unfolding rb_extends_def
proof (intro conjI allI impI)
  fix hss assume carried: "rb_carries hss b"
  obtain xs x where s: "hss = xs @ [x]" using rb_carries_last [OF carried] by blast
  have "int (O_Size c) \<le> rb_room b" using assms(5) by simp
  have 1: "rb_carries (xs @ [x @ [c]]) (rb_add c b)"
    by (rule rb_carries_join [OF carried [unfolded s] assms(1)]) (use assms(4,5) in simp_all)
  have "wf_object c" using assms(1) by (simp add: sendable_def)
  then have "rb_room (rb_add c b) = rb_room b - int (O_Size c)"
    using rb_add_joins [of c b] assms(5) wf_object_size [of c] AppendObjectHeader_dst [of "rb_cur b" c] by (simp add: rb_room_def)
  then have 2: "rb_carries (xs @ [(x @ [c]) @ [h]]) (rb_add h (rb_add c b))"
    by (intro rb_carries_join [OF 1 assms(2)]) (use assms(3,5) in simp_all)
  show "\<exists>hss'. rb_carries hss' (rb_add h (rb_add c b)) \<and> concat hss' = concat hss @ [c, h]"
    by (rule exI [of _ "xs @ [(x @ [c]) @ [h]]"], rule conjI [OF 2]) (simp add: s)
qed simp_all

lemma rb_extends_maybe_flush: "rb_extends b [] (if c then rb_flush b else b)"
  by simp

text \<open>The fragments a master parses, object by object, once the response header is in front of them.\<close>

lemma rb_done_parsed:
  assumes "rb_carries hss b" "wf_app_header h" "AFunc h = FuncResponse"
  shows "\<exists>hss'. map (\<lambda>f. ParseFragment None (AppendHeader [] h @ f)) (rb_done b) =
      map (\<lambda>hs. (\<lparr>FHeader = h, FObjects = place (AHeader_Size h) hs, FRaw = AppendHeader [] h @ encode_objects hs\<rparr>, None)) hss' \<and>
    concat hss' = concat hss \<and> list_all (timed False) hss'"
proof -
  have "\<exists>hss'. rb_done b = map encode_objects hss' \<and> concat hss' = concat hss \<and> list_all (timed False) hss'"
  proof (cases "rb_cur b = []")
    case False
    then show ?thesis using assms(1) by (intro exI [of _ hss]) (simp add: rb_carries_def rb_holds_def rb_done_def rb_flush_def Let_def)
  next
    case True
    obtain xs x where s: "hss = xs @ [x]" using assms(1) by (metis rb_carries_def rb_holds_def rev_exhaust)
    then have x: "encode_objects x = []" "rb_fragments b = map encode_objects xs"
      using assms(1) True by (simp_all add: rb_carries_def rb_holds_def)
    then have "x = []" by (cases x) (simp_all add: AppendObjectHeader_first)
    then show ?thesis using x s True assms(1)
      by (intro exI [of _ "if xs = [] then [[]] else xs"]) (simp add: rb_done_def rb_flush_def rb_carries_def Let_def)
  qed
  then obtain hss' where e: "rb_done b = map encode_objects hss'" "concat hss' = concat hss" "list_all (timed False) hss'" by blast
  have "list_all (list_all (sendable SizeBits FuncResponse)) hss'"
    using assms(1) e(2) by (simp add: rb_carries_def concat_list_all)
  then have "ParseFragment None (AppendHeader [] h @ encode_objects hs) =
      (\<lparr>FHeader = h, FObjects = place (AHeader_Size h) hs, FRaw = AppendHeader [] h @ encode_objects hs\<rparr>, None)"
    if "hs \<in> set hss'" for hs
    using that assms(2,3) by (intro ParseFragment_encode) (auto simp: list_all_iff)
  then show ?thesis using e by (intro exI [of _ hss']) (auto simp: comp_def)
qed

section \<open>Ranges on the wire\<close>

lemma unat_of_nat_u16: "k < 65536 \<Longrightarrow> unat (of_nat k :: u16) = k"
  by (simp add: unsigned_of_nat take_bit_nat_eq_self_iff)

lemma rangeObjectHeader_ReadRange:
  assumes "start \<le> stop"
  shows "rangeObjectHeader x start stop data = (ReadRange (fst x) (snd x) (ucast start) (ucast stop))\<lparr>OData := data\<rparr>"
proof -
  have le: "unat start \<le> unat stop" using assms by (simp add: word_le_nat_alt)
  have c: "(ucast (stop - start) :: u32) = ucast stop - ucast start"
    using le assms by (simp add: word_unat_eq_iff unat_sub word_le_nat_alt)
  have "unat stop \<le> 65535" using u16_lt(1) [of stop] by linarith
  then have "(ucast stop :: u32) \<le> 0xFF \<longleftrightarrow> stop \<le> 0xFF" "(ucast stop :: u32) \<le> 0xFFFF"
    by (simp_all add: word_le_nat_alt)
  then show ?thesis by (simp add: rangeObjectHeader_def ReadRange_def Let_def c)
qed

text \<open>How many octets a run of objects of so many bits takes, packed below an octet.\<close>

definition run_octets :: "int \<Rightarrow> nat \<Rightarrow> nat" where
  "run_octets bits k = (if bits < 8 then (k * nat bits + 7) div 8 else k * (nat bits div 8))"

lemma wf_object_data [simp]: "wf_object (h\<lparr>OData := d\<rparr>) = wf_object h"
  by (simp add: wf_object_def)

lemma ReadRange_sel [simp]:
  "OGroup (ReadRange g v s e) = g" "OVariation (ReadRange g v s e) = v" "OData (ReadRange g v s e) = []"
  "Q_IndexPrefix (OQualifier (ReadRange g v s e)) = 0" "RCount (ORange (ReadRange g v s e)) = e - s + 1"
  "RSpec (ORange (ReadRange g v s e)) \<noteq> RangeAllObjects"
  by (simp_all add: ReadRange_def Let_def)

lemma rangeObjectHeader_sendable:
  assumes r: "lo < hi" "hi \<le> 65536" and bits: "SizeBits (fst x) (snd x) = Some bits" "0 < bits" "bits < 8 \<or> bits mod 8 = 0"
    and x: "snd x \<noteq> 0" "fst x \<noteq> 0" "fst x \<noteq> 91" and data: "length data = run_octets bits (hi - lo)"
  defines "h \<equiv> rangeObjectHeader x (of_nat lo) (of_nat (hi - 1)) data"
  shows "sendable SizeBits FuncResponse h" "O_Size h \<le> 7 + length data"
proof -
  define s e :: u16 where se: "s = of_nat lo" "e = of_nat (hi - 1)"
  let ?r = "ReadRange (fst x) (snd x) (ucast s) (ucast e)"
  have u: "unat s = lo" "unat e = hi - 1" unfolding se by (rule unat_of_nat_u16, use r in linarith)+
  then have le: "s \<le> e" "(ucast s :: u32) \<le> ucast e" using r by (simp_all add: word_le_nat_alt)
  have h: "h = ?r\<lparr>OData := data\<rparr>" unfolding h_def se [symmetric] by (rule rangeObjectHeader_ReadRange [OF le(1)])
  have c: "unat ((ucast e :: u32) - ucast s + 1) = hi - lo"
    using u r le(2) by (subst unat_add_lem [THEN iffD1]) (simp_all add: unat_sub)
  have c0: "(ucast e :: u32) - ucast s + 1 \<noteq> 0" using c r by (metis unat_0 zero_less_diff less_irrefl)
  have "wf_object h" unfolding h wf_object_data using r u le(2) by (intro ReadRange_wf) simp_all
  moreover have "objectDataLen SizeBits h data True = Inr (length data)"
  proof -
    have "objectDataLen SizeBits h data True =
      (let n = (if bits < 8 then ((hi - lo) * nat bits + 7) div 8 else (hi - lo) * (0 + nat bits div 8))
       in if length data < n then Inl ErrTruncated else Inr n)"
      using objectDataLen_exact_aux [of h bits data] bits x c c0 unfolding h by (auto simp: Prefix_Octets_def Let_def)
    then show ?thesis using data by (simp add: run_octets_def Let_def)
  qed
  ultimately show "sendable SizeBits FuncResponse h"
    using h by (simp add: sendable_def objectCarriesData_def CarriesObjectData_def)
  show "O_Size h \<le> 7 + length data"
    by (simp add: h_def O_Size_def rangeObjectHeader_def Let_def Range_Octets_def)
qed

section \<open>Every described object has its encoder\<close>

text \<open>An encoder adds to the octets it is given, the same whatever they are.\<close>

definition adds_octets :: "'a codec \<Rightarrow> bool" where
  "adds_octets c \<longleftrightarrow> (\<forall>dst v ctx. Write c dst v ctx = dst @ Write c [] v ctx)"

lemma AppendTime48_dst [simp]: "AppendTime48 (x # dst) t = x # AppendTime48 dst t" "AppendTime48 (xs @ dst) t = xs @ AppendTime48 dst t"
  by (simp_all add: AppendTime48_def appendTime48_def)

lemma adds_octets_tables:
  "list_all (\<lambda>(x, c). adds_octets c) binaryCodecs" "list_all (\<lambda>(x, c). adds_octets c) doublebitCodecs"
  "list_all (\<lambda>(x, c). adds_octets c) counterCodecs" "list_all (\<lambda>(x, c). adds_octets c) frozencounterCodecs"
  "list_all (\<lambda>(x, c). adds_octets c) analogCodecs" "list_all (\<lambda>(x, c). adds_octets c) binaryoutputCodecs"
  "list_all (\<lambda>(x, c). adds_octets c) analogoutputCodecs"
  by (simp_all add: adds_octets_def Let_def case_prod_beta
      binaryCodecs_def binary_defs doublebitCodecs_def doublebit_defs counterCodecs_def counter_defs
      frozencounterCodecs_def frozencounter_defs analogCodecs_def analog_defs binaryoutputCodecs_def binaryoutput_defs
      analogoutputCodecs_def analogoutput_defs)

text \<open>The tables miss no described object of whole octets.\<close>

definition table_complete :: "byte list \<Rightarrow> (GroupVar \<times> 'a codec) list \<Rightarrow> bool" where
  "table_complete groups table \<longleftrightarrow>
     list_all (\<lambda>(x, d). if fst x \<in> set groups then fst (SizeOctets d) = 0 \<or> x \<in> fst ` set table else True) descriptors"

lemma codec_tables_complete:
  "table_complete [1, 2] binaryCodecs" "table_complete [3, 4] doublebitCodecs" "table_complete [20, 22] counterCodecs"
  "table_complete [21, 23] frozencounterCodecs" "table_complete [30, 31, 32, 33] analogCodecs"
  "table_complete [10, 11] binaryoutputCodecs" "table_complete [40, 42] analogoutputCodecs"
  by (simp_all add: table_complete_def descriptor_tables SizeOctets_def binaryCodecs_def doublebitCodecs_def counterCodecs_def
      frozencounterCodecs_def analogCodecs_def binaryoutputCodecs_def analogoutputCodecs_def)

lemma table_codec: "x \<in> fst ` set table \<Longrightarrow> \<exists>c. map_of table x = Some c"
  by (metis image_eqI map_of_eq_None_iff option.exhaust)

text \<open>So encoding a value as a described object appends as many octets as the descriptor gives.\<close>

definition appends :: "(byte list \<Rightarrow> byte list) \<Rightarrow> nat \<Rightarrow> bool" where
  "appends f n \<longleftrightarrow> (\<forall>dst. f dst = dst @ f []) \<and> length (f []) = n"

lemma encode_with_appends:
  assumes "list_all (\<lambda>(x, c). adds_octets c) table" "\<And>v ctx. list_all (\<lambda>(x, c). codec_ok keep x c [] v ctx []) table"
    and "table_complete groups table" "fst x \<in> set groups" "Lookup x = Some d" "SizeOctets d = (int n, True)" "n \<noteq> 0"
  shows "appends (\<lambda>dst. encode_with (map_of table x) dst v ctx) n"
proof -
  have m: "(x, d) \<in> set descriptors" using assms(5) by (auto simp: Lookup_def dest: map_of_SomeD)
  have "if fst x \<in> set groups then fst (SizeOctets d) = 0 \<or> x \<in> fst ` set table else True"
    using bspec [OF assms(3) [unfolded table_complete_def list_all_iff] m] by (simp only: prod.case)
  then have "x \<in> fst ` set table" using assms(4,6,7) by simp
  from table_codec [OF this] obtain c where c: "map_of table x = Some c" by (elim exE)
  have ok: "adds_octets c" "codec_ok keep x c [] v ctx []"
    by (rule list_all_lookup [OF assms(1) c], rule list_all_lookup [OF assms(2) c])
  have "length (Write c [] v ctx) = n" using ok(2) assms(5,6) by (auto simp: codec_ok_def)
  then show ?thesis unfolding appends_def encode_with_def c option.case using ok(1) unfolding adds_octets_def by blast
qed

lemmas codec_appends =
  encode_with_appends [OF adds_octets_tables(1) binary_codecs_ok codec_tables_complete(1), folded BinaryCodec_def]
  encode_with_appends [OF adds_octets_tables(2) doublebit_codecs_ok codec_tables_complete(2), folded DoubleBitCodec_def]
  encode_with_appends [OF adds_octets_tables(3) counter_codecs_ok codec_tables_complete(3), folded CounterCodec_def]
  encode_with_appends [OF adds_octets_tables(4) frozencounter_codecs_ok codec_tables_complete(4), folded FrozenCounterCodec_def]
  encode_with_appends [OF adds_octets_tables(5) analog_codecs_ok codec_tables_complete(5), folded AnalogCodec_def]
  encode_with_appends [OF adds_octets_tables(6) binaryoutput_codecs_ok codec_tables_complete(6), folded BinaryOutputCodec_def]
  encode_with_appends [OF adds_octets_tables(7) analogoutput_codecs_ok codec_tables_complete(7), folded AnalogOutputCodec_def]

lemma encodeStatic_appends:
  assumes "Lookup (staticGroupVar pt v) = Some d" "SizeOctets d = (int n, True)" "n \<noteq> 0" "pt \<in> set staticTypes" "pt \<noteq> TypeOctetString"
  shows "appends (\<lambda>dst. encodeStatic db dst pt (staticGroupVar pt v) i ctx) n"
proof -
  consider "pt = TypeBinary" | "pt = TypeDoubleBitBinary" | "pt = TypeBinaryOutputStatus" | "pt = TypeCounter" | "pt = TypeFrozenCounter"
    | "pt = TypeAnalog" | "pt = TypeFrozenAnalog" | "pt = TypeAnalogOutputStatus"
    using assms(4,5) by (auto simp: staticTypes_def)
  then show ?thesis
    using codec_appends [OF _ assms(1-3)] by cases (simp_all add: encodeStatic_def staticGroupVar_def)
qed

section \<open>A range reports its points\<close>

text \<open>The runs a range is cut into follow one another without gap or overlap, none of them empty.\<close>

fun chained :: "nat \<Rightarrow> nat \<Rightarrow> ('v \<times> nat \<times> nat) list \<Rightarrow> bool" where
  "chained lo hi [] = (lo = hi)"
| "chained lo hi ((v, a, b) # cs) = (a = lo \<and> a < b \<and> chained b hi cs)"

lemma chained_append: "chained lo mid xs \<Longrightarrow> chained mid hi ys \<Longrightarrow> chained lo hi (xs @ ys)"
  by (induction lo mid xs rule: chained.induct) auto

lemma chained_indexes: "chained lo hi cs \<Longrightarrow> concat (map (\<lambda>(v, a, b). [a..<b]) cs) = [lo..<hi] \<and> lo \<le> hi"
proof (induction lo hi cs rule: chained.induct)
  case (2 lo hi v a b cs)
  then have "b \<le> hi" "a < b" "a = lo" "concat (map (\<lambda>(v, a, b). [a..<b]) cs) = [b..<hi]" by auto
  then show ?case using upt_add_eq_append [of a b "hi - b"] by simp
qed simp

text \<open>The header of one run, as an independent description: the variation, the indexes and the octets of every point.\<close>

definition static_header :: "database \<Rightarrow> PointType \<Rightarrow> decode_context \<Rightarrow> byte \<times> nat \<times> nat \<Rightarrow> object_header" where
  "static_header db pt ctx = (\<lambda>(v, lo, hi).
     let x = staticGroupVar pt v
     in rangeObjectHeader x (of_nat lo) (of_nat (hi - 1))
          (if packedBits x > 0 then packed_octets db pt lo hi
           else concat (map (\<lambda>i. encodeStatic db [] pt x (of_nat i) ctx) [lo..<hi])))"

text \<open>The variations a static point can be reported in: packed, or described with a whole number of octets.\<close>

definition static_variation :: "PointType \<Rightarrow> byte \<Rightarrow> bool" where
  "static_variation pt v \<longleftrightarrow> packedBits (staticGroupVar pt v) > 0 \<or>
     (case Lookup (staticGroupVar pt v) of Some d \<Rightarrow> fst (SizeOctets d) \<noteq> 0 | None \<Rightarrow> False)"

lemma foldl_appends:
  assumes "\<And>i dst. i \<in> set is \<Longrightarrow> f dst i = dst @ f [] i"
  shows "foldl f dst is = dst @ concat (map (f []) is)"
  using assms
proof (induction "is" arbitrary: dst)
  case (Cons i "is")
  have "foldl f (f dst i) is = f dst i @ concat (map (f []) is)" by (rule Cons.IH, rule Cons.prems) simp
  moreover have "f dst i = dst @ f [] i" by (rule Cons.prems) simp
  ultimately show ?case by simp
qed simp

lemma length_concat_same: "(\<And>x. x \<in> set xs \<Longrightarrow> length (f x) = n) \<Longrightarrow> length (concat (map f xs)) = length xs * n"
  by (induction xs) simp_all

lemma static_octets_concat:
  assumes "\<And>i. appends (\<lambda>dst. encodeStatic db dst pt x i ctx) n"
  shows "static_octets db pt x ctx lo hi = concat (map (\<lambda>i. encodeStatic db [] pt x (of_nat i) ctx) [lo..<hi])"
    "length (concat (map (\<lambda>i. encodeStatic db [] pt x (of_nat i) ctx) [lo..<hi])) = (hi - lo) * n"
proof -
  have a: "encodeStatic db dst pt x i ctx = dst @ encodeStatic db [] pt x i ctx" "length (encodeStatic db [] pt x i ctx) = n" for dst i
    using assms [of i] unfolding appends_def by blast+
  have "foldl (\<lambda>data i. encodeStatic db data pt x (of_nat i) ctx) [] [lo..<hi] =
      [] @ concat (map (\<lambda>i. encodeStatic db [] pt x (of_nat i) ctx) [lo..<hi])"
    by (rule foldl_appends) (rule a(1))
  then show "static_octets db pt x ctx lo hi = concat (map (\<lambda>i. encodeStatic db [] pt x (of_nat i) ctx) [lo..<hi])"
    by (simp add: static_octets_def)
  show "length (concat (map (\<lambda>i. encodeStatic db [] pt x (of_nat i) ctx) [lo..<hi])) = (hi - lo) * n"
    by (subst length_concat_same [of _ _ n]) (simp_all add: a(2))
qed

lemma length_packed_octets:
  "length (packed_octets db pt lo hi) = (if pt = TypeDoubleBitBinary then ((hi - lo) * 2 + 7) div 8 else (hi - lo + 7) div 8)"
  by (simp add: packed_octets_def AppendPackedBinary_fields AppendPackedDoubleBit_fields)

text \<open>A fragment that cannot take an object is put away, and then takes it.\<close>

lemma room_made: "n + 11 \<le> rb_max b \<Longrightarrow> n \<le> rb_room (if rb_room b - headerOverhead < n then rb_flush b else b) - headerOverhead"
  by simp

lemma rb_room_le: "rb_room b + int ResponseHeaderSize \<le> rb_max b"
  by (simp add: rb_room_def)

lemma rb_extends_step:
  assumes "rb_extends b [] b1" "sendable SizeBits FuncResponse h" "int (O_Size h) \<le> rb_room b1" "\<not> relative_header h"
    and "rb_extends (rb_add h b1) hs b2"
  shows "rb_extends b (h # hs) b2"
proof -
  have "rb_extends b1 [h] (rb_add h b1)" using assms(2-4) by (rule rb_extends_join)
  from rb_extends_trans [OF rb_extends_trans [OF assms(1) this] assms(5)] show ?thesis by simp
qed

lemma rb_extends_sel: "rb_extends b hs b' \<Longrightarrow> rb_max b' = rb_max b \<and> rb_ctx b' = rb_ctx b"
  by (simp add: rb_extends_def)

lemma described_octets:
  assumes "Lookup x = Some d" "SizeOctets d = (sz, ok)" "sz \<noteq> 0"
  obtains n where "ok" "sz = int n" "0 < n" "n \<le> 15" "SizeBits (fst x) (snd x) = Some (int (8 * n))"
proof -
  have "DSizeBits d \<le> 120"
    using SizeBits_described [of "fst x" "snd x" d] assms(1) generatedSizes_range
    by (auto simp: SizeBits_def list_all_iff dest!: map_of_SomeD split: option.splits if_splits)
  then show thesis
    using that [of "nat sz"] assms SizeBits_described [of "fst x" "snd x" d]
    by (auto simp: SizeOctets_def split: if_splits)
qed

lemma staticGroupVar_group: "fst (staticGroupVar pt v) \<noteq> 91" "pt \<in> set staticTypes \<Longrightarrow> fst (staticGroupVar pt v) \<noteq> 0"
  by (auto simp: staticGroupVar_def staticTypes_def)

lemma described_nonzero: "Lookup x = Some d \<Longrightarrow> snd x \<noteq> 0"
proof -
  assume "Lookup x = Some d"
  then have "(x, d) \<in> set descriptors" by (auto simp: Lookup_def dest: map_of_SomeD)
  moreover have "list_all (\<lambda>(x, d). snd x \<noteq> 0) descriptors" by (simp add: descriptor_tables)
  ultimately show ?thesis by (auto simp: list_all_iff)
qed

lemma div_mult_room: "int (nat a div n * n) \<le> max 0 a"
proof -
  have "int (nat a div n * n) \<le> int (nat a)" by (simp only: of_nat_le_iff div_times_less_eq_dividend)
  then show ?thesis by (simp add: max_def)
qed

text \<open>The objects of static ranges carry no relative times.\<close>

lemma static_unrelated:
  assumes "fst x \<in> {1, 3, 10, 20, 21, 30, 31, 40, 110}"
  shows "\<not> relative_object x"
proof -
  have "list_all (\<lambda>(x, d). fst x \<in> {1, 3, 10, 20, 21, 30, 31, 40, 110} \<longrightarrow> \<not> HasRelativeTime d) descriptors"
    by (simp add: descriptor_tables)
  then show ?thesis using assms by (auto simp: relative_object_def Lookup_def list_all_iff split: option.splits dest!: map_of_SomeD)
qed

lemma rangeObjectHeader_relative: "relative_header (rangeObjectHeader x start stop data) = relative_object x"
  by (simp add: relative_header_def rangeObjectHeader_def Let_def)

lemma static_header_unrelated: "pt \<in> set staticTypes \<Longrightarrow> \<not> relative_header (static_header db pt ctx (v, a, c))"
  unfolding static_header_def prod.case Let_def rangeObjectHeader_relative
  by (rule static_unrelated) (auto simp: staticTypes_def staticGroupVar_def)

text \<open>
  The loops over a run have one shape: make room, take as many objects as fit, go on behind them.
  A loop that advances in this way cuts the run into headers, and ends.
\<close>

lemma run_loop:
  fixes loop :: "nat \<Rightarrow> response_builder \<Rightarrow> 'r"
  assumes fin: "\<And>idx b. stop < idx \<Longrightarrow> loop idx b = ret b" and unrel: "\<And>a c. \<not> relative_header (hdr (v, a, c))"
    and step: "\<And>idx b. lo \<le> idx \<Longrightarrow> idx \<le> stop \<Longrightarrow> rb_max b = mx \<Longrightarrow> rb_ctx b = ctx \<Longrightarrow>
      \<exists>k b1. 0 < k \<and> idx + k \<le> stop + 1 \<and> rb_extends b [] b1 \<and> sendable SizeBits FuncResponse (hdr (v, idx, idx + k)) \<and>
        int (O_Size (hdr (v, idx, idx + k))) \<le> rb_room b1 \<and> loop idx b = loop (idx + k) (rb_add (hdr (v, idx, idx + k)) b1)"
  shows "lo \<le> idx \<Longrightarrow> idx \<le> stop + 1 \<Longrightarrow> rb_max b = mx \<Longrightarrow> rb_ctx b = ctx \<Longrightarrow>
    \<exists>runs b'. chained idx (stop + 1) runs \<and> fst ` set runs \<subseteq> {v} \<and> rb_extends b (map hdr runs) b' \<and> loop idx b = ret b'"
proof (induction "stop + 1 - idx" arbitrary: idx b rule: less_induct)
  case less
  show ?case
  proof (cases "idx \<le> stop")
    case False
    then show ?thesis using less.prems(2) fin [of idx b] by (intro exI [of _ "[]"] exI [of _ b]) simp
  next
    case True
    obtain k b1 where s: "0 < k" "idx + k \<le> stop + 1" "rb_extends b [] b1" "sendable SizeBits FuncResponse (hdr (v, idx, idx + k))"
        "int (O_Size (hdr (v, idx, idx + k))) \<le> rb_room b1" "loop idx b = loop (idx + k) (rb_add (hdr (v, idx, idx + k)) b1)"
      using step [OF less.prems(1) True less.prems(3,4)] by blast
    let ?b = "rb_add (hdr (v, idx, idx + k)) b1"
    have "\<exists>runs b'. chained (idx + k) (stop + 1) runs \<and> fst ` set runs \<subseteq> {v} \<and> rb_extends ?b (map hdr runs) b' \<and> loop (idx + k) ?b = ret b'"
      by (rule less.hyps) (use s(1-3) less.prems(1,3,4) True in \<open>simp_all add: rb_extends_def\<close>)
    then obtain runs b' where r: "chained (idx + k) (stop + 1) runs" "fst ` set runs \<subseteq> {v}" "rb_extends ?b (map hdr runs) b'"
        "loop (idx + k) ?b = ret b'" by blast
    show ?thesis
      using rb_extends_step [OF s(3-5) unrel r(3)] r s(1,6)
      by (intro exI [of _ "(v, idx, idx + k) # runs"] exI [of _ b']) simp
  qed
qed

lemma static_run_reports:
  assumes x: "x = staticGroupVar pt v" "Lookup x = Some d" "SizeOctets d = (int n, True)" "n \<noteq> 0" "packedBits x \<le> 0"
    and pt: "pt \<in> set staticTypes" "pt \<noteq> TypeOctetString" and "idx \<le> stop + 1" "stop < 65536" "int n + 11 \<le> rb_max b"
  shows "\<exists>runs. chained idx (stop + 1) runs \<and> fst ` set runs \<subseteq> {v} \<and>
      rb_extends b (map (static_header db pt (rb_ctx b)) runs) (static_run db pt x n idx stop b)"
proof -
  let ?hdr = "static_header db pt (rb_ctx b)"
  have "\<exists>runs b'. chained idx (stop + 1) runs \<and> fst ` set runs \<subseteq> {v} \<and> rb_extends b (map ?hdr runs) b' \<and>
      static_run db pt x n idx stop b = b'"
  proof (rule run_loop [where lo = 0 and ret = "\<lambda>b. b" and mx = "rb_max b" and ctx = "rb_ctx b"])
    fix idx and b' :: response_builder
    assume i: "idx \<le> stop" and b': "rb_max b' = rb_max b" "rb_ctx b' = rb_ctx b"
    define b1 where "b1 = (if rb_room b' - headerOverhead < int n then rb_flush b' else b')"
    define k where "k = min (nat (rb_room b1 - headerOverhead) div n) (stop - idx + 1)"
    let ?data = "concat (map (\<lambda>i. encodeStatic db [] pt x (of_nat i) (rb_ctx b)) [idx..<idx + k])"
    have e: "rb_extends b' [] b1" unfolding b1_def by (rule rb_extends_maybe_flush)
    then have sel: "rb_ctx b1 = rb_ctx b" by (simp add: rb_extends_def b')
    have room: "int n \<le> rb_room b1 - headerOverhead" unfolding b1_def by (rule room_made) (simp only: b' assms)
    have "0 < nat (rb_room b1 - headerOverhead) div n" using room x(4) by (simp add: div_greater_zero_iff)
    then have k: "0 < k" "idx + k \<le> stop + 1" using i by (auto simp: k_def)
    have c: "static_octets db pt x (rb_ctx b) idx (idx + k) = ?data" "length ?data = k * n"
      using static_octets_concat [OF encodeStatic_appends [OF x(2-4) [unfolded x(1)] pt]] unfolding x(1) by simp_all
    have h: "?hdr (v, idx, idx + k) = rangeObjectHeader x (of_nat idx) (of_nat (idx + k - 1)) ?data"
      using x(5) by (simp add: static_header_def x(1) [symmetric] Let_def del: of_nat_diff)
    obtain m where m: "int n = int m" "SizeBits (fst x) (snd x) = Some (int (8 * m))"
      by (rule described_octets [OF x(2,3)]) (use x(4) in simp_all)
    have s: "sendable SizeBits FuncResponse (?hdr (v, idx, idx + k))" "O_Size (?hdr (v, idx, idx + k)) \<le> 7 + k * n"
      unfolding h using rangeObjectHeader_sendable [of idx "idx + k" x "int (8 * n)" ?data]
        k assms(9) m x(4) described_nonzero [OF x(2)] staticGroupVar_group pt(1) c(2)
      by (simp_all add: x(1) run_octets_def)
    have "k * n \<le> nat (rb_room b1 - headerOverhead) div n * n" by (simp add: k_def)
    also have "int \<dots> \<le> rb_room b1 - headerOverhead"
      using div_mult_room [where a = "rb_room b1 - headerOverhead" and n = n] room by simp
    finally have "int (7 + k * n) \<le> rb_room b1" by simp
    moreover have "int (O_Size (?hdr (v, idx, idx + k))) \<le> int (7 + k * n)" using s(2) by (simp only: of_nat_le_iff)
    ultimately have "int (O_Size (?hdr (v, idx, idx + k))) \<le> rb_room b1" by linarith
    moreover have "static_run db pt x n idx stop b' = static_run db pt x n (idx + k) stop (rb_add (?hdr (v, idx, idx + k)) b1)"
    proof -
      have g: "\<not> (\<not> idx \<le> stop \<or> n = 0)" "\<not> rb_room b1 - headerOverhead < int n" using i x(4) room by simp_all
      show ?thesis unfolding h c(1) [symmetric]
        by (subst static_run.simps) (simp only: Let_def b1_def [symmetric] k_def [symmetric] if_not_P [OF g(1)] if_not_P [OF g(2)] sel)
    qed
    ultimately show "\<exists>k b1. 0 < k \<and> idx + k \<le> stop + 1 \<and> rb_extends b' [] b1 \<and> sendable SizeBits FuncResponse (?hdr (v, idx, idx + k)) \<and>
        int (O_Size (?hdr (v, idx, idx + k))) \<le> rb_room b1 \<and>
        static_run db pt x n idx stop b' = static_run db pt x n (idx + k) stop (rb_add (?hdr (v, idx, idx + k)) b1)"
      using k e s(1) by blast
  qed (use assms(8) pt(1) in \<open>simp_all add: static_run.simps static_header_unrelated\<close>)
  then show ?thesis by blast
qed

lemma packed_sizes: "SizeBits 1 1 = Some 1" "SizeBits 10 1 = Some 1" "SizeBits 3 1 = Some 2"
  by (simp_all add: SizeBits_def lengthIsVariationGroups_def generatedSizes_def gv_def)

lemma packed_types:
  assumes "0 < packedBits (staticGroupVar pt v)" "pt \<in> set staticTypes"
  shows "v = 1 \<and> (pt = TypeBinary \<and> staticGroupVar pt v = (1, 1) \<and> packedBits (1, 1) = 1 \<or>
    pt = TypeBinaryOutputStatus \<and> staticGroupVar pt v = (10, 1) \<and> packedBits (10, 1) = 1 \<or>
    pt = TypeDoubleBitBinary \<and> staticGroupVar pt v = (3, 1) \<and> packedBits (3, 1) = 2)"
proof -
  have "staticGroupVar pt v \<in> {(1, 1), (10, 1), (3, 1)}" using assms(1) by (auto simp: packedBits_def split: if_splits)
  then show ?thesis using assms(2) by (auto simp: staticTypes_def staticGroupVar_def packedBits_def)
qed

lemma packed_run_reports:
  assumes x: "x = staticGroupVar pt v" "packedBits x = bits" "0 < bits"
    and pt: "pt \<in> set staticTypes" and "idx \<le> stop + 1" "stop < 65536" "12 \<le> rb_max b"
  shows "\<exists>runs. chained idx (stop + 1) runs \<and> fst ` set runs \<subseteq> {v} \<and>
      rb_extends b (map (static_header db pt (rb_ctx b)) runs) (packed_run db pt x bits idx stop b)"
proof -
  let ?hdr = "static_header db pt (rb_ctx b)"
  have size: "SizeBits (fst x) (snd x) = Some bits" "bits = (if pt = TypeDoubleBitBinary then 2 else 1)" "snd x \<noteq> 0"
    using packed_types [of pt v] pt x packed_sizes by auto
  have "\<exists>runs b'. chained idx (stop + 1) runs \<and> fst ` set runs \<subseteq> {v} \<and> rb_extends b (map ?hdr runs) b' \<and>
      packed_run db pt x bits idx stop b = b'"
  proof (rule run_loop [where lo = 0 and ret = "\<lambda>b. b" and mx = "rb_max b" and ctx = "rb_ctx b"])
    fix idx and b' :: response_builder
    assume i: "idx \<le> stop" and b': "rb_max b' = rb_max b" "rb_ctx b' = rb_ctx b"
    define b1 where "b1 = (if packed_capacity b' bits < 1 then rb_flush b' else b')"
    define nxt where "nxt = min (idx + nat (packed_capacity b1 bits)) (stop + 1)"
    define k where "k = nxt - idx"
    have e: "rb_extends b' [] b1" unfolding b1_def by (rule rb_extends_maybe_flush)
    have cap: "1 \<le> packed_capacity b1 bits"
      using size(2) assms(7) b'(1) by (auto simp: b1_def packed_capacity_def)
    then have k: "0 < k" "idx + k \<le> stop + 1" "nxt = idx + k" "int k \<le> packed_capacity b1 bits"
      using i by (auto simp: k_def nxt_def)
    have h: "?hdr (v, idx, idx + k) = rangeObjectHeader x (of_nat idx) (of_nat (nxt - 1)) (packed_octets db pt idx nxt)"
      using x k(3) by (simp add: static_header_def Let_def del: of_nat_diff)
    have len: "length (packed_octets db pt idx nxt) = run_octets bits k"
      using size(2) by (simp add: length_packed_octets run_octets_def k_def)
    have s: "sendable SizeBits FuncResponse (?hdr (v, idx, idx + k))" "O_Size (?hdr (v, idx, idx + k)) \<le> 7 + run_octets bits k"
      unfolding h using rangeObjectHeader_sendable [of idx nxt x bits "packed_octets db pt idx nxt"]
        k assms(6) size staticGroupVar_group pt len x(3) by (simp_all add: x(1) split: if_splits)
    have "int k * bits \<le> (rb_room b1 - headerOverhead) * 8"
      using k(4) size(2) by (auto simp: packed_capacity_def split: if_splits)
    then have "int (run_octets bits k) \<le> rb_room b1 - headerOverhead"
      using size(2) by (auto simp: run_octets_def zdiv_int split: if_splits)
    then have "int (O_Size (?hdr (v, idx, idx + k))) \<le> rb_room b1" using s(2) by linarith
    moreover have "packed_run db pt x bits idx stop b' = packed_run db pt x bits (idx + k) stop (rb_add (?hdr (v, idx, idx + k)) b1)"
    proof -
      have g: "\<not> \<not> idx \<le> stop" "\<not> packed_capacity b1 bits < 1" using i cap by simp_all
      show ?thesis unfolding h unfolding k(3) [symmetric]
        by (subst packed_run.simps) (simp only: Let_def b1_def [symmetric] nxt_def [symmetric] if_not_P [OF g(1)] if_not_P [OF g(2)])
    qed
    ultimately show "\<exists>k b1. 0 < k \<and> idx + k \<le> stop + 1 \<and> rb_extends b' [] b1 \<and> sendable SizeBits FuncResponse (?hdr (v, idx, idx + k)) \<and>
        int (O_Size (?hdr (v, idx, idx + k))) \<le> rb_room b1 \<and>
        packed_run db pt x bits idx stop b' = packed_run db pt x bits (idx + k) stop (rb_add (?hdr (v, idx, idx + k)) b1)"
      using k(1,2) e s(1) by blast
  qed (use assms(5) pt in \<open>simp_all add: packed_run.simps static_header_unrelated\<close>)
  then show ?thesis by blast
qed

lemma buildStaticRun_reports:
  assumes "static_variation pt v" "pt \<in> set staticTypes" "pt \<noteq> TypeOctetString" "lo \<le> hi" "hi < 65536" "26 \<le> rb_max b"
  shows "\<exists>runs. chained lo (hi + 1) runs \<and> fst ` set runs \<subseteq> {v} \<and>
      rb_extends b (map (static_header db pt (rb_ctx b)) runs) (buildStaticRun db pt v (of_nat lo) (of_nat hi) b)"
proof -
  let ?x = "staticGroupVar pt v"
  have u: "unat (of_nat lo :: u16) = lo" "unat (of_nat hi :: u16) = hi" using assms(4,5) by (simp_all add: unat_of_nat_u16)
  show ?thesis
  proof (cases "packedBits ?x > 0")
    case True
    then show ?thesis
      using packed_run_reports [OF refl refl True assms(2), of lo hi b] assms(4-6) by (simp add: buildStaticRun_def Let_def u)
  next
    case False
    then obtain d sz ok where d: "Lookup ?x = Some d" "SizeOctets d = (sz, ok)" "sz \<noteq> 0"
      using assms(1) by (cases "SizeOctets (the (Lookup ?x))") (auto simp: static_variation_def split: option.splits)
    obtain n where n: "ok" "sz = int n" "0 < n" "n \<le> 15" by (rule described_octets [OF d])
    then show ?thesis
      using static_run_reports [OF refl d(1), of n lo hi b] assms(2-6) d False by (simp add: buildStaticRun_def Let_def u)
  qed
qed

lemma run_end_le: "fin \<le> stop \<Longrightarrow> run_end key v fin stop \<le> stop"
  by (induction key v fin stop rule: run_end.induct) (subst run_end.simps, auto)

lemma run_end_same: "fin < i \<Longrightarrow> i \<le> run_end key v fin stop \<Longrightarrow> key i = Some v"
proof (induction key v fin stop rule: run_end.induct)
  case (1 key v fin stop)
  show ?case
  proof (cases "fin < stop \<and> key (fin + 1) = Some v")
    case True
    then have "run_end key v fin stop = run_end key v (fin + 1) stop" by (subst run_end.simps) simp
    then show ?thesis using 1 True by (cases "i = fin + 1") auto
  next
    case False
    then have "run_end key v fin stop = fin" by (subst run_end.simps) (rule if_not_P)
    then show ?thesis using 1 by simp
  qed
qed

lemma chained_within: "chained lo hi runs \<Longrightarrow> (v, a, b) \<in> set runs \<Longrightarrow> lo \<le> a \<and> a < b \<and> b \<le> hi"
proof (induction lo hi runs rule: chained.induct)
  case (2 lo hi v' a' b' cs)
  have "b' \<le> hi" using 2(2) chained_indexes [of b' hi cs] by simp
  then show ?case using 2 by fastforce
qed simp

lemma runs_all:
  assumes "chained lo (hi + 1) runs" "fst ` set runs \<subseteq> {v}" "\<And>i. lo \<le> i \<Longrightarrow> i \<le> hi \<Longrightarrow> P v i"
  shows "list_all (\<lambda>(v, a, b). list_all (P v) [a..<b]) runs"
proof -
  have "v' = v \<and> lo \<le> a \<and> c \<le> hi + 1" if "(v', a, c) \<in> set runs" for v' a c
    using assms(2) chained_within [OF assms(1) that] that by force
  then have "list_all (P v') [a..<c]" if "(v', a, c) \<in> set runs" for v' a c
    using that assms(3) unfolding list_all_iff
    by (metis Suc_eq_plus1 atLeastLessThan_iff atLeastLessThan_upt less_Suc_eq_le less_le_trans order_trans)
  then show ?thesis unfolding list_all_iff [of _ runs] by blast
qed

text \<open>The runs of a whole range, each with the variation its points are reported in.\<close>

definition reports_range :: "database \<Rightarrow> PointType \<Rightarrow> byte \<Rightarrow> nat \<Rightarrow> nat \<Rightarrow> (byte \<times> nat \<times> nat) list \<Rightarrow> bool" where
  "reports_range db pt requested lo hi runs \<longleftrightarrow> chained lo hi runs \<and>
     list_all (\<lambda>(v, a, b). list_all (\<lambda>i. reportVariation db pt requested (of_nat i) = Some v) [a..<b]) runs"

lemma reports_range_append:
  "reports_range db pt rq lo mid xs \<Longrightarrow> reports_range db pt rq mid hi ys \<Longrightarrow> reports_range db pt rq lo hi (xs @ ys)"
  by (auto simp: reports_range_def intro: chained_append)

lemma static_range_reports:
  assumes pt: "pt \<in> set staticTypes" "pt \<noteq> TypeOctetString"
  shows "idx \<le> stop + 1 \<Longrightarrow> stop < 65536 \<Longrightarrow> 26 \<le> rb_max b \<Longrightarrow>
    (\<And>i. idx \<le> i \<Longrightarrow> i \<le> stop \<Longrightarrow> \<exists>v. reportVariation db pt rq (of_nat i) = Some v \<and> static_variation pt v) \<Longrightarrow>
    \<exists>runs. reports_range db pt rq idx (stop + 1) runs \<and>
      rb_extends b (map (static_header db pt (rb_ctx b)) runs) (static_range db pt rq idx stop b)"
proof (induction "stop + 1 - idx" arbitrary: idx b rule: less_induct)
  case less
  show ?case
  proof (cases "idx \<le> stop")
    case False
    then show ?thesis using less.prems(1) by (intro exI [of _ "[]"]) (simp add: static_range.simps reports_range_def)
  next
    case True
    let ?key = "\<lambda>i. reportVariation db pt rq (of_nat i)"
    obtain v where v: "?key idx = Some v" "static_variation pt v" using less.prems(4) [of idx] True by blast
    define fin where "fin = run_end ?key v idx stop"
    define b1 where "b1 = buildStaticRun db pt v (of_nat idx) (of_nat fin) b"
    have fin: "idx \<le> fin" "fin \<le> stop" using True by (simp_all add: fin_def run_end_ge run_end_le)
    obtain runs where r: "chained idx (fin + 1) runs" "fst ` set runs \<subseteq> {v}" "rb_extends b (map (static_header db pt (rb_ctx b)) runs) b1"
      using buildStaticRun_reports [OF v(2) pt fin(1) le_less_trans [OF fin(2) less.prems(2)] less.prems(3)] unfolding b1_def by blast
    have "?key i = Some v" if "idx \<le> i" "i \<le> fin" for i
      using that v(1) run_end_same [of idx i ?key v stop] by (cases "i = idx") (auto simp: fin_def)
    then have rr: "reports_range db pt rq idx (fin + 1) runs"
      using r(1) runs_all [OF r(1,2), of "\<lambda>v i. ?key i = Some v"] by (simp add: reports_range_def)
    have sel: "rb_max b1 = rb_max b" "rb_ctx b1 = rb_ctx b" using rb_extends_sel [OF r(3)] by simp_all
    have "\<exists>runs. reports_range db pt rq (fin + 1) (stop + 1) runs \<and>
        rb_extends b1 (map (static_header db pt (rb_ctx b1)) runs) (static_range db pt rq (fin + 1) stop b1)"
      by (rule less.hyps) (use fin less.prems sel True in auto)
    then obtain runs' where r': "reports_range db pt rq (fin + 1) (stop + 1) runs'"
        "rb_extends b1 (map (static_header db pt (rb_ctx b)) runs') (static_range db pt rq (fin + 1) stop b1)"
      unfolding sel(2) by blast
    have "static_range db pt rq idx stop b = static_range db pt rq (fin + 1) stop b1"
      using True v(1) by (subst static_range.simps) (simp add: fin_def b1_def Let_def)
    then show ?thesis
      using rb_extends_trans [OF r(3) r'(2)] reports_range_append [OF rr r'(1)] by (intro exI [of _ "runs @ runs'"]) simp
  qed
qed

text \<open>Octet strings are reported as they are, an empty one as a single zero octet.\<close>

definition string_value :: "database \<Rightarrow> nat \<Rightarrow> byte list" where
  "string_value db i = (case fst (DB_OctetString db (of_nat i)) of [] \<Rightarrow> [0] | v \<Rightarrow> v)"

definition string_header :: "database \<Rightarrow> nat \<times> nat \<times> nat \<Rightarrow> object_header" where
  "string_header db = (\<lambda>(len, lo, hi).
     rangeObjectHeader (110, of_nat len) (of_nat lo) (of_nat (hi - 1)) (concat (map (string_value db) [lo..<hi])))"

definition strings_range :: "database \<Rightarrow> nat \<Rightarrow> nat \<Rightarrow> (nat \<times> nat \<times> nat) list \<Rightarrow> bool" where
  "strings_range db lo hi runs \<longleftrightarrow> chained lo hi runs \<and>
     list_all (\<lambda>(len, a, b). list_all (\<lambda>i. length (string_value db i) = len) [a..<b]) runs"

lemma string_length_value: "string_length db i = Some len \<Longrightarrow> length (string_value db i) = len"
  by (auto simp: string_length_def string_value_def max_def split: prod.splits if_splits list.splits)

lemma appendOctetString_value:
  assumes "string_length db i = Some len"
  shows "appendOctetString dst (fst (DB_OctetString db (of_nat i))) len = dst @ string_value db i"
  using assms by (auto simp: string_length_def string_value_def appendOctetString_def max_def Let_def
      split: prod.splits if_splits list.splits)

lemma string_octets_concat:
  assumes "\<And>i. lo \<le> i \<Longrightarrow> i < hi \<Longrightarrow> string_length db i = Some len"
  shows "string_octets db len lo hi = concat (map (string_value db) [lo..<hi])"
    "length (concat (map (string_value db) [lo..<hi])) = (hi - lo) * len"
proof -
  have a: "appendOctetString dst (fst (DB_OctetString db (of_nat i))) len = dst @ string_value db i" if "i \<in> set [lo..<hi]" for dst i
    using that assms appendOctetString_value by simp
  have "foldl (\<lambda>data i. appendOctetString data (fst (DB_OctetString db (of_nat i))) len) [] [lo..<hi] =
      [] @ concat (map (\<lambda>i. appendOctetString [] (fst (DB_OctetString db (of_nat i))) len) [lo..<hi])"
    by (rule foldl_appends) (simp only: a append_Nil)
  also have "map (\<lambda>i. appendOctetString [] (fst (DB_OctetString db (of_nat i))) len) [lo..<hi] = map (string_value db) [lo..<hi]"
    by (rule map_cong [OF refl]) (simp only: a append_Nil)
  finally show "string_octets db len lo hi = concat (map (string_value db) [lo..<hi])" by (simp add: string_octets_def)
  show "length (concat (map (string_value db) [lo..<hi])) = (hi - lo) * len"
    by (subst length_concat_same [of _ _ len]) (use assms string_length_value in auto)
qed

lemma SizeBits_string: "0 < len \<Longrightarrow> len \<le> 255 \<Longrightarrow> SizeBits 110 (of_nat len) = Some (int (8 * len)) \<and> (of_nat len :: byte) \<noteq> 0"
proof -
  assume len: "0 < len" "len \<le> 255"
  then have "take_bit 8 len = len" by (simp add: take_bit_nat_eq_self_iff)
  then show ?thesis using len by (simp add: SizeBits_def lengthIsVariationGroups_def unsigned_of_nat word_unat_eq_iff uint_nat)
qed

lemma string_run_reports:
  assumes len: "0 < len" "len \<le> 255" and key: "\<And>i. lo \<le> i \<Longrightarrow> i \<le> fin \<Longrightarrow> string_length db i = Some len"
    and "lo \<le> fin + 1" "fin < 65536" "int len + 11 \<le> rb_max b"
  shows "\<exists>runs b'. chained lo (fin + 1) runs \<and> fst ` set runs \<subseteq> {len} \<and> rb_extends b (map (string_header db) runs) b' \<and>
      string_run db len lo fin b = (b', True)"
proof (rule run_loop [where lo = lo and ret = "\<lambda>b. (b, True)" and mx = "rb_max b" and ctx = "rb_ctx b"])
  fix idx and b' :: response_builder
  assume i: "lo \<le> idx" "idx \<le> fin" and b': "rb_max b' = rb_max b" "rb_ctx b' = rb_ctx b"
  define b1 where "b1 = (if rb_room b' - headerOverhead < int len then rb_flush b' else b')"
  define nxt where "nxt = min (idx + nat (rb_room b1 - headerOverhead) div len) (fin + 1)"
  define k where "k = nxt - idx"
  let ?data = "concat (map (string_value db) [idx..<idx + k])"
  have e: "rb_extends b' [] b1" unfolding b1_def by (rule rb_extends_maybe_flush)
  have room: "int len \<le> rb_room b1 - headerOverhead" unfolding b1_def by (rule room_made) (simp only: b' assms)
  have "0 < nat (rb_room b1 - headerOverhead) div len" using room len(1) by (simp add: div_greater_zero_iff)
  then have k: "0 < k" "idx + k \<le> fin + 1" "nxt = idx + k" "k \<le> nat (rb_room b1 - headerOverhead) div len"
    using i by (auto simp: k_def nxt_def)
  have c: "string_octets db len idx (idx + k) = ?data" "length ?data = k * len"
    using string_octets_concat [of idx "idx + k" db len] key i k(2) by simp_all
  have h: "string_header db (len, idx, idx + k) = rangeObjectHeader (110, of_nat len) (of_nat idx) (of_nat (idx + k - 1)) ?data"
    by (simp add: string_header_def del: of_nat_diff)
  have s: "sendable SizeBits FuncResponse (string_header db (len, idx, idx + k))" "O_Size (string_header db (len, idx, idx + k)) \<le> 7 + k * len"
    unfolding h using rangeObjectHeader_sendable [of idx "idx + k" "(110, of_nat len)" "int (8 * len)" ?data]
      k assms(5) len SizeBits_string [OF len] c(2) by (simp_all add: run_octets_def)
  have "k * len \<le> nat (rb_room b1 - headerOverhead) div len * len" using k(4) by simp
  also have "int \<dots> \<le> rb_room b1 - headerOverhead"
    using div_mult_room [where a = "rb_room b1 - headerOverhead" and n = len] room by simp
  finally have "int (7 + k * len) \<le> rb_room b1" by simp
  moreover have "int (O_Size (string_header db (len, idx, idx + k))) \<le> int (7 + k * len)" using s(2) by (simp only: of_nat_le_iff)
  ultimately have "int (O_Size (string_header db (len, idx, idx + k))) \<le> rb_room b1" by linarith
  moreover have "string_run db len idx fin b' = string_run db len (idx + k) fin (rb_add (string_header db (len, idx, idx + k)) b1)"
  proof -
    have g: "\<not> (\<not> idx \<le> fin \<or> len = 0)" "\<not> rb_room b1 - headerOverhead < int len" using i len room by simp_all
    show ?thesis unfolding h c(1) [symmetric] unfolding k(3) [symmetric]
      by (subst string_run.simps) (simp only: Let_def b1_def [symmetric] nxt_def [symmetric] if_not_P [OF g(1)] if_not_P [OF g(2)])
  qed
  ultimately show "\<exists>k b1. 0 < k \<and> idx + k \<le> fin + 1 \<and> rb_extends b' [] b1 \<and>
      sendable SizeBits FuncResponse (string_header db (len, idx, idx + k)) \<and>
      int (O_Size (string_header db (len, idx, idx + k))) \<le> rb_room b1 \<and>
      string_run db len idx fin b' = string_run db len (idx + k) fin (rb_add (string_header db (len, idx, idx + k)) b1)"
    using k(1,2) e s(1) by blast
qed (use assms(4) in \<open>simp_all add: string_run.simps string_header_def rangeObjectHeader_relative static_unrelated\<close>)

lemma string_range_reports:
  "lo \<le> stop + 1 \<Longrightarrow> stop < 65536 \<Longrightarrow> 266 \<le> rb_max b \<Longrightarrow>
   (\<And>i. lo \<le> i \<Longrightarrow> i \<le> stop \<Longrightarrow> \<exists>len. string_length db i = Some len \<and> len \<le> 255) \<Longrightarrow>
   \<exists>runs. strings_range db lo (stop + 1) runs \<and> rb_extends b (map (string_header db) runs) (string_range db lo stop b)"
proof (induction "stop + 1 - lo" arbitrary: lo b rule: less_induct)
  case less
  show ?case
  proof (cases "lo \<le> stop")
    case False
    then show ?thesis using less.prems(1) by (intro exI [of _ "[]"]) (simp add: string_range.simps strings_range_def)
  next
    case True
    obtain len where v: "string_length db lo = Some len" "len \<le> 255" using less.prems(4) [of lo] True by blast
    then have pos: "0 < len" by (auto simp: string_length_def split: prod.splits if_splits)
    define fin where "fin = run_end (string_length db) len lo stop"
    have fin: "lo \<le> fin" "fin \<le> stop" using True by (simp_all add: fin_def run_end_ge run_end_le)
    have key: "string_length db i = Some len" if "lo \<le> i" "i \<le> fin" for i
      using that v(1) run_end_same [of lo i "string_length db" len stop] by (cases "i = lo") (auto simp: fin_def)
    obtain runs b1 where r: "chained lo (fin + 1) runs" "fst ` set runs \<subseteq> {len}" "rb_extends b (map (string_header db) runs) b1"
        "string_run db len lo fin b = (b1, True)"
      using string_run_reports [OF pos v(2) key, of lo fin b] fin less.prems(2,3) v(2) by auto
    have rr: "strings_range db lo (fin + 1) runs"
      using r(1) runs_all [OF r(1,2), of "\<lambda>len i. length (string_value db i) = len"] key string_length_value by (auto simp: strings_range_def)
    have sel: "rb_max b1 = rb_max b" using rb_extends_sel [OF r(3)] by simp
    have "\<exists>runs. strings_range db (fin + 1) (stop + 1) runs \<and> rb_extends b1 (map (string_header db) runs) (string_range db (fin + 1) stop b1)"
      by (rule less.hyps) (use fin less.prems sel True in auto)
    then obtain runs' where r': "strings_range db (fin + 1) (stop + 1) runs'"
        "rb_extends b1 (map (string_header db) runs') (string_range db (fin + 1) stop b1)" by blast
    have "string_range db lo stop b = string_range db (fin + 1) stop b1"
      using True v(1) r(4) by (subst string_range.simps) (simp add: fin_def Let_def)
    then show ?thesis
      using rb_extends_trans [OF r(3) r'(2)] rr r'(1) by (intro exI [of _ "runs @ runs'"]) (auto simp: strings_range_def intro: chained_append)
  qed
qed

section \<open>Static responses\<close>

text \<open>
  What a master receives: no fragment, with its response header, is longer than the limit, and
  parsing them one after the other gives the objects, in order, none of them split, and every
  object with relative times right after the common time of occurrence it is relative to.
\<close>

definition delivered :: "response_builder \<Rightarrow> app_header \<Rightarrow> object_header list \<Rightarrow> bool" where
  "delivered b h hs \<longleftrightarrow> (\<forall>f \<in> set (rb_done b). int (length (AppendHeader [] h @ f)) \<le> rb_max b) \<and>
     (\<exists>hss. map (\<lambda>f. ParseFragment None (AppendHeader [] h @ f)) (rb_done b) =
        map (\<lambda>objs. (\<lparr>FHeader = h, FObjects = place ResponseHeaderSize objs, FRaw = AppendHeader [] h @ encode_objects objs\<rparr>, None)) hss \<and>
      concat hss = hs \<and> list_all (timed False) hss)"

lemma response_header_size: "AFunc h = FuncResponse \<Longrightarrow> AHeader_Size h = ResponseHeaderSize \<and> length (AppendHeader [] h) = ResponseHeaderSize"
  by (simp add: AHeader_Size_def AIsResponse_def FuncIsResponse_def AppendHeader_def IIN_Octets_def)

lemma extends_delivered:
  assumes "rb_extends (newResponseBuilder mx ctx) hs b" "wf_app_header h" "AFunc h = FuncResponse" "4 \<le> rb_max b"
  shows "delivered b h hs"
proof -
  have "rb_carries [[]] (newResponseBuilder mx ctx)" by (simp add: rb_carries_def rb_new)
  then obtain hss where c: "rb_carries hss b" "concat hss = hs" using assms(1) by (auto simp: rb_extends_def)
  then have f: "rb_fits b" by (simp add: rb_carries_def)
  have "int (length (AppendHeader [] h @ f)) \<le> rb_max b" if "f \<in> set (rb_done b)" for f
    using rb_done_fits [OF f that] response_header_size [OF assms(3)] assms(4) by auto
  then show ?thesis
    using rb_done_parsed [OF c(1) assms(2,3)] response_header_size [OF assms(3)] c(2) by (simp add: delivered_def)
qed

lemma newResponseBuilder_sel: "rb_max (newResponseBuilder mx ctx) = (if mx \<le> 0 then 2048 else mx)" "rb_ctx (newResponseBuilder mx ctx) = ctx"
  by (simp_all add: newResponseBuilder_def)

lemma unat_of_int_u16: "0 \<le> k \<Longrightarrow> k < 65536 \<Longrightarrow> unat (of_int k :: u16) = nat k"
  using unat_of_nat_u16 [of "nat k"] by simp

lemma buildStaticRange_reports:
  fixes start stop :: u16
  defines "lst \<equiv> \<lambda>db pt. min (unat stop) (nat (typeCount (Counts db) pt - 1))"
  assumes "pt \<in> set staticTypes" "pt \<noteq> TypeOctetString" "0 < typeCount (Counts db) pt" "typeCount (Counts db) pt \<le> 65536"
    and "unat start \<le> lst db pt" "26 \<le> rb_max b"
    and "\<forall>i \<in> {unat start..lst db pt}. \<exists>v. reportVariation db pt requested (of_nat i) = Some v \<and> static_variation pt v"
  shows "\<exists>runs. reports_range db pt requested (unat start) (lst db pt + 1) runs \<and>
    rb_extends b (map (static_header db pt (rb_ctx b)) runs) (buildStaticRange db pt requested start stop b)"
proof -
  let ?n = "typeCount (Counts db) pt"
  define e :: u16 where "e = (if uint stop \<ge> ?n then of_int (?n - 1) else stop)"
  have u: "unat e = lst db pt"
  proof (cases "?n \<le> int (unat stop)")
    case True
    have "nat (?n - 1) \<le> unat stop" using True by linarith
    then show ?thesis using True unat_of_int_u16 [of "?n - 1"] assms(4,5) by (simp add: e_def lst_def)
  next
    case False
    have "unat stop \<le> nat (?n - 1)" using False by linarith
    then show ?thesis using False by (simp add: e_def lst_def)
  qed
  have lt: "lst db pt < 65536" using u u16_lt(1) [of e] by simp
  have le: "unat start \<le> lst db pt + 1" using assms(6) by simp
  have g: "\<not> start > e" using u assms(6) by (simp add: word_less_nat_alt)
  have "buildStaticRange db pt requested start stop b = (if start > e then b else static_range db pt requested (unat start) (unat e) b)"
    using assms(3,4) by (simp add: buildStaticRange_def Let_def e_def)
  then have "buildStaticRange db pt requested start stop b = static_range db pt requested (unat start) (lst db pt) b" using g u by simp
  then show ?thesis using static_range_reports [OF assms(2,3) le lt assms(7)] assms(8) by simp
qed

text \<open>
  C10. A read of a range of points is answered with every one of them. The limit of the fragment
  being at least 26 octets and the variations to report being ones the specification describes,
  the range, cut off at the last point of its type, is divided into runs that follow one another
  without gap or overlap, every point of a run reported in the one variation chosen for it; the
  master parses from the fragments exactly one object header per run, in order, carrying the
  packed states or the encodings of the points of the run; and no fragment exceeds the limit.
\<close>

theorem static_read_delivered:
  fixes start stop :: u16
  defines "lst \<equiv> \<lambda>db pt. min (unat stop) (nat (typeCount (Counts db) pt - 1))"
  assumes "pt \<in> set staticTypes" "pt \<noteq> TypeOctetString" "0 < typeCount (Counts db) pt" "typeCount (Counts db) pt \<le> 65536"
    and "unat start \<le> lst db pt" "mx \<le> 0 \<or> 26 \<le> mx" "wf_app_header h" "AFunc h = FuncResponse"
    and "\<forall>i \<in> {unat start..lst db pt}. \<exists>v. reportVariation db pt requested (of_nat i) = Some v \<and> static_variation pt v"
  shows "\<exists>runs. reports_range db pt requested (unat start) (lst db pt + 1) runs \<and>
    delivered (buildStaticRange db pt requested start stop (newResponseBuilder mx ctx)) h (map (static_header db pt ctx) runs)"
proof -
  have mx: "26 \<le> rb_max (newResponseBuilder mx ctx)" using assms(7) by (auto simp: newResponseBuilder_sel)
  obtain runs where r: "reports_range db pt requested (unat start) (lst db pt + 1) runs"
      "rb_extends (newResponseBuilder mx ctx) (map (static_header db pt ctx) runs) (buildStaticRange db pt requested start stop (newResponseBuilder mx ctx))"
    using buildStaticRange_reports [where b = "newResponseBuilder mx ctx" and start = start and stop = stop, OF assms(2-5) _ mx] assms(6,10)
    by (auto simp: newResponseBuilder_sel lst_def)
  then show ?thesis
    using extends_delivered [OF r(2) assms(8,9)] rb_extends_sel [OF r(2)] mx by (intro exI [of _ runs]) simp
qed

definition three_binaries :: database where
  "three_binaries = NewDatabase \<lparr>NBinary = 3, NDoubleBitBinary = 0, NCounter = 0, NFrozenCounter = 0, NAnalog = 0, NFrozenAnalog = 0,
     NTimeAndInterval = 0, NVirtualTerminal = 0, NBinaryOutputStatus = 0, NAnalogOutputStatus = 0, NOctetString = 0,
     DefaultClass = Class1\<rparr> None"

definition response_header :: app_header where
  "response_header = \<lparr>AControl = \<lparr>AFir = True, AFin = True, ACon = False, AUns = False, ASeq = 3\<rparr>, AFunc = FuncResponse, AIIN = 0\<rparr>"

lemma three_binaries_flagged:
  assumes "i \<le> 2"
  shows "reportVariation three_binaries TypeBinary 0 (of_nat i) = Some 2"
proof -
  have "unat (of_nat i :: u16) = i" using assms by (simp add: unat_of_nat_u16)
  then show ?thesis using assms
    by (simp add: reportVariation_def staticPoint_def DB_Binary_def db_get_def three_binaries_def NewDatabase_def makePoints_def
        zero_of_def withFlags_def defaultStaticVariations_def Flags_Clear_def no_config_def)
qed

theorem static_read_delivered_witness:
  "\<exists>runs. reports_range three_binaries TypeBinary 0 0 3 runs \<and>
    delivered (buildStaticRange three_binaries TypeBinary 0 0 0xFFFF (newResponseBuilder 64 local_time)) response_header
      (map (static_header three_binaries TypeBinary local_time) runs)"
proof -
  have c: "typeCount (Counts three_binaries) TypeBinary = 3"
    by (simp add: three_binaries_def NewDatabase_def makePoints_def Counts_def typeCount_def)
  have v: "static_variation TypeBinary 2"
    by (simp add: static_variation_def packedBits_def staticGroupVar_def Lookup_def descriptor_tables SizeOctets_def)
  have h: "wf_app_header response_header" "AFunc response_header = FuncResponse"
    by (simp_all add: response_header_def wf_app_header_def)
  show ?thesis
    using static_read_delivered [of TypeBinary three_binaries 0 "0xFFFF" 64 response_header 0 local_time] c v h three_binaries_flagged
    by (simp add: staticTypes_def)
qed

end
