(* ===== verification/Outstation_Report.thy ===== *)
theory Outstation_Report
  imports Outstation_Static
begin

text \<open>
  What a response makes of selected events: every event that has an encoding is sent exactly
  once and in order, under its own index, relative times behind their common time of
  occurrence, in fragments that a master parses back; the others are handed back.
\<close>

section \<open>Events on the wire\<close>

lemma eventGroup_inj: "eventGroup a = eventGroup b \<Longrightarrow> eventGroup a \<noteq> 0 \<Longrightarrow> a = b"
  by (auto simp: eventGroup_def split: if_splits)

lemma appends_put: "appends (\<lambda>dst. dst @ xs) (length xs)"
  by (simp add: appends_def)

lemma command_event_appends:
  assumes "Lookup (g, v) = Some d" "SizeOctets d = (int n, True)" "g = 13 \<or> g = 43"
  shows "appends (\<lambda>dst. AppendCommandEvent dst g v e) n"
proof -
  have "list_all (\<lambda>((g, v), d). g = 13 \<or> g = 43 \<longrightarrow> DKind d = KindCommandEvent) descriptors" by (simp add: descriptor_tables)
  moreover have "((g, v), d) \<in> set descriptors" using assms(1) by (auto simp: Lookup_def dest: map_of_SomeD)
  ultimately have k: "DKind d = KindCommandEvent" using assms(3) by (auto simp: list_all_iff)
  have "AppendCommandEvent dst g v e = dst @ AppendCommandEvent [] g v e" for dst
    by (simp add: AppendCommandEvent_def Let_def)
  moreover obtain out where "AppendCommandEvent [] g v e = out" "SizeOctets d = (int (length out), True)"
    using command_event_roundtrip [OF assms(1) k, of "[]" e "[]"] by auto
  ultimately show ?thesis using assms(2) unfolding appends_def by (metis of_nat_eq_iff prod.inject)
qed

lemma security_statistic_size: "Lookup (122, v) = Some d \<Longrightarrow> SizeOctets d = (if v = 2 then 13 else 7, True)"
proof -
  assume "Lookup (122, v) = Some d"
  then have "((122, v), d) \<in> set descriptors" by (auto simp: Lookup_def dest: map_of_SomeD)
  moreover have "list_all (\<lambda>((g, v), d). if g = 122 then SizeOctets d = (if v = 2 then 13 else 7, True) else True) descriptors"
    by (simp add: descriptor_tables SizeOctets_def)
  ultimately show ?thesis by (auto simp: list_all_iff)
qed

lemma encodeEvent_appends:
  assumes "event_encoding e = (n, rel)" "n \<noteq> 0" "EType e \<noteq> TypeDataset"
  shows "appends (\<lambda>dst. encodeEvent m dst (eventGroup (EType e), EVariation e) e ctx) n"
proof (cases "EType e = TypeOctetString \<or> EType e = TypeVirtualTerminal")
  case True
  then show ?thesis using assms(1)
    by (auto simp: encodeEvent_def event_encoding_def appends_def appendOctetString_def Let_def)
next
  case False
  let ?x = "(eventGroup (EType e), EVariation e)"
  obtain d where d: "Lookup ?x = Some d" "nat (fst (SizeOctets d)) = n"
    using assms(1,2) False by (auto simp: event_encoding_def split: option.splits)
  obtain sz ok where so: "SizeOctets d = (sz, ok)" by (cases "SizeOctets d")
  then obtain k where k: "ok" "sz = int k" using d assms(2) by (auto elim: described_octets [OF d(1)])
  then have s: "SizeOctets d = (int n, True)" using so d(2) by simp
  have "eventGroup (EType e) \<noteq> 0"
  proof
    assume "eventGroup (EType e) = 0"
    then have "((0, EVariation e), d) \<in> set descriptors" using d(1) by (auto simp: Lookup_def dest: map_of_SomeD)
    moreover have "list_all (\<lambda>((g, v), d). g \<noteq> 0) descriptors" by (simp add: descriptor_tables)
    ultimately show False by (auto simp: list_all_iff)
  qed
  then consider "EType e = TypeBinary" | "EType e = TypeDoubleBitBinary" | "EType e = TypeBinaryOutputStatus" | "EType e = TypeCounter"
    | "EType e = TypeFrozenCounter" | "EType e = TypeFrozenAnalog" | "EType e = TypeSecurityStatistic" | "EType e = TypeAnalog"
    | "EType e = TypeAnalogOutputStatus" | "EType e = TypeBinaryCommandEvent" | "EType e = TypeAnalogCommandEvent"
    using False assms(3) by (auto simp: eventGroup_def split: if_splits)
  then show ?thesis
  proof cases
    case 7
    then have "n = (if EVariation e = 2 then 13 else 7)" using security_statistic_size [of "EVariation e" d] d s by (auto simp: eventGroup_def split: if_splits)
    then show ?thesis using 7 by (simp add: encodeEvent_def appends_def AppendTime48_def appendTime48_def Let_def)
  qed (use codec_appends [OF _ d(1) s assms(2)] command_event_appends [OF d(1) s] in \<open>simp_all add: encodeEvent_def eventGroup_def Let_def\<close>)
qed

lemma event_encoding_facts:
  assumes "event_encoding e = (n, rel)" "n \<noteq> 0" "EType e \<noteq> TypeDataset"
  shows "SizeBits (eventGroup (EType e)) (EVariation e) = Some (int (8 * n))" "EVariation e \<noteq> 0" "eventGroup (EType e) \<noteq> 0"
    "eventGroup (EType e) \<noteq> 91" "rel = relative_object (eventGroup (EType e), EVariation e)" "n \<le> 255"
proof -
  show g: "eventGroup (EType e) \<noteq> 91" by (simp add: eventGroup_def)
  have "SizeBits (eventGroup (EType e)) (EVariation e) = Some (int (8 * n)) \<and> EVariation e \<noteq> 0 \<and> eventGroup (EType e) \<noteq> 0 \<and>
      rel = relative_object (eventGroup (EType e), EVariation e) \<and> n \<le> 255"
  proof (cases "EType e = TypeOctetString \<or> EType e = TypeVirtualTerminal")
    case True
    have d: "list_all (\<lambda>((g, v), d). g \<noteq> 111 \<and> g \<noteq> 113) descriptors" by (simp add: descriptor_tables)
    have "Lookup (111, v) = None" "Lookup (113, v) = None" for v
      using d by (auto simp: Lookup_def list_all_iff map_of_eq_None_iff)
    then have "\<not> relative_object (eventGroup (EType e), EVariation e)" using True by (auto simp: relative_object_def eventGroup_def)
    moreover have n: "n = unat (EVariation e)" "\<not> rel" using assms(1) True by (auto simp: event_encoding_def)
    moreover have "unat (EVariation e) \<le> 255" by (rule byte_unat_le)
    moreover have "SizeBits (eventGroup (EType e)) (EVariation e) = Some (uint (EVariation e) * 8)"
      using True by (auto simp: eventGroup_def SizeBits_def lengthIsVariationGroups_def)
    moreover have "uint (EVariation e) * 8 = int (8 * unat (EVariation e))" by simp
    moreover have "EVariation e \<noteq> 0" using n(1) assms(2) by auto
    moreover have "eventGroup (EType e) \<noteq> 0" using True by (auto simp: eventGroup_def)
    ultimately show ?thesis by simp
  next
    case False
    obtain d where d: "Lookup (eventGroup (EType e), EVariation e) = Some d" "nat (fst (SizeOctets d)) = n" "rel = HasRelativeTime d"
      using assms(1,2) False by (auto simp: event_encoding_def split: option.splits)
    obtain sz ok where so: "SizeOctets d = (sz, ok)" by (cases "SizeOctets d")
    then have "sz \<noteq> 0" using d(2) assms(2) by auto
    obtain k where "sz = int k" "k \<le> 15" "SizeBits (eventGroup (EType e)) (EVariation e) = Some (int (8 * k))"
      by (rule described_octets [OF d(1) so \<open>sz \<noteq> 0\<close>]) simp
    moreover have "eventGroup (EType e) \<noteq> 0"
    proof
      assume "eventGroup (EType e) = 0"
      then have "((0, EVariation e), d) \<in> set descriptors" using d(1) by (auto simp: Lookup_def dest: map_of_SomeD)
      moreover have "list_all (\<lambda>((g, v), d). g \<noteq> 0) descriptors" by (simp add: descriptor_tables)
      ultimately show False by (auto simp: list_all_iff)
    qed
    ultimately show ?thesis using d so described_nonzero [OF d(1)] by (auto simp: relative_object_def)
  qed
  then show "SizeBits (eventGroup (EType e)) (EVariation e) = Some (int (8 * n))" "EVariation e \<noteq> 0" "eventGroup (EType e) \<noteq> 0"
    "rel = relative_object (eventGroup (EType e), EVariation e)" "n \<le> 255" by blast+
qed

text \<open>The header of a run of events, as an independent description: each event under its own index.\<close>

definition event_index :: "bool \<Rightarrow> db_event \<Rightarrow> byte list" where
  "event_index wide e = (if wide then put16 (EIndex e) else [ucast (EIndex e)])"

definition event_header :: "store \<Rightarrow> GroupVar \<Rightarrow> bool \<Rightarrow> decode_context \<Rightarrow> db_event list \<Rightarrow> object_header" where
  "event_header m x wide ctx evs =
     \<lparr>OGroup = fst x, OVariation = snd x,
      OQualifier = (if wide then MakeQualifier PrefixIndex2 RangeCount16 else MakeQualifier PrefixIndex1 RangeCount8),
      ORange = \<lparr>RSpec = (if wide then RangeCount16 else RangeCount8), RStart = 0, RStop = 0, RCount = of_nat (length evs)\<rparr>,
      OData = concat (map (\<lambda>e. event_index wide e @ encodeEvent m [] x e ctx) evs), OOffset = 0, ODataOffset = 0\<rparr>"

lemma count_qualifiers [simp]:
  "Q_IndexPrefix (MakeQualifier 2 8) = 2" "Q_IndexPrefix (MakeQualifier 1 7) = 1" "Q_RangeSpec (MakeQualifier 2 8) = 8"
  "Q_RangeSpec (MakeQualifier 1 7) = 7" "\<not> Reserved (MakeQualifier 2 8)" "\<not> Reserved (MakeQualifier 1 7)"
  "Prefix_Octets 2 = 2" "Prefix_Octets 1 = 1" "\<not> IsSize 2" "\<not> IsSize 1" "Prefix_Valid 2" "Prefix_Valid 1"
  by (simp_all add: MakeQualifier_def Q_IndexPrefix_def Q_RangeSpec_def Reserved_def Prefix_Octets_def IsSize_def Prefix_Valid_def)

lemma event_data_length:
  assumes "\<And>e. e \<in> set evs \<Longrightarrow> length (encodeEvent m [] x e ctx) = n"
  shows "length (OData (event_header m x wide ctx evs)) = length evs * ((if wide then 2 else 1) + n)"
  unfolding event_header_def object_header.select_convs
  by (rule length_concat_same) (use assms in \<open>simp add: event_index_def\<close>)

lemma event_header_sendable:
  assumes "evs \<noteq> []" "length evs \<le> (if wide then 65535 else 255)" "\<And>e. e \<in> set evs \<Longrightarrow> length (encodeEvent m [] x e ctx) = n"
    and "SizeBits (fst x) (snd x) = Some (int (8 * n))" "n \<noteq> 0" "snd x \<noteq> 0" "fst x \<noteq> 0" "fst x \<noteq> 91"
  defines "h \<equiv> event_header m x wide ctx evs"
  shows "sendable SizeBits FuncResponse h"
    "O_Size h = 3 + (if wide then 2 else 1) + length evs * ((if wide then 2 else 1) + n)"
proof -
  have u: "unat (of_nat (length evs) :: u32) = length evs"
    using assms(2) by (auto simp: unsigned_of_nat take_bit_nat_eq_self_iff split: if_splits)
  then have c0: "(of_nat (length evs) :: u32) \<noteq> 0" using assms(1) by (metis length_0_conv unat_0)
  have wf: "wf_object h" using assms(2) u
    by (auto simp: h_def event_header_def wf_object_def wf_range_def counted_def Range_Valid_def word_le_nat_alt)
  have len: "length (OData h) = length evs * ((if wide then 2 else 1) + n)"
    unfolding h_def using assms(3) by (rule event_data_length)
  have "objectDataLen SizeBits h (OData h) True = Inr (length (OData h))"
  proof -
    have "objectDataLen SizeBits h (OData h) True =
      (let k = length evs * ((if wide then 2 else 1) + n) in if length (OData h) < k then Inl ErrTruncated else Inr k)"
    proof -
      have sel: "OGroup h = fst x" "OVariation h = snd x" "RCount (ORange h) = of_nat (length evs)"
        "Q_IndexPrefix (OQualifier h) = (if wide then 2 else 1)" "RSpec (ORange h) \<noteq> RangeAllObjects"
        by (simp_all add: h_def event_header_def)
      have "nat (int (8 * n)) div 8 = n" by (subst nat_int) simp
      moreover have "int (8 * n) mod 8 = 0" by simp
      ultimately show ?thesis
        using objectDataLen_exact_aux [of h "int (8 * n)" "OData h"] assms(4-8) u c0 sel by (auto simp: Let_def simp del: of_nat_mult)
    qed
    then show ?thesis using len by simp
  qed
  then show "sendable SizeBits FuncResponse h" using wf by (simp add: sendable_def objectCarriesData_def CarriesObjectData_def)
  show "O_Size h = 3 + (if wide then 2 else 1) + length evs * ((if wide then 2 else 1) + n)"
    using len by (simp add: O_Size_def h_def event_header_def Range_Octets_def)
qed

lemma ctoHeader_sendable:
  "sendable SizeBits FuncResponse (ctoHeader synced t)" "O_Size (ctoHeader synced t) = 10" "\<not> relative_header (ctoHeader synced t)"
  "OGroup (ctoHeader synced t) = 51"
proof -
  let ?h = "ctoHeader synced t"
  have q: "MakeQualifier 0 7 = 7" by (simp add: MakeQualifier_def)
  have len: "length (OData ?h) = 6" by (simp add: ctoHeader_def AppendTime48_def appendTime48_def)
  have "SizeBits 51 1 = Some 48" "SizeBits 51 2 = Some 48"
    by (simp_all add: SizeBits_def lengthIsVariationGroups_def generatedSizes_def gv_def)
  then have "objectDataLen SizeBits ?h (OData ?h) True = Inr 6"
    using objectDataLen_exact_aux [of ?h 48 "OData ?h"] len
    by (cases synced) (simp_all add: ctoHeader_def Prefix_Octets_def)
  then show "sendable SizeBits FuncResponse ?h"
    using len by (simp add: sendable_def wf_object_def ctoHeader_def wf_range_def counted_def objectCarriesData_def CarriesObjectData_def Range_Valid_def word_le_nat_alt)
  show "O_Size ?h = 10" using len by (simp add: O_Size_def ctoHeader_def Range_Octets_def)
  have "list_all (\<lambda>((g, v), d). g = 51 \<longrightarrow> \<not> HasRelativeTime d) descriptors" by (simp add: descriptor_tables)
  then show "\<not> relative_header ?h"
    by (auto simp: relative_header_def relative_object_def Lookup_def ctoHeader_def list_all_iff split: option.splits dest!: map_of_SomeD)
  show "OGroup ?h = 51" by (simp add: ctoHeader_def)
qed

text \<open>Events whose times lie within sixteen bits of milliseconds after a base.\<close>

definition in_window :: "int \<Rightarrow> db_event \<Rightarrow> bool" where
  "in_window base e =
     (if Time_IsValid (VTime (EValue e))
      then 0 \<le> Milliseconds (duration_between (TTime (VTime (EValue e))) base) \<and>
        Milliseconds (duration_between (TTime (VTime (EValue e))) base) \<le> 0xFFFF
      else True)"

lemma within_window_sound:
  "0 < n \<or> es = [] \<or> in_window base (hd es) \<Longrightarrow>
   n \<le> within_window base n es \<and> list_all (in_window base) (take (within_window base n es - n) es)"
proof (induction base n es rule: within_window.induct)
  case (2 base n e es)
  let ?d = "Milliseconds (duration_between (TTime (VTime (EValue e))) base)"
  show ?case
  proof (cases "in_window base e")
    case True
    then have w: "within_window base n (e # es) = within_window base (n + 1) es" by (auto simp: in_window_def)
    have "n + 1 \<le> within_window base (n + 1) es \<and> list_all (in_window base) (take (within_window base (n + 1) es - (n + 1)) es)"
    proof (cases "Time_IsValid (VTime (EValue e))")
      case valid: True
      then have "\<not> (?d < 0 \<or> ?d > 0xFFFF)" using True by (simp add: in_window_def)
      then show ?thesis using 2(2) [OF _ refl] valid by simp
    next
      case False
      then show ?thesis using 2(1) by simp
    qed
    then obtain r where "within_window base (n + 1) es = n + 1 + r" "list_all (in_window base) (take r es)"
      by (metis diff_add_inverse le_iff_add)
    then show ?thesis unfolding w using True by simp
  next
    case False
    then have "within_window base n (e # es) = max n 1" "0 < n" using 2(3) by (auto simp: in_window_def Let_def)
    then show ?thesis by simp
  qed
qed simp

lemma eventBase_in_window: "in_window (eventBase now e) e"
proof (cases "Time_IsValid (VTime (EValue e))")
  case True
  let ?t = "TTime (VTime (EValue e))"
  have "?t - ?t div 1000000 * 1000000 = ?t mod 1000000" by (simp add: minus_div_mult_eq_mod)
  moreover have "0 \<le> ?t mod 1000000" "?t mod 1000000 < 1000000" by simp_all
  ultimately show ?thesis using True by (simp add: in_window_def eventBase_def duration_between_def Milliseconds_def)
qed (simp add: in_window_def)

text \<open>
  What the events of a response are divided into: runs of one group and variation, with or
  without a common time of occurrence, and data sets.
\<close>

datatype event_chunk = Objects GroupVar bool "int option" "db_event list" | Data_Set db_event

primrec chunk_events :: "event_chunk \<Rightarrow> db_event list" where
  "chunk_events (Objects x wide base evs) = evs"
| "chunk_events (Data_Set e) = [e]"

primrec chunk_headers :: "store \<Rightarrow> bool \<Rightarrow> decode_context \<Rightarrow> event_chunk \<Rightarrow> object_header list" where
  "chunk_headers m synced ctx (Objects x wide base evs) =
     (case base of
        None \<Rightarrow> [event_header m x wide ctx evs]
      | Some t \<Rightarrow> [ctoHeader synced t, event_header m x wide (WithCTO ctx t) evs])"
| "chunk_headers m synced ctx (Data_Set e) =
     (case FreeFormat 88 1 (VDataset (EValue e)) of Inr h \<Rightarrow> [h] | Inl _ \<Rightarrow> [])"

primrec chunk_ok :: "event_chunk \<Rightarrow> bool" where
  "chunk_ok (Objects x wide base evs) =
     (evs \<noteq> [] \<and> list_all (\<lambda>e. EType e \<noteq> TypeDataset \<and> (eventGroup (EType e), EVariation e) = x \<and> (wide \<or> EIndex e \<le> 0xFF)) evs \<and>
      (base \<noteq> None) = relative_object x \<and>
      (case base of None \<Rightarrow> True | Some t \<Rightarrow> list_all (in_window t) evs))"
| "chunk_ok (Data_Set e) = (EType e = TypeDataset)"

lemma event_objects_concat:
  assumes "\<And>e. e \<in> set evs \<Longrightarrow> appends (\<lambda>dst. encodeEvent m dst x e ctx) n" "p = (if wide then 2 else 1)"
  shows "foldl (event_object m x p ctx) [] evs = concat (map (\<lambda>e. event_index wide e @ encodeEvent m [] x e ctx) evs)"
proof -
  have a: "event_object m x p ctx dst e = dst @ event_index wide e @ encodeEvent m [] x e ctx" if "e \<in> set evs" for dst e
  proof -
    have "encodeEvent m d x e ctx = d @ encodeEvent m [] x e ctx" for d using assms(1) [OF that] unfolding appends_def by blast
    from this [of "dst @ event_index wide e"] show ?thesis
      by (cases wide) (simp_all add: event_object_def event_index_def assms(2) Let_def)
  qed
  have "foldl (event_object m x p ctx) [] evs = [] @ concat (map (event_object m x p ctx []) evs)"
    by (rule foldl_appends) (simp only: a append_Nil)
  also have "map (event_object m x p ctx []) evs = map (\<lambda>e. event_index wide e @ encodeEvent m [] x e ctx) evs"
    by (rule map_cong [OF refl]) (simp only: a append_Nil)
  finally show ?thesis by simp
qed

text \<open>How many of the events that fit are taken: at least one, and all of them within the window.\<close>

lemma event_window:
  fixes now :: int and rel :: bool
  assumes "es \<noteq> []" "0 < k1"
  defines "base \<equiv> eventBase now (es ! 0)"
  defines "k \<equiv> if rel then min k1 (eventsWithinWindow (take k1 es) base) else k1"
  shows "0 < k" "k \<le> k1" "rel \<Longrightarrow> list_all (in_window base) (take k es)"
proof -
  have ne: "take k1 es \<noteq> []" "hd (take k1 es) = es ! 0" using assms(1,2) by (auto simp: hd_take hd_conv_nth)
  have pos: "0 < eventsWithinWindow (take k1 es) base" unfolding eventsWithinWindow_def by (rule within_window_pos) (use ne in simp)
  have all: "list_all (in_window base) (take (eventsWithinWindow (take k1 es) base) (take k1 es))"
    using within_window_sound [of 0 "take k1 es" base] eventBase_in_window [of now "es ! 0"] ne
    by (simp add: eventsWithinWindow_def base_def)
  show "0 < k" "k \<le> k1" using assms(2) pos by (auto simp: k_def)
  show "rel \<Longrightarrow> list_all (in_window base) (take k es)"
    using all by (auto simp: k_def min_def list_all_iff dest: in_set_takeD split: if_splits)
qed

text \<open>One round of the loop over a run: what it takes and what it adds.\<close>

lemma event_step:
  assumes es: "es \<noteq> []" "\<And>e. e \<in> set es \<Longrightarrow> event_encoding e = (n, rel) \<and> EType e \<noteq> TypeDataset \<and> (eventGroup (EType e), EVariation e) = x \<and> (wide \<or> EIndex e \<le> 0xFF)"
    and n: "n \<noteq> 0" and room: "276 \<le> rb_max b"
  shows "\<exists>k chunk b'. 0 < k \<and> chunk_events chunk = take k es \<and> chunk_ok chunk \<and>
    rb_extends b (chunk_headers m synced (rb_ctx b) chunk) b' \<and>
    event_run m synced now x n rel wide es b = event_run m synced now x n rel wide (drop k es) b'"
proof -
  let ?p = "if wide then 2 else (1::nat)"
  define prefix where "prefix = (if wide then PrefixIndex2 else PrefixIndex1)"
  define spec where "spec = (if wide then RangeCount16 else RangeCount8)"
  define mc :: nat where "mc = (if wide then 0xFFFF else 0xFF)"
  define overhead where "overhead = (if rel then 10 else 0) + int (ObjectHeaderSize + Range_Octets spec)"
  define per where "per = int (Prefix_Octets prefix) + int n"
  define b1 where "b1 = (if rb_room b - overhead < per then rb_flush b else b)"
  define k1 where "k1 = event_count (rb_room b1 - overhead) per (length es) mc"
  define base where "base = eventBase now (es ! 0)"
  define k where "k = (if rel then min k1 (eventsWithinWindow (take k1 es) base) else k1)"
  define ctx where "ctx = (if rel then WithCTO (rb_ctx b1) base else rb_ctx b1)"
  define b2 where "b2 = (if rel then rb_add (ctoHeader synced base) b1 else b1)"
  define h where "h = event_header m x wide ctx (take k es)"
  obtain e0 where e0: "e0 \<in> set es" "es ! 0 = e0" "hd es = e0" using es(1) by (cases es) auto
  have enc: "event_encoding e0 = (n, rel)" "EType e0 \<noteq> TypeDataset" "(eventGroup (EType e0), EVariation e0) = x" using es(2) [OF e0(1)] by auto
  have facts: "SizeBits (fst x) (snd x) = Some (int (8 * n))" "snd x \<noteq> 0" "fst x \<noteq> 0" "fst x \<noteq> 91" "rel = relative_object x" "n \<le> 255"
    using event_encoding_facts [OF enc(1) n enc(2)] enc(3) by auto
  have e1: "rb_extends b [] b1" unfolding b1_def by (rule rb_extends_maybe_flush)
  then have sel: "rb_max b1 = rb_max b" "rb_ctx b1 = rb_ctx b" by (simp_all add: rb_extends_def)
  have ov: "overhead = (if rel then 10 else 0) + 3 + int ?p" "per = int ?p + int n"
    by (simp_all add: overhead_def per_def spec_def prefix_def Range_Octets_def)
  have av: "per \<le> rb_room b1 - overhead" using room facts(6) by (auto simp: b1_def ov)
  have per: "0 < per" using ov by simp
  have "0 < nat (rb_room b1 - overhead) div nat per" using av per by (simp add: div_greater_zero_iff)
  then have k1: "0 < k1" "k1 \<le> length es" "k1 \<le> mc" "k1 \<le> nat (rb_room b1 - overhead) div nat per"
    using es(1) by (auto simp: k1_def event_count_def mc_def)
  have k: "0 < k" "k \<le> k1" unfolding k_def base_def by (rule event_window [OF es(1) k1(1)])+
  have w: "rel \<Longrightarrow> list_all (in_window base) (take k es)" unfolding k_def base_def by (rule event_window(3) [OF es(1) k1(1)])
  have len: "length (take k es) = k" using k k1(2) by simp
  have ap: "appends (\<lambda>dst. encodeEvent m dst x e ctx) n" if "e \<in> set (take k es)" for e
  proof -
    have f: "event_encoding e = (n, rel)" "EType e \<noteq> TypeDataset" "(eventGroup (EType e), EVariation e) = x"
      using es(2) [OF in_set_takeD [OF that]] by simp_all
    show ?thesis using encodeEvent_appends [OF f(1) n f(2), of m ctx] unfolding f(3) .
  qed
  have encl: "length (encodeEvent m [] x e ctx) = n" if "e \<in> set (take k es)" for e using ap [OF that] unfolding appends_def by blast
  have data: "foldl (event_object m x (Prefix_Octets prefix) ctx) [] (take k es) = OData h"
    unfolding h_def event_header_def object_header.select_convs
    by (rule event_objects_concat [where n = n]) (use ap in \<open>simp_all add: prefix_def\<close>)
  have h: "sendable SizeBits FuncResponse h" "O_Size h = 3 + ?p + k * (?p + n)"
    using event_header_sendable [of "take k es" wide m x ctx n] k k1 es(1) facts n encl unfolding h_def len by (simp_all add: mc_def)
  have "k * nat per \<le> nat (rb_room b1 - overhead) div nat per * nat per" using k(2) k1(4) by (intro mult_le_mono1) simp
  also have "int \<dots> \<le> rb_room b1 - overhead" using div_mult_room [where a = "rb_room b1 - overhead" and n = "nat per"] av per by simp
  finally have fits: "(if rel then 10 else 0) + int (O_Size h) \<le> rb_room b1"
    unfolding h(2) ov by (simp add: nat_add_distrib algebra_simps split: if_splits)
  have e2: "rb_extends b1 (chunk_headers m synced (rb_ctx b) (Objects x wide (if rel then Some base else None) (take k es))) (rb_add h b2)"
  proof (cases rel)
    case True
    then show ?thesis
      using rb_extends_pair [OF ctoHeader_sendable(1) h(1) ctoHeader_sendable(4,3), of synced base b1] fits
      by (simp add: ctoHeader_sendable(2) b2_def h_def ctx_def sel)
  next
    case False
    have "\<not> relative_header h" using facts(5) False by (simp add: relative_header_def h_def event_header_def)
    then show ?thesis using rb_extends_join [OF h(1), of b1] fits False by (simp add: b2_def h_def ctx_def sel)
  qed
  have run: "event_run m synced now x n rel wide es b = event_run m synced now x n rel wide (drop k es) (rb_add h b2)"
  proof -
    have g: "\<not> (es = [] \<or> n = 0)" "\<not> rb_room b1 - overhead < per" using es(1) n av by simp_all
    have hh: "h = \<lparr>OGroup = fst x, OVariation = snd x, OQualifier = MakeQualifier prefix spec,
        ORange = \<lparr>RSpec = spec, RStart = 0, RStop = 0, RCount = of_nat k\<rparr>,
        OData = foldl (event_object m x (Prefix_Octets prefix) ctx) [] (take k es), OOffset = 0, ODataOffset = 0\<rparr>"
      unfolding data by (simp add: h_def event_header_def prefix_def spec_def len [simplified])
    have ov': "(if rel then int (O_Size (ctoHeader synced zero_time)) else 0) + int (ObjectHeaderSize + Range_Octets spec) = overhead"
      by (simp add: overhead_def ctoHeader_sendable(2))
    show ?thesis
      by (subst event_run.simps)
        (simp only: Let_def if_not_P [OF g(1)] prefix_def [symmetric] spec_def [symmetric] mc_def [symmetric] per_def [symmetric] ov'
          b1_def [symmetric] if_not_P [OF g(2)] k1_def [symmetric] base_def [symmetric] k_def [symmetric] ctx_def [symmetric]
          b2_def [symmetric] hh [symmetric])
  qed
  have "chunk_ok (Objects x wide (if rel then Some base else None) (take k es))"
    using k(1) es(1) es(2) [OF in_set_takeD] w facts(5) by (auto simp: list_all_iff)
  then show ?thesis
    using k(1) rb_extends_trans [OF e1 e2] run
    by (intro exI [of _ k] exI [of _ "Objects x wide (if rel then Some base else None) (take k es)"] exI [of _ "rb_add h b2"]) simp
qed

lemma event_run_reports:
  "(\<And>e. e \<in> set es \<Longrightarrow> event_encoding e = (n, rel) \<and> EType e \<noteq> TypeDataset \<and> (eventGroup (EType e), EVariation e) = x \<and> (wide \<or> EIndex e \<le> 0xFF)) \<Longrightarrow>
   n \<noteq> 0 \<Longrightarrow> 276 \<le> rb_max b \<Longrightarrow>
   \<exists>chunks b'. event_run m synced now x n rel wide es b = (b', []) \<and>
     rb_extends b (concat (map (chunk_headers m synced (rb_ctx b)) chunks)) b' \<and> list_all chunk_ok chunks \<and>
     concat (map chunk_events chunks) = es"
proof (induction "length es" arbitrary: es b rule: less_induct)
  case less
  show ?case
  proof (cases "es = []")
    case True
    then show ?thesis by (intro exI [of _ "[]"] exI [of _ b]) (simp add: event_run.simps)
  next
    case False
    obtain k chunk b1 where s: "0 < k" "chunk_events chunk = take k es" "chunk_ok chunk"
        "rb_extends b (chunk_headers m synced (rb_ctx b) chunk) b1"
        "event_run m synced now x n rel wide es b = event_run m synced now x n rel wide (drop k es) b1"
      using event_step [OF False less.prems] by metis
    have sel: "rb_max b1 = rb_max b" "rb_ctx b1 = rb_ctx b" using rb_extends_sel [OF s(4)] by simp_all
    have "\<exists>chunks b'. event_run m synced now x n rel wide (drop k es) b1 = (b', []) \<and>
        rb_extends b1 (concat (map (chunk_headers m synced (rb_ctx b1)) chunks)) b' \<and> list_all chunk_ok chunks \<and>
        concat (map chunk_events chunks) = drop k es"
      by (rule less.hyps) (use False s(1) less.prems sel in \<open>auto dest: in_set_dropD\<close>)
    then obtain chunks b' where r: "event_run m synced now x n rel wide (drop k es) b1 = (b', [])"
        "rb_extends b1 (concat (map (chunk_headers m synced (rb_ctx b)) chunks)) b'" "list_all chunk_ok chunks"
        "concat (map chunk_events chunks) = drop k es"
      unfolding sel by blast
    show ?thesis
      using rb_extends_trans [OF s(4) r(2)] s r by (intro exI [of _ "chunk # chunks"] exI [of _ b']) simp
  qed
qed

text \<open>Which events a response can carry at all.\<close>

definition event_reportable :: "int \<Rightarrow> db_event \<Rightarrow> bool" where
  "event_reportable mx e =
     (if EType e = TypeDataset then
        (case FreeFormat 88 1 (VDataset (EValue e)) of Inr h \<Rightarrow> int (O_Size h) + int ResponseHeaderSize \<le> mx | Inl _ \<Rightarrow> False)
      else fst (event_encoding e) \<noteq> 0)"

lemma dataset_sendable:
  assumes "FreeFormat g 1 object = Inr h" "g = 87 \<or> g = 88"
  shows "sendable SizeBits FuncResponse h" "\<not> relative_header h"
proof -
  have l: "length object \<le> 0xFFFF" and h: "h = \<lparr>OGroup = g, OVariation = 1, OQualifier = 0x5B,
     ORange = \<lparr>RSpec = RangeVariable, RStart = 0, RStop = 0, RCount = 1\<rparr>,
     OData = put16 (of_nat (length object)) @ object, OOffset = 0, ODataOffset = 0\<rparr>"
    using assms by (auto simp: FreeFormat_def Let_def split: if_splits)
  show "sendable SizeBits FuncResponse h"
    using walk_one [OF l] assms(2) unfolding h
    by (auto simp add: sendable_def wf_object_def wf_range_def counted_def objectDataLen_def objectCarriesData_def CarriesObjectData_def Let_def)
  have "list_all (\<lambda>((g, v), d). g \<noteq> 87 \<and> g \<noteq> 88) descriptors" by (simp add: descriptor_tables)
  then show "\<not> relative_header h" unfolding h using assms(2)
    by (auto simp: relative_header_def relative_object_def Lookup_def list_all_iff split: option.splits dest!: map_of_SomeD)
qed

lemma run_same_encoding:
  assumes "event_encoding e = (n, rel)" "n \<noteq> 0" "EType e \<noteq> TypeDataset"
    and "(eventGroup (EType e'), EVariation e') = (eventGroup (EType e), EVariation e)"
  shows "event_encoding e' = (n, rel) \<and> EType e' \<noteq> TypeDataset"
proof -
  have g: "eventGroup (EType e') = eventGroup (EType e)" "EVariation e' = EVariation e" using assms(4) by simp_all
  have t: "EType e' = EType e" by (rule eventGroup_inj [OF g(1)]) (simp only: g(1) event_encoding_facts(3) [OF assms(1-3)] not_False_eq_True)
  have "event_encoding e' = event_encoding e" by (simp only: event_encoding_def t g(2))
  then show ?thesis using assms(1,3) t by simp
qed

text \<open>
  What a response makes of a list of events: the ones it can carry are divided into chunks, in
  order, and the others are handed back.
\<close>

definition reports_events ::
    "store \<Rightarrow> bool \<Rightarrow> int \<Rightarrow> db_event list \<Rightarrow> response_builder \<Rightarrow> event_chunk list \<Rightarrow> response_builder \<Rightarrow> bool" where
  "reports_events m synced now es b chunks b' \<longleftrightarrow>
     build_events m synced now es b = (b', filter (\<lambda>e. \<not> event_reportable (rb_max b) e) es) \<and>
     rb_extends b (concat (map (chunk_headers m synced (rb_ctx b)) chunks)) b' \<and> list_all chunk_ok chunks \<and>
     concat (map chunk_events chunks) = filter (event_reportable (rb_max b)) es"

lemma reports_skip:
  assumes "reports_events m synced now rest b chunks b'" "\<not> event_reportable (rb_max b) e"
  shows "reports_events m synced now (e # rest) b chunks b'"
proof -
  have "build_events m synced now (e # rest) b = (case build_events m synced now rest b of (b, unsent) \<Rightarrow> (b, e # unsent))"
    using assms(2) by (cases "event_encoding e")
      (auto simp: event_reportable_def build_events.simps [of m synced now "e # rest"] Let_def split: sum.splits prod.splits if_splits)
  then show ?thesis using assms by (simp add: reports_events_def)
qed

lemma reports_dataset:
  assumes "EType e = TypeDataset" "event_reportable (rb_max b) e" "FreeFormat 88 1 (VDataset (EValue e)) = Inr h"
    and "reports_events m synced now rest (rb_add h b) chunks b'"
  shows "reports_events m synced now (e # rest) b (Data_Set e # chunks) b'"
proof -
  have h: "int (O_Size h) + int ResponseHeaderSize \<le> rb_max b" using assms(1-3) by (simp add: event_reportable_def)
  then have x: "rb_extends b [h] (rb_add h b)" using dataset_sendable [OF assms(3)] by (intro rb_extends_add) simp_all
  have "build_events m synced now (e # rest) b = build_events m synced now rest (rb_add h b)"
    using assms(1,3) h by (simp add: build_events.simps [of m synced now "e # rest"])
  then show ?thesis
    using assms rb_extends_trans [OF x, of "concat (map (chunk_headers m synced (rb_ctx b)) chunks)" b'] by (simp add: reports_events_def)
qed

lemma reports_run:
  fixes rest :: "db_event list"
  assumes "EType e \<noteq> TypeDataset" "event_encoding e = (n, rel)" "n \<noteq> 0" "276 \<le> rb_max b"
  defines "run \<equiv> takeWhile (\<lambda>e'. (eventGroup (EType e'), EVariation e') = (eventGroup (EType e), EVariation e)) (e # rest)"
  shows "\<exists>chunks b1. rb_max b1 = rb_max b \<and> (\<forall>chunks' b'. reports_events m synced now (drop (length run) (e # rest)) b1 chunks' b' \<longrightarrow>
    reports_events m synced now (e # rest) b (chunks @ chunks') b')"
proof -
  define x where "x = (eventGroup (EType e), EVariation e)"
  define wide where "wide = list_ex (\<lambda>e. EIndex e > 0xFF) run"
  have all: "event_encoding e' = (n, rel) \<and> EType e' \<noteq> TypeDataset \<and> (eventGroup (EType e'), EVariation e') = x \<and> (wide \<or> EIndex e' \<le> 0xFF)"
    if "e' \<in> set run" for e'
  proof -
    have "(eventGroup (EType e'), EVariation e') = (eventGroup (EType e), EVariation e)"
      using that unfolding run_def by (auto dest!: set_takeWhileD)
    moreover have "wide \<or> EIndex e' \<le> 0xFF" using that by (auto simp: wide_def list_ex_iff not_le)
    ultimately show ?thesis using run_same_encoding [OF assms(2,3,1)] x_def by blast
  qed
  obtain chunks b1 where r: "event_run m synced now x n rel wide run b = (b1, [])"
      "rb_extends b (concat (map (chunk_headers m synced (rb_ctx b)) chunks)) b1" "list_all chunk_ok chunks"
      "concat (map chunk_events chunks) = run"
    using event_run_reports [OF all assms(3,4)] by metis
  have sel: "rb_max b1 = rb_max b" "rb_ctx b1 = rb_ctx b" using rb_extends_sel [OF r(2)] by simp_all
  have split: "run @ drop (length run) (e # rest) = e # rest" unfolding run_def by (simp only: dropWhile_eq_drop [symmetric] takeWhile_dropWhile_id)
  have rep: "filter (event_reportable (rb_max b)) run = run" "filter (\<lambda>e. \<not> event_reportable (rb_max b) e) run = []"
  proof -
    have "event_reportable (rb_max b) e'" if "e' \<in> set run" for e' using all [OF that] assms(3) by (simp add: event_reportable_def)
    then show "filter (event_reportable (rb_max b)) run = run" "filter (\<lambda>e. \<not> event_reportable (rb_max b) e) run = []"
      by (simp_all add: filter_id_conv filter_empty_conv)
  qed
  have b: "build_events m synced now (e # rest) b = build_events m synced now (drop (length run) (e # rest)) b1"
    using assms(1-3) r(1)
    by (subst build_events.simps) (simp add: x_def [symmetric] run_def [unfolded x_def [symmetric], symmetric] wide_def [symmetric] Let_def del: takeWhile.simps split: prod.splits)
  have "reports_events m synced now (e # rest) b (chunks @ chunks') b'"
    if "reports_events m synced now (drop (length run) (e # rest)) b1 chunks' b'" for chunks' b'
    unfolding reports_events_def b
    using that rb_extends_trans [OF r(2), of "concat (map (chunk_headers m synced (rb_ctx b)) chunks')" b'] r(3,4) sel rep
      filter_append [of "event_reportable (rb_max b)" run "drop (length run) (e # rest)"]
      filter_append [of "\<lambda>e. \<not> event_reportable (rb_max b) e" run "drop (length run) (e # rest)"]
    unfolding split reports_events_def by simp
  then show ?thesis using sel(1) by blast
qed

lemma build_events_reports: "276 \<le> rb_max b \<Longrightarrow> \<exists>chunks b'. reports_events m synced now es b chunks b'"
proof (induction "length es" arbitrary: es b rule: less_induct)
  case less
  show ?case
  proof (cases es)
    case Nil
    then show ?thesis by (intro exI [of _ "[]"] exI [of _ b]) (simp add: reports_events_def build_events.simps)
  next
    case (Cons e rest)
    have IH: "\<exists>chunks b'. reports_events m synced now es' b1 chunks b'" if "length es' < length es" "rb_max b1 = rb_max b" for es' b1
      by (rule less.hyps) (use that less.prems in simp_all)
    consider (skip) "\<not> event_reportable (rb_max b) e" | (data) "event_reportable (rb_max b) e" "EType e = TypeDataset"
      | (run) "event_reportable (rb_max b) e" "EType e \<noteq> TypeDataset" by blast
    then show ?thesis
    proof cases
      case skip
      then show ?thesis using IH [of rest b] reports_skip Cons by fastforce
    next
      case data
      then obtain h where h: "FreeFormat 88 1 (VDataset (EValue e)) = Inr h" by (auto simp: event_reportable_def split: sum.splits)
      then show ?thesis using IH [of rest "rb_add h b"] reports_dataset [OF data(2,1) h] Cons by fastforce
    next
      case run
      obtain n rel where enc: "event_encoding e = (n, rel)" "n \<noteq> 0"
        using run by (cases "event_encoding e") (auto simp: event_reportable_def)
      let ?run = "takeWhile (\<lambda>e'. (eventGroup (EType e'), EVariation e') = (eventGroup (EType e), EVariation e)) (e # rest)"
      obtain chunks b1 where r: "rb_max b1 = rb_max b" "\<And>chunks' b'. reports_events m synced now (drop (length ?run) (e # rest)) b1 chunks' b' \<Longrightarrow>
          reports_events m synced now (e # rest) b (chunks @ chunks') b'"
        using reports_run [OF run(2) enc less.prems, where rest = rest and m = m and synced = synced and now = now] by blast
      have "length (drop (length ?run) (e # rest)) < length es" using Cons by simp
      then show ?thesis using IH [OF _ r(1)] r(2) Cons by blast
    qed
  qed
qed

text \<open>
  C11. Events are reported exactly once, in order, or handed back. With fragments of at least 276
  octets, the events a response cannot carry at all (no encoding, or a data set larger than a
  fragment) are returned, in order, and every other one is sent: the events sent, in order, are
  divided into data sets and runs of one group and variation whose indexes fit the width of
  their prefix; a run of relative times travels directly behind its common time of occurrence,
  in the same fragment, and every valid time of it is within 65535 milliseconds after that
  base. The fragments keep within the limit and a master parses from them exactly these
  headers, each carrying the encodings of its events under their indexes.
\<close>

theorem events_delivered:
  assumes "mx \<le> 0 \<or> 276 \<le> mx" "wf_app_header h" "AFunc h = FuncResponse"
  shows "\<exists>chunks b'. let reportable = event_reportable (rb_max (newResponseBuilder mx ctx))
    in buildEvents db synced now es (newResponseBuilder mx ctx) = (b', filter (\<lambda>e. \<not> reportable e) es) \<and>
       concat (map chunk_events chunks) = filter reportable es \<and> list_all chunk_ok chunks \<and>
       delivered b' h (concat (map (chunk_headers (db_store db) synced ctx) chunks))"
proof -
  let ?b = "newResponseBuilder mx ctx"
  have mx: "276 \<le> rb_max ?b" using assms(1) by (auto simp: newResponseBuilder_sel)
  obtain chunks b' where r: "reports_events (db_store db) synced now es ?b chunks b'"
    using build_events_reports [OF mx] by blast
  then have "rb_extends ?b (concat (map (chunk_headers (db_store db) synced ctx) chunks)) b'"
    by (simp add: reports_events_def newResponseBuilder_sel)
  from extends_delivered [OF this assms(2,3)] rb_extends_sel [OF this] mx r show ?thesis
    by (intro exI [of _ chunks] exI [of _ b']) (simp add: reports_events_def buildEvents_def Let_def)
qed

theorem events_delivered_witness:
  "\<exists>chunks b'. buildEvents three_binaries True 0 [Event TypeBinary 300 1 no_value, Event TypeOctetString 0 0 no_value] (newResponseBuilder 512 local_time) =
      (b', [Event TypeOctetString 0 0 no_value]) \<and>
    concat (map chunk_events chunks) = [Event TypeBinary 300 1 no_value] \<and> list_all chunk_ok chunks \<and>
    delivered b' response_header (concat (map (chunk_headers (db_store three_binaries) True local_time) chunks))"
proof -
  have "event_reportable m (Event TypeBinary 300 1 no_value)" "\<not> event_reportable m (Event TypeOctetString 0 0 no_value)" for m
    by (simp_all add: event_reportable_def event_encoding_def Event_def eventGroup_def Lookup_def descriptor_tables SizeOctets_def)
  moreover have "wf_app_header response_header" "AFunc response_header = FuncResponse" by (simp_all add: response_header_def wf_app_header_def)
  ultimately show ?thesis
    using events_delivered [of 512 response_header local_time three_binaries True 0
        "[Event TypeBinary 300 1 no_value, Event TypeOctetString 0 0 no_value]"] by (simp add: Let_def)
qed

text \<open>The same for octet strings, which are sent at their own lengths.\<close>

lemma buildStaticRange_strings:
  fixes start stop :: u16
  defines "lst \<equiv> \<lambda>db. min (unat stop) (nat (typeCount (Counts db) TypeOctetString - 1))"
  assumes "0 < typeCount (Counts db) TypeOctetString" "typeCount (Counts db) TypeOctetString \<le> 65536"
    and "unat start \<le> lst db" "266 \<le> rb_max b"
    and "\<forall>i \<in> {unat start..lst db}. \<exists>len. string_length db i = Some len \<and> len \<le> 255"
  shows "\<exists>runs. strings_range db (unat start) (lst db + 1) runs \<and>
    rb_extends b (map (string_header db) runs) (buildStaticRange db TypeOctetString requested start stop b)"
proof -
  let ?n = "typeCount (Counts db) TypeOctetString"
  have u: "unat (min stop (of_int (?n - 1))) = lst db"
    using unat_of_int_u16 [of "?n - 1"] assms(2,3) by (simp add: lst_def min_def word_le_nat_alt)
  have lt: "lst db < 65536" using u u16_lt(1) [of "min stop (of_int (?n - 1))"] by simp
  have le: "unat start \<le> lst db + 1" using assms(4) by simp
  have g: "\<not> start > min stop (of_int (?n - 1))" using u assms(4) by (simp only: word_less_nat_alt not_less)
  have "buildStaticRange db TypeOctetString requested start stop b = string_range db (unat start) (lst db) b"
    unfolding buildStaticRange_def Let_def buildOctetStrings_def if_not_P [OF g] u using assms(2) by simp
  then show ?thesis using string_range_reports [OF le lt assms(5)] assms(6) by simp
qed

theorem strings_read_delivered:
  fixes start stop :: u16
  defines "lst \<equiv> \<lambda>db. min (unat stop) (nat (typeCount (Counts db) TypeOctetString - 1))"
  assumes "0 < typeCount (Counts db) TypeOctetString" "typeCount (Counts db) TypeOctetString \<le> 65536"
    and "unat start \<le> lst db" "mx \<le> 0 \<or> 266 \<le> mx" "wf_app_header h" "AFunc h = FuncResponse"
    and "\<forall>i \<in> {unat start..lst db}. \<exists>len. string_length db i = Some len \<and> len \<le> 255"
  shows "\<exists>runs. strings_range db (unat start) (lst db + 1) runs \<and>
    delivered (buildStaticRange db TypeOctetString requested start stop (newResponseBuilder mx ctx)) h (map (string_header db) runs)"
proof -
  have mx: "266 \<le> rb_max (newResponseBuilder mx ctx)" using assms(5) by (auto simp: newResponseBuilder_sel)
  obtain runs where r: "strings_range db (unat start) (lst db + 1) runs"
      "rb_extends (newResponseBuilder mx ctx) (map (string_header db) runs) (buildStaticRange db TypeOctetString requested start stop (newResponseBuilder mx ctx))"
    using buildStaticRange_strings [where start = start and stop = stop, OF assms(2,3) _ mx] assms(4,8) by (auto simp: lst_def)
  then show ?thesis
    using extends_delivered [OF r(2) assms(6,7)] rb_extends_sel [OF r(2)] mx by (intro exI [of _ runs]) simp
qed

end
