(* ===== verification/Outstation_Services.thy ===== *)
theory Outstation_Services
  imports Outstation_Report Outstation_Session
begin

text \<open>
  The services of an outstation beside its measurements: scheduled freezes
  (\<^verbatim>\<open>outstation/freeze.go\<close>), device attributes (\<^verbatim>\<open>outstation/attribute.go\<close>), data sets over a session
  (\<^verbatim>\<open>outstation/dataset.go\<close>), and the times, indications, terminals and attribute writes of
  \<^verbatim>\<open>outstation/services.go\<close>.

  The session of \<open>Outstation_Session\<close> and the rest of what the source keeps in its \<^verbatim>\<open>Session\<close> are a
  pair. The application is an argument: its calls act on a state of its own, \<open>'a\<close>, and not on
  the database. The source has one event buffer, which session and database share; here the one
  of the session counts, and \<open>on_db\<close> lends it to the database for the length of an operation.
\<close>

section \<open>State\<close>

record freeze_schedule =
  FNext :: int
  FInterval :: int
  FRanges :: "(u16 \<times> u16) list"
  FAnalogRanges :: "(u16 \<times> u16) list"

type_synonym attribute_key = "byte \<times> byte"

record 'a device =
  dev_db :: database
  recordedTime :: int
  restartUntil :: int
  restartPending :: bool
  freezes :: "freeze_schedule list"
  attributes :: "(attribute_key \<times> attribute) list"
  selected :: selection
  statistics :: "(nat \<Rightarrow> u32) option"
  ScheduledFreezes :: u64
  AttributesRead :: u64
  appl :: 'a

text \<open>
  The application and the callbacks of the configuration. A missing callback is \<open>None\<close>, as is
  the optional interface \<^verbatim>\<open>RestartSupport\<close>, whose two answers are for the warm and the cold restart.
\<close>

record 'a application =
  SupportsWriteTime :: "'a \<Rightarrow> bool"
  WriteAbsoluteTime :: "int \<Rightarrow> 'a \<Rightarrow> 'a \<times> bool"
  ColdRestart :: "'a \<Rightarrow> 'a \<times> int"
  WarmRestart :: "'a \<Rightarrow> 'a \<times> int"
  RestartSupport :: "('a \<Rightarrow> bool \<times> bool) option"
  DatasetWrite :: "(byte \<Rightarrow> byte \<Rightarrow> byte list \<Rightarrow> 'a \<Rightarrow> 'a \<times> bool) option"
  AttributeWrite :: "(attribute \<Rightarrow> 'a \<Rightarrow> 'a \<times> bool) option"
  TerminalWrite :: "(u16 \<Rightarrow> byte list \<Rightarrow> 'a \<Rightarrow> 'a \<times> bool) option"
  Manage :: "(byte \<Rightarrow> byte list \<Rightarrow> 'a \<Rightarrow> 'a \<times> bool) option"
  ActivateConfig :: "(byte list list \<Rightarrow> 'a \<Rightarrow> 'a \<times> activation_result) option"
  WritableAttributes :: "attribute_key list"
  Commands :: "'a command_handler"
  CommandLimits :: command_config

type_synonym 'a serving = "event_value session \<times> 'a device"

definition indicate :: "IIN \<Rightarrow> 'a serving \<Rightarrow> 'a serving" where
  "indicate bits st = (set_iin bits (fst st), snd st)"

definition on_db :: "(database \<Rightarrow> database) \<Rightarrow> 'a serving \<Rightarrow> 'a serving" where
  "on_db f st =
     (let db = f ((dev_db (snd st))\<lparr>db_events := Some (events (fst st))\<rparr>)
      in (case db_events db of Some eb \<Rightarrow> (fst st)\<lparr>events := eb\<rparr> | None \<Rightarrow> fst st, (snd st)\<lparr>dev_db := db\<rparr>))"

text \<open>The moment of a freeze, as trustworthy as the clock.\<close>

definition freeze_time :: "event_value session \<Rightarrow> int \<Rightarrow> timestamp" where
  "freeze_time s t = (if synchronized s then Now t else Unsynchronized t)"

section \<open>Scheduled freezes\<close>

abbreviation (input) maxFreezeSchedules :: nat where "maxFreezeSchedules \<equiv> 16"
abbreviation (input) Time48Size :: nat where "Time48Size \<equiv> 6"

text \<open>What \<^verbatim>\<open>onFreezeAtTime\<close> gathers from the headers of a request.\<close>

record freeze_request =
  haveTime :: bool
  freqFirst :: int
  freqInterval :: int
  freqRanges :: "(u16 \<times> u16) list"
  freqAnalogRanges :: "(u16 \<times> u16) list"
  named :: bool

definition no_freeze_request :: freeze_request where
  "no_freeze_request = \<lparr>haveTime = False, freqFirst = zero_time, freqInterval = 0, freqRanges = [], freqAnalogRanges = [], named = False\<rparr>"

definition freeze_header :: "object_header \<Rightarrow> freeze_request \<Rightarrow> IIN + freeze_request" where
  "freeze_header h q =
     (if OGroup h = 50 \<and> OVariation h = 2 \<and> \<not> haveTime q then
        let skip = Prefix_Octets (Q_IndexPrefix (OQualifier h))
        in if O_Count h \<noteq> 1 \<or> length (OData h) < skip + Time48Size + 4 then Inl IINParameterError
           else
             let d = drop skip (OData h); ms = get32 (drop 6 d)
             in Inr (q\<lparr>freqFirst := TTime (ParseTime48 d), freqInterval := uint ms * 1000000, haveTime := True\<rparr>)
      else if OGroup h = 30 then
        case forEachPointRun h of
          Some runs \<Rightarrow> Inr (q\<lparr>named := True, freqAnalogRanges := freqAnalogRanges q @ runs\<rparr>)
        | None \<Rightarrow> Inl IINParameterError
      else if OGroup h = 20 then
        case forEachPointRun h of
          Some runs \<Rightarrow> Inr (q\<lparr>named := True, freqRanges := freqRanges q @ runs\<rparr>)
        | None \<Rightarrow> Inl IINParameterError
      else Inl IINObjectUnknown)"

fun freeze_headers :: "object_header list \<Rightarrow> freeze_request \<Rightarrow> IIN + freeze_request" where
  "freeze_headers [] q = Inr q"
| "freeze_headers (h # hs) q = (case freeze_header h q of Inl e \<Rightarrow> Inl e | Inr q \<Rightarrow> freeze_headers hs q)"

text \<open>The product of two durations, and the next moment of a schedule after a time that has passed.\<close>

definition duration_times :: "int \<Rightarrow> int \<Rightarrow> int" where
  "duration_times n d = sint (of_int (n * d) :: u64)"

definition next_multiple :: "int \<Rightarrow> int \<Rightarrow> int \<Rightarrow> int" where
  "next_multiple now first interval =
     (let periods = duration_between now first div interval + 1 in first + duration_times periods interval)"

definition onFreezeAtTime :: "int \<Rightarrow> fragment \<Rightarrow> 'a serving \<Rightarrow> 'a serving" where
  "onFreezeAtTime now frag st =
     (case freeze_headers (FObjects frag) no_freeze_request of
        Inl e \<Rightarrow> indicate e st
      | Inr q \<Rightarrow>
          if \<not> haveTime q then indicate IINParameterError st
          else
            let ranges = (if named q then freqRanges q else [(0, 0xFFFF)]);
                analogRanges = (if named q then freqAnalogRanges q else [(0, 0xFFFF)])
            in if freqFirst q < now \<and> freqInterval q \<le> 0 then indicate IINParameterError st
               else
                 let next = (if freqFirst q < now then next_multiple now (freqFirst q) (freqInterval q) else freqFirst q);
                     f = \<lparr>FNext = next, FInterval = freqInterval q, FRanges = ranges, FAnalogRanges = analogRanges\<rparr>
                 in if f \<in> set (freezes (snd st)) then indicate IINAlreadyExecuting st
                    else if length (freezes (snd st)) \<ge> maxFreezeSchedules then indicate IINParameterError st
                    else (fst st, (snd st)\<lparr>freezes := freezes (snd st) @ [f]\<rparr>))"

definition perform_freeze :: "freeze_schedule \<Rightarrow> 'a serving \<Rightarrow> 'a serving" where
  "perform_freeze f st =
     (let t = freeze_time (fst st) (FNext f);
          st = on_db (\<lambda>db. fold (\<lambda>(start, stop). freezeAnalogsRange start stop t False) (FAnalogRanges f)
                      (fold (\<lambda>(start, stop). freezeCountersRange start stop t) (FRanges f) db)) st
      in (fst st, (snd st)\<lparr>ScheduledFreezes := ScheduledFreezes (snd st) + 1\<rparr>))"

text \<open>One round of the loop of \<^verbatim>\<open>runFreezes\<close>, with the schedules kept so far.\<close>

definition run_freeze :: "int \<Rightarrow> freeze_schedule list \<times> 'a serving \<Rightarrow> freeze_schedule \<Rightarrow> freeze_schedule list \<times> 'a serving" where
  "run_freeze now acc f =
     (case acc of (kept, st) \<Rightarrow>
        if now < FNext f then (kept @ [f], st)
        else
          let st = perform_freeze f st
          in if FInterval f \<le> 0 then (kept, st)
             else (kept @ [f\<lparr>FNext := next_multiple now (FNext f) (FInterval f)\<rparr>], st))"

definition runFreezes :: "int \<Rightarrow> 'a serving \<Rightarrow> 'a serving" where
  "runFreezes now st =
     (if length (freezes (snd st)) = 0 then st
      else case foldl (run_freeze now) ([], st) (freezes (snd st)) of
             (kept, st) \<Rightarrow> (fst st, (snd st)\<lparr>freezes := kept\<rparr>))"

definition onFreeze :: "int \<Rightarrow> fragment \<Rightarrow> bool \<Rightarrow> 'a serving \<Rightarrow> 'a serving" where
  "onFreeze now frag clear st =
     (let t = freeze_time (fst st) now;
          freeze = (\<lambda>(start, stop). if clear then freezeClearCountersRange start stop t else freezeCountersRange start stop t);
          freezeAnalogs = (\<lambda>(start, stop). freezeAnalogsRange start stop t clear)
      in if length (FObjects frag) = 0 then on_db (\<lambda>db. freezeAnalogs (0, 0xFFFF) (freeze (0, 0xFFFF) db)) st
         else
           foldl (\<lambda>st h.
             if OGroup h = 30 then
               (case forEachPointRun h of Some runs \<Rightarrow> on_db (fold freezeAnalogs runs) st | None \<Rightarrow> indicate IINParameterError st)
             else if OGroup h \<noteq> 20 then indicate IINObjectUnknown st
             else (case forEachPointRun h of Some runs \<Rightarrow> on_db (fold freeze runs) st | None \<Rightarrow> indicate IINParameterError st))
             st (FObjects frag))"

section \<open>Attributes\<close>

definition derivedAttributes :: "database_config \<Rightarrow> int \<Rightarrow> int \<Rightarrow> attribute list" where
  "derivedAttributes db maxTx maxRx =
     map (\<lambda>(variation, n). UintAttribute variation (of_int n))
       (filter (\<lambda>(variation, n). n > 0)
         [(239, NBinary db), (236, NDoubleBitBinary db), (229, NCounter db), (233, NAnalog db), (224, NBinaryOutputStatus db),
          (221, NAnalogOutputStatus db)]) @
     [UintAttribute 240 (of_int maxTx), UintAttribute 241 (of_int maxRx)]"

definition buildAttributes :: "bool \<Rightarrow> database_config \<Rightarrow> int \<Rightarrow> int \<Rightarrow> attribute list \<Rightarrow> (attribute_key \<times> attribute) list" where
  "buildAttributes disabled db maxTx maxRx configured =
     (if disabled then []
      else fold (\<lambda>a. AList.update (AttrSet a, AttrVariation a) a) (derivedAttributes db maxTx maxRx @ configured) [])"

definition attributesFor :: "(attribute_key \<times> attribute) list \<Rightarrow> byte \<Rightarrow> byte \<Rightarrow> attribute list" where
  "attributesFor store set_no variation =
     (if variation = AttrAll then sort_key AttrVariation (map snd (filter (\<lambda>(key, a). fst key = set_no) store))
      else case map_of store (set_no, variation) of Some a \<Rightarrow> [a] | None \<Rightarrow> [])"

definition attributeWritable :: "attribute_key list \<Rightarrow> byte \<Rightarrow> byte \<Rightarrow> bool" where
  "attributeWritable ids set_no variation =
     (if variation = 0 \<or> variation \<ge> AttrAll then False else (set_no, variation) \<in> set ids)"

definition writeAttribute :: "'a application \<Rightarrow> object_header \<Rightarrow> 'a serving \<Rightarrow> 'a serving" where
  "writeAttribute ap h st =
     (let rng = ORange h; d = snd st
      in if \<not> IsStartStop (RSpec rng) \<or> RStart rng \<noteq> RStop rng \<or> RStart rng > 255 \<or> O_Count h \<noteq> 1 \<or>
            Q_IndexPrefix (OQualifier h) \<noteq> PrefixNone then indicate IINParameterError st
         else
           let set_no = ucast (RStart rng); key = (set_no, OVariation h)
           in case map_of (attributes d) key of
                None \<Rightarrow> indicate IINObjectUnknown st
              | Some old \<Rightarrow>
                  (case ParseAttribute set_no (OVariation h) (OData h) of
                     Inl e \<Rightarrow> indicate IINParameterError st
                   | Inr (v, n) \<Rightarrow>
                       if n \<noteq> length (OData h) \<or> AttrType old \<noteq> AttrType v \<or>
                          \<not> attributeWritable (WritableAttributes ap) set_no (OVariation h) then indicate IINParameterError st
                       else
                         case (case AttributeWrite ap of Some write \<Rightarrow> write v (appl d) | None \<Rightarrow> (appl d, True)) of
                           (a, ok) \<Rightarrow>
                             let st = (fst st, d\<lparr>appl := a\<rparr>)
                             in if \<not> ok then indicate IINParameterError st
                                else (fst st, (snd st)\<lparr>attributes := AList.update key v (attributes d)\<rparr>)))"

definition attributeHeader :: "fragment \<Rightarrow> object_header option" where
  "attributeHeader frag = List.find (\<lambda>h. OGroup h = 0) (FObjects frag)"

definition attribute_header :: "attribute \<Rightarrow> byte list \<Rightarrow> object_header" where
  "attribute_header a val =
     \<lparr>OGroup = 0, OVariation = AttrVariation a, OQualifier = MakeQualifier PrefixNone RangeStartStop8,
      ORange = \<lparr>RSpec = RangeStartStop8, RStart = ucast (AttrSet a), RStop = ucast (AttrSet a), RCount = 1\<rparr>, OData = val,
      OOffset = 0, ODataOffset = 0\<rparr>"

text \<open>The attributes an attribute read is answered with, and the loop that encodes them.\<close>

definition attributes_read :: "'a application \<Rightarrow> (attribute_key \<times> attribute) list \<Rightarrow> byte \<Rightarrow> byte \<Rightarrow> attribute list" where
  "attributes_read ap store set_no variation =
     (if variation = AttrList then
        let everything = attributesFor store set_no AttrAll
        in if length everything > 0 then
             [(ListAttribute (map (\<lambda>a. \<lparr>ItemVariation = AttrVariation a,
                  ItemWritable = attributeWritable (WritableAttributes ap) (AttrSet a) (AttrVariation a)\<rparr>) everything))\<lparr>AttrSet := set_no\<rparr>]
           else []
      else attributesFor store set_no variation)"

definition encode_attribute :: "event_value session \<times> byte list \<Rightarrow> attribute \<Rightarrow> event_value session \<times> byte list" where
  "encode_attribute acc a =
     (case acc of (s, body) \<Rightarrow>
        (case AppendAttribute [] a of
           Inl e \<Rightarrow> (set_iin IINParameterError s, body)
         | Inr val \<Rightarrow> (s, AppendObjectHeader body (attribute_header a val))))"

type_synonym ('a, 'w, 'e) served = "'a serving \<times> 'w \<times> 'e stack_error option"

definition answer ::
    "(event_value, 'w, 'e) env \<Rightarrow> received \<Rightarrow> fragment \<Rightarrow> byte list list \<Rightarrow> bool \<Rightarrow> 'a serving \<Rightarrow> 'w \<Rightarrow> ('a, 'w, 'e) served" where
  "answer env r frag bodies hasEvents st w =
     (case sendFragments env r (FHeader frag) bodies hasEvents (fst st) w of (s, w, e) \<Rightarrow> ((s, snd st), w, e))"

definition onAttributeRead ::
    "(event_value, 'w, 'e) env \<Rightarrow> 'a application \<Rightarrow> received \<Rightarrow> fragment \<Rightarrow> object_header \<Rightarrow> 'a serving \<Rightarrow> 'w \<Rightarrow> ('a, 'w, 'e) served" where
  "onAttributeRead env ap r frag h st w =
     (let set_no = (if IsStartStop (RSpec (ORange h)) then ucast (RStart (ORange h)) else 0);
          attrs = attributes_read ap (attributes (snd st)) set_no (OVariation h)
      in if length attrs = 0 then answer env r frag [[]] False (indicate IINObjectUnknown st) w
         else
           case foldl encode_attribute (fst st, []) attrs of
             (s, body) \<Rightarrow>
               answer env r frag [body] False (s, (snd st)\<lparr>AttributesRead := AttributesRead (snd st) + 1\<rparr>) w)"

section \<open>Data sets\<close>

type_synonym reading = "event_value session \<times> response_builder"

definition zero_object :: object_header where
  "zero_object = \<lparr>OGroup = 0, OVariation = 0, OQualifier = 0, ORange = \<lparr>RSpec = 0, RStart = 0, RStop = 0, RCount = 0\<rparr>, OData = [],
     OOffset = 0, ODataOffset = 0\<rparr>"

text \<open>The indexes of a run, and one round of the loop of \<^verbatim>\<open>readDatasets\<close>.\<close>

definition run_indexes :: "u16 \<times> u16 \<Rightarrow> nat list" where
  "run_indexes run = [unat (fst run)..<unat (snd run) + 1]"

definition read_dataset :: "database \<Rightarrow> byte \<Rightarrow> byte \<Rightarrow> reading \<Rightarrow> nat \<Rightarrow> reading" where
  "read_dataset db grp variation st i =
     (case map_of (db_datasets db) (grp, variation, of_nat i) of
        None \<Rightarrow> st
      | Some v \<Rightarrow>
          let header = (if grp = 86 \<and> variation = 2 then rangeObjectHeader (86, 2) (of_nat i) (of_nat i) v
                        else (case FreeFormat grp variation v of Inr h \<Rightarrow> h | Inl e \<Rightarrow> zero_object))
          in if int (O_Size header) + int ResponseHeaderSize > SMaxTxFragment (scfg (fst st))
             then (set_iin IINParameterError (fst st), snd st)
             else (fst st, rb_add header (snd st)))"

definition readDatasets :: "database \<Rightarrow> object_header \<Rightarrow> reading \<Rightarrow> reading" where
  "readDatasets db h st =
     (let variation = (if OVariation h = 0 then 1 else OVariation h)
      in if \<not> datasetVariationKnown (OGroup h) variation then (set_iin IINObjectUnknown (fst st), snd st)
         else
           case forEachPointRun h of
             None \<Rightarrow> (set_iin IINParameterError (fst st), snd st)
           | Some runs \<Rightarrow> foldl (read_dataset db (OGroup h) variation) st (concat (map run_indexes runs)))"

definition write_dataset :: "(byte list \<Rightarrow> 'a \<Rightarrow> 'a \<times> bool) \<Rightarrow> byte \<Rightarrow> byte \<Rightarrow> 'a serving \<Rightarrow> byte list \<Rightarrow> 'a serving" where
  "write_dataset write grp variation st v =
     (if (grp = 85 \<or> grp = 86 \<and> variation = 1) \<and> isl (ParseDatasetDescriptor v) then indicate IINParameterError st
      else
        case write v (appl (snd st)) of
          (a, ok) \<Rightarrow>
            let st = (fst st, (snd st)\<lparr>appl := a\<rparr>) in if ok then st else indicate IINParameterError st)"

definition writeDatasets :: "'a application \<Rightarrow> object_header \<Rightarrow> 'a serving \<Rightarrow> 'a serving" where
  "writeDatasets ap h st =
     (if \<not> datasetVariationKnown (OGroup h) (OVariation h) \<or> OGroup h = 86 \<and> OVariation h = 2 then indicate IINObjectUnknown st
      else
        case DatasetWrite ap of
          None \<Rightarrow> indicate IINNoFuncCodeSupport st
        | Some write \<Rightarrow>
            if OQualifier h \<noteq> FreeFormatQualifier then indicate IINParameterError st
            else
              case FreeFormatObjects h of
                Inl e \<Rightarrow> indicate IINParameterError st
              | Inr vs \<Rightarrow>
                  if of_nat (length vs) \<noteq> O_Count h then indicate IINParameterError st
                  else foldl (write_dataset (write (OGroup h) (OVariation h)) (OGroup h) (OVariation h)) st vs)"

section \<open>Times, indications and terminals\<close>

definition count_one :: "byte \<Rightarrow> byte \<Rightarrow> byte list \<Rightarrow> object_header" where
  "count_one grp variation data =
     \<lparr>OGroup = grp, OVariation = variation, OQualifier = MakeQualifier PrefixNone RangeCount8,
      ORange = \<lparr>RSpec = RangeCount8, RStart = 0, RStop = 0, RCount = 1\<rparr>, OData = data, OOffset = 0, ODataOffset = 0\<rparr>"

definition readCurrentTime :: "int \<Rightarrow> object_header \<Rightarrow> reading \<Rightarrow> reading" where
  "readCurrentTime now h st =
     (let spec = RSpec (ORange h)
      in if spec \<noteq> RangeAllObjects \<and> (\<not> IsCount spec \<or> O_Count h \<noteq> 1 \<or> Q_IndexPrefix (OQualifier h) \<noteq> PrefixNone)
         then (set_iin IINParameterError (fst st), snd st)
         else (fst st, rb_add (count_one 50 1 (AppendTime48 [] (Now now))) (snd st)))"

definition iin_octets :: "IIN \<Rightarrow> u32 \<Rightarrow> u32 \<Rightarrow> byte list" where
  "iin_octets iin start stop =
     (let bits = drop_bit (unat start) iin;
          n = unat (stop - start + 8) div 8;
          data = map (\<lambda>i. ucast (drop_bit (8 * i) bits)) [0..<n];
          k = unat (stop - start + 1) mod 8
      in if k \<noteq> 0 then data[n - 1 := data ! (n - 1) AND of_nat (2 ^ k - 1)] else data)"

definition readIIN :: "int \<Rightarrow> object_header \<Rightarrow> reading \<Rightarrow> reading" where
  "readIIN host h st =
     (let rng = ORange h; wrong = (set_iin IINParameterError (fst st), snd st)
      in if \<not> IsStartStop (RSpec rng) \<and> RSpec rng \<noteq> RangeAllObjects then wrong
         else
           let start = (if IsStartStop (RSpec rng) then RStart rng else 0);
               stop = (if IsStartStop (RSpec rng) then RStop rng else 15)
           in if start > stop \<or> stop > 15 then wrong
              else case currentIIN host (fst st) of
                     (s, iin) \<Rightarrow> (s, rb_add (rangeObjectHeader (80, 1) (ucast start) (ucast stop) (iin_octets iin start stop)) (snd st)))"

text \<open>The values of a header with their indexes, or nothing when it does not hold them.\<close>

definition eachIndexedValue :: "object_header \<Rightarrow> nat \<Rightarrow> (u32 \<times> byte list) list option" where
  "eachIndexedValue h sz =
     (let prefix = Q_IndexPrefix (OQualifier h); p = Prefix_Octets prefix; spec = RSpec (ORange h)
      in if sz = 0 \<or> \<not> IsStartStop spec \<and> (\<not> IsCount spec \<or> \<not> IsIndex prefix) then None
         else if (ucast (O_Count h) :: u64) * of_nat (sz + p) \<noteq> of_nat (length (OData h)) then None
         else
           Some (map (\<lambda>i. let off = i * (sz + p);
                              index = (if p > 0 then readPrefix (drop off (OData h)) p else RStart (ORange h) + of_nat i)
                          in (index, subslice (OData h) (off + p) (off + p + sz))) [0..<unat (O_Count h)]))"

definition time_interval_octets :: "time_and_interval \<Rightarrow> byte list" where
  "time_interval_octets v = AppendTime48 [] (TIWhen v) @ put32 (TIInterval v) @ [TIUnits v]"

definition readTimeIntervals :: "database \<Rightarrow> object_header \<Rightarrow> reading \<Rightarrow> reading" where
  "readTimeIntervals db h st =
     (case forEachPointRun h of
        None \<Rightarrow> (set_iin IINParameterError (fst st), snd st)
      | Some runs \<Rightarrow>
          (fst st,
           foldl (\<lambda>b i. rb_add (rangeObjectHeader (50, 4) (of_nat i) (of_nat i) (time_interval_octets (db_timeAndInterval db ! i))) b)
             (snd st) (concat (map (\<lambda>run. filter (\<lambda>i. i < length (db_timeAndInterval db)) (run_indexes run)) runs))))"

definition write_time_interval :: "'a serving \<Rightarrow> u32 \<times> byte list \<Rightarrow> 'a serving" where
  "write_time_interval st v =
     (let (index, data) = v;
          ti = \<lparr>TIWhen = ParseTime48 data, TIInterval = get32 (subslice data 6 10), TIUnits = data ! 10\<rparr>
      in if index > 65535 \<or> data ! 10 > 9 then indicate IINParameterError st
         else
           let (db, ok) = UpdateTimeAndInterval (ucast index) ti (dev_db (snd st))
           in if ok then (fst st, (snd st)\<lparr>dev_db := db\<rparr>) else indicate IINParameterError st)"

definition writeTimeIntervals :: "object_header \<Rightarrow> 'a serving \<Rightarrow> 'a serving" where
  "writeTimeIntervals h st =
     (case eachIndexedValue h 11 of
        None \<Rightarrow> indicate IINParameterError st
      | Some vs \<Rightarrow> foldl write_time_interval st vs)"

definition read_terminal :: "database \<Rightarrow> response_builder \<Rightarrow> nat \<Rightarrow> response_builder" where
  "read_terminal db b i =
     (let v = slice_octets (db_store db) (PValue (db_terminal db ! i))
      in if length v > 0 then rb_add (rangeObjectHeader (112, of_nat (length v)) (of_nat i) (of_nat i) v) b else b)"

definition readTerminals :: "database \<Rightarrow> object_header \<Rightarrow> reading \<Rightarrow> reading" where
  "readTerminals db h st =
     (case forEachPointRun h of
        None \<Rightarrow> (set_iin IINParameterError (fst st), snd st)
      | Some runs \<Rightarrow>
          (fst st,
           foldl (read_terminal db) (snd st)
             (concat (map (\<lambda>run. filter (\<lambda>i. i < length (db_terminal db)) (run_indexes run)) runs))))"

definition writeTerminals :: "'a application \<Rightarrow> object_header \<Rightarrow> 'a serving \<Rightarrow> 'a serving" where
  "writeTerminals ap h st =
     (case TerminalWrite ap of
        None \<Rightarrow> indicate IINNoFuncCodeSupport st
      | Some write \<Rightarrow>
          (case eachIndexedValue h (unat (OVariation h)) of
             None \<Rightarrow> indicate IINParameterError st
           | Some vs \<Rightarrow>
               foldl (\<lambda>st (index, data).
                 if index \<ge> of_int (NVirtualTerminal (Counts (dev_db (snd st)))) then indicate IINParameterError st
                 else
                   case write (ucast index) data (appl (snd st)) of
                     (a, ok) \<Rightarrow>
                       let st = (fst st, (snd st)\<lparr>appl := a\<rparr>) in if ok then st else indicate IINParameterError st) st vs))"

definition readSecurityStatistics :: "(nat \<Rightarrow> u32) option \<Rightarrow> object_header \<Rightarrow> reading \<Rightarrow> reading" where
  "readSecurityStatistics counts h st =
     (case counts of
        None \<Rightarrow> (set_iin IINObjectUnknown (fst st), snd st)
      | Some n \<Rightarrow>
          if OVariation h \<noteq> 1 then (set_iin IINObjectUnknown (fst st), snd st)
          else
            case forEachPointRun h of
              None \<Rightarrow> (set_iin IINParameterError (fst st), snd st)
            | Some runs \<Rightarrow>
                (fst st,
                 foldl (\<lambda>b i. rb_add (rangeObjectHeader (121, 1) (of_nat i) (of_nat i) ([Online, 0, 0] @ put32 (n i))) b) (snd st)
                   (concat (map (\<lambda>run. filter (\<lambda>i. i < 18) (run_indexes run)) runs))))"

end
