(* ===== verification/Outstation_Requests.thy ===== *)
theory Outstation_Requests
  imports Outstation_Services
begin

text \<open>
  The handlers of an outstation's function codes (\<^verbatim>\<open>outstation/session.go\<close>, \<^verbatim>\<open>onManagement\<close> of
  \<^verbatim>\<open>outstation/services.go\<close>) and their table, which closes the dispatch of \<open>Outstation_Session\<close>: reads,
  writes, deadbands, time, restarts, classes, freezes and controls. File transfer and file
  authentication are the argument \<open>files\<close>.
\<close>

section \<open>Reading\<close>

definition pointTypeForGroup :: "byte \<Rightarrow> PointType option" where
  "pointTypeForGroup grp =
     map_of [(1, TypeBinary), (2, TypeBinary), (3, TypeDoubleBitBinary), (4, TypeDoubleBitBinary), (10, TypeBinaryOutputStatus),
       (11, TypeBinaryOutputStatus), (20, TypeCounter), (22, TypeCounter), (21, TypeFrozenCounter), (23, TypeFrozenCounter),
       (31, TypeFrozenAnalog), (33, TypeFrozenAnalog), (87, TypeDataset), (88, TypeDataset), (112, TypeVirtualTerminal),
       (113, TypeVirtualTerminal), (30, TypeAnalog), (32, TypeAnalog), (40, TypeAnalogOutputStatus), (42, TypeAnalogOutputStatus),
       (110, TypeOctetString), (111, TypeOctetString)] grp"

definition isEventGroup :: "byte \<Rightarrow> bool" where
  "isEventGroup grp \<longleftrightarrow> eventTypeForGroup grp \<noteq> None"

definition eventVariationKnown :: "PointType \<Rightarrow> byte \<Rightarrow> bool" where
  "eventVariationKnown pt variation =
     (if pt = TypeDataset then variation = 1
      else if pt = TypeOctetString \<or> pt = TypeVirtualTerminal then False
      else Lookup (eventGroup pt, variation) \<noteq> None)"

definition eventReadLimit :: "object_header \<Rightarrow> int option" where
  "eventReadLimit h =
     (let spec = RSpec (ORange h)
      in if Q_IndexPrefix (OQualifier h) \<noteq> PrefixNone then None
         else if spec = RangeAllObjects then Some 2147483647
         else if spec = RangeCount8 \<or> spec = RangeCount16 \<or> spec = RangeCount32 then Some (uint (RCount (ORange h)))
         else None)"

definition fileObject :: "fragment \<Rightarrow> object_header option" where
  "fileObject frag = List.find (\<lambda>h. OGroup h = 70) (FObjects frag)"

text \<open>The class of a group 60 variation, two to four.\<close>

definition class_of :: "byte \<Rightarrow> event_class" where
  "class_of variation = push_bit (unat (variation - 2)) Class1"

text \<open>What the loop of \<^verbatim>\<open>onRead\<close> gathers: the events selected, and what is built after them.\<close>

type_synonym gathering = "event_value session \<times> db_event list \<times> (reading \<Rightarrow> reading) list"

definition read_events :: "(event_value event_buffer \<Rightarrow> event_value event_buffer \<times> db_event list) \<Rightarrow> gathering \<Rightarrow> gathering" where
  "read_events select st =
     (case st of (s, evs, later) \<Rightarrow> (case select (events s) of (eb, es) \<Rightarrow> (s\<lparr>events := eb\<rparr>, evs @ es, later)))"

definition read_wrong :: "IIN \<Rightarrow> gathering \<Rightarrow> gathering" where
  "read_wrong bits st = (case st of (s, evs, later) \<Rightarrow> (set_iin bits s, evs, later))"

definition read_later :: "(reading \<Rightarrow> reading) \<Rightarrow> gathering \<Rightarrow> gathering" where
  "read_later f st = (case st of (s, evs, later) \<Rightarrow> (s, evs, later @ [f]))"

definition read_class0 :: "database \<Rightarrow> reading \<Rightarrow> reading" where
  "read_class0 db st =
     readDatasets db (ReadAllObjects 87 1) (fst st, foldl (\<lambda>b pt. buildStaticRange db pt 0 0 0xFFFF b) (snd st) staticTypes)"

definition read_points :: "database \<Rightarrow> PointType \<Rightarrow> object_header \<Rightarrow> reading \<Rightarrow> reading" where
  "read_points db pt h st =
     (case forEachPointRun h of
        Some runs \<Rightarrow> (fst st, foldl (\<lambda>b (start, stop). buildStaticRange db pt (OVariation h) start stop b) (snd st) runs)
      | None \<Rightarrow> (fst st, buildStaticRange db pt (OVariation h) 0 0xFFFF (snd st)))"

definition read_event_group :: "database \<Rightarrow> PointType \<Rightarrow> object_header \<Rightarrow> gathering \<Rightarrow> gathering" where
  "read_event_group db pt h st =
     (if OVariation h \<noteq> 0 \<and> \<not> eventVariationKnown pt (OVariation h) then read_wrong IINObjectUnknown st
      else if pt \<in> set staticTypes \<and> typeCount (Counts db) pt = 0 then read_wrong IINObjectUnknown st
      else
        case eventReadLimit h of
          None \<Rightarrow> read_wrong IINParameterError st
        | Some limit \<Rightarrow>
            read_events (\<lambda>eb. case EB_SelectType pt limit eb of (eb, es) \<Rightarrow>
              (eb, if OVariation h \<noteq> 0 \<and> pt \<noteq> TypeOctetString then map (\<lambda>e. e\<lparr>EVariation := OVariation h\<rparr>) es else es)) st)"

definition read_object :: "int \<Rightarrow> int \<Rightarrow> 'a device \<Rightarrow> gathering \<Rightarrow> object_header \<Rightarrow> gathering" where
  "read_object now host d st h =
     (let g = OGroup h; v = OVariation h; db = dev_db d
      in if g = 60 then
           if v = 1 then read_later (read_class0 db) st
           else if 2 \<le> v \<and> v \<le> 4 then
             (case eventReadLimit h of
                None \<Rightarrow> read_wrong IINParameterError st
              | Some limit \<Rightarrow> read_events (EB_Select (class_of v) limit) st)
           else st
         else if isEventGroup g then read_event_group db (the (eventTypeForGroup g)) h st
         else if g = 50 \<and> v = 1 then read_later (readCurrentTime now h) st
         else if g = 80 \<and> v = 1 then read_later (readIIN host h) st
         else if g = 50 \<and> v = 4 then read_later (readTimeIntervals db h) st
         else if 85 \<le> g \<and> g \<le> 87 then read_later (readDatasets db h) st
         else if g = 121 then read_later (readSecurityStatistics (statistics d) h) st
         else if g = 112 then read_later (readTerminals db h) st
         else if g = 50 \<and> v = 3 then
           if recordedTime d = zero_time then read_wrong IINParameterError st
           else read_later (\<lambda>(s, b). (s, rb_add (count_one 50 3 (AppendTime48 [] (Now (recordedTime d)))) b)) st
         else
           case pointTypeForGroup g of
             None \<Rightarrow> read_wrong IINObjectUnknown st
           | Some pt \<Rightarrow>
               if v \<noteq> 0 \<and> pt \<noteq> TypeOctetString \<and> Lookup (staticGroupVar pt v) = None then read_wrong IINObjectUnknown st
               else
                 case st of (s, evs, later) \<Rightarrow>
                   read_later (read_points db pt h) (s\<lparr>siin := checkStaticRead db pt h (siin s)\<rparr>, evs, later))"

text \<open>
  The response to a read: the events first, those that cannot be sent dropped from the buffer,
  and then what else was asked for. It gives the fragments and whether they carry events.
\<close>

definition build_read :: "int \<Rightarrow> int \<Rightarrow> fragment \<Rightarrow> 'a serving \<Rightarrow> event_value session \<times> byte list list \<times> bool" where
  "build_read now host frag st =
     (let s = fst st; d = snd st;
          ctx = \<lparr>Synchronized = synchronized s, CTO = zero_time, HasCTO = False, CTOSynchronized = False\<rparr>;
          b = newResponseBuilder (SMaxTxFragment (scfg s)) ctx
      in case foldl (read_object now host d) (s, [], []) (FObjects frag) of
           (s, evs, later) \<Rightarrow>
             (case (if length evs > 0 then
                      (case buildEvents (dev_db d) (synchronized s) now evs b of
                         (b, unsent) \<Rightarrow> (s\<lparr>events := fst (EB_Discard unsent (events s))\<rparr>, b, length unsent < length evs))
                    else (s, b, False)) of
                (s, b, hasEvents) \<Rightarrow>
                  (case foldl (\<lambda>st f. f st) (s, b) later of (s, b) \<Rightarrow> (s, rb_done b, hasEvents))))"

text \<open>The handlers of this development, and those left to an argument.\<close>

type_synonym ('a, 'w, 'e) serving_handlers = "FuncCode \<Rightarrow> received \<Rightarrow> fragment \<Rightarrow> 'a serving \<Rightarrow> 'w \<Rightarrow> ('a, 'w, 'e) served"

definition onRead ::
    "(event_value, 'w, 'e) env \<Rightarrow> 'a application \<Rightarrow> ('a, 'w, 'e) serving_handlers \<Rightarrow> received \<Rightarrow> fragment \<Rightarrow> 'a serving \<Rightarrow> 'w \<Rightarrow>
     ('a, 'w, 'e) served" where
  "onRead env ap files r frag st w =
     (case fileObject frag of
        Some h \<Rightarrow> files FuncRead r frag st w
      | None \<Rightarrow>
          (case attributeHeader frag of
             Some h \<Rightarrow> onAttributeRead env ap r frag h st w
           | None \<Rightarrow>
               (case build_read (appNow env) (hostNow env) frag st of
                  (s, bodies, hasEvents) \<Rightarrow> answer env r frag bodies hasEvents (s, snd st) w)))"

section \<open>Writing\<close>

definition timeWriteData :: "object_header \<Rightarrow> byte list option" where
  "timeWriteData h =
     (let skip = Prefix_Octets (Q_IndexPrefix (OQualifier h))
      in if length (OData h) < skip + Time48Size then None else Some (subslice (OData h) skip (skip + Time48Size)))"

definition decodeDeadband :: "byte \<Rightarrow> byte list \<Rightarrow> f64" where
  "decodeDeadband variation buf =
     (if variation = 1 then f64_of_int (uint (get16 buf))
      else if variation = 2 then f64_of_int (uint (get32 buf))
      else if variation = 3 then f64_of_f32 (get32 buf)
      else 0)"

definition write_deadband :: "u64 \<Rightarrow> f64 \<Rightarrow> 'a serving \<Rightarrow> 'a serving" where
  "write_deadband wide v st =
     (if wide > 0xFFFF then indicate IINParameterError st
      else
        case DB_Analog (dev_db (snd st)) (ucast wide) of
          (x, pc, exists) \<Rightarrow>
            if \<not> exists then indicate IINParameterError st
            else (fst st, (snd st)\<lparr>dev_db := fst (Configure TypeAnalog (ucast wide) (pc\<lparr>Deadband := v\<rparr>) (dev_db (snd st)))\<rparr>))"

text \<open>The loop of \<^verbatim>\<open>writeDeadbands\<close>: \<open>k\<close> rounds to go, the next being round \<open>i\<close> at octet \<open>off\<close>.\<close>

fun deadband_loop :: "object_header \<Rightarrow> nat \<Rightarrow> nat \<Rightarrow> nat \<Rightarrow> nat \<Rightarrow> nat \<Rightarrow> 'a serving \<Rightarrow> 'a serving" where
  "deadband_loop h sz prefixLen 0 i off st = st"
| "deadband_loop h sz prefixLen (Suc k) i off st =
     (if off + prefixLen + sz > length (OData h) then indicate IINParameterError st
      else
        let wide = (if prefixLen > 0 then ucast (readPrefix (drop off (OData h)) prefixLen) else ucast (IndexOf (ORange h) (of_nat i)));
            off = off + prefixLen
        in deadband_loop h sz prefixLen k (i + 1) (off + sz)
             (write_deadband wide (decodeDeadband (OVariation h) (subslice (OData h) off (off + sz))) st))"

definition writeDeadbands :: "object_header \<Rightarrow> 'a serving \<Rightarrow> 'a serving" where
  "writeDeadbands h st =
     (case Lookup (OGroup h, OVariation h) of
        None \<Rightarrow> indicate IINObjectUnknown st
      | Some d \<Rightarrow>
          (case SizeOctets d of (sz, ok) \<Rightarrow>
             if \<not> ok \<or> sz = 0 then indicate IINObjectUnknown st
             else
               let p = Q_IndexPrefix (OQualifier h)
               in deadband_loop h (nat sz) (if IsIndex p then Prefix_Octets p else 0) (unat (O_Count h)) 0 0 st))"

text \<open>Setting the clock, the answer of the application deciding whether it was set.\<close>

definition write_clock :: "int \<Rightarrow> 'a application \<Rightarrow> int \<Rightarrow> 'a serving \<Rightarrow> 'a serving \<times> bool" where
  "write_clock host ap t st =
     (case WriteAbsoluteTime ap t (appl (snd st)) of
        (a, ok) \<Rightarrow>
          let st = (fst st, (snd st)\<lparr>appl := a\<rparr>)
          in if ok then ((clockSet host (fst st), snd st), True) else (indicate IINParameterError st, False))"

definition write_time :: "int \<Rightarrow> 'a application \<Rightarrow> object_header \<Rightarrow> 'a serving \<Rightarrow> 'a serving" where
  "write_time host ap h st =
     (if \<not> SupportsWriteTime ap (appl (snd st)) then indicate IINNoFuncCodeSupport st
      else
        case timeWriteData h of
          None \<Rightarrow> indicate IINParameterError st
        | Some data \<Rightarrow> fst (write_clock host ap (TTime (ParseTime48 data)) st))"

definition write_recorded_time :: "int \<Rightarrow> int \<Rightarrow> 'a application \<Rightarrow> object_header \<Rightarrow> 'a serving \<Rightarrow> 'a serving" where
  "write_recorded_time now host ap h st =
     (if \<not> SupportsWriteTime ap (appl (snd st)) then indicate IINNoFuncCodeSupport st
      else if recordedTime (snd st) = zero_time then indicate IINParameterError st
      else
        case timeWriteData h of
          None \<Rightarrow> indicate IINParameterError st
        | Some data \<Rightarrow>
            let elapsed = duration_between now (recordedTime (snd st))
            in case write_clock host ap (TTime (ParseTime48 data) + elapsed) st of
                 (st, True) \<Rightarrow> (fst st, (snd st)\<lparr>recordedTime := zero_time\<rparr>)
               | (st, False) \<Rightarrow> st)"

definition write_object :: "int \<Rightarrow> int \<Rightarrow> 'a application \<Rightarrow> 'a serving \<Rightarrow> object_header \<Rightarrow> 'a serving" where
  "write_object now host ap st h =
     (let g = OGroup h; v = OVariation h
      in if 85 \<le> g \<and> g \<le> 87 then writeDatasets ap h st
         else if g = 0 then writeAttribute ap h st
         else if g = 50 \<and> v = 4 then writeTimeIntervals h st
         else if g = 112 then writeTerminals ap h st
         else if g = 80 \<and> v = 1 then ((fst st)\<lparr>siin := IIN_Clear (siin (fst st)) IINDeviceRestart\<rparr>, snd st)
         else if g = 50 \<and> v = 3 then write_recorded_time now host ap h st
         else if g = 50 \<and> v = 1 then write_time host ap h st
         else if g = 34 then writeDeadbands h st
         else indicate IINObjectUnknown st)"

text \<open>A null response, unless the request was broadcast.\<close>

definition acknowledge :: "(event_value, 'w, 'e) env \<Rightarrow> received \<Rightarrow> fragment \<Rightarrow> 'a serving \<Rightarrow> 'w \<Rightarrow> ('a, 'w, 'e) served" where
  "acknowledge env r frag st w = (if RBroadcast r then (st, w, None) else answer env r frag [[]] False st w)"

definition onWrite ::
    "(event_value, 'w, 'e) env \<Rightarrow> 'a application \<Rightarrow> ('a, 'w, 'e) serving_handlers \<Rightarrow> received \<Rightarrow> fragment \<Rightarrow> 'a serving \<Rightarrow> 'w \<Rightarrow>
     ('a, 'w, 'e) served" where
  "onWrite env ap files r frag st w =
     (case fileObject frag of
        Some h \<Rightarrow> files FuncWrite r frag st w
      | None \<Rightarrow> acknowledge env r frag (foldl (write_object (appNow env) (hostNow env) ap) st (FObjects frag)) w)"

section \<open>Time, restarts, classes and management\<close>

definition onDelayMeasure :: "(event_value, 'w, 'e) env \<Rightarrow> received \<Rightarrow> fragment \<Rightarrow> 'a serving \<Rightarrow> 'w \<Rightarrow> ('a, 'w, 'e) served" where
  "onDelayMeasure env r frag st w = answer env r frag [AppendObjectHeader [] (count_one 52 2 [0, 0])] False st w"

definition onRecordCurrentTime :: "(event_value, 'w, 'e) env \<Rightarrow> received \<Rightarrow> fragment \<Rightarrow> 'a serving \<Rightarrow> 'w \<Rightarrow> ('a, 'w, 'e) served" where
  "onRecordCurrentTime env r frag st w = acknowledge env r frag (fst st, (snd st)\<lparr>recordedTime := appNow env\<rparr>) w"

definition onRestart ::
    "(event_value, 'w, 'e) env \<Rightarrow> 'a application \<Rightarrow> received \<Rightarrow> fragment \<Rightarrow> 'a serving \<Rightarrow> 'w \<Rightarrow> ('a, 'w, 'e) served" where
  "onRestart env ap r frag st w =
     (let s = fst st; d = snd st; cold = (AFunc (FHeader frag) = FuncColdRestart)
      in if (case RestartSupport ap of Some rs \<Rightarrow> \<not> (if cold then snd (rs (appl d)) else fst (rs (appl d))) | None \<Rightarrow> False)
         then acknowledge env r frag (indicate IINNoFuncCodeSupport st) w
         else
           case (if appNow env < restartUntil d
                 then (duration_between (restartUntil d) (appNow env), indicate IINAlreadyExecuting st)
                 else
                   let (a, delay) = (if cold then ColdRestart ap (appl d) else WarmRestart ap (appl d));
                       s = (if cold then s\<lparr>events := EB_Reset (events s)\<rparr> else s);
                       d = d\<lparr>appl := a, restartUntil := (if delay > 0 then appNow env + delay else restartUntil d)\<rparr>
                   in (delay, ((set_iin IINDeviceRestart s)\<lparr>synchronized := False\<rparr>, d))) of
             (delay, st) \<Rightarrow>
               let ms = min (Milliseconds delay) 0xFFFF
               in if RBroadcast r then (st, w, None)
                  else answer env r frag [AppendObjectHeader [] (count_one 52 2 [of_int ms, of_int (ms div 256)])] False st w)"

definition assign_object :: "event_class \<times> 'a serving \<Rightarrow> object_header \<Rightarrow> event_class \<times> 'a serving" where
  "assign_object acc h =
     (case acc of (cls, st) \<Rightarrow>
        if OGroup h = 60 then
          (if OVariation h = 1 then ClassNone
           else if 2 \<le> OVariation h \<and> OVariation h \<le> 4 then class_of (OVariation h)
           else cls, st)
        else
          case pointTypeForGroup (OGroup h) of
            None \<Rightarrow> (cls, indicate IINObjectUnknown st)
          | Some pt \<Rightarrow>
              (cls, case forEachPointRun h of
                 Some runs \<Rightarrow> on_db (fold (\<lambda>(start, stop). assignClassRange pt cls start stop) runs) st
               | None \<Rightarrow> indicate IINParameterError st))"

definition onAssignClass :: "(event_value, 'w, 'e) env \<Rightarrow> received \<Rightarrow> fragment \<Rightarrow> 'a serving \<Rightarrow> 'w \<Rightarrow> ('a, 'w, 'e) served" where
  "onAssignClass env r frag st w = acknowledge env r frag (snd (foldl assign_object (ClassNone, st) (FObjects frag))) w"

text \<open>The names of the configuration to activate, or nothing when an object is wrong.\<close>

fun activation_names :: "object_header list \<Rightarrow> byte list list option" where
  "activation_names [] = Some []"
| "activation_names (h # hs) =
     (if OGroup h \<noteq> 70 \<or> OVariation h \<noteq> 8 \<or> OQualifier h \<noteq> FreeFormatQualifier then None
      else
        case FreeFormatObjects h of
          Inl e \<Rightarrow> None
        | Inr vs \<Rightarrow> if [] \<in> set vs then None else map_option ((@) vs) (activation_names hs))"

definition onManagement ::
    "(event_value, 'w, 'e) env \<Rightarrow> 'a application \<Rightarrow> received \<Rightarrow> fragment \<Rightarrow> 'a serving \<Rightarrow> 'w \<Rightarrow> ('a, 'w, 'e) served" where
  "onManagement env ap r frag st w =
     (let d = snd st; refused = (\<lambda>st. answer env r frag [[]] False (indicate IINParameterError st) w)
      in case (if AFunc (FHeader frag) = FuncActivateConfig then ActivateConfig ap else None) of
           Some activate \<Rightarrow>
             (case activation_names (FObjects frag) of
                None \<Rightarrow> refused st
              | Some names \<Rightarrow>
                  if length names = 0 then refused st
                  else
                    case activate names (appl d) of
                      (a, result) \<Rightarrow>
                        let st = (fst st, d\<lparr>appl := a\<rparr>)
                        in (case AppendActivationResult [] result of
                              Inl e \<Rightarrow> refused st
                            | Inr v \<Rightarrow>
                                let h = count_one 91 1 v
                                in if int (O_Size h) + int ResponseHeaderSize > SMaxTxFragment (scfg (fst st)) then refused st
                                   else answer env r frag [AppendObjectHeader [] h] False st w))
         | None \<Rightarrow>
             let st = (case Manage ap of
                         None \<Rightarrow> indicate IINNoFuncCodeSupport st
                       | Some manage \<Rightarrow>
                           (case manage (AFunc (FHeader frag)) (drop (AHeader_Size (FHeader frag)) (FRaw frag)) (appl d) of
                              (a, ok) \<Rightarrow>
                                let st = (fst st, d\<lparr>appl := a\<rparr>) in if ok then st else indicate IINParameterError st))
             in acknowledge env r frag st w)"

section \<open>Controls\<close>

text \<open>A command event reaches the buffer through the database.\<close>

fun raise_command_event :: "int \<Rightarrow> command_event \<Rightarrow> database \<Rightarrow> database" where
  "raise_command_event now (BinaryCommand index state status) = RaiseBinaryCommandEvent index state status now"
| "raise_command_event now (AnalogCommand index v variation status) = RaiseAnalogCommandEvent index v variation status now"

text \<open>
  The control handler of \<open>Outstation_Command\<close> on the session: it shares the indications, its plant
  is the application, and the number of outputs is that of the database.
\<close>

definition serve_command ::
    "(event_value, 'w, 'e) env \<Rightarrow> 'a application \<Rightarrow> received \<Rightarrow> fragment \<Rightarrow> 'a serving \<Rightarrow> 'w \<Rightarrow> ('a, 'w, 'e) served" where
  "serve_command env ap r frag st w =
     (let s = fst st; d = snd st; n = Counts (dev_db d);
          cc = (CommandLimits ap)\<lparr>BinaryOutputs := nat (NBinaryOutputStatus n), AnalogOutputs := nat (NAnalogOutputStatus n)\<rparr>
      in case onCommand (Commands ap) cc (RBroadcast r) frag (appNow env)
                \<lparr>c_iin = siin s, c_sel = selected d, c_plant = appl d, c_raised = []\<rparr> of
           (c, body) \<Rightarrow>
             let st = on_db (fold (raise_command_event (appNow env)) (c_raised c))
                        (s\<lparr>siin := c_iin c\<rparr>, d\<lparr>selected := c_sel c, appl := c_plant c\<rparr>)
             in (case body of None \<Rightarrow> (st, w, None) | Some body \<Rightarrow> answer env r frag [body] False st w))"

section \<open>The table of handlers\<close>

definition serve_function ::
    "(event_value, 'w, 'e) env \<Rightarrow> 'a application \<Rightarrow> ('a, 'w, 'e) serving_handlers \<Rightarrow> ('a, 'w, 'e) serving_handlers" where
  "serve_function env ap files fc r frag st w =
     (if fc = FuncRead then onRead env ap files r frag st w
      else if fc = FuncWrite then onWrite env ap files r frag st w
      else if fc = FuncDelayMeasure then onDelayMeasure env r frag st w
      else if fc = FuncRecordCurrentTime then onRecordCurrentTime env r frag st w
      else if fc \<in> {FuncInitializeData, FuncInitializeAppl, FuncStartAppl, FuncStopAppl, FuncSaveConfig, FuncActivateConfig}
        then onManagement env ap r frag st w
      else if fc = FuncColdRestart \<or> fc = FuncWarmRestart then onRestart env ap r frag st w
      else if fc = FuncAssignClass then onAssignClass env r frag st w
      else if fc \<in> {FuncSelect, FuncOperate, FuncDirectOperate, FuncDirectOperateNR} then serve_command env ap r frag st w
      else if fc \<in> {FuncImmedFreeze, FuncImmedFreezeNR, FuncFreezeClear, FuncFreezeClearNR} then
        let st = onFreeze (appNow env) frag (fc = FuncFreezeClear \<or> fc = FuncFreezeClearNR) st
        in if NoReply fc \<or> RBroadcast r then (st, w, None) else answer env r frag [[]] False st w
      else if fc \<in> {FuncFreezeAtTime, FuncFreezeAtTimeNR} then
        let st = onFreezeAtTime (appNow env) frag st
        in if NoReply fc \<or> RBroadcast r then (st, w, None) else answer env r frag [[]] False st w
      else files fc r frag st w)"

text \<open>
  The dispatch of \<open>Outstation_Session\<close> knows the session only. The rest of the outstation travels
  with the world of its connection, which the connection leaves alone.
\<close>

definition beside :: "('w, 'e) writer \<Rightarrow> ('w \<times> 'd, 'e) writer" where
  "beside io =
     \<lparr>w_write = (\<lambda>out (w, d). case w_write io out w of (w, e) \<Rightarrow> ((w, d), e)),
      w_message = map_option (\<lambda>(start, finish).
        (\<lambda>(w, d). (start w, d), \<lambda>(w, d). case finish w of (w, e) \<Rightarrow> ((w, d), e))) (w_message io)\<rparr>"

definition env_beside :: "(event_value, 'w, 'e) env \<Rightarrow> (event_value, 'w \<times> 'd, 'e) env" where
  "env_beside env = \<lparr>conn = beside (conn env), build = build env, appNow = appNow env, hostNow = hostNow env\<rparr>"

definition serve_handlers ::
    "(event_value, 'w, 'e) env \<Rightarrow> 'a application \<Rightarrow> ('a, 'w, 'e) serving_handlers \<Rightarrow> (event_value, 'w \<times> 'a device, 'e) handlers" where
  "serve_handlers env ap files fc r frag s w =
     (case serve_function env ap files fc r frag (s, snd w) (fst w) of ((s, d), w, e) \<Rightarrow> (s, (w, d), e))"

definition serve_request ::
    "(event_value, 'w, 'e) env \<Rightarrow> 'a application \<Rightarrow> ('a, 'w, 'e) serving_handlers \<Rightarrow> received \<Rightarrow> 'a serving \<Rightarrow> 'w \<Rightarrow>
     ('a, 'w, 'e) served" where
  "serve_request env ap files r st w =
     (case handle (env_beside env) (serve_handlers env ap files) r (fst st) (w, snd st) of (s, (w, d), e) \<Rightarrow> ((s, d), w, e))"

section \<open>The session's life\<close>

text \<open>The configuration of an outstation, and the outstation it starts as, not yet connected.\<close>

record station_config =
  CSession :: session_config
  CStack :: stack_config
  CEvents :: int
  CDatabase :: database_config
  CDisableAttributes :: bool
  CAttributes :: "attribute list"
  CDatasets :: "(byte \<times> byte \<times> u16 \<times> byte list) list"
  CIndications :: IIN
  CSecure :: bool

definition settableIndications :: IIN where
  "settableIndications = IINLocalControl OR IINDeviceTrouble OR IINConfigCorrupt"

definition NewOutstation :: "station_config \<Rightarrow> 'a \<Rightarrow> 'a serving" where
  "NewOutstation c a =
     (let sc = Session_applyDefaults (CSession c);
          maxRx = (if MaxRxFragment (CStack c) \<le> 0 then int AppMaxFragment else MaxRxFragment (CStack c));
          s = \<lparr>scfg = sc, sstack = New ((CStack c)\<lparr>MaxRxFragment := maxRx\<rparr>), events = NewEventBuffer (CEvents c),
               siin = IINDeviceRestart, indications = ucast (CIndications c AND settableIndications), synchronized = False,
               syncedAt = zero_time, unsolClasses = 0, awaitingConfirm = False, confirmSeq = 0, confirmDeadline = zero_time,
               pendingBodies = [], pendingIndex = 0, pendingDest = 0, pendingSeq = 0, pendingHasEvents = False,
               lastReqValid = False, lastReqSource = 0, lastReqSeq = 0, lastReqFrag = [], lastRespBodies = [],
               lastRespEvents = False, lastRespErrors = 0, unsol = unsol_reset, connected = False, broadcastConfirm = False,
               deferredRead = None, linkDeadline = zero_time, stats = (\<lambda>_. 0)\<rparr>;
          d = \<lparr>dev_db = NewDatabase (CDatabase c) (Some (NewEventBuffer (CEvents c))), recordedTime = zero_time, restartUntil = zero_time,
               restartPending = False, freezes = [],
               attributes = buildAttributes (CDisableAttributes c) (CDatabase c) (SMaxTxFragment sc) maxRx (CAttributes c),
               selected = \<lparr>sel_active = False, sel_objects = [], sel_seq = 0, sel_expires = zero_time\<rparr>,
               statistics = (if CSecure c then Some (\<lambda>_. 0) else None), ScheduledFreezes = 0, AttributesRead = 0, appl = a\<rparr>
      in foldl (\<lambda>st (grp, variation, index, data).
           case UpdateDataset grp variation index data ClassNone (dev_db (snd st)) of
             (db, e) \<Rightarrow>
               let st = (fst st, (snd st)\<lparr>dev_db := db\<rparr>) in if e = None then st else indicate IINConfigCorrupt st) (s, d) (CDatasets c))"

definition SetIndication :: "IIN \<Rightarrow> bool \<Rightarrow> event_value session \<Rightarrow> event_value session" where
  "SetIndication ind on s =
     (let ind = ucast (ind AND settableIndications)
      in s\<lparr>indications := (if on then indications s OR ind else indications s AND NOT ind)\<rparr>)"

definition Session_Restart :: "'a serving \<Rightarrow> 'a serving" where
  "Session_Restart st = ((fst st)\<lparr>events := EB_Reset (events (fst st))\<rparr>, (snd st)\<lparr>restartPending := True\<rparr>)"

definition applyRestart :: "'a serving \<Rightarrow> 'a serving" where
  "applyRestart st =
     (if \<not> restartPending (snd st) then st
      else ((set_iin IINDeviceRestart (fst st))\<lparr>synchronized := False, unsol := unsol_reset\<rparr>, (snd st)\<lparr>restartPending := False\<rparr>))"

text \<open>The encoding of events that unsolicited responses use, which \<open>Outstation_Session\<close> leaves open.\<close>

definition with_encoder :: "(event_value, 'w, 'e) env \<Rightarrow> 'a serving \<Rightarrow> (event_value, 'w, 'e) env" where
  "with_encoder env st =
     env\<lparr>build := (\<lambda>synced evs.
       case buildEvents (dev_db (snd st)) synced (appNow env) evs
              (newResponseBuilder (SMaxTxFragment (scfg (fst st)))
                 \<lparr>Synchronized = synced, CTO = zero_time, HasCTO = False, CTOSynchronized = False\<rparr>) of
         (b, unsent) \<Rightarrow> (rb_done b, unsent))\<rparr>"

text \<open>
  The ticker of \<^verbatim>\<open>serve\<close>. The timeouts of file transfer and of secure authentication are arguments.
\<close>

definition serve_tick ::
    "(event_value, 'w, 'e) env \<Rightarrow> 'a application \<Rightarrow> ('a, 'w, 'e) serving_handlers \<Rightarrow> ('a serving \<Rightarrow> 'a serving) \<Rightarrow> ('a serving \<Rightarrow> 'a serving) \<Rightarrow>
     'a serving \<Rightarrow> 'w \<Rightarrow> ('a, 'w, 'e) served" where
  "serve_tick env ap files checkFileTimeout expireSecurity st w =
     (case checkLinkTimeout env (fst st) w of
        (s, w) \<Rightarrow>
          let st = checkFileTimeout (checkConfirmTimeout (hostNow env) s, snd st);
              st = runFreezes (appNow env) (fst (clockDue (hostNow env) (fst st)), snd st);
              st = expireSecurity st
          in case pollUnsolicited (with_encoder env st) (fst st) w of
               (s, w, Some e) \<Rightarrow> ((s, snd st), w, Some e)
             | (s, w, None) \<Rightarrow>
                 (case resumeDeferredRead (env_beside env) (serve_handlers env ap files) s (w, snd st) of
                    (s, (w, d), e) \<Rightarrow> ((s, d), w, e)))"

end
