(* ===== verification/Outstation_Poll.thy ===== *)
theory Outstation_Poll
  imports Outstation_Requests Outstation_Safety
begin

text \<open>
  What the answer to an integrity poll carries: a read of classes 1, 2, 3 and 0, with which a
  master brings its picture of the outstation up to date. The events come first and the static
  data, which is newer, after them. And what becomes of the events of a read that was broadcast.
\<close>

section \<open>The events a poll selects\<close>

text \<open>The pending events, class by class; one of several classes counts with the first.\<close>

definition poll_events :: "'v event list \<Rightarrow> 'v event list" where
  "poll_events es =
     (let pending = filter (\<lambda>e. \<not> ESelected e) es; of_class = (\<lambda>c e. EClass e AND c \<noteq> 0)
      in map (\<lambda>e. e\<lparr>ESelected := True\<rparr>)
           (filter (of_class Class1) pending @ filter (\<lambda>e. \<not> of_class Class1 e \<and> of_class Class2 e) pending @
            filter (\<lambda>e. \<not> of_class Class1 e \<and> \<not> of_class Class2 e \<and> of_class Class3 e) pending))"

lemma select_loop_all:
  "length es \<le> room \<Longrightarrow> select_loop room P es =
     (map (\<lambda>e. if \<not> ESelected e \<and> P e then e\<lparr>ESelected := True\<rparr> else e) es,
      map (\<lambda>e. e\<lparr>ESelected := True\<rparr>) (filter (\<lambda>e. \<not> ESelected e \<and> P e) es))"
  by (induction room P es rule: select_loop.induct) (auto simp: Let_def)

lemma EB_Select_all:
  assumes "int (length (EBEvents b)) \<le> limit" "0 < limit"
  shows "EB_Select c limit b =
     (b\<lparr>EBDropsAtSelect := EBDrops b,
        EBEvents := map (\<lambda>e. if \<not> ESelected e \<and> EClass e AND c \<noteq> 0 then e\<lparr>ESelected := True\<rparr> else e) (EBEvents b)\<rparr>,
      map (\<lambda>e. e\<lparr>ESelected := True\<rparr>) (filter (\<lambda>e. \<not> ESelected e \<and> EClass e AND c \<noteq> 0) (EBEvents b)))"
  using assms by (simp add: EB_Select_def selectWhere_def select_loop_all Let_def)

section \<open>Everything static\<close>

text \<open>
  Points that can be reported: no more than there are indexes, each in a variation the
  specification describes, a string at its own length.
\<close>

definition reportable_points :: "database \<Rightarrow> PointType \<Rightarrow> bool" where
  "reportable_points db pt \<longleftrightarrow> 0 \<le> typeCount (Counts db) pt \<and> typeCount (Counts db) pt \<le> 65536 \<and>
     (\<forall>i \<in> {0..<nat (typeCount (Counts db) pt)}.
        if pt = TypeOctetString then \<exists>len. string_length db i = Some len \<and> len \<le> 255
        else \<exists>v. reportVariation db pt 0 (of_nat i) = Some v \<and> static_variation pt v)"

text \<open>The headers that report every point of a type once, in order.\<close>

definition reports_type :: "database \<Rightarrow> decode_context \<Rightarrow> PointType \<Rightarrow> object_header list \<Rightarrow> bool" where
  "reports_type db ctx pt hs \<longleftrightarrow>
     (if pt = TypeOctetString
      then \<exists>runs. strings_range db 0 (nat (typeCount (Counts db) pt)) runs \<and> hs = map (string_header db) runs
      else \<exists>runs. reports_range db pt 0 0 (nat (typeCount (Counts db) pt)) runs \<and> hs = map (static_header db pt ctx) runs)"

lemma buildStaticRange_type:
  assumes "pt \<in> set staticTypes" "reportable_points db pt" "276 \<le> rb_max b"
  shows "\<exists>hs. reports_type db (rb_ctx b) pt hs \<and> rb_extends b hs (buildStaticRange db pt 0 0 0xFFFF b)"
proof (cases "typeCount (Counts db) pt = 0")
  case True
  then show ?thesis
    by (intro exI [of _ "[]"]) (auto simp: buildStaticRange_def reports_type_def strings_range_def reports_range_def)
next
  case False
  let ?n = "nat (typeCount (Counts db) pt)"
  have n: "0 < typeCount (Counts db) pt" "typeCount (Counts db) pt \<le> 65536" using assms(2) False by (auto simp: reportable_points_def)
  then have m: "min (unat (0xFFFF :: u16)) (nat (typeCount (Counts db) pt - 1)) + 1 = ?n" by simp
  have i: "i \<in> {unat (0 :: u16)..min (unat (0xFFFF :: u16)) (nat (typeCount (Counts db) pt - 1))} \<longleftrightarrow> i < ?n" for i
    using n by auto
  show ?thesis
  proof (cases "pt = TypeOctetString")
    case True
    then show ?thesis
      using buildStaticRange_strings [of db 0 "0xFFFF" b 0] n assms(2,3) m i by (auto simp: reports_type_def reportable_points_def)
  next
    case pt: False
    then show ?thesis
      using buildStaticRange_reports [of pt db 0 "0xFFFF" b 0] n assms m i by (auto simp: reports_type_def reportable_points_def)
  qed
qed

lemma static_types_extend:
  assumes "set pts \<subseteq> set staticTypes" "\<forall>pt \<in> set pts. reportable_points db pt" "276 \<le> rb_max b"
  shows "\<exists>hss. list_all2 (reports_type db (rb_ctx b)) pts hss \<and>
    rb_extends b (concat hss) (foldl (\<lambda>b pt. buildStaticRange db pt 0 0 0xFFFF b) b pts)"
  using assms
proof (induction pts arbitrary: b)
  case (Cons pt pts)
  obtain hs where h: "reports_type db (rb_ctx b) pt hs" "rb_extends b hs (buildStaticRange db pt 0 0 0xFFFF b)"
    using buildStaticRange_type [of pt db b] Cons.prems by auto
  let ?b = "buildStaticRange db pt 0 0 0xFFFF b"
  obtain hss where "list_all2 (reports_type db (rb_ctx b)) pts hss" "rb_extends ?b (concat hss) (foldl (\<lambda>b pt. buildStaticRange db pt 0 0 0xFFFF b) ?b pts)"
    using Cons.IH [of ?b] Cons.prems rb_extends_sel [OF h(2)] by auto
  then show ?case using h rb_extends_trans [OF h(2)] by (intro exI [of _ "hs # hss"]) simp
qed simp

section \<open>Data sets\<close>

text \<open>The present values that fit a response, in order of their indexes.\<close>

definition dataset_headers :: "database \<Rightarrow> int \<Rightarrow> nat list \<Rightarrow> object_header list" where
  "dataset_headers db mx is =
     filter (\<lambda>h. int (O_Size h) + int ResponseHeaderSize \<le> mx)
       (concat (map (\<lambda>i. case map_of (db_datasets db) (87, 1, of_nat i) of
           Some v \<Rightarrow> (case FreeFormat 87 1 v of Inr h \<Rightarrow> [h] | Inl e \<Rightarrow> []) | None \<Rightarrow> []) is))"

definition reportable_datasets :: "database \<Rightarrow> bool" where
  "reportable_datasets db \<longleftrightarrow> (\<forall>(key, v) \<in> set (db_datasets db). length v \<le> MaxFreeFormatObject)"

lemma read_dataset_extends:
  assumes "reportable_datasets db" "SMaxTxFragment (scfg s) = rb_max b"
  shows "\<exists>s' b'. read_dataset db 87 1 (s, b) i = (s', b') \<and> scfg s' = scfg s \<and> rb_extends b (dataset_headers db (rb_max b) [i]) b'"
proof (cases "map_of (db_datasets db) (87, 1, of_nat i)")
  case None
  then show ?thesis by (simp add: read_dataset_def dataset_headers_def)
next
  case (Some v)
  have "length v \<le> 0xFFFF" using map_of_SomeD [OF Some] assms(1) by (auto simp: reportable_datasets_def)
  then obtain h where h: "FreeFormat 87 1 v = Inr h" by (simp add: FreeFormat_def Let_def)
  show ?thesis
  proof (cases "int (O_Size h) + int ResponseHeaderSize \<le> rb_max b")
    case True
    then have "rb_extends b [h] (rb_add h b)" using dataset_sendable [OF h] by (intro rb_extends_add) simp_all
    then show ?thesis using Some h True assms(2) by (simp add: read_dataset_def dataset_headers_def Let_def)
  next
    case False
    then show ?thesis using Some h assms(2) by (simp add: read_dataset_def dataset_headers_def set_iin_def Let_def)
  qed
qed

lemma read_datasets_extend:
  "reportable_datasets db \<Longrightarrow> SMaxTxFragment (scfg s) = rb_max b \<Longrightarrow>
   \<exists>s' b'. foldl (read_dataset db 87 1) (s, b) is = (s', b') \<and> rb_extends b (dataset_headers db (rb_max b) is) b'"
proof (induction "is" arbitrary: s b)
  case (Cons i "is")
  obtain s1 b1 where 1: "read_dataset db 87 1 (s, b) i = (s1, b1)" "scfg s1 = scfg s" "rb_extends b (dataset_headers db (rb_max b) [i]) b1"
    using read_dataset_extends [OF Cons.prems] by blast
  have mx: "rb_max b1 = rb_max b" using rb_extends_sel [OF 1(3)] by simp
  then obtain s2 b2 where 2: "foldl (read_dataset db 87 1) (s1, b1) is = (s2, b2)" "rb_extends b1 (dataset_headers db (rb_max b) is) b2"
    using Cons.IH [of s1 b1] Cons.prems 1(2) by auto
  have "dataset_headers db (rb_max b) (i # is) = dataset_headers db (rb_max b) [i] @ dataset_headers db (rb_max b) is"
    by (simp add: dataset_headers_def)
  then show ?case using 1 2 rb_extends_trans [OF 1(3) 2(2)] by simp
qed (simp add: dataset_headers_def)

section \<open>The integrity poll\<close>

lemma class_read:
  assumes "int (length (EBEvents (events s))) \<le> 2147483647" "2 \<le> v" "v \<le> 4"
  shows "read_object now host d (s, evs, later) (ReadAllObjects 60 v) =
    (s\<lparr>events := fst (EB_Select (class_of v) 2147483647 (events s))\<rparr>,
     evs @ map (\<lambda>e. e\<lparr>ESelected := True\<rparr>) (filter (\<lambda>e. \<not> ESelected e \<and> EClass e AND class_of v \<noteq> 0) (EBEvents (events s))), later)"
proof -
  have "v \<noteq> 1" using assms(2) by (auto simp: word_le_nat_alt)
  moreover have "eventReadLimit (ReadAllObjects 60 v) = Some 2147483647"
    by (simp add: eventReadLimit_def ReadAllObjects_def Let_def MakeQualifier_def Q_IndexPrefix_def)
  ultimately show ?thesis using assms EB_Select_all [OF assms(1), of "class_of v"]
    by (simp add: read_object_def Let_def read_events_def ReadAllObjects_def)
qed

lemma class0_read: "read_object now host d (s, evs, later) (ReadAllObjects 60 1) = (s, evs, later @ [read_class0 (dev_db d)])"
  by (simp add: read_object_def Let_def read_later_def ReadAllObjects_def)

lemma class_of_simps [simp]: "class_of 2 = Class1" "class_of 3 = Class2" "class_of 4 = Class3"
  by (simp_all add: class_of_def)

lemma poll_gathers:
  assumes "int (length (EBEvents (events s))) \<le> 2147483647"
  shows "\<exists>eb. foldl (read_object now host d) (s, [], []) (map (ReadAllObjects 60) [2, 3, 4, 1]) =
    (s\<lparr>events := eb\<rparr>, poll_events (EBEvents (events s)), [read_class0 (dev_db d)])"
proof -
  let ?sel = "\<lambda>c b. fst (EB_Select c 2147483647 b)"
  have one: "EBEvents (?sel c b) = map (\<lambda>e. if \<not> ESelected e \<and> EClass e AND c \<noteq> 0 then e\<lparr>ESelected := True\<rparr> else e) (EBEvents b)"
    if "int (length (EBEvents b)) \<le> 2147483647" for c and b :: "event_value event_buffer"
    using that by (simp add: EB_Select_all)
  have len: "int (length (EBEvents (?sel Class1 (events s)))) \<le> 2147483647"
      "int (length (EBEvents (?sel Class2 (?sel Class1 (events s))))) \<le> 2147483647"
    using assms by (simp_all add: one)
  have "foldl (read_object now host d) (s, [], []) (map (ReadAllObjects 60) [2, 3, 4, 1]) =
    (s\<lparr>events := ?sel Class3 (?sel Class2 (?sel Class1 (events s)))\<rparr>, poll_events (EBEvents (events s)), [read_class0 (dev_db d)])"
    using assms len by (simp add: class_read class0_read)
       (simp add: one poll_events_def Let_def filter_map comp_def conj_commute conj_left_commute,
        intro arg_cong2 [where f = "(@)"] map_cong filter_cong, auto)
  then show ?thesis by blast
qed

text \<open>The context a response of the session is encoded in.\<close>

definition response_context :: "event_value session \<Rightarrow> decode_context" where
  "response_context s = \<lparr>Synchronized = synchronized s, CTO = zero_time, HasCTO = False, CTOSynchronized = False\<rparr>"

lemma read_class0_extends:
  assumes "\<forall>pt \<in> set staticTypes. reportable_points db pt" "reportable_datasets db" "SMaxTxFragment (scfg s) = rb_max b" "276 \<le> rb_max b"
  shows "\<exists>s' b' hss. read_class0 db (s, b) = (s', b') \<and> list_all2 (reports_type db (rb_ctx b)) staticTypes hss \<and>
    rb_extends b (concat hss @ dataset_headers db (rb_max b) [0..<65536]) b'"
proof -
  let ?b = "foldl (\<lambda>b pt. buildStaticRange db pt 0 0 0xFFFF b) b staticTypes"
  obtain hss where h: "list_all2 (reports_type db (rb_ctx b)) staticTypes hss" "rb_extends b (concat hss) ?b"
    using static_types_extend [of staticTypes db b] assms(1,4) by auto
  have mx: "rb_max ?b = rb_max b" using rb_extends_sel [OF h(2)] by simp
  obtain s' b' where d: "foldl (read_dataset db 87 1) (s, ?b) [0..<65536] = (s', b')" "rb_extends ?b (dataset_headers db (rb_max b) [0..<65536]) b'"
    using read_datasets_extend [OF assms(2), of s ?b "[0..<65536]"] assms(3) mx by auto
  have "readDatasets db (ReadAllObjects 87 1) (s, ?b) = foldl (read_dataset db 87 1) (s, ?b) (concat (map run_indexes [(0, 0xFFFF)]))"
    by (simp add: readDatasets_def datasetVariationKnown_def ReadAllObjects_def forEachPointRun_def Let_def del: upt_rec_numeral)
  also have "concat (map run_indexes [(0, 0xFFFF)]) = [0..<65536]" by (simp add: run_indexes_def del: upt_rec_numeral)
  finally have "read_class0 db (s, b) = (s', b')" using d(1) by (simp only: read_class0_def fst_conv snd_conv)
  then show ?thesis using h(1) rb_extends_trans [OF h(2) d(2)] by blast
qed

lemma filter_not_less: "length (filter (\<lambda>x. \<not> P x) xs) < length xs \<longleftrightarrow> filter P xs \<noteq> []"
  using sum_length_filter_compl [of P xs] by (cases "filter P xs") auto

lemma poll_built:
  assumes "FObjects frag = map (ReadAllObjects 60) [2, 3, 4, 1]" "276 \<le> SMaxTxFragment (scfg s)"
    and "int (length (EBEvents (events s))) \<le> 2147483647"
    and "\<forall>pt \<in> set staticTypes. reportable_points (dev_db d) pt" "reportable_datasets (dev_db d)"
  shows "\<exists>s' b chunks hss. let mx = SMaxTxFragment (scfg s); db = dev_db d; ctx = response_context s;
       reported = filter (event_reportable mx) (poll_events (EBEvents (events s)))
     in build_read now host frag (s, d) = (s', rb_done b, reported \<noteq> []) \<and> rb_max b = mx \<and>
        list_all chunk_ok chunks \<and> concat (map chunk_events chunks) = reported \<and> list_all2 (reports_type db ctx) staticTypes hss \<and>
        rb_extends (newResponseBuilder mx ctx)
          (concat (map (chunk_headers (db_store db) (synchronized s) ctx) chunks) @ concat hss @ dataset_headers db mx [0..<65536]) b"
proof -
  define mx db ctx evs where "mx = SMaxTxFragment (scfg s)" "db = dev_db d" "ctx = response_context s" "evs = poll_events (EBEvents (events s))"
  define b0 where "b0 = newResponseBuilder mx ctx"
  have b0: "rb_max b0 = mx" "rb_ctx b0 = ctx" "276 \<le> mx" using assms(2) by (simp_all add: b0_def newResponseBuilder_sel mx_db_ctx_evs_def)
  obtain eb where g: "foldl (read_object now host d) (s, [], []) (FObjects frag) = (s\<lparr>events := eb\<rparr>, evs, [read_class0 db])"
    unfolding assms(1) mx_db_ctx_evs_def using poll_gathers [OF assms(3)] by blast
  obtain chunks b1 where c: "reports_events (db_store db) (synchronized s) now evs b0 chunks b1"
    using build_events_reports b0 by metis
  then have e: "buildEvents db (synchronized s) now evs b0 = (b1, filter (\<lambda>e. \<not> event_reportable mx e) evs)"
      "rb_extends b0 (concat (map (chunk_headers (db_store db) (synchronized s) ctx) chunks)) b1"
    by (simp_all add: reports_events_def buildEvents_def b0)
  have sel: "rb_max b1 = mx" "rb_ctx b1 = ctx" using rb_extends_sel [OF e(2)] b0 by simp_all
  obtain s1 where s1: "(if length evs > 0 then
           (case buildEvents db (synchronized s) now evs b0 of
              (b, unsent) \<Rightarrow> (s\<lparr>events := fst (EB_Discard unsent eb)\<rparr>, b, length unsent < length evs))
         else (s\<lparr>events := eb\<rparr>, b0, False)) = (s1, b1, filter (event_reportable mx) evs \<noteq> [])" "scfg s1 = scfg s"
    using e filter_not_less [of "event_reportable mx" evs] by (cases "evs = []") (auto simp: buildEvents_def build_events.simps)
  obtain s' b hss where r: "read_class0 db (s1, b1) = (s', b)" "list_all2 (reports_type db ctx) staticTypes hss"
      "rb_extends b1 (concat hss @ dataset_headers db mx [0..<65536]) b"
    using read_class0_extends [of db s1 b1] assms(4,5) s1(2) sel b0 by (auto simp: mx_db_ctx_evs_def)
  have "build_read now host frag (s, d) = (s', rb_done b, filter (event_reportable mx) evs \<noteq> [])"
    using s1(1) r(1) unfolding build_read_def
    by (simp add: g Let_def b0_def [symmetric] mx_db_ctx_evs_def [symmetric] response_context_def [symmetric] split: if_splits prod.splits)
  moreover have "rb_max b = mx" using rb_extends_sel [OF r(3)] sel by simp
  ultimately show ?thesis
    using rb_extends_trans [OF e(2) r(3)] r(2) c unfolding Let_def reports_events_def b0_def [symmetric] mx_db_ctx_evs_def [symmetric] b0(1)
    by blast
qed

text \<open>
  C9. The answer to an integrity poll. A read of classes 1, 2, 3 and 0 on an outstation whose
  points can be reported is answered with fragments within the limit, from which the master
  parses, in this order: the pending events, class by class and in the order they were raised,
  every one exactly once and under its index (those no fragment can carry are left out); then,
  for every static type, all its points once each in order of their indexes, in runs of one
  variation; then the present values of the data sets that fit. So the static values, which are
  newer, follow every event.
\<close>

theorem integrity_poll_delivered:
  assumes "FObjects frag = map (ReadAllObjects 60) [2, 3, 4, 1]" "276 \<le> SMaxTxFragment (scfg s)"
    and "int (length (EBEvents (events s))) \<le> 2147483647"
    and "\<forall>pt \<in> set staticTypes. reportable_points (dev_db d) pt" "reportable_datasets (dev_db d)"
    and "wf_app_header h" "AFunc h = FuncResponse"
  shows "\<exists>s' b chunks hss. let mx = SMaxTxFragment (scfg s); db = dev_db d; ctx = response_context s;
       reported = filter (event_reportable mx) (poll_events (EBEvents (events s)))
     in build_read now host frag (s, d) = (s', rb_done b, reported \<noteq> []) \<and>
        list_all chunk_ok chunks \<and> concat (map chunk_events chunks) = reported \<and> list_all2 (reports_type db ctx) staticTypes hss \<and>
        delivered b h
          (concat (map (chunk_headers (db_store db) (synchronized s) ctx) chunks) @ concat hss @ dataset_headers db mx [0..<65536])"
proof -
  obtain s' b chunks hss where p: "let mx = SMaxTxFragment (scfg s); db = dev_db d; ctx = response_context s;
       reported = filter (event_reportable mx) (poll_events (EBEvents (events s)))
     in build_read now host frag (s, d) = (s', rb_done b, reported \<noteq> []) \<and> rb_max b = mx \<and>
        list_all chunk_ok chunks \<and> concat (map chunk_events chunks) = reported \<and> list_all2 (reports_type db ctx) staticTypes hss \<and>
        rb_extends (newResponseBuilder mx ctx)
          (concat (map (chunk_headers (db_store db) (synchronized s) ctx) chunks) @ concat hss @ dataset_headers db mx [0..<65536]) b"
    using poll_built [OF assms(1-5)] by blast
  note p = p [unfolded Let_def]
  have "4 \<le> rb_max b" using p assms(2) by simp
  with extends_delivered [OF _ assms(6,7)] p show ?thesis unfolding Let_def by blast
qed

definition sample_config :: station_config where
  "sample_config = \<lparr>CSession = \<lparr>SMaxTxFragment = 0, SConfirmTimeout = 0, SLinkTimeout = 0, SSyncInterval = 0, SHoldover = 0,
       SUnsolicited = \<lparr>UEnabled = False, UHoldTime = 0, UMaxEvents = 0, UConfirmTimeout = 0, UMaxRetries = 0\<rparr>\<rparr>,
     CStack = outstation_config, CEvents = 10, CDatabase = Counts three_binaries, CDisableAttributes = True, CAttributes = [],
     CDatasets = [], CIndications = 0, CSecure = False\<rparr>"

definition sample_change :: "u16 \<Rightarrow> event_class \<Rightarrow> db_event" where
  "sample_change i c = (Event TypeBinary i 1 no_value)\<lparr>EClass := c, ESeq := ucast i\<rparr>"

definition sample_station :: "db_event list \<Rightarrow> unit serving" where
  "sample_station es =
     (case NewOutstation sample_config () of
        (s, d) \<Rightarrow> (s\<lparr>events := (events s)\<lparr>EBEvents := es\<rparr>\<rparr>, d\<lparr>dev_db := three_binaries\<rparr>))"

definition sample_read :: "object_header list \<Rightarrow> fragment" where
  "sample_read hs =
     \<lparr>FHeader = \<lparr>AControl = \<lparr>AFir = True, AFin = True, ACon = False, AUns = False, ASeq = 3\<rparr>, AFunc = FuncRead, AIIN = 0\<rparr>,
      FObjects = hs, FRaw = []\<rparr>"

lemma sample_station_sel:
  "EBEvents (events (fst (sample_station es))) = es" "SMaxTxFragment (scfg (fst (sample_station es))) = 2048"
  "dev_db (snd (sample_station es)) = three_binaries" "\<not> synchronized (fst (sample_station es))"
  "pendingBodies (fst (sample_station es)) = []"
  by (simp_all add: sample_station_def NewOutstation_def sample_config_def Session_applyDefaults_def Unsol_applyDefaults_def Let_def)

lemma three_binaries_reportable:
  "\<forall>pt \<in> set staticTypes. reportable_points three_binaries pt" "reportable_datasets three_binaries"
proof -
  have c: "typeCount (Counts three_binaries) pt = (if pt = TypeBinary then 3 else 0)" for pt
    by (simp add: three_binaries_def NewDatabase_def makePoints_def Counts_def typeCount_def)
  have "static_variation TypeBinary 2"
    by (simp add: static_variation_def packedBits_def staticGroupVar_def Lookup_def descriptor_tables SizeOctets_def)
  then show "\<forall>pt \<in> set staticTypes. reportable_points three_binaries pt"
    using three_binaries_flagged by (auto simp: reportable_points_def c)
  show "reportable_datasets three_binaries" by (simp add: reportable_datasets_def three_binaries_def NewDatabase_def)
qed

theorem integrity_poll_delivered_witness:
  "\<exists>s' b chunks hss. build_read 0 0 (sample_read (map (ReadAllObjects 60) [2, 3, 4, 1])) (sample_station [sample_change 2 Class3, sample_change 1 Class1]) =
      (s', rb_done b, True) \<and>
    concat (map chunk_events chunks) = map (\<lambda>e. e\<lparr>ESelected := True\<rparr>) [sample_change 1 Class1, sample_change 2 Class3] \<and>
    list_all2 (reports_type three_binaries (response_context (fst (sample_station [])))) staticTypes hss \<and>
    delivered b response_header (concat (map (chunk_headers (db_store three_binaries) False (response_context (fst (sample_station [])))) chunks) @
      concat hss @ dataset_headers three_binaries 2048 [0..<65536])"
proof -
  let ?es = "[sample_change 2 Class3, sample_change 1 Class1]"
  have h: "wf_app_header response_header" "AFunc response_header = FuncResponse"
    by (simp_all add: response_header_def wf_app_header_def)
  have c: "response_context (fst (sample_station ?es)) = response_context (fst (sample_station []))"
    by (simp add: response_context_def sample_station_sel)
  have p: "filter (event_reportable 2048) (poll_events ?es) = map (\<lambda>e. e\<lparr>ESelected := True\<rparr>) [sample_change 1 Class1, sample_change 2 Class3]"
    by (simp add: poll_events_def sample_change_def Event_def event_reportable_def event_encoding_def eventGroup_def Lookup_def
        descriptor_tables SizeOctets_def Let_def)
  show ?thesis
    using integrity_poll_delivered [of "sample_read (map (ReadAllObjects 60) [2, 3, 4, 1])" "fst (sample_station ?es)" "snd (sample_station ?es)"
        response_header 0 0] h three_binaries_reportable
    unfolding Let_def sample_station_sel c p by (auto simp: sample_read_def sample_station_sel simp del: upt_rec_numeral)
qed

definition sample_appl :: "unit application" where
  "sample_appl = \<lparr>SupportsWriteTime = (\<lambda>_. True), WriteAbsoluteTime = (\<lambda>_ a. (a, True)), ColdRestart = (\<lambda>a. (a, 0)), WarmRestart = (\<lambda>a. (a, 0)),
     RestartSupport = None, DatasetWrite = None, AttributeWrite = None, TerminalWrite = None, Manage = None, ActivateConfig = None,
     WritableAttributes = [], Commands = RejectingCommandHandler,
     CommandLimits = \<lparr>SelectTimeout = 5, MaxControlsPerRequest = 0, BinaryOutputs = 0, AnalogOutputs = 0\<rparr>\<rparr>"

definition sample_world :: "(event_value, byte list, unit) env" where
  "sample_world = \<lparr>conn = tape, build = (\<lambda>sync evs. ([], [])), appNow = 10, hostNow = 10\<rparr>"

definition sample_broadcast :: received where
  "sample_broadcast = \<lparr>RFragment = [], RSource = 1, RDest = 0xFFFF, RBroadcast = True\<rparr>"

section \<open>A read nobody answers\<close>

text \<open>
  A read of one class: the events it takes, the session with those marked and the ones no
  fragment can carry discarded, and the fragments it is answered with.
\<close>

definition taken :: "byte \<Rightarrow> event_value session \<Rightarrow> db_event list" where
  "taken v s = snd (EB_Select (class_of v) 2147483647 (events s))"

definition after_read :: "byte \<Rightarrow> event_value session \<Rightarrow> event_value session" where
  "after_read v s =
     s\<lparr>events := fst (EB_Discard (filter (\<lambda>e. \<not> event_reportable (SMaxTxFragment (scfg s)) e) (taken v s))
       (fst (EB_Select (class_of v) 2147483647 (events s))))\<rparr>"

definition event_bodies :: "int \<Rightarrow> database \<Rightarrow> event_value session \<Rightarrow> db_event list \<Rightarrow> byte list list" where
  "event_bodies now db s evs =
     rb_done (fst (buildEvents db (synchronized s) now evs (newResponseBuilder (SMaxTxFragment (scfg s)) (response_context s))))"

lemma after_read_sel [simp]:
  "sstack (after_read v s) = sstack s" "awaitingConfirm (after_read v s) = awaitingConfirm s" "scfg (after_read v s) = scfg s"
  "synchronized (after_read v s) = synchronized s"
  by (simp_all add: after_read_def)

lemma event_reportable_selected [simp]: "event_reportable mx (e\<lparr>ESelected := x\<rparr>) = event_reportable mx e"
  by (simp add: event_reportable_def event_encoding_def)

lemma class_read_built:
  assumes "FObjects frag = [ReadAllObjects 60 v]" "2 \<le> v" "v \<le> 4" "276 \<le> SMaxTxFragment (scfg s)"
    and "int (length (EBEvents (events s))) \<le> 2147483647"
  shows "build_read now host frag (s, d) = (after_read v s, event_bodies now (dev_db d) s (taken v s),
    filter (event_reportable (SMaxTxFragment (scfg s))) (taken v s) \<noteq> [])"
proof -
  define mx b0 where "mx = SMaxTxFragment (scfg s)" "b0 = newResponseBuilder (SMaxTxFragment (scfg s)) (response_context s)"
  have b0: "rb_max b0 = mx" "276 \<le> mx" using assms(4) by (simp_all add: mx_b0_def newResponseBuilder_sel)
  have t: "taken v s = map (\<lambda>e. e\<lparr>ESelected := True\<rparr>) (filter (\<lambda>e. \<not> ESelected e \<and> EClass e AND class_of v \<noteq> 0) (EBEvents (events s)))"
    using EB_Select_all [OF assms(5), of "class_of v"] by (simp add: taken_def)
  have g: "foldl (read_object now host d) (s, [], []) (FObjects frag) =
      (s\<lparr>events := fst (EB_Select (class_of v) 2147483647 (events s))\<rparr>, taken v s, [])"
    by (simp add: assms(1) t class_read [OF assms(5,2,3)])
  obtain chunks b1 where "reports_events (db_store (dev_db d)) (synchronized s) now (taken v s) b0 chunks b1"
    using build_events_reports b0 by metis
  then have e: "buildEvents (dev_db d) (synchronized s) now (taken v s) b0 = (b1, filter (\<lambda>e. \<not> event_reportable mx e) (taken v s))"
    by (simp add: reports_events_def buildEvents_def b0)
  show ?thesis
  proof (cases "taken v s = []")
    case True
    then have "b1 = b0" using e by (simp add: buildEvents_def build_events.simps)
    then show ?thesis
      using True e unfolding mx_b0_def
      by (simp add: build_read_def g after_read_def event_bodies_def EB_Discard_def Let_def response_context_def)
  next
    case False
    then show ?thesis
      using e filter_not_less [of "event_reportable mx" "taken v s"] unfolding mx_b0_def
      by (simp add: build_read_def g after_read_def event_bodies_def Let_def response_context_def)
  qed
qed

lemma serve_class_read:
  assumes "FObjects frag = [ReadAllObjects 60 v]" "2 \<le> v" "v \<le> 4" "276 \<le> SMaxTxFragment (scfg s)"
    and "int (length (EBEvents (events s))) \<le> 2147483647"
  shows "serve_function env ap files FuncRead r frag (s, d) w =
    (case sendFragments env r (FHeader frag) (event_bodies (appNow env) (dev_db d) s (taken v s))
            (filter (event_reportable (SMaxTxFragment (scfg s))) (taken v s) \<noteq> []) (after_read v s) w of (s, w, e) \<Rightarrow> ((s, d), w, e))"
proof -
  have "fileObject frag = None" "attributeHeader frag = None"
    using assms(1) by (simp_all add: fileObject_def attributeHeader_def ReadAllObjects_def)
  then show ?thesis by (simp add: serve_function_def onRead_def answer_def class_read_built [OF assms])
qed

lemma Discard_keeps_sel: "i \<in> eb_sel b \<Longrightarrow> i \<notin> ESeq ` set es \<Longrightarrow> i \<in> eb_sel (fst (EB_Discard es b))"
  by (auto simp: eb_sel_def EB_Discard_events in_seqs_filter)

lemma after_read_events:
  assumes "sorted_wrt (<) (seqs (EBEvents (events s)))"
  shows "sorted_wrt (<) (seqs (EBEvents (events (after_read v s))))"
    and "i \<in> eb_sel (events s) \<Longrightarrow> i \<notin> ESeq ` set (taken v s) \<and> i \<in> eb_sel (events (after_read v s))"
proof -
  let ?eb = "fst (EB_Select (class_of v) 2147483647 (events s))"
  show "sorted_wrt (<) (seqs (EBEvents (events (after_read v s))))"
    using assms by (simp add: after_read_def EB_Discard_events EB_Select_def filter_seqs_sorted)
  assume "i \<in> eb_sel (events s)"
  from selected_not_offered [OF assms _ this, of "class_of v" 2147483647 ?eb "taken v s"]
  have i: "i \<notin> ESeq ` set (taken v s)" "i \<in> eb_sel ?eb" by (simp_all add: taken_def)
  then show "i \<notin> ESeq ` set (taken v s) \<and> i \<in> eb_sel (events (after_read v s))"
    by (auto simp: after_read_def intro!: Discard_keeps_sel)
qed

lemma after_read_class:
  assumes "sorted_wrt (<) (seqs (EBEvents (events s)))" "int (length (EBEvents (events s))) \<le> 2147483647"
    and "e \<in> set (EBEvents (events s))" "\<not> ESelected e"
  shows "EClass e AND class_of v \<noteq> 0 \<Longrightarrow> event_reportable (SMaxTxFragment (scfg s)) e \<Longrightarrow>
      ESeq e \<in> eb_sel (events (after_read v s)) \<and> e\<lparr>ESelected := True\<rparr> \<in> set (taken v s)"
    and "EClass e AND class_of v = 0 \<Longrightarrow> e \<in> set (EBEvents (events (after_read v s)))"
proof -
  let ?eb = "fst (EB_Select (class_of v) 2147483647 (events s))" and ?R = "event_reportable (SMaxTxFragment (scfg s))"
  have all: "EBEvents ?eb = map (\<lambda>e. if \<not> ESelected e \<and> EClass e AND class_of v \<noteq> 0 then e\<lparr>ESelected := True\<rparr> else e) (EBEvents (events s))"
      "taken v s = map (\<lambda>e. e\<lparr>ESelected := True\<rparr>) (filter (\<lambda>e. \<not> ESelected e \<and> EClass e AND class_of v \<noteq> 0) (EBEvents (events s)))"
    using EB_Select_all [OF assms(2), of "class_of v"] by (simp_all add: taken_def)
  show "ESeq e \<in> eb_sel (events (after_read v s)) \<and> e\<lparr>ESelected := True\<rparr> \<in> set (taken v s)" if c: "EClass e AND class_of v \<noteq> 0" "?R e"
  proof -
    have "e\<lparr>ESelected := True\<rparr> \<in> set (EBEvents ?eb)" using assms(3,4) c(1) by (auto simp: all(1))
    then have "ESeq e \<in> eb_sel ?eb" unfolding eb_sel_def in_seqs_filter by (intro bexI [of _ "e\<lparr>ESelected := True\<rparr>"]) simp_all
    moreover have "ESeq e \<notin> ESeq ` set (filter (\<lambda>e. \<not> ?R e) (taken v s))"
      using same_seq [OF assms(1,3)] c(2) by (auto simp: all(2))
    ultimately show ?thesis using assms(3,4) c(1) by (auto simp: after_read_def all(2) intro!: Discard_keeps_sel)
  qed
  show "e \<in> set (EBEvents (events (after_read v s)))" if "EClass e AND class_of v = 0"
    using assms(3,4) that by (force simp: after_read_def EB_Discard_events all(1))
qed

text \<open>
  C38. A broadcast read loses events. Let events of classes 1 and 2 be pending, and let a read of
  class 1 be broadcast: it selects the class 1 events, and then sends nothing, since a broadcast
  is not answered. Not an octet is written, and the events stay selected. Let the master then
  read class 2 and confirm every fragment of the answer: the answer is built from other events,
  and when it is confirmed the class 1 event is gone from the buffer, although what went over
  the line never carried it.
\<close>

theorem broadcast_read_loses_events:
  assumes "RBroadcast r" "FObjects frag = [ReadAllObjects 60 2]" "\<not> RBroadcast r2" "FObjects frag2 = [ReadAllObjects 60 3]"
    and "sorted_wrt (<) (seqs (EBEvents (events s)))" "int (length (EBEvents (events s))) \<le> 2147483647" "276 \<le> SMaxTxFragment (scfg s)"
    and "conn env = tape" "can_send (sstack s)" "\<not> Stack_Busy (sstack s)" "\<not> awaitingConfirm s"
    and lost: "lost \<in> set (EBEvents (events s))" "\<not> ESelected lost" "EClass lost AND Class1 \<noteq> 0"
      "event_reportable (SMaxTxFragment (scfg s)) lost"
    and other: "other \<in> set (EBEvents (events s))" "\<not> ESelected other" "EClass other AND Class1 = 0" "EClass other AND Class2 \<noteq> 0"
      "event_reportable (SMaxTxFragment (scfg s)) other"
  shows "\<exists>s1 s2 s3 w2 evs bodies outs.
    serve_function env ap files FuncRead r frag (s, d) w = ((s1, d), w, None) \<and> ESeq lost \<in> eb_sel (events s1) \<and>
    serve_function env ap files FuncRead r2 frag2 (s1, d) w = ((s2, d), w2, None) \<and>
    bodies = event_bodies (appNow env) (dev_db d) s1 evs \<and> ESeq lost \<notin> ESeq ` set evs \<and>
    master_confirms env (length bodies) s2 w2 = (s3, w @ concat outs) \<and> length outs = length bodies \<and>
    (\<forall>i < length bodies. fragment_of (RSource r2) (ASeq (AControl (FHeader frag2))) bodies i (outs ! i)) \<and>
    ESeq lost \<notin> eb_ids (events s3)"
proof -
  let ?s1 = "after_read 2 s" and ?mx = "SMaxTxFragment (scfg s)"
  let ?evs = "taken 3 ?s1" and ?bodies = "event_bodies (appNow env) (dev_db d) ?s1 (taken 3 ?s1)"
  have one: "serve_function env ap files FuncRead r frag (s, d) w = ((?s1, d), w, None)"
    using assms(1) by (simp add: serve_class_read [OF assms(2) _ _ assms(7,6)] sendFragments_def)
  have sorted: "sorted_wrt (<) (seqs (EBEvents (events ?s1)))" by (rule after_read_events(1) [OF assms(5)])
  have len: "int (length (EBEvents (events ?s1))) \<le> 2147483647"
    using assms(6) length_filter_le [of _ "EBEvents (fst (EB_Select (class_of 2) 2147483647 (events s)))"]
    by (simp add: after_read_def EB_Discard_events EB_Select_def del: class_of_simps) (meson le_trans of_nat_mono)
  have sel: "ESeq lost \<in> eb_sel (events ?s1)"
    using after_read_class(1) [OF assms(5,6) lost(1,2), of 2] lost(3,4) by simp
  have stays: "ESeq lost \<notin> ESeq ` set ?evs" "ESeq lost \<in> eb_sel (events (after_read 3 ?s1))"
    using after_read_events(2) [OF sorted sel, of 3] by simp_all
  have "other \<in> set (EBEvents (events ?s1))"
    using after_read_class(2) [OF assms(5,6) other(1,2), of 2] other(3) by simp
  from after_read_class(1) [OF sorted len this other(2), of 3] other(4,5)
  have "other\<lparr>ESelected := True\<rparr> \<in> set (filter (event_reportable ?mx) ?evs)" by simp
  then have has: "filter (event_reportable ?mx) ?evs \<noteq> []" by force
  have ne: "?bodies \<noteq> []" by (simp add: event_bodies_def rb_done_def Let_def)
  have "can_send (sstack (after_read 3 ?s1))" "\<not> Stack_Busy (sstack (after_read 3 ?s1))" "\<not> awaitingConfirm (after_read 3 ?s1)"
    using assms(9-11) by simp_all
  from response_delivered_aux [OF assms(8) this ne assms(3), of "FHeader frag2" w]
  obtain s2 w2 s3 outs where two: "sendFragments env r2 (FHeader frag2) ?bodies True (after_read 3 ?s1) w = (s2, w2, None)"
    and conf: "master_confirms env (length ?bodies) s2 w2 = (s3, w @ concat outs)" "length outs = length ?bodies"
      "\<forall>i < length ?bodies. fragment_of (RSource r2) (ASeq (AControl (FHeader frag2))) ?bodies i (outs ! i)"
    and s3: "events s3 = fst (EB_Confirm (events (after_read 3 ?s1)))" by blast
  have served: "serve_function env ap files FuncRead r2 frag2 (?s1, d) w = ((s2, d), w2, None)"
    using assms(7) has two by (simp add: serve_class_read [OF assms(4) _ _ _ len])
  have "eb_ids (events s3) = eb_ids (events (after_read 3 ?s1)) - eb_sel (events (after_read 3 ?s1))"
    using seqs_filter_not [OF after_read_events(1) [OF sorted], of ESelected 3]
    by (simp add: s3 eb_ids_def eb_sel_def EB_Confirm_events)
  then have "ESeq lost \<notin> eb_ids (events s3)" using stays(2) by simp
  with one sel served stays(1) conf show ?thesis by blast
qed

definition sample_poll :: received where
  "sample_poll = \<lparr>RFragment = [], RSource = 1, RDest = 10, RBroadcast = False\<rparr>"

theorem broadcast_read_loses_events_witness:
  "\<exists>s1 s2 s3 w2 n outs. let st = sample_station [sample_change 1 Class1, sample_change 2 Class2]; files = (\<lambda>_ _ _ st w. (st, w, None)) in
    serve_function sample_world sample_appl files FuncRead sample_broadcast (sample_read [ReadAllObjects 60 2]) st [] = ((s1, snd st), [], None) \<and>
    1 \<in> eb_sel (events s1) \<and>
    serve_function sample_world sample_appl files FuncRead sample_poll (sample_read [ReadAllObjects 60 3]) (s1, snd st) [] = ((s2, snd st), w2, None) \<and>
    master_confirms sample_world n s2 w2 = (s3, outs) \<and> 1 \<notin> eb_ids (events s3)"
proof -
  let ?es = "[sample_change 1 Class1, sample_change 2 Class2]"
  let ?st = "sample_station ?es"
  have stack: "can_send (sstack (fst ?st))" "\<not> Stack_Busy (sstack (fst ?st))" "\<not> awaitingConfirm (fst ?st)"
    by (simp_all add: sample_station_def NewOutstation_def sample_config_def can_send_def sample_stack_defs Stack_Busy_def Seg_Pending_def
        Pri_Busy_def Let_def)
  have change: "event_reportable 2048 (sample_change i c)" "\<not> ESelected (sample_change i c)" "EClass (sample_change i c) = c"
      "ESeq (sample_change i c) = ucast i" for i c
    by (simp_all add: sample_change_def Event_def event_reportable_def event_encoding_def eventGroup_def Lookup_def descriptor_tables SizeOctets_def)
  have st: "(fst ?st, snd ?st) = ?st" by simp
  have "RBroadcast sample_broadcast" "FObjects (sample_read hs) = hs" "\<not> RBroadcast sample_poll" "conn sample_world = tape" for hs
    by (simp_all add: sample_broadcast_def sample_read_def sample_poll_def sample_world_def)
  from broadcast_read_loses_events [OF this(1,2,3,2) _ _ _ this(4) stack, of "sample_change 1 Class1" "sample_change 2 Class2"
      sample_appl "\<lambda>_ _ _ st w. (st, w, None)" "snd ?st" "[]"]
  show ?thesis unfolding Let_def sample_station_sel change st by (simp add: change seqs_def) metis
qed

end
