(* ===== verification/Outstation_Upkeep.thy ===== *)
theory Outstation_Upkeep
  imports Outstation_Poll
begin

text \<open>
  What the services of an outstation keep to: freezes run on their schedule, a deadband
  write reaches only the points it names, indications read back bit by bit, the clock is set to
  the master's time, and a read of attributes is answered in one fragment however long it is.
\<close>

section \<open>Freezes on schedule\<close>

text \<open>
  A schedule as the code admits it, and the times for which durations do not saturate: up to
  \<open>2\<^sup>6\<^sup>2\<close> nanoseconds after the epoch, in the year 2116.
\<close>

definition schedule_ok :: "freeze_schedule \<Rightarrow> bool" where
  "schedule_ok f \<longleftrightarrow> 0 \<le> FNext f \<and> 0 \<le> FInterval f \<and> FInterval f < 2 ^ 52"

abbreviation (input) near_time :: "int \<Rightarrow> bool" where "near_time t \<equiv> t < 2 ^ 62"

lemma next_multiple_exact:
  assumes "0 \<le> first" "first \<le> now" "near_time now" "0 < interval" "interval < 2 ^ 52"
  shows "next_multiple now first interval = first + ((now - first) div interval + 1) * interval"
    "now < next_multiple now first interval" "next_multiple now first interval \<le> now + interval"
proof -
  let ?q = "(now - first) div interval"
  have "duration_between now first = now - first" using assms by (simp add: duration_between_def)
  moreover have b: "?q * interval \<le> now - first" "now - first < ?q * interval + interval"
    using div_mult_mod_eq [of "now - first" interval] pos_mod_bound [OF assms(4), of "now - first"] pos_mod_sign [OF assms(4), of "now - first"]
    by linarith+
  then have "0 \<le> (?q + 1) * interval" "(?q + 1) * interval < 2 ^ 63" using assms by (simp_all add: distrib_right)
  then have "duration_times (?q + 1) interval = (?q + 1) * interval" unfolding duration_times_def by (intro sint_of_int_range) simp_all
  ultimately show eq: "next_multiple now first interval = first + (?q + 1) * interval" by (simp add: next_multiple_def)
  show "now < next_multiple now first interval" "next_multiple now first interval \<le> now + interval"
    unfolding eq using b by (simp_all add: distrib_right)
qed

text \<open>The schedules that are due, those that stay, and where a schedule stands after a tick.\<close>

definition due :: "int \<Rightarrow> freeze_schedule \<Rightarrow> bool" where
  "due now f \<longleftrightarrow> FNext f \<le> now"

definition advance :: "int \<Rightarrow> freeze_schedule \<Rightarrow> freeze_schedule" where
  "advance now f = (if due now f then f\<lparr>FNext := FNext f + ((now - FNext f) div FInterval f + 1) * FInterval f\<rparr> else f)"

definition remaining :: "int \<Rightarrow> freeze_schedule list \<Rightarrow> freeze_schedule list" where
  "remaining now fs = map (advance now) (filter (\<lambda>f. due now f \<longrightarrow> 0 < FInterval f) fs)"

lemma run_freeze_fold:
  assumes "near_time now"
  shows "list_all schedule_ok fs \<Longrightarrow>
    foldl (run_freeze now) (kept, st) fs = (kept @ remaining now fs, fold perform_freeze (filter (due now) fs) st)"
proof (induction fs arbitrary: kept st)
  case (Cons f fs)
  have "run_freeze now (kept, st) f = (kept @ remaining now [f], fold perform_freeze (filter (due now) [f]) st)"
    using Cons.prems next_multiple_exact(1) [OF _ _ assms, of "FNext f" "FInterval f"]
    by (auto simp: run_freeze_def remaining_def advance_def due_def schedule_ok_def Let_def)
  then show ?case using Cons by (simp add: remaining_def)
qed (simp add: remaining_def)

lemma remaining_ok:
  assumes "near_time now" "list_all schedule_ok fs"
  shows "list_all schedule_ok (remaining now fs)" "list_all (\<lambda>f. now < FNext f) (remaining now fs)" "length (remaining now fs) \<le> length fs"
proof -
  have "schedule_ok (advance now f) \<and> now < FNext (advance now f)" if "schedule_ok f" "due now f \<longrightarrow> 0 < FInterval f" for f
    using that next_multiple_exact [OF _ _ assms(1), of "FNext f" "FInterval f"]
    by (auto simp: advance_def due_def schedule_ok_def)
  then show "list_all schedule_ok (remaining now fs)" "list_all (\<lambda>f. now < FNext f) (remaining now fs)"
    using assms(2) by (auto simp: remaining_def list_all_iff)
  show "length (remaining now fs) \<le> length fs" by (simp add: remaining_def)
qed

text \<open>Histories of freeze requests and ticks, with the schedules each leaves behind.\<close>

datatype freeze_op = FreezeRequest int fragment | FreezeTick int

fun freeze_op_time :: "freeze_op \<Rightarrow> int" where
  "freeze_op_time (FreezeRequest now frag) = now"
| "freeze_op_time (FreezeTick now) = now"

fun freeze_step :: "freeze_op \<Rightarrow> 'a serving \<Rightarrow> 'a serving \<times> freeze_schedule list" where
  "freeze_step (FreezeRequest now frag) st = (let st = onFreezeAtTime now frag st in (st, freezes (snd st)))"
| "freeze_step (FreezeTick now) st = (let st = runFreezes now st in (st, freezes (snd st)))"

definition freezes_ok :: "'a serving \<Rightarrow> bool" where
  "freezes_ok st \<longleftrightarrow> length (freezes (snd st)) \<le> maxFreezeSchedules \<and> list_all schedule_ok (freezes (snd st))"

definition freeze_inv :: "freeze_op list \<Rightarrow> 'a serving \<Rightarrow> bool" where
  "freeze_inv h st \<longleftrightarrow> (list_all (\<lambda>op. near_time (freeze_op_time op)) h \<longrightarrow> freezes_ok st)"

definition freeze_good :: "freeze_op list \<Rightarrow> freeze_schedule list \<Rightarrow> bool" where
  "freeze_good h fs \<longleftrightarrow> (list_all (\<lambda>op. near_time (freeze_op_time op)) h \<longrightarrow>
     length fs \<le> maxFreezeSchedules \<and>
     (case last h of FreezeTick now \<Rightarrow> list_all (\<lambda>f. now < FNext f) fs | FreezeRequest now frag \<Rightarrow> True))"

lemma freezes_indicate [simp]: "freezes (snd (indicate bits st)) = freezes (snd st)"
  by (simp add: indicate_def)

lemma freezes_on_db [simp]: "freezes (snd (on_db f st)) = freezes (snd st)"
  by (simp add: on_db_def Let_def)

lemma freezes_perform [simp]: "freezes (snd (perform_freeze f st)) = freezes (snd st)"
  by (simp add: perform_freeze_def Let_def)

definition request_ok :: "freeze_request \<Rightarrow> bool" where
  "request_ok q \<longleftrightarrow> (haveTime q \<longrightarrow> 0 \<le> freqFirst q \<and> 0 \<le> freqInterval q \<and> freqInterval q < 2 ^ 52)"

lemma freeze_header_ok: "freeze_header h q = Inr q' \<Longrightarrow> request_ok q \<Longrightarrow> request_ok q'"
proof -
  assume h: "freeze_header h q = Inr q'" "request_ok q"
  have "uint (x :: u32) * 1000000 < 2 ^ 52" for x using uint_bounded [of x] by simp
  then show "request_ok q'"
    using h by (auto simp: freeze_header_def request_ok_def Let_def ParseTime48_def DNP3ToTime_def split: if_splits option.splits)
qed

lemma freeze_headers_ok: "freeze_headers hs q = Inr q' \<Longrightarrow> request_ok q \<Longrightarrow> request_ok q'"
  by (induction hs arbitrary: q) (auto split: sum.splits dest: freeze_header_ok)

lemma onFreezeAtTime_ok:
  assumes "near_time now" "freezes_ok st"
  shows "freezes_ok (onFreezeAtTime now frag st)"
proof (cases "freeze_headers (FObjects frag) no_freeze_request")
  case (Inr q)
  have q: "0 \<le> freqFirst q" "0 \<le> freqInterval q" "freqInterval q < 2 ^ 52" if "haveTime q"
    using freeze_headers_ok [OF Inr] that by (simp_all add: no_freeze_request_def request_ok_def)
  show ?thesis
    using assms Inr q next_multiple_exact(2) [OF _ _ assms(1), of "freqFirst q" "freqInterval q"]
    by (auto simp: onFreezeAtTime_def freezes_ok_def schedule_ok_def Let_def)
qed (use assms in \<open>simp add: onFreezeAtTime_def freezes_ok_def\<close>)

lemma runFreezes_fold:
  assumes "near_time now" "list_all schedule_ok (freezes (snd st))"
  shows "runFreezes now st =
    (let st' = fold perform_freeze (filter (due now) (freezes (snd st))) st
     in (fst st', (snd st')\<lparr>freezes := remaining now (freezes (snd st))\<rparr>))"
  using run_freeze_fold [OF assms, of "[]" st] by (cases st) (auto simp: runFreezes_def remaining_def Let_def)

interpretation freeze_schedules: history_machine freeze_step freeze_inv freeze_good
proof
  fix h and st :: "'a serving" and i
  assume inv: "freeze_inv h st"
  have "freezes_ok (fst (freeze_step i st)) \<and> (case i of FreezeTick now \<Rightarrow> list_all (\<lambda>f. now < FNext f) (snd (freeze_step i st)) | _ \<Rightarrow> True)"
    if "list_all (\<lambda>op. near_time (freeze_op_time op)) (h @ [i])"
  proof -
    have ok: "freezes_ok st" "near_time (freeze_op_time i)" using inv that by (simp_all add: freeze_inv_def)
    show ?thesis
    proof (cases i)
      case (FreezeRequest now frag)
      then show ?thesis using onFreezeAtTime_ok [OF _ ok(1)] ok(2) by (simp add: Let_def)
    next
      case (FreezeTick now)
      then have now: "near_time now" and s: "list_all schedule_ok (freezes (snd st))" using ok by (simp_all add: freezes_ok_def)
      show ?thesis using FreezeTick remaining_ok [OF now s] ok(1) runFreezes_fold [OF now s] by (simp add: freezes_ok_def Let_def)
    qed
  qed
  then show "freeze_inv (h @ [i]) (fst (freeze_step i st))" "freeze_good (h @ [i]) (snd (freeze_step i st))"
    by (cases i; auto simp: freeze_inv_def freeze_good_def freezes_ok_def Let_def)+
qed

text \<open>
  C18. Scheduled freezes run when they should. Whatever freeze requests and ticks came before, at
  times up to the year 2116, an outstation that started without schedules holds at most sixteen
  of them; and a tick performs each schedule whose moment has come exactly once, in the order
  they were asked for, drops those that do not repeat, and moves the others on by a whole
  number of intervals to the first moment after the tick, however many were missed.
\<close>

theorem freezes_on_schedule:
  fixes s :: "event_value session" and d :: "'a device"
  defines "st \<equiv> \<lambda>ops. fst (run_ops freeze_step ops (s, d))"
  assumes "freezes d = []" "list_all (\<lambda>op. near_time (freeze_op_time op)) (ops @ [FreezeTick now])"
  shows "length (freezes (snd (st ops))) \<le> maxFreezeSchedules \<and>
    (\<exists>s' d'. fold perform_freeze (filter (due now) (freezes (snd (st ops)))) (st ops) = (s', d') \<and>
       runFreezes now (st ops) = (s', d'\<lparr>freezes := map (advance now) (filter (\<lambda>f. due now f \<longrightarrow> 0 < FInterval f) (freezes (snd (st ops))))\<rparr>)) \<and>
    (\<forall>f \<in> set (freezes (snd (st ops))). due now f \<and> 0 < FInterval f \<longrightarrow>
       now < FNext (advance now f) \<and> FNext (advance now f) \<le> now + FInterval f \<and> FInterval f dvd FNext (advance now f) - FNext f)"
proof -
  have "freeze_inv [] (s, d)" using assms(2) by (simp add: freeze_inv_def freezes_ok_def)
  from freeze_schedules.run_inv [OF this, of ops] have ok: "freezes_ok (st ops)" "near_time now" and all: "list_all schedule_ok (freezes (snd (st ops)))"
    using assms(3) by (simp_all add: freeze_inv_def st_def freezes_ok_def)
  have "now < FNext (advance now f) \<and> FNext (advance now f) \<le> now + FInterval f \<and> FInterval f dvd FNext (advance now f) - FNext f"
    if "f \<in> set (freezes (snd (st ops)))" "due now f" "0 < FInterval f" for f
    using that all next_multiple_exact [OF _ _ ok(2), of "FNext f" "FInterval f"] by (auto simp: advance_def due_def schedule_ok_def list_all_iff)
  moreover have "length (freezes (snd (st ops))) \<le> maxFreezeSchedules" using ok(1) by (simp add: freezes_ok_def)
  moreover obtain s' d' where f: "fold perform_freeze (filter (due now) (freezes (snd (st ops)))) (st ops) = (s', d')" by (rule prod.exhaust)
  moreover have "runFreezes now (st ops) = (s', d'\<lparr>freezes := remaining now (freezes (snd (st ops)))\<rparr>)"
    using runFreezes_fold [OF ok(2) all] by (simp add: f Let_def)
  ultimately show ?thesis unfolding remaining_def by blast
qed

definition sample_freeze :: fragment where
  "sample_freeze = sample_read [count_one 50 2 (put32 7 @ [0, 0] @ put32 10)]"

lemma sample_freeze_scheduled:
  "freezes (snd (fst (run_ops freeze_step [FreezeRequest 5000000 sample_freeze] (sample_station [])))) =
     [\<lparr>FNext = 7000000, FInterval = 10000000, FRanges = [(0, 0xFFFF)], FAnalogRanges = [(0, 0xFFFF)]\<rparr>]"
proof -
  have "freeze_headers (FObjects sample_freeze) no_freeze_request =
      Inr \<lparr>haveTime = True, freqFirst = 7000000, freqInterval = 10000000, freqRanges = [], freqAnalogRanges = [], named = False\<rparr>"
    by (simp add: sample_freeze_def sample_read_def freeze_header_def no_freeze_request_def count_one_def O_Count_def MakeQualifier_def
        Q_IndexPrefix_def Prefix_Octets_def put32_def get32_def readTime48_def ParseTime48_def DNP3ToTime_def)
  moreover have "freezes (snd (sample_station [])) = []"
    by (simp add: sample_station_def NewOutstation_def sample_config_def Let_def)
  ultimately show ?thesis by (simp add: onFreezeAtTime_def Let_def)
qed

theorem freezes_on_schedule_witness:
  "\<exists>s' d'. runFreezes 30000000 (fst (run_ops freeze_step [FreezeRequest 5000000 sample_freeze] (sample_station []))) =
     (s', d'\<lparr>freezes := [\<lparr>FNext = 37000000, FInterval = 10000000, FRanges = [(0, 0xFFFF)], FAnalogRanges = [(0, 0xFFFF)]\<rparr>]\<rparr>)"
proof -
  have "freezes (snd (sample_station [])) = []"
    by (simp add: sample_station_def NewOutstation_def sample_config_def Let_def)
  then show ?thesis
    using freezes_on_schedule [of "snd (sample_station [])" "[FreezeRequest 5000000 sample_freeze]" 30000000 "fst (sample_station [])"]
    unfolding prod.collapse sample_freeze_scheduled by (auto simp: advance_def due_def)
qed

section \<open>Deadbands\<close>

text \<open>
  The deadbands a header carries, as natural numbers and values: object \<open>i\<close> is behind \<open>i\<close> objects
  of the same size, and is named by its prefix or by its place in the range.
\<close>

definition deadband_entry :: "object_header \<Rightarrow> nat \<Rightarrow> nat \<Rightarrow> nat \<Rightarrow> nat \<times> f64" where
  "deadband_entry h sz p i =
     (let off = i * (p + sz)
      in (if p > 0 then unat (readPrefix (drop off (OData h)) p) else unat (IndexOf (ORange h) (of_nat i)),
          decodeDeadband (OVariation h) (subslice (OData h) (off + p) (off + p + sz))))"

definition set_deadband :: "nat \<times> f64 \<Rightarrow> 'a point list \<Rightarrow> 'a point list" where
  "set_deadband e ps = (case e of (j, v) \<Rightarrow> ps[j := (ps ! j)\<lparr>PCfg := (PCfg (ps ! j))\<lparr>Deadband := v\<rparr>\<rparr>])"

text \<open>Points whose event variation has an encoding, as every configuration leaves them.\<close>

definition analogs_ok :: "database \<Rightarrow> bool" where
  "analogs_ok db \<longleftrightarrow> length (db_analog db) \<le> 65536 \<and>
     list_all (\<lambda>p. eventVariationEncodable TypeAnalog (EventVariation (PCfg p))) (db_analog db)"

definition apply_deadband :: "nat \<times> f64 \<Rightarrow> 'a serving \<Rightarrow> 'a serving" where
  "apply_deadband e st =
     (let db = dev_db (snd st)
      in if fst e < length (db_analog db) then (fst st, (snd st)\<lparr>dev_db := db\<lparr>db_analog := set_deadband e (db_analog db)\<rparr>\<rparr>)
         else indicate IINParameterError st)"

lemma narrow_index: "unat (wide :: u64) < 65536 \<Longrightarrow> unat (ucast wide :: u16) = unat wide"
  by (simp add: unsigned_ucast_eq take_bit_nat_eq_self)

lemma setConfig_deadband:
  "i < length ps \<Longrightarrow> setConfig i ((PCfg (ps ! i))\<lparr>Deadband := v\<rparr>) ps = (set_deadband (i, v) ps, True)"
  by (cases "PCfg (ps ! i)") (simp add: setConfig_def set_deadband_def Let_def)

lemma write_deadband_apply:
  assumes "analogs_ok (dev_db (snd st))"
  shows "write_deadband wide v st = apply_deadband (unat wide, v) st" "analogs_ok (dev_db (snd (apply_deadband (unat wide, v) st)))"
proof -
  let ?ps = "db_analog (dev_db (snd st))"
  have len: "length ?ps \<le> 65536" using assms by (simp add: analogs_ok_def)
  have k: "eventVariationEncodable TypeAnalog (EventVariation (PCfg (?ps ! unat wide)))" if "unat wide < length ?ps"
    using assms that by (simp add: analogs_ok_def list_all_length)
  show "write_deadband wide v st = apply_deadband (unat wide, v) st"
  proof (cases "unat wide < length ?ps")
    case True
    then have w: "unat wide < 65536" using len by simp
    then have n: "\<not> wide > 0xFFFF" by (simp add: word_less_nat_alt)
    have u: "unat (ucast wide :: u16) = unat wide" using w by (rule narrow_index)
    show ?thesis
      using True k by (simp add: write_deadband_def n apply_deadband_def set_deadband_def DB_Analog_def db_get_def u Configure_def setConfig_deadband [unfolded set_deadband_def] Let_def)
  next
    case False
    have "wide > 0xFFFF \<or> unat (ucast wide :: u16) = unat wide"
      by (cases "unat wide < 65536") (auto simp: word_less_nat_alt narrow_index)
    then show ?thesis using False by (auto simp: write_deadband_def apply_deadband_def DB_Analog_def db_get_def Let_def)
  qed
  show "analogs_ok (dev_db (snd (apply_deadband (unat wide, v) st)))"
    using assms k
    by (auto simp: apply_deadband_def analogs_ok_def indicate_def set_deadband_def Let_def list_all_length nth_list_update)
qed

lemma deadband_loop_fold:
  assumes "(i + k) * (p + sz) \<le> length (OData h)" "analogs_ok (dev_db (snd st))"
  shows "deadband_loop h sz p k i (i * (p + sz)) st = fold apply_deadband (map (deadband_entry h sz p) [i..<i + k]) st"
  using assms
proof (induction k arbitrary: i st)
  case (Suc k)
  let ?wide = "(if p > 0 then ucast (readPrefix (drop (i * (p + sz)) (OData h)) p) else ucast (IndexOf (ORange h) (of_nat i))) :: u64"
  let ?v = "snd (deadband_entry h sz p i)"
  have e: "deadband_entry h sz p i = (unat ?wide, ?v)" by (simp add: deadband_entry_def Let_def)
  have room: "\<not> i * (p + sz) + p + sz > length (OData h)" using Suc.prems(1) by (simp add: algebra_simps)
  have "deadband_loop h sz p (Suc k) i (i * (p + sz)) st = deadband_loop h sz p k (i + 1) ((i + 1) * (p + sz)) (write_deadband ?wide ?v st)"
    using room by (simp add: deadband_entry_def Let_def algebra_simps)
  also have "write_deadband ?wide ?v st = apply_deadband (deadband_entry h sz p i) st"
    using write_deadband_apply(1) [OF Suc.prems(2)] e by simp
  also have "deadband_loop h sz p k (i + 1) ((i + 1) * (p + sz)) (apply_deadband (deadband_entry h sz p i) st) =
      fold apply_deadband (map (deadband_entry h sz p) [i + 1..<i + 1 + k]) (apply_deadband (deadband_entry h sz p i) st)"
    by (rule Suc.IH) (use Suc.prems write_deadband_apply(2) [OF Suc.prems(2), of ?wide ?v] e in \<open>simp_all add: algebra_simps\<close>)
  also have "\<dots> = fold apply_deadband (map (deadband_entry h sz p) [i..<i + Suc k]) st" by (simp add: upt_conv_Cons [of i "Suc (i + k)"] del: upt_Suc)
  finally show ?case .
qed simp

lemma fold_apply_deadband:
  "fold apply_deadband es (s, d) =
     ((if list_all (\<lambda>e. fst e < length (db_analog (dev_db d))) es then s else set_iin IINParameterError s),
      d\<lparr>dev_db := (dev_db d)\<lparr>db_analog := fold set_deadband es (db_analog (dev_db d))\<rparr>\<rparr>)"
proof (induction es arbitrary: s d)
  case (Cons e es)
  have idem: "set_iin b (set_iin b s) = set_iin b s" for b s by (simp add: set_iin_def IIN_Set_def)
  have "set_deadband e ps = ps" if "\<not> fst e < length ps" for ps :: "f64 measurement point list"
    using that by (cases e) (simp add: set_deadband_def list_update_beyond)
  moreover have "length (set_deadband e ps) = length ps" for ps :: "f64 measurement point list" by (cases e) (simp add: set_deadband_def)
  ultimately show ?case using Cons by (auto simp: apply_deadband_def indicate_def idem Let_def)
qed simp

text \<open>
  C19. A deadband write reaches the points it names and no others. On a header of group 34 whose
  objects are all there, every object sets the deadband of the point with exactly that index,
  in order, and leaves the point's value, class and variations alone; an index beyond the last
  point, however many octets it was written with, changes nothing, never wraps onto another
  point, and is answered with PARAMETER\_ERROR. Nothing else of the outstation changes.
\<close>

theorem deadbands_reach_named_points:
  fixes h :: object_header
  defines "p \<equiv> if IsIndex (Q_IndexPrefix (OQualifier h)) then Prefix_Octets (Q_IndexPrefix (OQualifier h)) else 0"
  defines "es \<equiv> \<lambda>sz. map (deadband_entry h sz p) [0..<unat (O_Count h)]"
  assumes "OGroup h = 34" "Lookup (34, OVariation h) = Some dsc" "SizeOctets dsc = (int sz, True)" "0 < sz"
    and "unat (O_Count h) * (p + sz) \<le> length (OData h)" "analogs_ok (dev_db d)"
  shows "writeDeadbands h (s, d) =
     ((if list_all (\<lambda>(j, v). j < length (db_analog (dev_db d))) (es sz) then s else set_iin IINParameterError s),
      d\<lparr>dev_db := (dev_db d)\<lparr>db_analog := fold (\<lambda>(j, v) ps. ps[j := (ps ! j)\<lparr>PCfg := (PCfg (ps ! j))\<lparr>Deadband := v\<rparr>\<rparr>]) (es sz) (db_analog (dev_db d))\<rparr>\<rparr>)"
proof -
  have "writeDeadbands h (s, d) = deadband_loop h sz p (unat (O_Count h)) 0 (0 * (p + sz)) (s, d)"
    using assms(3-6) by (simp add: writeDeadbands_def Let_def p_def)
  also have "\<dots> = fold apply_deadband (es sz) (s, d)"
    using assms(7,8) deadband_loop_fold [of 0 "unat (O_Count h)" p sz h "(s, d)"] by (simp add: es_def)
  finally show ?thesis by (simp add: fold_apply_deadband set_deadband_def [abs_def] case_prod_unfold)
qed

definition six_analogs :: database where
  "six_analogs = NewDatabase ((Counts three_binaries)\<lparr>NAnalog := 6\<rparr>) None"

definition sample_deadbands :: object_header where
  "sample_deadbands = \<lparr>OGroup = 34, OVariation = 1, OQualifier = 0x39,
     ORange = \<lparr>RSpec = RangeCount32, RStart = 0, RStop = 0, RCount = 2\<rparr>,
     OData = put32 1 @ put16 5 @ put32 65541 @ put16 9, OOffset = 0, ODataOffset = 0\<rparr>"

theorem deadbands_reach_named_points_witness:
  "writeDeadbands sample_deadbands (fst (sample_station []), (snd (sample_station []))\<lparr>dev_db := six_analogs\<rparr>) =
     (set_iin IINParameterError (fst (sample_station [])),
      (snd (sample_station []))\<lparr>dev_db := six_analogs\<lparr>db_analog := (db_analog six_analogs)
         [1 := (db_analog six_analogs ! 1)\<lparr>PCfg := (PCfg (db_analog six_analogs ! 1))\<lparr>Deadband := f64_of_int 5\<rparr>\<rparr>]\<rparr>\<rparr>)"
proof -
  obtain dsc where dsc: "Lookup (34, 1) = Some dsc" "SizeOctets dsc = (int 2, True)"
    by (simp add: Lookup_def descriptor_tables SizeOctets_def)
  have ps: "db_analog six_analogs = makePoints (zero_of 0) 6 TypeAnalog (DefaultClass (Counts three_binaries))"
    by (simp add: six_analogs_def NewDatabase_def)
  have ok: "analogs_ok six_analogs"
    by (simp add: analogs_ok_def ps makePoints_def no_config_def defaultEventVariations_def eventVariationEncodable_def eventGroup_def
        Lookup_def descriptor_tables SizeOctets_def list_all_iff)
  have es: "map (deadband_entry sample_deadbands 2 4) [0..<unat (O_Count sample_deadbands)] = [(1, f64_of_int 5), (65541, f64_of_int 9)]"
    by (simp add: deadband_entry_def sample_deadbands_def O_Count_def readPrefix_def decodeDeadband_def get16_def put16_def put32_def
        subslice_def upt_conv_Cons Let_def)
  have len: "length (db_analog six_analogs) = 6" by (simp add: ps makePoints_def)
  show ?thesis
    using deadbands_reach_named_points [of sample_deadbands dsc 2 "(snd (sample_station []))\<lparr>dev_db := six_analogs\<rparr>" "fst (sample_station [])"] dsc ok es len
    by (simp add: sample_deadbands_def Q_IndexPrefix_def IsIndex_def Prefix_Octets_def O_Count_def list_update_beyond)
qed

section \<open>Indications\<close>

lemma iin_octets_bits:
  assumes "start \<le> stop" "stop \<le> 15"
  defines "m \<equiv> unat stop - unat start"
  shows "length (iin_octets iin start stop) = m div 8 + 1"
    "i < 8 * (m div 8 + 1) \<Longrightarrow> bit (iin_octets iin start stop ! (i div 8)) (i mod 8) \<longleftrightarrow> i \<le> m \<and> bit iin (unat start + i)"
proof -
  have le: "unat start \<le> unat stop" "unat stop \<le> 15" using assms(1,2) by (simp_all add: word_le_nat_alt)
  have d: "unat (stop - start) = m" using assms(1) by (simp add: m_def unat_sub_if' word_le_nat_alt)
  have n: "unat (stop - start + 8) = m + 8" "unat (stop - start + 1) = m + 1"
    using le d by (simp_all add: unat_word_ariths(1) m_def)
  define data :: "byte list" where "data = map (\<lambda>j. ucast (drop_bit (8 * j) (drop_bit (unat start) iin))) [0..<m div 8 + 1]"
  have len: "length data = m div 8 + 1" by (simp add: data_def)
  have oct: "iin_octets iin start stop =
      (if (m + 1) mod 8 \<noteq> 0 then data[m div 8 := data ! (m div 8) AND of_nat (2 ^ ((m + 1) mod 8) - 1)] else data)"
    unfolding iin_octets_def n Let_def by (simp add: data_def)
  then show "length (iin_octets iin start stop) = m div 8 + 1" using len by simp
  assume i: "i < 8 * (m div 8 + 1)"
  have j: "i div 8 < m div 8 + 1" using i by (simp add: div_less_iff_less_mult mult.commute)
  then have b: "bit (data ! (i div 8)) (i mod 8) \<longleftrightarrow> bit iin (unat start + i)"
    by (simp add: data_def bit_simps del: upt_Suc) (simp add: add.commute)
  show "bit (iin_octets iin start stop ! (i div 8)) (i mod 8) \<longleftrightarrow> i \<le> m \<and> bit iin (unat start + i)"
  proof (cases "(m + 1) mod 8 = 0")
    case True
    then have "m mod 8 = 7" by (simp add: mod_Suc split: if_splits)
    then obtain q where "m div 8 = q" "m = 8 * q + 7" by (metis mult_div_mod_eq)
    then have "i \<le> m" using i by simp
    then show ?thesis using True oct b by simp
  next
    case False
    then have k: "(m + 1) mod 8 = m mod 8 + 1" by (simp add: mod_Suc split: if_splits)
    show ?thesis
    proof (cases "i div 8 = m div 8")
      case True
      have "(of_nat (2 ^ (m mod 8 + 1) - 1) :: byte) = mask (m mod 8 + 1)" by (simp add: mask_eq_exp_minus_1 of_nat_diff)
      then have "bit (iin_octets iin start stop ! (i div 8)) (i mod 8) \<longleftrightarrow> bit (data ! (i div 8)) (i mod 8) \<and> i mod 8 < m mod 8 + 1"
        using False True k len unfolding oct by (simp add: bit_and_iff bit_mask_iff)
      moreover have "i \<le> m \<longleftrightarrow> i mod 8 < m mod 8 + 1"
        using True div_mult_mod_eq [of i 8] div_mult_mod_eq [of m 8] by (intro iffI; linarith)
      ultimately show ?thesis using b by blast
    next
      case other: False
      then have "i div 8 < m div 8" using j by linarith
      then have "i \<le> m" by (metis div_le_mono linorder_not_less nat_le_linear)
      then show ?thesis using False other oct b by simp
    qed
  qed
qed

text \<open>
  C39. The internal indications read back bit by bit. A read of group 80 from one bit to another is
  answered with as many octets as the bits need; each bit of them is the indication of that
  number as the response's header would report it at that moment, and the bits past the last
  one asked for are zero.
\<close>

theorem iin_read_exact:
  fixes h :: object_header
  defines "start \<equiv> RStart (ORange h)" and "stop \<equiv> RStop (ORange h)"
  assumes "IsStartStop (RSpec (ORange h))" "start \<le> stop" "stop \<le> 15"
  shows "\<exists>data. readIIN host h (s, b) =
      (fst (currentIIN host s), rb_add (rangeObjectHeader (80, 1) (ucast start) (ucast stop) data) b) \<and>
    length data = (unat stop - unat start) div 8 + 1 \<and>
    (\<forall>i < 8 * length data. bit (data ! (i div 8)) (i mod 8) \<longleftrightarrow>
       i \<le> unat stop - unat start \<and> bit (snd (currentIIN host s)) (unat start + i))"
proof -
  obtain s' iin where c: "currentIIN host s = (s', iin)" by (rule prod.exhaust)
  have "readIIN host h (s, b) = (s', rb_add (rangeObjectHeader (80, 1) (ucast start) (ucast stop) (iin_octets iin start stop)) b)"
    using assms(3-5) c unfolding start_def stop_def by (simp add: readIIN_def Let_def)
  then show ?thesis
    using iin_octets_bits [OF assms(4,5)] c by (intro exI [of _ "iin_octets iin start stop"]) simp
qed

theorem iin_read_exact_witness:
  "\<exists>data. readIIN 0 (ReadRange 80 1 7 7) (fst (sample_station []), newResponseBuilder 2048 local_time) =
      (fst (currentIIN 0 (fst (sample_station []))), rb_add (rangeObjectHeader (80, 1) 7 7 data) (newResponseBuilder 2048 local_time)) \<and>
    length data = 1 \<and> (\<forall>i < 8. bit (data ! 0) i \<longleftrightarrow> i = 0 \<and> bit (snd (currentIIN 0 (fst (sample_station [])))) 7)"
proof -
  have h: "RStart (ORange (ReadRange 80 1 7 7)) = 7" "RStop (ORange (ReadRange 80 1 7 7)) = 7" "IsStartStop (RSpec (ORange (ReadRange 80 1 7 7)))"
    by (simp_all add: ReadRange_def IsStartStop_def)
  then show ?thesis
    using iin_read_exact [of "ReadRange 80 1 7 7" 0 "fst (sample_station [])" "newResponseBuilder 2048 local_time"] by fastforce
qed

section \<open>Setting the clock\<close>

lemma answer_device [simp]: "snd (fst (answer env r frag bodies hasEvents st w)) = snd st"
  by (simp add: answer_def split: prod.splits)

text \<open>
  C20. The recorded-time procedure sets the clock to the master's time plus the time that has
  passed. After a RECORD\_CURRENT\_TIME request at one moment, a write of group 50 variation 3
  at a later one hands the application the time written plus exactly the time between the two,
  so that how long the messages took does not matter; if the application takes it, the clock
  counts as synchronized from now on, NEED\_TIME is cleared, and the recorded moment is used
  up: a second such write is refused with PARAMETER\_ERROR without reaching the clock.
\<close>

theorem recorded_time_sets_clock:
  assumes "serve_function env0 ap files FuncRecordCurrentTime r0 frag0 st0 w0 = (st1, w1, e1)"
    and "recordedTime (snd st) = recordedTime (snd st1)" "appNow env0 \<noteq> zero_time" "\<bar>appNow env - appNow env0\<bar> < 2 ^ 63"
    and "SupportsWriteTime ap (appl (snd st))" "FObjects frag = [h]" "OGroup h = 50" "OVariation h = 3" "timeWriteData h = Some data"
    and "WriteAbsoluteTime ap (TTime (ParseTime48 data) + (appNow env - appNow env0)) (appl (snd st)) = (a, True)"
  shows "\<exists>s d. serve_function env ap files FuncWrite r frag st w = acknowledge env r frag (s, d) w \<and>
    d = (snd st)\<lparr>appl := a, recordedTime := zero_time\<rparr> \<and> synchronized s \<and> syncedAt s = hostNow env \<and> \<not> IIN_Has (siin s) IINNeedTime \<and>
    (SupportsWriteTime ap a \<longrightarrow> serve_function env ap files FuncWrite r frag (s, d) w = acknowledge env r frag (indicate IINParameterError (s, d)) w)"
proof -
  have "snd st1 = (snd st0)\<lparr>recordedTime := appNow env0\<rparr>"
    using arg_cong [OF assms(1), of "\<lambda>x. snd (fst x)"]
    by (simp add: serve_function_def onRecordCurrentTime_def acknowledge_def split: if_splits)
  then have t0: "recordedTime (snd st) = appNow env0" using assms(2) by simp
  have el: "duration_between (appNow env) (appNow env0) = appNow env - appNow env0"
    using assms(4) by (simp add: duration_between_def)
  have f: "fileObject frag = None" using assms(6,7) by (simp add: fileObject_def)
  let ?s = "clockSet (hostNow env) (fst st)" and ?d = "(snd st)\<lparr>appl := a, recordedTime := zero_time\<rparr>"
  have "write_object (appNow env) (hostNow env) ap st h = (?s, ?d)"
    using assms(3,5,7-10) t0 el by (simp add: write_object_def write_recorded_time_def write_clock_def Let_def)
  moreover have "write_object (appNow env) (hostNow env) ap (?s, ?d) h = indicate IINParameterError (?s, ?d)" if "SupportsWriteTime ap a"
    using assms(7,8) that by (simp add: write_object_def write_recorded_time_def)
  moreover have "synchronized ?s" "syncedAt ?s = hostNow env" "\<not> IIN_Has (siin ?s) IINNeedTime"
    by (simp_all add: clockSet_def IIN_Has_def IIN_Clear_def and.assoc)
  ultimately show ?thesis
    using f assms(6) by (intro exI [of _ ?s] exI [of _ ?d]) (simp add: serve_function_def onWrite_def)
qed

theorem recorded_time_sets_clock_witness:
  "\<exists>st1 w1 e1 s d. serve_function (sample_world\<lparr>appNow := 1000000\<rparr>) sample_appl (\<lambda>_ _ _ st w. (st, w, None)) FuncRecordCurrentTime sample_broadcast
      (sample_read []) (sample_station []) [] = (st1, w1, e1) \<and>
    serve_function (sample_world\<lparr>appNow := 11000000\<rparr>) (sample_appl\<lparr>WriteAbsoluteTime := (\<lambda>t a. (a, t = 17000000))\<rparr>) (\<lambda>_ _ _ st w. (st, w, None))
      FuncWrite sample_broadcast (sample_read [count_one 50 3 (put32 7 @ [0, 0])]) st1 [] = ((s, d), [], None) \<and>
    synchronized s \<and> recordedTime d = zero_time"
proof -
  let ?files = "\<lambda>_ _ _ st w. (st, w, None) :: (unit, byte list, unit) served"
  let ?ap = "sample_appl\<lparr>WriteAbsoluteTime := (\<lambda>t a. (a, t = 17000000))\<rparr>"
  let ?h = "count_one 50 3 (put32 7 @ [0, 0])"
  obtain st1 w1 e1 where one: "serve_function (sample_world\<lparr>appNow := 1000000\<rparr>) ?ap ?files FuncRecordCurrentTime sample_broadcast (sample_read [])
      (sample_station []) [] = (st1, w1, e1)" by (rule prod_cases3)
  moreover from one have "serve_function (sample_world\<lparr>appNow := 1000000\<rparr>) sample_appl ?files FuncRecordCurrentTime sample_broadcast (sample_read [])
      (sample_station []) [] = (st1, w1, e1)" by (simp add: serve_function_def)
  moreover have "timeWriteData ?h = Some [7, 0, 0, 0, 0, 0]"
    by (simp add: timeWriteData_def count_one_def MakeQualifier_def Q_IndexPrefix_def Prefix_Octets_def put32_def subslice_def)
  moreover have "TTime (ParseTime48 [7, 0, 0, 0, 0, 0]) = 7000000" by (simp add: ParseTime48_def DNP3ToTime_def readTime48_def)
  ultimately show ?thesis
    using recorded_time_sets_clock [OF one, of st1 "sample_world\<lparr>appNow := 11000000\<rparr>" "sample_read [?h]" ?h "[7, 0, 0, 0, 0, 0]" "appl (snd st1)" sample_broadcast "[]"]
    by (auto simp: sample_appl_def sample_read_def count_one_def acknowledge_def sample_broadcast_def sample_world_def)
qed

section \<open>Attributes\<close>

text \<open>What one attribute adds to an answer: its object, or nothing if its value has no encoding.\<close>

definition attribute_object :: "attribute \<Rightarrow> byte list" where
  "attribute_object a = (case AppendAttribute [] a of Inl e \<Rightarrow> [] | Inr val \<Rightarrow> AppendObjectHeader [] (attribute_header a val))"

lemma encode_attributes:
  "\<exists>s'. foldl encode_attribute (s, body) attrs = (s', body @ concat (map attribute_object attrs)) \<and>
     sstack s' = sstack s \<and> awaitingConfirm s' = awaitingConfirm s \<and>
     (list_ex (\<lambda>a. \<exists>e. AppendAttribute [] a = Inl e) attrs \<or> IIN_Has (siin s) IINParameterError \<longrightarrow> IIN_Has (siin s') IINParameterError)"
proof (induction attrs arbitrary: s body)
  case (Cons a attrs)
  show ?case
  proof (cases "AppendAttribute [] a")
    case (Inl e)
    have "IIN_Has (siin (set_iin IINParameterError s)) IINParameterError"
      by (simp add: set_iin_def IIN_Has_def IIN_Set_def bit.conj_disj_distrib2)
    then show ?thesis using Cons.IH [of "set_iin IINParameterError s" body] Inl
      by (auto simp: encode_attribute_def attribute_object_def set_iin_def)
  next
    case (Inr val)
    then show ?thesis using Cons.IH [of s "AppendObjectHeader body (attribute_header a val)"] AppendObjectHeader_dst [of body]
      by (auto simp: encode_attribute_def attribute_object_def)
  qed
qed simp

text \<open>An answer of one body goes out at once, as one fragment that is both first and last.\<close>

lemma sendFragments_single:
  assumes "conn env = tape" "can_send (sstack s)" "\<not> Stack_Busy (sstack s)" "\<not> awaitingConfirm s" "\<not> RBroadcast r"
  shows "\<exists>s' hdr. sendFragments env r req [body] hasEvents s w =
      (s', w @ line_octets (sstack s) (RSource r) (AppendHeader [] hdr @ body), None) \<and>
    AFunc hdr = FuncResponse \<and> AFir (AControl hdr) \<and> AFin (AControl hdr)"
proof -
  let ?s = "s\<lparr>pendingBodies := [body], pendingIndex := 0, pendingDest := RSource r, pendingSeq := ASeq (AControl req),
     pendingHasEvents := hasEvents, lastRespBodies := [body], lastRespEvents := hasEvents, lastRespErrors := siin s AND RequestErrorMask\<rparr>"
  obtain s1 iin where c: "currentIIN (hostNow env) ?s = (s1, iin)" by fastforce
  obtain b where s1: "s1 = ?s\<lparr>synchronized := b\<rparr>" by (rule currentIIN_sync [OF c])
  let ?hdr = "\<lparr>AControl = response_control ?s, AFunc = FuncResponse, AIIN = iin\<rparr>"
  have "AppendHeader [] ?hdr @ body \<noteq> []" by simp
  from tape_SendTo [OF assms(2,3) this, of "RSource r" w] obtain st where
    send: "SendTo tape (sstack s) (RSource r) (AppendHeader [] ?hdr @ body) w =
      (st, w @ line_octets (sstack s) (RSource r) (AppendHeader [] ?hdr @ body), None)"
    unfolding line_octets_def by blast
  have "\<exists>s'. sendFragments env r req [body] hasEvents s w = (s', w @ line_octets (sstack s) (RSource r) (AppendHeader [] ?hdr @ body), None)"
    using assms c s1 send by (simp add: sendFragments_def advanceResponse_def Let_def)
  moreover have "AFunc ?hdr = FuncResponse \<and> AFir (AControl ?hdr) \<and> AFin (AControl ?hdr)" by (simp add: response_control_def Let_def)
  ultimately show ?thesis by blast
qed

text \<open>
  C40. A read of attributes is answered without regard to the size of a fragment. Whatever
  attributes the set asked for has, of whatever types, and whatever limit is configured for a
  fragment, the answer is a single one, both first and last: the response header followed by
  the objects of all of them in order, those left out whose value has no encoding. With the
  default limit of 2048 octets nine text attributes of full length make a fragment of 2362.
\<close>

theorem attribute_read_ignores_limit:
  fixes h :: object_header and d :: "'a device" and ap :: "'a application"
  defines "attrs \<equiv> attributes_read ap (attributes d) (if IsStartStop (RSpec (ORange h)) then ucast (RStart (ORange h)) else 0) (OVariation h)"
  assumes "attrs \<noteq> []" "conn env = tape" "can_send (sstack s)" "\<not> Stack_Busy (sstack s)" "\<not> awaitingConfirm s" "\<not> RBroadcast r"
  shows "\<exists>s' hdr. onAttributeRead env ap r frag h (s, d) w =
      ((s', d\<lparr>AttributesRead := AttributesRead d + 1\<rparr>),
       w @ line_octets (sstack s) (RSource r) (AppendHeader [] hdr @ concat (map attribute_object attrs)), None) \<and>
    AFunc hdr = FuncResponse \<and> AFir (AControl hdr) \<and> AFin (AControl hdr)"
proof -
  obtain s1 where b: "foldl encode_attribute (s, []) attrs = (s1, concat (map attribute_object attrs))"
    and s1: "sstack s1 = sstack s" "awaitingConfirm s1 = awaitingConfirm s"
    using encode_attributes [of s "[]" attrs] by auto
  have "onAttributeRead env ap r frag h (s, d) w =
      answer env r frag [concat (map attribute_object attrs)] False (s1, d\<lparr>AttributesRead := AttributesRead d + 1\<rparr>) w"
    using assms(2) b(1) unfolding onAttributeRead_def Let_def attrs_def [symmetric] by (simp add: attrs_def [symmetric])
  moreover obtain s' hdr where "sendFragments env r (FHeader frag) [concat (map attribute_object attrs)] False s1 w =
      (s', w @ line_octets (sstack s) (RSource r) (AppendHeader [] hdr @ concat (map attribute_object attrs)), None)"
      "AFunc hdr = FuncResponse \<and> AFir (AControl hdr) \<and> AFin (AControl hdr)"
    using sendFragments_single [OF assms(3), of s1] assms(4-7) s1 by metis
  ultimately show ?thesis by (auto simp: answer_def)
qed

definition full_text :: "byte list" where "full_text = replicate 255 65"

definition nine_attributes :: "(attribute_key \<times> attribute) list" where
  "nine_attributes = map (\<lambda>i. ((0, i), StringAttribute i full_text)) [201, 202, 203, 204, 205, 206, 207, 208, 209]"

theorem attribute_read_ignores_limit_witness:
  "\<exists>s' hdr body. onAttributeRead sample_world sample_appl sample_poll (sample_read [ReadRange 0 AttrAll 0 0]) (ReadRange 0 AttrAll 0 0)
      (fst (sample_station []), (snd (sample_station []))\<lparr>attributes := nine_attributes\<rparr>) [] =
    ((s', (snd (sample_station []))\<lparr>attributes := nine_attributes, AttributesRead := AttributesRead (snd (sample_station [])) + 1\<rparr>),
     line_octets (sstack (fst (sample_station []))) 1 (AppendHeader [] hdr @ body), None) \<and>
    SMaxTxFragment (scfg (fst (sample_station []))) = 2048 \<and> length (AppendHeader [] hdr @ body) = 2362"
proof -
  let ?d = "(snd (sample_station []))\<lparr>attributes := nine_attributes\<rparr>" and ?is = "[201, 202, 203, 204, 205, 206, 207, 208, 209]"
  have "length full_text = 255" by (simp add: full_text_def)
  then have len: "length (attribute_object (StringAttribute i full_text)) = 262" for i
    by (simp add: attribute_object_def StringAttribute_def AppendAttribute_def attribute_octets_def AppendObjectHeader_def attribute_header_def
        MakeQualifier_def appendRange_def Let_def)
  have r: "attributes_read sample_appl nine_attributes 0 AttrAll = map (\<lambda>i. StringAttribute i full_text) ?is"
    by (simp add: attributes_read_def attributesFor_def nine_attributes_def StringAttribute_def sort_key_def)
  then have a: "attributes_read sample_appl (attributes ?d) (if IsStartStop (RSpec (ORange (ReadRange 0 AttrAll 0 0)))
      then ucast (RStart (ORange (ReadRange 0 AttrAll 0 0))) else 0) (OVariation (ReadRange 0 AttrAll 0 0)) = map (\<lambda>i. StringAttribute i full_text) ?is"
    by (simp add: ReadRange_def IsStartStop_def)
  have ready: "conn sample_world = tape" "\<not> RBroadcast sample_poll" "RSource sample_poll = 1" "can_send (sstack (fst (sample_station [])))"
      "\<not> Stack_Busy (sstack (fst (sample_station [])))" "\<not> awaitingConfirm (fst (sample_station []))"
    by (simp_all add: sample_world_def sample_poll_def sample_station_def NewOutstation_def sample_config_def can_send_def sample_stack_defs
        Stack_Busy_def Seg_Pending_def Pri_Busy_def Let_def)
  let ?body = "concat (map attribute_object (map (\<lambda>i. StringAttribute i full_text) ?is))"
  obtain s' hdr where "onAttributeRead sample_world sample_appl sample_poll (sample_read [ReadRange 0 AttrAll 0 0]) (ReadRange 0 AttrAll 0 0)
      (fst (sample_station []), ?d) [] = ((s', ?d\<lparr>AttributesRead := AttributesRead ?d + 1\<rparr>),
       [] @ line_octets (sstack (fst (sample_station []))) 1 (AppendHeader [] hdr @ ?body), None)" and hdr: "AFunc hdr = FuncResponse"
    using attribute_read_ignores_limit [of sample_appl ?d "ReadRange 0 AttrAll 0 0" sample_world "fst (sample_station [])" sample_poll
        "sample_read [ReadRange 0 AttrAll 0 0]" "[]"] ready unfolding a by auto
  moreover have "length (AppendHeader [] hdr @ ?body) = 2362"
    using hdr by (simp add: len AHeader_Size_def AIsResponse_def FuncIsResponse_def)
  ultimately show ?thesis by (intro exI [of _ s'] exI [of _ hdr] exI [of _ ?body]) (simp add: sample_station_sel)
qed

end
