(* ===== verification/Spec2Isabelle.thy ===== *)
theory Spec2Isabelle
  imports Link_Exchange Stack_Fn App_Fragment Obj_Codecs Obj_File Outstation_Safety Outstation_Command Outstation_Upkeep
begin

text \<open>
  A verification library of a DNP3 (IEEE 1815) protocol implementation in Go: the link layer, the
  transport function, the application layer, the objects, and the outstation that runs on them.

  \<^bold>\<open>The program.\<close> A frame parser turns a stream of octets into link frames
  (\<^verbatim>\<open>internal/link\<close>); a primary and a secondary state machine run the link protocol; the
  transport function cuts fragments into segments and puts them together again
  (\<^verbatim>\<open>internal/transport\<close>); \<^verbatim>\<open>internal/stack\<close> joins the three for one connection and hands whole
  fragments to a session. Fragments are parsed into headers and objects by \<^verbatim>\<open>internal/app\<close>; the
  values inside the objects are read and written by \<^verbatim>\<open>objects\<close>, from tables that a generator
  writes. An outstation (\<^verbatim>\<open>outstation\<close>) keeps a database of points, whose updates raise events in
  a buffer, and a session that answers requests, reports events unasked, and keeps an event until
  a confirmation lets it go or the buffer overflows.

  \<^bold>\<open>The theories\<close>, each with the sources it models:

  \<^item> \<open>Dnp_Prelude\<close>: machine types, little-endian accessors, lemmas on words, slices and folds, the
    collections \<open>wire_simps\<close> and \<open>inv_intros\<close>, and two contracts. \<open>history_machine\<close> is a machine
    whose steps keep an invariant that may speak of all inputs so far; \<open>prefix_codec\<close> is a codec
    that reads back what it wrote in front of anything else. \<open>Go_Float\<close> and \<open>Go_Arith\<close> are Go's
    doubles on their bit patterns, \<open>Dnp_Types\<close> is \<^verbatim>\<open>types.go\<close> and \<^verbatim>\<open>flags.go\<close>.
  \<^item> \<open>Link_CRC\<close>, \<open>Link_Frame\<close>, \<open>Link_Parser\<close>, \<open>Link_Primary\<close>, \<open>Link_Secondary\<close>: one theory for each of
    \<^verbatim>\<open>crc.go\<close>, \<^verbatim>\<open>frame.go\<close>, \<^verbatim>\<open>parser.go\<close>, \<^verbatim>\<open>primary.go\<close>, \<^verbatim>\<open>secondary.go\<close> of \<^verbatim>\<open>internal/link\<close>. The table CRC
    is the bitwise one, frames survive encoding, the parser's fixed array refines a scan of the
    plain stream and finds the same frames however the stream is cut, and the primary keeps its
    invariant. \<open>Link_Exchange\<close> joins the two state machines by a line that loses frames: an inductive
    step relation, with exactly-once delivery by rule induction, and on a line that loses nothing
    every run completes at the first attempt.
  \<^item> \<open>Transport_Fn\<close> (\<^verbatim>\<open>internal/transport/transport.go\<close>): a fragment is delivered only from one
    gapless run of segments.
  \<^item> \<open>Stack_Fn\<close> (\<^verbatim>\<open>internal/stack/stack.go\<close>): what one stack sends its peer delivers, once; receiving
    ends on any input.
  \<^item> \<open>App_Header\<close>, \<open>App_Objects\<close>, \<open>App_Fragment\<close> (\<^verbatim>\<open>internal/app\<close>): parsing loses no octet and never
    reads past the buffer, and the builder keeps its contract.
  \<^item> \<open>Obj_Base\<close>, \<open>Obj_Codecs\<close>, \<open>Obj_Commands\<close>, \<open>Obj_Variable\<close>, \<open>Obj_File\<close> (\<^verbatim>\<open>objects\<close>): the descriptor
    table, every generated codec, commands, attributes, data sets, authentication and file objects,
    with their round trips.
  \<^item> \<open>Outstation_Events\<close> (\<^verbatim>\<open>eventbuffer.go\<close>): the contract \<open>event_store\<close> and that the buffer keeps it.
    \<open>Outstation_Database\<close> (\<^verbatim>\<open>database.go\<close>, \<^verbatim>\<open>extended_database.go\<close>): deadbands, freezes, events.
  \<^item> \<open>Outstation_Session\<close> (the pacing half of \<^verbatim>\<open>session.go\<close>, and \<^verbatim>\<open>unsolicited.go\<close>) and
    \<open>Outstation_Safety\<close>, its properties: all the ways an event can leave the buffer, a response goes
    out complete, retries end, repeated requests are replayed.
  \<^item> \<open>Outstation_Command\<close> (\<^verbatim>\<open>command.go\<close>): select before operate.
  \<^item> \<open>Outstation_Response\<close> (\<^verbatim>\<open>response.go\<close>), with its properties in \<open>Outstation_Static\<close> and
    \<open>Outstation_Report\<close>: points and events reach the master once each, in order, in fragments within
    the limit.
  \<^item> \<open>Outstation_Services\<close> (\<^verbatim>\<open>freeze.go\<close>, \<^verbatim>\<open>attribute.go\<close>, \<^verbatim>\<open>dataset.go\<close>, \<^verbatim>\<open>services.go\<close>) and
    \<open>Outstation_Requests\<close> (the handlers of \<^verbatim>\<open>session.go\<close>, their table, construction, restart and
    the ticker), with their properties in \<open>Outstation_Poll\<close> (the integrity poll from the request to the
    master's parser, and the broadcast read that loses events) and \<open>Outstation_Upkeep\<close> (schedules, deadbands, indications, clock, attributes).
  \<^item> This theory: a request that is malformed or repeated leaves the whole device alone, which
    joins the session's dispatch with the table of handlers.

  \<^bold>\<open>Contracts and their instances.\<close> \<open>history_machine\<close> is interpreted on the primary, the reassembler,
  the control requests and the freeze schedules; \<open>prefix_codec\<close> on link frames, fragment headers and
  object headers; \<open>event_store\<close> on the event buffer.

  \<^bold>\<open>How state and effects are written.\<close> A struct is a record and a method is a function that returns
  it updated; an error is a value. Integers have the width of the source. A time is the integer
  of nanoseconds since 1970, and a duration between two times is cut to 64 bits as Go does it. The
  octet strings of the database are slices into an explicit store of arrays, because an event and
  its point share an array. The session of \<open>Outstation_Session\<close> and the record \<open>device\<close> of
  \<open>Outstation_Services\<close> together are the source's \<^verbatim>\<open>Session\<close>; the event buffer, which database and
  session share by a pointer, is held once, in the session, and lent to the database by \<open>on_db\<close>.

  \<^bold>\<open>Arguments of the model.\<close> The connection, which may fail; the two clocks, which stand still
  during one call; the application and its command handler, which act on a state of their own and
  do not reach into the database; how far the runtime over-allocates an array; and the handlers
  of file transfer and file authentication.

  \<^bold>\<open>Bounds.\<close> No function has fuel: every loop is a recursion with a termination proof. The
  theorems that need bounds name them. Responses are built for fragments of at least 276 octets,
  which the largest object with its header needs; freeze schedules are shown for times up to
  \<open>2 ^ 62\<close> nanoseconds after 1970 and the clock for differences below \<open>2 ^ 63\<close>, beyond which a
  duration saturates; the event buffer is taken to hold at most \<open>2 ^ 31 - 1\<close> events, the limit a read of a class passes.

  \<^bold>\<open>Not modelled.\<close> The master (\<^verbatim>\<open>master\<close>) and the arbitration of shared lines (\<^verbatim>\<open>multidrop\<close>), which are
  goroutines that wait for each other on channels; file transfer (\<^verbatim>\<open>outstation/file.go\<close>), which
  works on the host's file system; the challenges of secure authentication
  (\<^verbatim>\<open>outstation/security.go\<close>, \<^verbatim>\<open>internal/security\<close>), which rest on cryptographic primitives; the
  loops of \<^verbatim>\<open>Run\<close> and \<^verbatim>\<open>serve\<close>, locks and logging; sockets, serial ports and TLS (\<^verbatim>\<open>channel\<close>); the
  decoder that renders traffic as text, the code generator, and the command-line programs.
\<close>

section \<open>The outstation beside its connection\<close>

text \<open>What sending does is the same with the rest of the outstation beside the connection, which it leaves alone.\<close>

definition lifted :: "'d \<Rightarrow> 's \<times> 'w \<times> 'e \<Rightarrow> 's \<times> ('w \<times> 'd) \<times> 'e" where
  "lifted d x = (case x of (s, w, e) \<Rightarrow> (s, (w, d), e))"

lemma lifted_simp [simp]: "lifted d (s, w, e) = (s, (w, d), e)"
  by (simp add: lifted_def)

lemma stack_write_beside: "stack_write (beside io) f (w, d) = (case stack_write io f w of (w, e) \<Rightarrow> ((w, d), e))"
  by (simp add: stack_write_def beside_def split: sum.splits prod.splits)

lemma pumpFrames_beside: "pumpFrames (beside io) s (w, d) = lifted d (pumpFrames io s w)"
proof (induction io s w rule: pumpFrames.induct)
  case (1 io s w)
  show ?case
    by (subst (1 2) pumpFrames.simps)
       (auto simp: stack_write_beside Let_def 1 split: prod.splits option.splits)
qed

lemma w_message_beside:
  "w_message (beside io) =
     map_option (\<lambda>(start, finish). (\<lambda>(w, d). (start w, d), \<lambda>(w, d). case finish w of (w, e) \<Rightarrow> ((w, d), e))) (w_message io)"
  by (simp add: beside_def)

lemma SendTo_beside: "SendTo (beside io) s dst frag (w, d) = lifted d (SendTo io s dst frag w)"
proof -
  have "pump (beside io) s (w, d) = lifted d (pump io s w)" for s
    by (cases "w_message io") (auto simp: pump_def pumpFrames_beside w_message_beside split: prod.splits)
  then show ?thesis by (simp add: SendTo_def)
qed

lemma env_beside_sel [simp]: "conn (env_beside env) = beside (conn env)" "hostNow (env_beside env) = hostNow env" "appNow (env_beside env) = appNow env"
  by (simp_all add: env_beside_def)

lemma advanceResponse_beside: "advanceResponse (env_beside env) s (w, d) = lifted d (advanceResponse env s w)"
  by (auto simp: advanceResponse_def SendTo_beside Let_def split: prod.splits option.splits)

lemma sendFragments_beside: "sendFragments (env_beside env) r req bodies hasEvents s (w, d) = lifted d (sendFragments env r req bodies hasEvents s w)"
  by (simp add: sendFragments_def advanceResponse_beside Let_def)

lemma replayResponse_beside: "replayResponse (env_beside env) r h s (w, d) = lifted d (replayResponse env r h s w)"
  by (simp add: replayResponse_def sendFragments_beside Let_def)

lemma handle_beside:
  "handle (env_beside env) (\<lambda>_ _ _ s w. (s, w, None)) r s (w, d) = lifted d (handle env (\<lambda>_ _ _ s w. (s, w, None)) r s w)"
proof -
  note answers = respond_def sendFragments_beside
  have reject: "rejectMalformed (env_beside env) r e s (w, d) = lifted d (rejectMalformed env r e s w)" for e s
    by (auto simp: rejectMalformed_def answers Let_def split: sum.splits)
  have control: "onUnsolicitedControl (env_beside env) r frag s (w, d) = lifted d (onUnsolicitedControl env r frag s w)" for frag s
    by (simp add: onUnsolicitedControl_def answers Let_def)
  have dispatch: "dispatch (env_beside env) (\<lambda>_ _ _ s w. (s, w, None)) r frag s (w, d) = lifted d (dispatch env (\<lambda>_ _ _ s w. (s, w, None)) r frag s w)" for frag s
    by (simp add: dispatch_def control answers Let_def)
  obtain s0 waits where d: "deferRead r s = (s0, waits)" by (rule prod.exhaust)
  obtain frag err where p: "ParseFragment None (RFragment r) = (frag, err)" by (rule prod.exhaust)
  show ?thesis
    by (cases waits; cases err) (simp_all add: handle_def d p reject replayResponse_beside dispatch answers Let_def if_distrib [of "lifted d"])
qed

text \<open>
  C17. A request that is incomplete or repeated leaves the device alone. When an outstation receives
  a fragment that is not a whole, well-formed request it knows, or the octets of the last
  request again from the same station (authentication requests apart, which are never taken for
  repetitions), then whatever the application, its commands and the file service would do,
  nothing of the outstation but its session changes: not the database, not the application's
  state or its plant, not the selection, the schedules, the attributes or the recorded time. This
  holds whether or not an unsolicited response is outstanding. A repetition is answered with the
  response remembered from the first time, except that a read may have to wait for the
  confirmation of an unsolicited response.
\<close>

theorem unserved_requests_touch_nothing:
  assumes "\<not> complete_request r \<or> repeats r s"
  shows "(\<exists>s' w' e. serve_request env ap files r (s, d) w = ((s', d), w', e)) \<and>
    (complete_request r \<and> deferRead r s = (s0, False) \<longrightarrow>
       serve_request env ap files r (s, d) w =
         (case replayResponse env r (FHeader (fst (ParseFragment None (RFragment r))))
                (bump RepeatedRequests (fst (clockDue (hostNow env) (bump RequestsReceived s0)))) w of
            (s', w', e) \<Rightarrow> ((s', d), w', e)))"
proof -
  let ?none = "\<lambda>_ _ _ s w. (s, w, None)"
  have "handle (env_beside env) (serve_handlers env ap files) r s (w, d) = lifted d (handle env ?none r s w)"
    using unserved_unreached [OF assms] handle_beside [of env r s w d] by metis
  then have "\<exists>s' w' e. serve_request env ap files r (s, d) w = ((s', d), w', e)"
    by (auto simp: serve_request_def lifted_def split: prod.splits)
  moreover have "serve_request env ap files r (s, d) w =
         (case replayResponse env r (FHeader (fst (ParseFragment None (RFragment r))))
                (bump RepeatedRequests (fst (clockDue (hostNow env) (bump RequestsReceived s0)))) w of
            (s', w', e) \<Rightarrow> ((s', d), w', e))" if "complete_request r" "deferRead r s = (s0, False)"
    using repeat_replayed [OF that(1) _ that(2), of "env_beside env" "serve_handlers env ap files" "(w, d)"] assms that(1)
    by (simp add: serve_request_def replayResponse_beside lifted_def split: prod.splits)
  ultimately show ?thesis by blast
qed

text \<open>
  The second of two requests to record the time does not record it again, although an
  unsolicited response is outstanding.
\<close>

theorem unserved_requests_touch_nothing_witness:
  "\<exists>s' w' e. serve_request sample_world sample_appl (\<lambda>_ _ _ st w. (st, w, None)) \<lparr>RFragment = [0xC3, 24], RSource = 1, RDest = 10, RBroadcast = False\<rparr>
     ((fst (sample_station []))\<lparr>lastReqValid := True, lastReqSource := 1, lastReqSeq := 3, lastReqFrag := [0xC3, 24],
        unsol := unsol_reset\<lparr>u_awaiting := True\<rparr>\<rparr>, snd (sample_station [])) [] =
     ((s', snd (sample_station [])), w', e)"
proof -
  have "FHeader (fst (ParseFragment None [0xC3, 24])) =
      \<lparr>AControl = \<lparr>AFir = True, AFin = True, ACon = False, AUns = False, ASeq = 3\<rparr>, AFunc = FuncRecordCurrentTime, AIIN = 0\<rparr>"
    by (simp add: ParseFragment_def AParseHeader_def AParseControl_def AIsResponse_def FuncIsResponse_def parse_objects.simps)
  then have "\<not> complete_request \<lparr>RFragment = [0xC3, 24], RSource = 1, RDest = 10, RBroadcast = False\<rparr> \<or>
      repeats \<lparr>RFragment = [0xC3, 24], RSource = 1, RDest = 10, RBroadcast = False\<rparr>
        ((fst (sample_station []))\<lparr>lastReqValid := True, lastReqSource := 1, lastReqSeq := 3, lastReqFrag := [0xC3, 24],
           unsol := unsol_reset\<lparr>u_awaiting := True\<rparr>\<rparr>)"
    by (simp add: repeats_def Let_def)
  then show ?thesis by (rule unserved_requests_touch_nothing [THEN conjunct1])
qed

end
